(* ===== verification/Net_Prelude.thy ===== *)
theory Net_Prelude
  imports Main "HOL-Library.Word" "HOL-Library.Multiset"
begin

unbundle bit_operations_syntax

text \<open>
  Shared vocabulary of the network-stack development: the integer widths of
  \<^verbatim>\<open>Include/windef.h\<close>, the error codes of \<^verbatim>\<open>SkyCore/Net/syserror.h\<close>, packets as byte
  lists, the byte-order macros of \<^verbatim>\<open>SkyCore/Net/misc.h\<close>, raw little-endian access to
  packet memory, and the list and word lemmas the components share.
\<close>

section \<open>Machine types\<close>

type_synonym byte = "8 word"
type_synonym u16 = "16 word"
type_synonym u32 = "32 word"
type_synonym ipv4_addr = u32
type_synonym packet = "byte list"
type_synonym ptr = nat

lemma unat_byte_less: "unat (b :: byte) < 256"
  using unsigned_less [where ?'a = nat and w = b] by simp

lemma unat_u16_less: "unat (w :: u16) < 65536"
  using unsigned_less [where ?'a = nat and w = w] by simp

lemma unat_u32_less: "unat (w :: u32) < 4294967296"
  using unsigned_less [where ?'a = nat and w = w] by simp

lemma unat_ucast_byte16 [simp]: "unat (ucast (b :: byte) :: u16) = unat b"
  using unat_byte_less [of b] by (simp add: unsigned_ucast_eq take_bit_nat_eq_self)

lemma unat_ucast_16_32 [simp]: "unat (ucast (w :: u16) :: u32) = unat w"
  using unat_u16_less [of w] by (simp add: unsigned_ucast_eq take_bit_nat_eq_self)

lemma unat_ucast_byte32 [simp]: "unat (ucast (w :: byte) :: u32) = unat w"
  using unat_byte_less [of w] by (simp add: unsigned_ucast_eq take_bit_nat_eq_self)

lemma unat_inj: "unat (a :: 'a::len word) = unat b \<Longrightarrow> a = b"
  by (simp add: word_unat_eq_iff)

section \<open>Error codes\<close>

text \<open>The codes are negative C ints; callers test \<open>err < 0\<close>.\<close>

abbreviation (input) NO_ERROR :: int where "NO_ERROR \<equiv> 0"
abbreviation (input) ERR_GENERAL :: int where "ERR_GENERAL \<equiv> -1"
abbreviation (input) ERR_NO_MEMORY :: int where "ERR_NO_MEMORY \<equiv> -2"
abbreviation (input) ERR_IO_ERROR :: int where "ERR_IO_ERROR \<equiv> -3"
abbreviation (input) ERR_INVALID_ARGS :: int where "ERR_INVALID_ARGS \<equiv> -4"
abbreviation (input) ERR_NOT_ALLOWED :: int where "ERR_NOT_ALLOWED \<equiv> -6"
abbreviation (input) ERR_INVALID_HANDLE :: int where "ERR_INVALID_HANDLE \<equiv> -9"
abbreviation (input) ERR_UNIMPLEMENTED :: int where "ERR_UNIMPLEMENTED \<equiv> -11"
abbreviation (input) ERR_TOO_BIG :: int where "ERR_TOO_BIG \<equiv> -12"
abbreviation (input) ERR_NOT_FOUND :: int where "ERR_NOT_FOUND \<equiv> -13"
abbreviation (input) ERR_INTERRUPTED :: int where "ERR_INTERRUPTED \<equiv> -17"
abbreviation (input) ERR_SEM_DELETED :: int where "ERR_SEM_DELETED \<equiv> -1025"
abbreviation (input) ERR_SEM_TIMED_OUT :: int where "ERR_SEM_TIMED_OUT \<equiv> -1026"
abbreviation (input) ERR_SEM_OUT_OF_SLOTS :: int where "ERR_SEM_OUT_OF_SLOTS \<equiv> -1027"
abbreviation (input) ERR_SEM_NOT_ACTIVE :: int where "ERR_SEM_NOT_ACTIVE \<equiv> -1028"
abbreviation (input) ERR_SEM_NOT_INTERRUPTABLE :: int where "ERR_SEM_NOT_INTERRUPTABLE \<equiv> -1029"
abbreviation (input) ERR_SEM_NOT_FOUND :: int where "ERR_SEM_NOT_FOUND \<equiv> -1030"
abbreviation (input) ERR_VFS_INSUFFICIENT_BUF :: int where "ERR_VFS_INSUFFICIENT_BUF \<equiv> -3076"
abbreviation (input) ERR_VM_BAD_USER_MEMORY :: int where "ERR_VM_BAD_USER_MEMORY \<equiv> -4106"
abbreviation (input) ERR_NET_GENERAL :: int where "ERR_NET_GENERAL \<equiv> -7168"
abbreviation (input) ERR_NET_FAILED_ARP :: int where "ERR_NET_FAILED_ARP \<equiv> -7169"
abbreviation (input) ERR_NET_BAD_PACKET :: int where "ERR_NET_BAD_PACKET \<equiv> -7170"
abbreviation (input) ERR_NET_ARP_QUEUED :: int where "ERR_NET_ARP_QUEUED \<equiv> -7171"
abbreviation (input) ERR_NET_NO_ROUTE :: int where "ERR_NET_NO_ROUTE \<equiv> -7172"
abbreviation (input) ERR_NET_SOCKET_ALREADY_BOUND :: int where "ERR_NET_SOCKET_ALREADY_BOUND \<equiv> -7173"
abbreviation (input) ERR_NET_ALREADY_CONNECTED :: int where "ERR_NET_ALREADY_CONNECTED \<equiv> -7174"
abbreviation (input) ERR_NET_CONNECTION_REFUSED :: int where "ERR_NET_CONNECTION_REFUSED \<equiv> -7175"
abbreviation (input) ERR_NET_NOT_CONNECTED :: int where "ERR_NET_NOT_CONNECTED \<equiv> -7176"
abbreviation (input) ERR_NET_REMOTE_CLOSE :: int where "ERR_NET_REMOTE_CLOSE \<equiv> -7177"
abbreviation (input) ERR_NET_NOT_LISTENING :: int where "ERR_NET_NOT_LISTENING \<equiv> -7178"
abbreviation (input) ERR_NET_BAD_ADDRESS :: int where "ERR_NET_BAD_ADDRESS \<equiv> -7179"

section \<open>Byte order and raw memory access\<close>

text \<open>The target is little endian: a \<open>uint16\<close> read from memory takes its low byte first.\<close>

definition le16 :: "byte \<Rightarrow> byte \<Rightarrow> u16" where
  "le16 b0 b1 = ucast b0 OR push_bit 8 (ucast b1)"

definition ntohs :: "u16 \<Rightarrow> u16" where
  "ntohs n = push_bit 8 (n AND 0xff) OR drop_bit 8 n"

definition htons :: "u16 \<Rightarrow> u16" where
  "htons h = push_bit 8 (h AND 0xff) OR drop_bit 8 h"

definition ntohl :: "u32 \<Rightarrow> u32" where
  "ntohl n = push_bit 24 n OR push_bit 8 (n AND 0xff00) OR drop_bit 8 (n AND 0x00ff0000) OR drop_bit 24 n"

definition htonl :: "u32 \<Rightarrow> u32" where
  "htonl h = push_bit 24 h OR push_bit 8 (h AND 0xff00) OR drop_bit 8 (h AND 0x00ff0000) OR drop_bit 24 h"

lemma htons_eq_ntohs: "htons = ntohs"
  by (simp add: fun_eq_iff htons_def ntohs_def)

lemma htonl_eq_ntohl: "htonl = ntohl"
  by (simp add: fun_eq_iff htonl_def ntohl_def)

lemma and_ff16: "n AND 0xff = take_bit 8 (n :: u16)"
  by (simp add: take_bit_eq_mask mask_eq_exp_minus_1)

lemma ntohs_ntohs [simp]: "ntohs (ntohs n) = n"
  unfolding ntohs_def and_ff16
  by (rule bit_word_eqI) (auto simp: bit_simps)

lemma ntohs_htons [simp]: "ntohs (htons n) = n"
  by (simp add: htons_eq_ntohs)

lemma htons_ntohs [simp]: "htons (ntohs n) = n"
  by (simp add: htons_eq_ntohs)

lemma ntohs_eq_iff [simp]: "ntohs a = ntohs b \<longleftrightarrow> a = b"
  by (metis ntohs_ntohs)

lemma and_ff00_32: "n AND 0xff00 = push_bit 8 (take_bit 8 (drop_bit 8 (n :: u32)))"
proof -
  have "(0xff00 :: u32) = push_bit 8 (mask 8)"
    by (simp add: push_bit_eq_mult mask_eq_exp_minus_1)
  note eq = this
  show ?thesis
    by (simp only: eq) (rule bit_word_eqI, auto simp: bit_simps)
qed

lemma and_ff0000_32: "n AND 0x00ff0000 = push_bit 16 (take_bit 8 (drop_bit 16 (n :: u32)))"
proof -
  have "(0x00ff0000 :: u32) = push_bit 16 (mask 8)"
    by (simp add: push_bit_eq_mult mask_eq_exp_minus_1)
  note eq = this
  show ?thesis
    by (simp only: eq) (rule bit_word_eqI, auto simp: bit_simps)
qed

lemma bit_ntohl:
  "bit (ntohl n) i =
     (if i < 8 then bit n (i + 24) else if i < 16 then bit n (i + 8)
      else if i < 24 then bit n (i - 8) else if i < 32 then bit n (i - 24) else False)"
proof -
  consider "i < 8" | "8 \<le> i" "i < 16" | "16 \<le> i" "i < 24" | "24 \<le> i" "i < 32" | "32 \<le> i"
    by linarith
  then show ?thesis
    unfolding ntohl_def and_ff00_32 and_ff0000_32
    by cases (auto simp: bit_simps add.commute dest: bit_imp_le_length)
qed

lemma ntohl_ntohl [simp]: "ntohl (ntohl n) = n"
proof (rule bit_word_eqI)
  fix i :: nat
  assume "i < LENGTH(32)"
  then show "bit (ntohl (ntohl n)) i = bit n i"
    by (auto simp: bit_ntohl)
qed

lemma ntohl_htonl [simp]: "ntohl (htonl n) = n"
  by (simp add: htonl_eq_ntohl)

lemma htonl_ntohl [simp]: "htonl (ntohl n) = n"
  by (simp add: htonl_eq_ntohl)

definition raw16 :: "u16 \<Rightarrow> byte list" where
  "raw16 v = [ucast v, ucast (drop_bit 8 v)]"

definition raw32 :: "u32 \<Rightarrow> byte list" where
  "raw32 v = [ucast v, ucast (drop_bit 8 v), ucast (drop_bit 16 v), ucast (drop_bit 24 v)]"

definition get16 :: "packet \<Rightarrow> nat \<Rightarrow> u16" where
  "get16 p i = le16 (p ! i) (p ! Suc i)"

definition get32 :: "packet \<Rightarrow> nat \<Rightarrow> u32" where
  "get32 p i = ucast (get16 p i) OR push_bit 16 (ucast (get16 p (i + 2)))"

definition put16 :: "packet \<Rightarrow> nat \<Rightarrow> u16 \<Rightarrow> packet" where
  "put16 p i v = p[i := ucast v, Suc i := ucast (drop_bit 8 v)]"

lemma length_raw16 [simp]: "length (raw16 v) = 2"
  by (simp add: raw16_def)

lemma length_raw32 [simp]: "length (raw32 v) = 4"
  by (simp add: raw32_def)

lemma length_put16 [simp]: "length (put16 p i v) = length p"
  by (simp add: put16_def)

lemma le16_raw [simp]: "le16 (ucast v) (ucast (drop_bit 8 v)) = v"
  unfolding le16_def by (rule bit_word_eqI) (auto simp: bit_simps)

lemma get16_at: "i = length xs \<Longrightarrow> get16 (xs @ raw16 v @ ys) i = v"
  by (simp add: get16_def raw16_def nth_append)

lemma le32_raw [simp]:
  "ucast (le16 (ucast v) (ucast (drop_bit 8 v))) OR
   push_bit 16 (ucast (le16 (ucast (drop_bit 16 v)) (ucast (drop_bit 24 v)))) = (v :: u32)"
proof (rule bit_word_eqI)
  fix i :: nat
  assume "i < LENGTH(32)"
  then consider "i < 8" | k where "i = k + 8" "k < 8" | k where "i = k + 16" "k < 8"
    | k where "i = k + 24" "k < 8"
    by (cases "i < 8"; cases "i < 16"; cases "i < 24")
       (auto dest!: le_Suc_ex simp: not_less add.commute)
  then show "bit (ucast (le16 (ucast v) (ucast (drop_bit 8 v))) OR
      push_bit 16 (ucast (le16 (ucast (drop_bit 16 v)) (ucast (drop_bit 24 v)))) :: u32) i
      = bit v i"
    unfolding le16_def by cases (auto simp: bit_simps add.commute)
qed

lemma get32_at: "i = length xs \<Longrightarrow> get32 (xs @ raw32 v @ ys) i = v"
  by (simp add: get32_def get16_def raw32_def nth_append)

lemma get16_put16 [simp]: "Suc i < length p \<Longrightarrow> get16 (put16 p i v) i = v"
  by (simp add: get16_def put16_def)

lemma get16_append [simp]: "Suc i < length xs \<Longrightarrow> get16 (xs @ ys) i = get16 xs i"
  by (simp add: get16_def nth_append)

lemma get32_append [simp]: "i + 3 < length xs \<Longrightarrow> get32 (xs @ ys) i = get32 xs i"
  by (simp add: get32_def)

lemma get16_take [simp]: "Suc i < n \<Longrightarrow> get16 (take n p) i = get16 p i"
  by (simp add: get16_def)

lemma get16_drop: "n + i + 1 < length p \<Longrightarrow> get16 (drop n p) i = get16 p (n + i)"
  by (simp add: get16_def)

section \<open>Linked structures\<close>

text \<open>\<open>seg nxt p xs q\<close>: following \<open>nxt\<close> from \<open>p\<close> visits the non-null nodes \<open>xs\<close> and arrives at
  \<open>q\<close>.  A chain is a segment that ends in NULL.\<close>

fun seg :: "(ptr \<Rightarrow> ptr) \<Rightarrow> ptr \<Rightarrow> ptr list \<Rightarrow> ptr \<Rightarrow> bool" where
  "seg nxt p [] q = (p = q)"
| "seg nxt p (x # xs) q = (p = x \<and> x \<noteq> 0 \<and> seg nxt (nxt x) xs q)"

abbreviation chain :: "(ptr \<Rightarrow> ptr) \<Rightarrow> ptr \<Rightarrow> ptr list \<Rightarrow> bool" where
  "chain nxt p xs \<equiv> seg nxt p xs 0"

lemma seg_append: "seg nxt p (xs @ ys) q \<longleftrightarrow> (\<exists>r. seg nxt p xs r \<and> seg nxt r ys q)"
  by (induction xs arbitrary: p) auto

lemma seg_upd [simp]: "x \<notin> set xs \<Longrightarrow> seg (nxt(x := v)) p xs q = seg nxt p xs q"
  by (induction xs arbitrary: p) auto

lemma seg_cong: "(\<And>x. x \<in> set xs \<Longrightarrow> f x = g x) \<Longrightarrow> seg f p xs q = seg g p xs q"
  by (induction xs arbitrary: p) auto

lemma seg_nonnull: "seg nxt p xs q \<Longrightarrow> 0 \<notin> set xs"
  by (induction xs arbitrary: p) auto

lemma seg_hd: "seg nxt p xs q \<Longrightarrow> xs \<noteq> [] \<Longrightarrow> hd xs = p \<and> p \<noteq> 0"
  by (cases xs) auto

lemma chain_null [simp]: "chain nxt 0 xs \<longleftrightarrow> xs = []"
  by (cases xs) auto

lemma chain_nonnull: "chain nxt p xs \<Longrightarrow> p \<noteq> 0 \<Longrightarrow> \<exists>ys. xs = p # ys \<and> chain nxt (nxt p) ys"
  by (cases xs) auto

lemma seg_unique:
  "seg nxt p xs q \<Longrightarrow> seg nxt p ys q \<Longrightarrow> q \<notin> set xs \<Longrightarrow> q \<notin> set ys \<Longrightarrow> xs = ys"
proof (induction xs arbitrary: p ys)
  case Nil
  then show ?case
    by (cases ys) auto
next
  case (Cons x xs)
  then show ?case
    by (cases ys) auto
qed

lemma chain_unique: "chain nxt p xs \<Longrightarrow> chain nxt p ys \<Longrightarrow> xs = ys"
  by (rule seg_unique [OF _ _ seg_nonnull seg_nonnull])

lemma seg_distinct: "seg nxt p xs q \<Longrightarrow> q \<notin> set xs \<Longrightarrow> distinct xs"
proof (induction xs arbitrary: p)
  case (Cons x xs)
  have "x \<notin> set xs"
  proof
    assume "x \<in> set xs"
    then obtain ys zs where xs: "xs = ys @ x # zs"
      by (meson split_list)
    then have "seg nxt x (x # zs) q" "seg nxt x (x # xs) q"
      using Cons.prems by (auto simp: seg_append)
    then have "x # zs = x # xs"
      by (rule seg_unique) (use Cons.prems xs in auto)
    then show False
      using xs by simp
  qed
  with Cons show ?case
    by auto
qed simp

lemma chain_distinct: "chain nxt p xs \<Longrightarrow> distinct xs"
  by (rule seg_distinct [OF _ seg_nonnull])

lemma seg_snoc: "seg nxt p (xs @ [x]) q \<longleftrightarrow> seg nxt p xs x \<and> x \<noteq> 0 \<and> nxt x = q"
  by (auto simp: seg_append)

lemma seg_redirect:
  assumes "seg nxt p (xs @ [x]) q" "x \<notin> set xs"
  shows "seg (nxt(x := r)) p (xs @ [x]) r"
  using assms by (simp add: seg_snoc)

text \<open>Neighbours in a list, for doubly linked rings.\<close>

fun adj :: "'a list \<Rightarrow> ('a \<times> 'a) set" where
  "adj (x # y # r) = insert (x, y) (adj (y # r))"
| "adj _ = {}"

lemma adj_append: "adj (l @ a # b # r) = adj (l @ [a]) \<union> {(a, b)} \<union> adj (b # r)"
proof (induction l)
  case (Cons x l)
  then show ?case
    by (cases l) auto
qed simp

lemma adj_mem: "(x, y) \<in> adj l \<Longrightarrow> x \<in> set (butlast l) \<and> y \<in> set (tl l)"
  by (induction l rule: adj.induct) auto

lemma seg_adj:
  "(\<forall>(a, b) \<in> adj (p # xs @ [q]). nxt a = b) \<Longrightarrow> 0 \<notin> set xs \<Longrightarrow> seg nxt (nxt p) xs q"
  by (induction xs arbitrary: p) auto

section \<open>Lists\<close>

lemma concat_update:
  "i < length bs \<Longrightarrow> mset (concat (bs[i := b])) + mset (bs ! i) = mset (concat bs) + mset b"
proof (induction bs arbitrary: i)
  case (Cons a bs)
  then show ?case
    by (cases i) (auto simp: ac_simps)
qed simp

lemma mset_concat_cons:
  "i < length bs \<Longrightarrow> mset (concat (bs[i := e # bs ! i])) = add_mset e (mset (concat bs))"
  using concat_update [of i bs "e # bs ! i"] by simp

lemma mset_concat_remove1:
  assumes "i < length bs" "e \<in> set (bs ! i)"
  shows "add_mset e (mset (concat (bs[i := remove1 e (bs ! i)]))) = mset (concat bs)"
proof -
  have "add_mset e (mset (remove1 e (bs ! i))) = mset (bs ! i)"
    using assms(2) by simp
  then have "add_mset e (mset (concat (bs[i := remove1 e (bs ! i)]))) + mset (remove1 e (bs ! i)) =
      mset (concat bs) + mset (remove1 e (bs ! i))"
    using concat_update [OF assms(1), of "remove1 e (bs ! i)"]
    by (metis add_mset_add_single union_assoc union_commute)
  then show ?thesis
    by (rule add_right_imp_eq)
qed

lemma set_concat_update:
  "i < length bs \<Longrightarrow> set (concat (bs[i := b])) \<subseteq> set (concat bs) \<union> set b"
  by (fastforce dest: set_update_subset_insert [THEN subsetD])

lemma concat_nth_nonnull: "(\<And>i. i < length bs \<Longrightarrow> x \<notin> set (bs ! i)) \<Longrightarrow> x \<notin> set (concat bs)"
  by (auto simp: in_set_conv_nth) (metis nth_mem)

lemma distinct_concat_nth:
  assumes "\<forall>i < length bs. distinct (bs ! i)"
    and "\<forall>i < length bs. \<forall>j < length bs. j \<noteq> i \<longrightarrow> set (bs ! i) \<inter> set (bs ! j) = {}"
  shows "distinct (concat bs)"
  using assms
proof (induction bs)
  case (Cons b bs)
  have "distinct (concat bs)"
    using Cons.prems by (intro Cons.IH) (fastforce dest: spec [of _ "Suc _"])+
  moreover have "set b \<inter> set (bs ! i) = {}" if "i < length bs" for i
    using Cons.prems(2) that by (metis Suc_less_eq length_Cons nth_Cons_0 nth_Cons_Suc
        old.nat.distinct(2) zero_less_Suc)
  then have "set b \<inter> set (concat bs) = {}"
    by (auto simp: in_set_conv_nth [of _ bs]) blast
  moreover have "distinct b"
    using Cons.prems(1) by fastforce
  ultimately show ?case
    by simp
qed simp

end
