(* ===== verification/Net_Checksum.thy ===== *)
theory Net_Checksum
  imports Net_Prelude
begin

text \<open>
  \<^verbatim>\<open>SkyCore/Net/misc.c\<close>: the Internet checksum.  \<open>ones_sum16\<close> is the C loop on 32-bit
  words, with its partial fold when bit 31 is reached; the reference is the sum of the
  little-endian 16-bit words of the buffer modulo 65535.
\<close>

section \<open>The code\<close>

definition fold16 :: "u32 \<Rightarrow> u32" where
  "fold16 s = (s AND 0xffff) + drop_bit 16 s"

lemma and_ffff32: "s AND 0xffff = take_bit 16 (s :: u32)"
  by (simp add: take_bit_eq_mask mask_eq_exp_minus_1)

lemma unat_fold16: "unat (fold16 s) = unat s mod 65536 + unat s div 65536"
proof -
  have m: "unat (take_bit 16 s) = unat s mod 65536"
    by (simp add: take_bit_eq_mod unat_mod_distrib)
  have d: "unat (drop_bit 16 s) = unat s div 65536"
    by (simp add: drop_bit_eq_div unat_div_distrib)
  have "unat s < 2 ^ 32"
    using unat_u32_less [of s] by simp
  then have "unat s mod 65536 + unat s div 65536 < 2 ^ 32"
    by simp
  then show ?thesis
    unfolding fold16_def and_ffff32
    by (subst unat_add_lem [THEN iffD1]) (simp_all add: m d)
qed

function fold_carry :: "u32 \<Rightarrow> u32" where
  "fold_carry s = (if drop_bit 16 s \<noteq> 0 then fold_carry (fold16 s) else s)"
  by auto
termination
proof (relation "measure unat")
  fix s :: u32
  assume a: "drop_bit 16 s \<noteq> 0"
  have "unat s div 65536 \<noteq> 0"
  proof
    assume "unat s div 65536 = 0"
    then have "unat (drop_bit 16 s) = 0"
      by (simp add: drop_bit_eq_div unat_div_distrib)
    with a show False
      by (simp add: unat_eq_zero)
  qed
  then have "unat s mod 65536 + unat s div 65536 < unat s"
    using div_mult_mod_eq [of "unat s" 65536] by linarith
  then show "(fold16 s, s) \<in> measure unat"
    by (simp add: unat_fold16)
qed simp

declare fold_carry.simps [simp del]

fun sum_words :: "u32 \<Rightarrow> byte list \<Rightarrow> u32" where
  "sum_words s (b0 # b1 # bs) =
     (let s1 = s + ucast (le16 b0 b1)
      in sum_words (if s1 AND 0x80000000 \<noteq> 0 then fold16 s1 else s1) bs)"
| "sum_words s [b] = s + ucast (le16 b 0)"
| "sum_words s [] = s"

definition ones_sum16 :: "u32 \<Rightarrow> byte list \<Rightarrow> u16" where
  "ones_sum16 s bs = ucast (fold_carry (sum_words s bs))"

definition cksum16 :: "byte list \<Rightarrow> u16" where
  "cksum16 bs = NOT (ones_sum16 0 bs)"

definition cksum16_2 :: "byte list \<Rightarrow> byte list \<Rightarrow> u16" where
  "cksum16_2 bs1 bs2 = NOT (ones_sum16 (ucast (ones_sum16 0 bs1)) bs2)"

section \<open>Reference: sums of 16-bit words modulo 65535\<close>

fun wsum :: "byte list \<Rightarrow> nat" where
  "wsum (b0 # b1 # bs) = unat b0 + 256 * unat b1 + wsum bs"
| "wsum [b] = unat b"
| "wsum [] = 0"

definition ocanon :: "nat \<Rightarrow> nat" where
  "ocanon t = (if t = 0 then 0 else (t - 1) mod 65535 + 1)"

lemma ocanon_le: "ocanon t \<le> 65535"
proof (cases "t = 0")
  case False
  then have "ocanon t = (t - 1) mod 65535 + 1"
    by (simp add: ocanon_def)
  moreover have "(t - 1) mod 65535 < 65535"
    by (rule mod_less_divisor) simp
  ultimately show ?thesis
    by linarith
qed (simp add: ocanon_def)

lemma ocanon_small: "t \<le> 65535 \<Longrightarrow> ocanon t = t"
  by (auto simp: ocanon_def)

lemma ocanon_0_iff [simp]: "ocanon t = 0 \<longleftrightarrow> t = 0"
  by (simp add: ocanon_def)

lemma ocanon_mod [simp]: "ocanon t mod 65535 = t mod 65535"
  by (cases t) (simp_all add: ocanon_def mod_Suc_eq)

lemma ocanon_eq_iff:
  "ocanon a = ocanon b \<longleftrightarrow> a mod 65535 = b mod 65535 \<and> (a = 0 \<longleftrightarrow> b = 0)"
proof
  assume h: "ocanon a = ocanon b"
  show "a mod 65535 = b mod 65535 \<and> (a = 0 \<longleftrightarrow> b = 0)"
    using h ocanon_mod ocanon_0_iff by metis
next
  assume h: "a mod 65535 = b mod 65535 \<and> (a = 0 \<longleftrightarrow> b = 0)"
  show "ocanon a = ocanon b"
  proof (cases "a = 0")
    case False
    then obtain a' b' where ab: "a = Suc a'" "b = Suc b'"
      using h by (metis not0_implies_Suc)
    then have "b \<noteq> 0" "a' mod 65535 = b' mod 65535"
      using h mod_Suc [of a' 65535] mod_Suc [of b' 65535] by (auto split: if_splits)
    then have "(a - 1) mod 65535 = (b - 1) mod 65535"
      using ab by simp
    then show ?thesis
      using False \<open>b \<noteq> 0\<close> by (simp add: ocanon_def)
  qed (use h in simp)
qed

lemma ocanon_fold: "ocanon (s mod 65536 + s div 65536) = ocanon s"
proof -
  have "s = (s mod 65536 + s div 65536) + 65535 * (s div 65536)"
    using div_mult_mod_eq [of s 65536] by linarith
  then have "s mod 65535 = (s mod 65536 + s div 65536) mod 65535"
    by (metis mod_mult_self2)
  moreover have "s mod 65536 + s div 65536 = 0 \<longleftrightarrow> s = 0"
    using div_mult_mod_eq [of s 65536] by (cases "s = 0") auto
  ultimately show ?thesis
    by (simp add: ocanon_eq_iff)
qed

lemma ocanon_add [simp]: "ocanon (ocanon a + b) = ocanon (a + b)"
  by (simp add: ocanon_eq_iff) (metis mod_add_left_eq ocanon_mod)

section \<open>The code computes the reference\<close>

lemma and_bit31: "(s AND 0x80000000 \<noteq> (0::u32)) \<longleftrightarrow> 2 ^ 31 \<le> unat s"
proof -
  have "s AND 0x80000000 = 0 \<longleftrightarrow> \<not> bit s 31"
    using and_exp_eq_0_iff_not_bit [of s 31] by simp
  moreover have "bit s 31 \<longleftrightarrow> 2 ^ 31 \<le> unat s"
  proof -
    have "unat s < 2 ^ 32"
      using unat_u32_less [of s] by simp
    have "bit s 31 \<longleftrightarrow> bit (unat s) 31"
      by (simp add: bit_unsigned_iff)
    also have "\<dots> \<longleftrightarrow> odd (unat s div 2 ^ 31)"
      by (rule bit_iff_odd)
    also have "\<dots> \<longleftrightarrow> 2 ^ 31 \<le> unat s"
    proof (cases "2 ^ 31 \<le> unat s")
      case True
      with \<open>unat s < 2 ^ 32\<close> have "unat s div 2 ^ 31 = 1"
        by (intro div_nat_eqI) simp_all
      with True show ?thesis by simp
    qed simp
    finally show ?thesis .
  qed
  ultimately show ?thesis
    by simp
qed

lemma unat_fold_carry: "unat (fold_carry s) = ocanon (unat s)"
proof (induction s rule: fold_carry.induct)
  case (1 s)
  have "drop_bit 16 s \<noteq> 0 \<longleftrightarrow> unat s div 65536 \<noteq> 0"
    using unat_eq_zero [of "drop_bit 16 s"] by (simp add: drop_bit_eq_div unat_div_distrib)
  then show ?case
    using 1 by (subst fold_carry.simps)
      (auto simp: unat_fold16 ocanon_fold ocanon_small div_eq_0_iff)
qed

lemma unat_le16: "unat (le16 a b) = unat a + 256 * unat b"
proof -
  have "le16 a b = ucast a + push_bit 8 (ucast b)"
    unfolding le16_def
    by (rule disjunctive_add [symmetric]) (auto simp: bit_simps dest: bit_imp_le_length)
  moreover have "unat (push_bit 8 (ucast b :: u16)) = 256 * unat b"
    using unat_byte_less [of b]
    by (simp add: push_bit_eq_mult unat_mult_lem [THEN iffD1] mult.commute)
  ultimately show ?thesis
    using unat_byte_less [of a] unat_byte_less [of b]
    by (simp add: unat_add_lem [THEN iffD1])
qed

lemma unat_sum_words:
  "unat s < 2 ^ 31 \<Longrightarrow> ocanon (unat (sum_words s bs)) = ocanon (unat s + wsum bs)"
proof (induction s bs rule: sum_words.induct)
  case (1 s b0 b1 bs)
  define s1 where "s1 = s + ucast (le16 b0 b1)"
  have u: "unat s1 = unat s + unat b0 + 256 * unat b1"
    unfolding s1_def using 1(2) unat_byte_less [of b0] unat_byte_less [of b1]
    by (simp add: unat_add_lem [THEN iffD1] unat_le16)
  let ?s2 = "if s1 AND 0x80000000 \<noteq> 0 then fold16 s1 else s1"
  have "unat ?s2 < 2 ^ 31"
    using unat_u32_less [of s1] and_bit31 [of s1] by (auto simp: unat_fold16)
  from 1(1) [OF s1_def, OF this]
  have "ocanon (unat (sum_words s (b0 # b1 # bs))) = ocanon (unat ?s2 + wsum bs)"
    by (simp add: Let_def flip: s1_def)
  also have "\<dots> = ocanon (unat s1 + wsum bs)"
    using ocanon_add [of "unat s1 mod 65536 + unat s1 div 65536" "wsum bs"]
    by (simp add: unat_fold16 ocanon_fold)
  finally show ?case
    using u by (simp add: add.assoc)
next
  case (2 s b)
  then show ?case
    using unat_byte_less [of b] by (simp add: unat_add_lem [THEN iffD1] unat_le16)
qed simp

lemma unat_ones_sum16:
  assumes "unat s < 2 ^ 31"
  shows "unat (ones_sum16 s bs) = ocanon (unat s + wsum bs)"
proof -
  have "unat (fold_carry (sum_words s bs)) = ocanon (unat s + wsum bs)"
    using unat_sum_words [OF assms] by (simp add: unat_fold_carry)
  moreover have "ocanon (unat s + wsum bs) < 65536"
    using ocanon_le [of "unat s + wsum bs"] by simp
  ultimately show ?thesis
    by (simp add: ones_sum16_def unsigned_ucast_eq take_bit_nat_eq_self)
qed

lemma unat_not16: "unat (NOT (w :: u16)) = 65535 - unat w"
proof -
  have "NOT w = 0xffff - w"
    by (simp add: not_eq_complement)
  moreover have "unat (0xffff :: u16) = 65535"
    by simp
  ultimately show ?thesis
    using unat_sub [of w "0xffff"] unat_u16_less [of w] by (simp add: word_le_nat_alt)
qed

lemma unat_cksum16: "unat (cksum16 bs) = 65535 - ocanon (wsum bs)"
  by (simp add: cksum16_def unat_not16 unat_ones_sum16)

section \<open>Laws of the reference sum\<close>

lemma wsum_append: "even (length xs) \<Longrightarrow> wsum (xs @ ys) = wsum xs + wsum ys"
  by (induction xs rule: wsum.induct) simp_all

lemma wsum_pad [simp]: "wsum (xs @ [0]) = wsum xs"
  by (induction xs rule: wsum.induct) simp_all

lemma wsum_shift: "wsum (b # bs) mod 65535 = (unat b + 256 * wsum bs) mod 65535"
proof (induction bs arbitrary: b rule: wsum.induct)
  case (1 b0 b1 bs)
  have "wsum (b # b0 # b1 # bs) mod 65535 = (unat b + 256 * unat b0 + wsum (b1 # bs)) mod 65535"
    by simp
  also have "\<dots> = (unat b + 256 * unat b0 + (unat b1 + 256 * wsum bs)) mod 65535"
    using 1 by (metis mod_add_right_eq)
  also have "\<dots> = (unat b + 256 * unat b0 + (unat b1 + 256 * wsum bs) + unat b1 * 65535) mod 65535"
    by (rule mod_mult_self1 [symmetric])
  also have "\<dots> = (unat b + 256 * wsum (b0 # b1 # bs)) mod 65535"
    by (rule arg_cong [where f = "\<lambda>t. t mod 65535"]) simp
  finally show ?case .
qed simp_all

lemma wsum_put16:
  assumes "Suc i < length p" "even i"
  shows "wsum (put16 p i v) + unat (get16 p i) = wsum p + unat v"
  using assms
proof (induction p arbitrary: i rule: wsum.induct)
  case (1 b0 b1 bs)
  show ?case
  proof (cases i)
    case 0
    have "unat (le16 (ucast v) (ucast (drop_bit 8 v))) = unat v"
      by simp
    then show ?thesis
      using 0 by (simp add: put16_def get16_def unat_le16 del: le16_raw)
  next
    case (Suc j)
    then obtain k where "i = Suc (Suc k)" "even k" "Suc k < length bs"
      using 1 by (cases j) auto
    then show ?thesis
      using 1(1) [of k] by (simp add: put16_def get16_def)
  qed
qed simp_all

lemma mod_add_cancel:
  fixes n :: nat
  assumes "(c + a) mod n = (c + b) mod n"
  shows "a mod n = b mod n"
proof -
  obtain q1 q2 where "c + a + n * q1 = c + b + n * q2"
    using nat_mod_eq_iff [THEN iffD1, OF assms] by blast
  then have "a + n * q1 = b + n * q2"
    by linarith
  then show ?thesis
    unfolding nat_mod_eq_iff by blast
qed

lemma mod_65535_cases:
  assumes "a < 65536" "b < 65536" "a mod 65535 = b mod (65535 :: nat)"
  shows "a = b \<or> {a, b} = {0, 65535}"
proof -
  have "x mod 65535 = (if x = 65535 then 0 else x)" if "x < 65536" for x :: nat
    using that by (cases "x = 65535") simp_all
  from this [OF assms(1)] this [OF assms(2)] assms(3) show ?thesis
    by (auto split: if_splits)
qed

section \<open>Properties\<close>

text \<open>the checksum loop with its partial folds returns the one's-complement sum of the
  16-bit little-endian words of the buffer: the representative in 1..65535 of the sum of the
  start value and the words modulo 65535, and 0 exactly when the start value and every byte are 0.
  The start value of every call in the stack is below 2^31.\<close>
theorem ones_sum16_correct:
  assumes "unat s < 2 ^ 31"
  shows "unat (ones_sum16 s bs) = ocanon (unat s + wsum bs)"
  by (rule unat_ones_sum16 [OF assms])

theorem ones_sum16_correct_witness:
  "unat (ones_sum16 0xffff [0xff, 0xff, 0x01]) = ocanon (unat (0xffff :: u32) + wsum [0xff, 0xff, 0x01])"
  by (rule ones_sum16_correct) simp

lemma cksum16_store:
  assumes "Suc i < length p" "even i" "get16 p i = 0"
  shows "cksum16 (put16 p i (cksum16 p)) = 0"
proof -
  have "wsum (put16 p i (cksum16 p)) = wsum p + (65535 - ocanon (wsum p))"
    using wsum_put16 [OF assms(1,2), of "cksum16 p"] by (simp add: assms(3) unat_cksum16)
  moreover have "ocanon (wsum p + (65535 - ocanon (wsum p))) = ocanon 65535"
    using ocanon_add [of "wsum p" "65535 - ocanon (wsum p)"] ocanon_le [of "wsum p"] by simp
  ultimately have "unat (cksum16 (put16 p i (cksum16 p))) = 0"
    by (simp add: unat_cksum16 ocanon_small)
  then show ?thesis
    by (simp add: unat_eq_zero)
qed

text \<open>writing the checksum of a packet, computed with a zero checksum field, into that
  field (at an even offset) makes the checksum of the whole packet zero: the receiver's test in
  \<open>ipv4_input\<close> and \<open>icmp_input\<close> accepts what the sender wrote.\<close>
theorem cksum16_verifies:
  assumes "Suc i < length p" "even i" "get16 p i = 0"
  shows "cksum16 (put16 p i (cksum16 p)) = 0"
  by (rule cksum16_store [OF assms])

theorem cksum16_verifies_witness:
  "cksum16 (put16 [0x45, 0, 0, 0, 1, 2, 3] 2 (cksum16 [0x45, 0, 0, 0, 1, 2, 3])) = 0"
  by (rule cksum16_verifies) (simp_all add: get16_def le16_def)

lemma cksum16_2_append:
  assumes "even (length xs)"
  shows "cksum16_2 xs ys = cksum16 (xs @ ys)"
proof -
  have "unat (ones_sum16 (ucast (ones_sum16 0 xs)) ys) = unat (ones_sum16 0 (xs @ ys))"
    using unat_u16_less [of "ones_sum16 0 xs"] ocanon_add [of "wsum xs" "wsum ys"]
    by (subst unat_ones_sum16) (simp_all add: unat_ones_sum16 wsum_append assms)
  then show ?thesis
    by (simp add: cksum16_2_def cksum16_def unat_inj)
qed

lemma cksum16_change:
  assumes "Suc i < length p" "even i"
    and "v \<noteq> get16 p i" "{v, get16 p i} \<noteq> {0, 0xffff}"
  shows "cksum16 (put16 p i v) \<noteq> cksum16 p"
proof
  assume "cksum16 (put16 p i v) = cksum16 p"
  then have "65535 - ocanon (wsum (put16 p i v)) = 65535 - ocanon (wsum p)"
    by (metis unat_cksum16)
  then have "ocanon (wsum (put16 p i v)) = ocanon (wsum p)"
    using ocanon_le [of "wsum p"] ocanon_le [of "wsum (put16 p i v)"] by linarith
  then have "wsum (put16 p i v) mod 65535 = wsum p mod 65535"
    by (simp add: ocanon_eq_iff)
  then have "(wsum (put16 p i v) + unat (get16 p i)) mod 65535 = (wsum p + unat (get16 p i)) mod 65535"
    by (metis mod_add_left_eq)
  then have "(wsum p + unat v) mod 65535 = (wsum p + unat (get16 p i)) mod 65535"
    by (simp only: wsum_put16 [OF assms(1,2)])
  then have "unat v mod 65535 = unat (get16 p i) mod 65535"
    by (rule mod_add_cancel)
  then have "unat v = unat (get16 p i) \<or> {unat v, unat (get16 p i)} = {0, 65535}"
    by (rule mod_65535_cases [OF unat_u16_less unat_u16_less])
  moreover have "unat (0xffff :: u16) = 65535"
    by simp
  ultimately have "v = get16 p i \<or> {v, get16 p i} = {0, 0xffff}"
    by (metis unat_inj unat_0 doubleton_eq_iff)
  with assms(3,4) show False
    by blast
qed

text \<open>a packet in which one aligned 16-bit word was replaced by a different one has a
  different checksum, unless the two words are 0 and 0xffff (the two zeros of one's complement):
  every other single-word corruption is detected.\<close>
theorem cksum16_detects:
  assumes "Suc i < length p" "even i"
    and "v \<noteq> get16 p i" "{v, get16 p i} \<noteq> {0, 0xffff}"
  shows "cksum16 (put16 p i v) \<noteq> cksum16 p"
  by (rule cksum16_change [OF assms])

theorem cksum16_detects_witness:
  "cksum16 (put16 [0x45, 0, 1, 2] 2 7) \<noteq> cksum16 [0x45, 0, 1, 2]"
  by (rule cksum16_detects) (simp_all add: get16_def le16_def doubleton_eq_iff)

end
