(* ===== verification/Khash.thy ===== *)
theory Khash
  imports Net_Prelude
begin

text \<open>
  \<^verbatim>\<open>SkyCore/Net/khash.c\<close>: the intrusive hash table the stack keeps its interfaces, sockets,
  ARP entries, fragments and endpoints in.  Elements are addresses; the word at
  \<open>next_ptr_offset\<close> of an element is \<open>link e\<close>.  The hash and compare callbacks read the element
  through the store \<open>'st\<close> of their owner.  Walking a bucket is \<open>partial_function (option)\<close>: on a
  cyclic bucket the C loop does not return, and neither does the model.  The tables are related
  to lists of buckets, and every operation to its effect on these lists.
\<close>

section \<open>The code\<close>

record ('st, 'k) hash_table =
  tbl :: "ptr list"
  link :: "ptr \<Rightarrow> ptr"
  num_elems :: int
  compare_func :: "('st \<Rightarrow> ptr \<Rightarrow> 'k \<Rightarrow> int) option"
  hash_func :: "'st \<Rightarrow> ptr + 'k \<Rightarrow> nat \<Rightarrow> nat"

record hash_iterator =
  it_ptr :: ptr
  it_bucket :: int

definition hash_init ::
  "nat \<Rightarrow> ('st \<Rightarrow> ptr \<Rightarrow> 'k \<Rightarrow> int) option \<Rightarrow> ('st \<Rightarrow> ptr + 'k \<Rightarrow> nat \<Rightarrow> nat) \<Rightarrow>
   (ptr \<Rightarrow> ptr) \<Rightarrow> ('st, 'k) hash_table" where
  "hash_init table_size cmp hf mem =
     \<lparr>tbl = replicate table_size 0, link = mem, num_elems = 0,
      compare_func = cmp, hash_func = hf\<rparr>"

definition hash_insert :: "'st \<Rightarrow> ('st, 'k) hash_table \<Rightarrow> ptr \<Rightarrow> ('st, 'k) hash_table" where
  "hash_insert st t e =
     (let hash = hash_func t st (Inl e) (length (tbl t))
      in t\<lparr>link := (link t)(e := tbl t ! hash), tbl := (tbl t)[hash := e],
           num_elems := num_elems t + 1\<rparr>)"

partial_function (option) remove_walk ::
  "(ptr \<Rightarrow> ptr) \<Rightarrow> ptr \<Rightarrow> ptr \<Rightarrow> ptr \<Rightarrow> ptr option option" where
  "remove_walk nxt e last_i i =
     (if i = 0 then Some None
      else if i = e then Some (Some last_i)
      else remove_walk nxt e i (nxt i))"

definition hash_remove ::
  "'st \<Rightarrow> ('st, 'k) hash_table \<Rightarrow> ptr \<Rightarrow> (int \<times> ('st, 'k) hash_table) option" where
  "hash_remove st t e =
     (let hash = hash_func t st (Inl e) (length (tbl t))
      in map_option (\<lambda>r. case r of
             None \<Rightarrow> (ERR_GENERAL, t)
           | Some last_i \<Rightarrow>
               (NO_ERROR,
                (if last_i \<noteq> 0 then t\<lparr>link := (link t)(last_i := link t e)\<rparr>
                 else t\<lparr>tbl := (tbl t)[hash := link t e]\<rparr>)\<lparr>num_elems := num_elems t - 1\<rparr>))
         (remove_walk (link t) e 0 (tbl t ! hash)))"

partial_function (option) find_walk :: "(ptr \<Rightarrow> ptr) \<Rightarrow> (ptr \<Rightarrow> bool) \<Rightarrow> ptr \<Rightarrow> ptr option" where
  "find_walk nxt P i =
     (if i = 0 then Some 0 else if P i then Some i else find_walk nxt P (nxt i))"

definition hash_find :: "'st \<Rightarrow> ('st, 'k) hash_table \<Rightarrow> ptr \<Rightarrow> ptr option" where
  "hash_find st t e =
     find_walk (link t) (\<lambda>i. i = e) (tbl t ! hash_func t st (Inl e) (length (tbl t)))"

definition hash_lookup :: "'st \<Rightarrow> ('st, 'k) hash_table \<Rightarrow> 'k \<Rightarrow> ptr option" where
  "hash_lookup st t key =
     (case compare_func t of
        None \<Rightarrow> Some 0
      | Some cmp \<Rightarrow>
          find_walk (link t) (\<lambda>i. cmp st i key = 0)
            (tbl t ! hash_func t st (Inr key) (length (tbl t))))"

definition hash_rewind :: "hash_iterator \<Rightarrow> hash_iterator" where
  "hash_rewind it = \<lparr>it_ptr = 0, it_bucket = - 1\<rparr>"

definition hash_open :: "hash_iterator \<Rightarrow> hash_iterator" where
  "hash_open it = hash_rewind it"

function next_bucket :: "ptr list \<Rightarrow> nat \<Rightarrow> nat option" where
  "next_bucket tb index =
     (if index < length tb then
        if tb ! index \<noteq> 0 then Some index else next_bucket tb (Suc index)
      else None)"
  by auto
termination
  by (relation "measure (\<lambda>(tb, index). length tb - index)") auto

declare next_bucket.simps [simp del]

definition start_bucket :: "('st, 'k) hash_table \<Rightarrow> hash_iterator \<Rightarrow> hash_iterator" where
  "start_bucket t it =
     (case next_bucket (tbl t) (nat (it_bucket it + 1)) of
        None \<Rightarrow> it
      | Some index \<Rightarrow> \<lparr>it_ptr = tbl t ! index, it_bucket = int index\<rparr>)"

definition hash_next :: "('st, 'k) hash_table \<Rightarrow> hash_iterator \<Rightarrow> ptr \<times> hash_iterator" where
  "hash_next t it =
     (if it_ptr it = 0 then let it1 = start_bucket t it in (it_ptr it1, it1)
      else
        let it1 = it\<lparr>it_ptr := link t (it_ptr it)\<rparr>
        in if it_ptr it1 = 0 then let it2 = start_bucket t it1 in (it_ptr it2, it2)
           else (it_ptr it1, it1))"

fun hash_hash_str :: "u32 \<Rightarrow> byte list \<Rightarrow> u32" where
  "hash_hash_str hash [] = hash"
| "hash_hash_str hash (ch # str) =
     (if ch = 0 then hash
      else hash_hash_str (push_bit 4 (hash XOR drop_bit 28 hash) XOR scast ch) str)"

section \<open>Walks over chains\<close>

lemma find_walk_chain:
  "chain nxt p xs \<Longrightarrow>
   find_walk nxt P p = Some (case find P xs of None \<Rightarrow> 0 | Some x \<Rightarrow> x)"
  by (induction xs arbitrary: p) (simp_all add: find_walk.simps)

lemma remove_walk_chain:
  "chain nxt p xs \<Longrightarrow> remove_walk nxt e l p =
     Some (if e \<in> set xs then Some (last (l # takeWhile (\<lambda>x. x \<noteq> e) xs)) else None)"
  by (induction xs arbitrary: p l) (auto simp: remove_walk.simps)

section \<open>Tables as lists of buckets\<close>

definition buckets :: "'st \<Rightarrow> ('st, 'k) hash_table \<Rightarrow> ptr list list \<Rightarrow> bool" where
  "buckets st t bs \<longleftrightarrow>
     length bs = length (tbl t) \<and>
     (\<forall>i < length bs. chain (link t) (tbl t ! i) (bs ! i) \<and>
        (\<forall>e \<in> set (bs ! i). hash_func t st (Inl e) (length bs) = i)) \<and>
     num_elems t = int (length (concat bs))"

lemma bucketsD:
  assumes "buckets st t bs"
  shows "length bs = length (tbl t)"
    and "i < length bs \<Longrightarrow> chain (link t) (tbl t ! i) (bs ! i)"
    and "i < length bs \<Longrightarrow> e \<in> set (bs ! i) \<Longrightarrow> hash_func t st (Inl e) (length bs) = i"
    and "num_elems t = int (length (concat bs))"
  using assms by (auto simp: buckets_def)

lemma buckets_mem_iff:
  assumes "buckets st t bs" "hash_func t st (Inl e) (length bs) < length bs"
  shows "e \<in> set (concat bs) \<longleftrightarrow> e \<in> set (bs ! hash_func t st (Inl e) (length bs))"
proof
  assume "e \<in> set (concat bs)"
  then obtain i where "i < length bs" "e \<in> set (bs ! i)"
    by (auto simp: in_set_conv_nth) (metis in_set_conv_nth)
  then show "e \<in> set (bs ! hash_func t st (Inl e) (length bs))"
    using bucketsD(3) [OF assms(1)] by metis
qed (use assms(2) in auto)

lemma buckets_other:
  assumes "buckets st t bs" "i < length bs" "e \<in> set (bs ! i)" "j < length bs" "j \<noteq> i"
  shows "e \<notin> set (bs ! j)"
  using bucketsD(3) [OF assms(1)] assms(2-) by metis

lemma length_concat_update:
  "i < length bs \<Longrightarrow> length (concat (bs[i := b])) + length (bs ! i) = length (concat bs) + length b"
  using arg_cong [OF concat_update, where f = size] by simp

lemma buckets_insert:
  assumes b: "buckets st t bs" and e: "e \<noteq> 0" "e \<notin> set (concat bs)"
    and h: "hash_func t st (Inl e) (length bs) = h" "h < length bs"
  shows "buckets st (hash_insert st t e) (bs[h := e # bs ! h])"
proof -
  have "e \<notin> set (bs ! i)" if "i < length bs" for i
    using e(2) that by auto
  then show ?thesis
    using bucketsD [OF b] h e(1) length_concat_update [OF h(2), of "e # bs ! h"]
    by (auto simp: buckets_def hash_insert_def Let_def nth_list_update)
qed

lemma buckets_replace:
  assumes b: "buckets st t bs" and h: "h < length bs"
    and "length (tbl t') = length (tbl t)" "hash_func t' = hash_func t"
    and "chain (link t') (tbl t' ! h) b'" "set b' \<subseteq> set (bs ! h)"
    and "\<And>j. j < length bs \<Longrightarrow> j \<noteq> h \<Longrightarrow> tbl t' ! j = tbl t ! j"
    and "\<And>j e. j < length bs \<Longrightarrow> j \<noteq> h \<Longrightarrow> e \<in> set (bs ! j) \<Longrightarrow> link t' e = link t e"
    and "num_elems t' = int (length (concat (bs[h := b'])))"
  shows "buckets st t' (bs[h := b'])"
proof -
  have "chain (link t') (tbl t' ! i) (bs ! i)" if "i < length bs" "i \<noteq> h" for i
    using bucketsD(2) [OF b that(1)] assms(7,8) that seg_cong [of "bs ! i" "link t'" "link t"]
    by simp
  then show ?thesis
    using bucketsD(1,3) [OF b] assms(2-6,9) by (auto simp: buckets_def nth_list_update)
qed

lemma remove_first_in_chain:
  assumes "chain nxt p (ys @ e # zs)" "e \<notin> set ys"
  shows "ys = [] \<Longrightarrow> chain nxt (nxt e) zs"
    and "ys \<noteq> [] \<Longrightarrow> chain (nxt(last ys := nxt e)) p (ys @ zs)"
proof -
  show "ys = [] \<Longrightarrow> chain nxt (nxt e) zs"
    using assms by simp
  assume "ys \<noteq> []"
  then obtain xs x where ys: "ys = xs @ [x]"
    by (meson rev_exhaust)
  have "distinct (ys @ e # zs)"
    using assms(1) by (rule chain_distinct)
  then have "x \<notin> set xs" "x \<notin> set zs"
    using ys by auto
  have s: "seg nxt p (xs @ [x]) e" "chain nxt (nxt e) zs"
    using assms ys by (auto simp: seg_append)
  have "seg (nxt(x := nxt e)) p (xs @ [x]) (nxt e)"
    using s(1) \<open>x \<notin> set xs\<close> by (rule seg_redirect)
  then show "chain (nxt(last ys := nxt e)) p (ys @ zs)"
    using s(2) \<open>x \<notin> set zs\<close> ys by (auto simp: seg_append)
qed

lemma buckets_remove:
  assumes b: "buckets st t bs" and e: "e \<in> set (concat bs)"
    and h: "hash_func t st (Inl e) (length bs) = h" "h < length bs"
  shows "\<exists>t'. hash_remove st t e = Some (NO_ERROR, t') \<and>
    buckets st t' (bs[h := remove1 e (bs ! h)]) \<and> link t' e = link t e \<and>
    hash_func t' = hash_func t \<and> compare_func t' = compare_func t"
proof -
  have eh: "e \<in> set (bs ! h)"
    using buckets_mem_iff [OF b] e h by simp
  then obtain ys zs where yz: "bs ! h = ys @ e # zs" "e \<notin> set ys"
    by (meson split_list_first)
  have c: "chain (link t) (tbl t ! h) (ys @ e # zs)"
    using bucketsD(2) [OF b h(2)] yz by simp
  have d: "distinct (ys @ e # zs)"
    using c by (rule chain_distinct)
  have "takeWhile (\<lambda>x. x \<noteq> e) (ys @ e # zs) = ys"
    using yz(2) by (simp add: takeWhile_tail) (auto simp: takeWhile_eq_all_conv)
  then have w: "remove_walk (link t) e 0 (tbl t ! h) = Some (Some (last (0 # ys)))"
    using remove_walk_chain [OF c, of e 0] by simp
  have r: "remove1 e (bs ! h) = ys @ zs"
    using yz by (simp add: remove1_append)
  have len: "int (length (concat (bs[h := ys @ zs]))) = num_elems t - 1"
    using bucketsD(4) [OF b] length_concat_update [OF h(2), of "ys @ zs"] yz(1) by simp
  have hs: "hash_func t st (Inl e) (length (tbl t)) = h" "length (tbl t) = length bs"
    using h bucketsD(1) [OF b] by simp_all
  show ?thesis
  proof (cases "ys = []")
    case True
    define t' where "t' = t\<lparr>tbl := (tbl t)[h := link t e], num_elems := num_elems t - 1\<rparr>"
    have "hash_remove st t e = Some (NO_ERROR, t')"
      using w hs True by (simp add: hash_remove_def t'_def)
    moreover have "buckets st t' (bs[h := ys @ zs])"
      using remove_first_in_chain(1) [OF c yz(2) True] True yz(1) len hs(2)
      by (intro buckets_replace [OF b h(2)]) (auto simp: t'_def h(2))
    ultimately show ?thesis
      by (auto simp: r t'_def)
  next
    case False
    then have "last ys \<in> set ys"
      by simp
    moreover have "0 \<notin> set ys"
      using seg_nonnull [OF c] by simp
    ultimately have last: "last ys \<in> set (bs ! h)" "last ys \<noteq> 0" "last ys \<noteq> e"
      using yz by (simp, metis, metis)
    define t' where
      "t' = t\<lparr>link := (link t)(last ys := link t e), num_elems := num_elems t - 1\<rparr>"
    have "hash_remove st t e = Some (NO_ERROR, t')"
      using w hs False last(2) by (simp add: hash_remove_def t'_def)
    moreover have "buckets st t' (bs[h := ys @ zs])"
      using remove_first_in_chain(2) [OF c yz(2) False] yz(1) len
        buckets_other [OF b h(2) last(1)]
      by (intro buckets_replace [OF b h(2)]) (auto simp: t'_def)
    ultimately show ?thesis
      using last(3) by (auto simp: r t'_def)
  qed
qed

lemma buckets_remove_absent:
  assumes b: "buckets st t bs" and e: "e \<notin> set (concat bs)"
    and h: "hash_func t st (Inl e) (length bs) < length bs"
  shows "hash_remove st t e = Some (ERR_GENERAL, t)"
  using bucketsD(1) [OF b] remove_walk_chain [OF bucketsD(2) [OF b h], of e 0]
    buckets_mem_iff [OF b h] e
  by (simp add: hash_remove_def)

lemma hash_find_buckets:
  assumes b: "buckets st t bs" and h: "hash_func t st (Inl e) (length bs) < length bs"
  shows "hash_find st t e = Some (if e \<in> set (concat bs) then e else 0)"
proof -
  let ?b = "bs ! hash_func t st (Inl e) (length bs)"
  have "(case find (\<lambda>i. i = e) ?b of None \<Rightarrow> 0 | Some x \<Rightarrow> x) = (if e \<in> set ?b then e else 0)"
    by (auto simp: find_None_iff find_Some_iff split: option.splits) (metis nth_mem)
  then show ?thesis
    using bucketsD(1) [OF b] find_walk_chain [OF bucketsD(2) [OF b h], of "\<lambda>i. i = e"]
      buckets_mem_iff [OF b h]
    by (simp add: hash_find_def)
qed

section \<open>Iteration\<close>

text \<open>\<open>iter_at t bs it rem\<close>: the iterator still has the elements \<open>rem\<close> to deliver.\<close>

definition iter_at ::
  "('st, 'k) hash_table \<Rightarrow> ptr list list \<Rightarrow> hash_iterator \<Rightarrow> ptr list \<Rightarrow> bool" where
  "iter_at t bs it rem \<longleftrightarrow> - 1 \<le> it_bucket it \<and>
     (if it_ptr it = 0 then rem = concat (drop (nat (it_bucket it + 1)) bs)
      else \<exists>zs. chain (link t) (link t (it_ptr it)) zs \<and>
             rem = zs @ concat (drop (nat (it_bucket it + 1)) bs))"

lemma iter_at_rewind: "iter_at t bs (hash_rewind it) (concat bs)"
  by (simp add: iter_at_def hash_rewind_def)

lemma next_bucket_buckets:
  assumes b: "buckets st t bs"
  shows "case next_bucket (tbl t) i of
      None \<Rightarrow> concat (drop i bs) = []
    | Some j \<Rightarrow> i \<le> j \<and> j < length bs \<and> tbl t ! j \<noteq> 0 \<and>
        concat (drop i bs) = bs ! j @ concat (drop (Suc j) bs)"
proof (induction "tbl t" i rule: next_bucket.induct)
  case (1 i)
  show ?case
  proof (cases "i < length bs \<and> tbl t ! i = 0")
    case True
    then have "bs ! i = []"
      using bucketsD(2) [OF b, of i] by simp
    then have "concat (drop i bs) = concat (drop (Suc i) bs)"
      using True by (simp add: Cons_nth_drop_Suc [symmetric])
    then show ?thesis
      using 1 True bucketsD(1) [OF b]
      by (subst next_bucket.simps) (auto split: option.splits)
  next
    case False
    then show ?thesis
      using bucketsD(1) [OF b]
      by (subst next_bucket.simps) (auto simp: Cons_nth_drop_Suc [symmetric] split: option.splits)
  qed
qed

lemma start_bucket_step:
  assumes b: "buckets st t bs" and p: "it_ptr it = 0" and i: "- 1 \<le> it_bucket it"
    and r: "rem = concat (drop (nat (it_bucket it + 1)) bs)"
  shows "it_ptr (start_bucket t it) = (if rem = [] then 0 else hd rem) \<and>
    iter_at t bs (start_bucket t it) (tl rem)"
proof (cases "next_bucket (tbl t) (nat (it_bucket it + 1))")
  case None
  then show ?thesis
    using next_bucket_buckets [OF b, of "nat (it_bucket it + 1)"] p i r
    by (simp add: start_bucket_def iter_at_def del: concat_eq_Nil_conv)
next
  case (Some j)
  have j: "j < length bs" "tbl t ! j \<noteq> 0"
    and rem: "rem = bs ! j @ concat (drop (Suc j) bs)"
    using next_bucket_buckets [OF b, of "nat (it_bucket it + 1)"] Some r by auto
  obtain zs where zs: "bs ! j = tbl t ! j # zs" "chain (link t) (link t (tbl t ! j)) zs"
    using chain_nonnull [OF bucketsD(2) [OF b j(1)] j(2)] by blast
  have n: "nat (int j + 1) = Suc j"
    by simp
  show ?thesis
    using Some j zs rem by (simp add: start_bucket_def iter_at_def n)
qed

lemma hash_next_step:
  assumes b: "buckets st t bs" and it: "iter_at t bs it rem"
  shows "fst (hash_next t it) = (if rem = [] then 0 else hd rem)"
    and "iter_at t bs (snd (hash_next t it)) (tl rem)"
    and "it_ptr (snd (hash_next t it)) = fst (hash_next t it)"
proof -
  have *: "fst (hash_next t it) = (if rem = [] then 0 else hd rem) \<and>
    iter_at t bs (snd (hash_next t it)) (tl rem) \<and>
    it_ptr (snd (hash_next t it)) = fst (hash_next t it)"
  proof (cases "it_ptr it = 0")
    case True
    then have "- 1 \<le> it_bucket it" "rem = concat (drop (nat (it_bucket it + 1)) bs)"
      using it by (simp_all add: iter_at_def)
    from start_bucket_step [OF b True this] show ?thesis
      using True by (simp add: hash_next_def Let_def)
  next
    case False
    then obtain zs where zs: "chain (link t) (link t (it_ptr it)) zs"
      "rem = zs @ concat (drop (nat (it_bucket it + 1)) bs)" and i: "- 1 \<le> it_bucket it"
      using it by (auto simp: iter_at_def)
    show ?thesis
    proof (cases "link t (it_ptr it) = 0")
      case True
      then have "zs = []"
        using zs(1) by simp
      then show ?thesis
        using start_bucket_step [OF b, of "it\<lparr>it_ptr := 0\<rparr>"] zs(2) False True i
        by (simp add: hash_next_def Let_def)
    next
      case nz: False
      then obtain ys where "zs = link t (it_ptr it) # ys"
        "chain (link t) (link t (link t (it_ptr it))) ys"
        using chain_nonnull [OF zs(1)] by blast
      then show ?thesis
        using zs(2) False nz i by (auto simp: hash_next_def iter_at_def Let_def)
    qed
  qed
  then show "fst (hash_next t it) = (if rem = [] then 0 else hd rem)"
    and "iter_at t bs (snd (hash_next t it)) (tl rem)"
    and "it_ptr (snd (hash_next t it)) = fst (hash_next t it)"
    by blast+
qed

text \<open>Calling \<open>hash_next\<close> \<open>n\<close> times.\<close>

fun hash_walk :: "('st, 'k) hash_table \<Rightarrow> nat \<Rightarrow> hash_iterator \<Rightarrow> ptr list" where
  "hash_walk t 0 it = []"
| "hash_walk t (Suc n) it = (let (p, it') = hash_next t it in p # hash_walk t n it')"

lemma hash_walk_iter:
  assumes b: "buckets st t bs" and it: "iter_at t bs it rem"
  shows "hash_walk t n it = take n rem @ replicate (n - length rem) 0"
  using it
proof (induction n arbitrary: it rem)
  case (Suc n)
  note s = hash_next_step [OF b Suc.prems]
  show ?case
    using Suc.IH [OF s(2)] s(1) by (cases rem) (simp_all add: Let_def split_beta)
qed simp

section \<open>The interface the stack uses\<close>

text \<open>What the clients (interfaces, sockets, ARP, fragments, endpoints) rely on: a table stands
  for a finite set of elements, inserted, removed by address and found by key.\<close>

locale element_table =
  fixes rep :: "'t \<Rightarrow> ptr set \<Rightarrow> bool"
    and ins :: "'t \<Rightarrow> ptr \<Rightarrow> 't"
    and del :: "'t \<Rightarrow> ptr \<Rightarrow> (int \<times> 't) option"
    and look :: "'t \<Rightarrow> 'k \<Rightarrow> ptr option"
    and matches :: "'t \<Rightarrow> ptr \<Rightarrow> 'k \<Rightarrow> bool"
  assumes rep_nonnull: "rep t E \<Longrightarrow> 0 \<notin> E"
    and ins_rep: "rep t E \<Longrightarrow> e \<noteq> 0 \<Longrightarrow> e \<notin> E \<Longrightarrow> rep (ins t e) (insert e E)"
    and ins_matches: "matches (ins t e) = matches t"
    and del_rep: "rep t E \<Longrightarrow> e \<in> E \<Longrightarrow>
      \<exists>t'. del t e = Some (NO_ERROR, t') \<and> rep t' (E - {e}) \<and> matches t' = matches t"
    and del_absent: "rep t E \<Longrightarrow> e \<notin> E \<Longrightarrow> del t e = Some (ERR_GENERAL, t)"
    and look_hit: "rep t E \<Longrightarrow> e \<in> E \<Longrightarrow> matches t e k \<Longrightarrow>
      \<exists>x \<in> E. look t k = Some x \<and> matches t x k"
    and look_miss: "rep t E \<Longrightarrow> \<forall>e \<in> E. \<not> matches t e k \<Longrightarrow> look t k = Some 0"
begin

lemma look_total: "rep t E \<Longrightarrow> \<exists>x. look t k = Some x \<and> (x = 0 \<or> x \<in> E \<and> matches t x k)"
  using look_hit look_miss by metis

lemma look_unique:
  assumes "rep t E" "e \<in> E" "matches t e k" "\<And>x. x \<in> E \<Longrightarrow> matches t x k \<Longrightarrow> x = e"
  shows "look t k = Some e"
  using look_hit [OF assms(1-3)] assms(4) by blast

lemma ins_look:
  assumes "rep t E" "e \<noteq> 0" "e \<notin> E" "matches t e k" "\<forall>x \<in> E. \<not> matches t x k"
  shows "look (ins t e) k = Some e"
  by (rule look_unique [OF ins_rep [OF assms(1-3)]]) (use assms in \<open>auto simp: ins_matches\<close>)

lemma ins_del:
  assumes "rep t E" "e \<noteq> 0" "e \<notin> E"
  shows "\<exists>t'. del (ins t e) e = Some (NO_ERROR, t') \<and> rep t' E"
  using del_rep [OF ins_rep [OF assms], of e] assms(3) by auto

lemma del_look:
  assumes "rep t E" "e \<in> E" "\<forall>x \<in> E. matches t x k \<longrightarrow> x = e"
  shows "\<exists>t'. del t e = Some (NO_ERROR, t') \<and> look t' k = Some 0"
proof -
  obtain t' where t': "del t e = Some (NO_ERROR, t')" "rep t' (E - {e})" "matches t' = matches t"
    using del_rep [OF assms(1,2)] by blast
  then have "look t' k = Some 0"
    by (intro look_miss [OF t'(2)]) (use assms(3) in auto)
  with t' show ?thesis
    by blast
qed

end

text \<open>A table is well formed when the hash callback stays in range and equal elements hash alike.\<close>

definition hash_ok :: "'st \<Rightarrow> ('st, 'k) hash_table \<Rightarrow> bool" where
  "hash_ok st t \<longleftrightarrow>
     (\<forall>x. hash_func t st x (length (tbl t)) < length (tbl t)) \<and>
     (\<forall>cmp e k. compare_func t = Some cmp \<and> cmp st e k = 0 \<longrightarrow>
        hash_func t st (Inl e) (length (tbl t)) = hash_func t st (Inr k) (length (tbl t)))"

definition tab_rep :: "'st \<Rightarrow> ('st, 'k) hash_table \<Rightarrow> ptr set \<Rightarrow> bool" where
  "tab_rep st t E \<longleftrightarrow> hash_ok st t \<and> (\<exists>bs. buckets st t bs \<and> E = set (concat bs))"

definition tab_matches :: "'st \<Rightarrow> ('st, 'k) hash_table \<Rightarrow> ptr \<Rightarrow> 'k \<Rightarrow> bool" where
  "tab_matches st t e k = (case compare_func t of None \<Rightarrow> False | Some cmp \<Rightarrow> cmp st e k = 0)"

lemma hash_insert_fields [simp]:
  "length (tbl (hash_insert st t e)) = length (tbl t)"
  "hash_func (hash_insert st t e) = hash_func t"
  "compare_func (hash_insert st t e) = compare_func t"
  by (simp_all add: hash_insert_def Let_def)

lemma hash_ok_cong:
  "length (tbl t') = length (tbl t) \<Longrightarrow> hash_func t' = hash_func t \<Longrightarrow>
   compare_func t' = compare_func t \<Longrightarrow> hash_ok st t' = hash_ok st t"
  by (simp add: hash_ok_def)

lemma hash_okD: "hash_ok st t \<Longrightarrow> length bs = length (tbl t) \<Longrightarrow> hash_func t st x (length bs) < length bs"
  by (simp add: hash_ok_def)

lemma tab_rep_insert:
  assumes "tab_rep st t E" "e \<noteq> 0" "e \<notin> E"
  shows "tab_rep st (hash_insert st t e) (insert e E)"
proof -
  obtain bs where b: "hash_ok st t" "buckets st t bs" "E = set (concat bs)"
    using assms(1) by (auto simp: tab_rep_def)
  note h = hash_okD [OF b(1) bucketsD(1) [OF b(2)], of "Inl e"]
  let ?h = "hash_func t st (Inl e) (length bs)"
  have "set (concat (bs[?h := e # bs ! ?h])) = insert e (set (concat bs))"
    using arg_cong [OF mset_concat_cons [OF h, of e], where f = set_mset]
    by (simp only: set_mset_mset set_mset_add_mset_insert)
  moreover have "hash_ok st (hash_insert st t e)"
    by (rule hash_ok_cong [THEN iffD2, OF _ _ _ b(1)]) simp_all
  ultimately show ?thesis
    using buckets_insert [OF b(2) assms(2) _ refl h] assms(3) b(3)
    unfolding tab_rep_def by metis
qed

lemma tab_rep_nonnull:
  assumes "tab_rep st t E"
  shows "0 \<notin> E"
proof -
  obtain bs where b: "buckets st t bs" "E = set (concat bs)"
    using assms by (auto simp: tab_rep_def)
  have "0 \<notin> set (concat bs)"
    by (rule concat_nth_nonnull) (rule seg_nonnull [OF bucketsD(2) [OF b(1)]])
  then show ?thesis
    using b(2) by simp
qed

lemma buckets_distinct:
  assumes b: "buckets st t bs"
  shows "distinct (concat bs)"
proof -
  have "\<forall>i < length bs. distinct (bs ! i)"
    using bucketsD(2) [OF b] chain_distinct by blast
  moreover have "\<forall>i < length bs. \<forall>j < length bs. j \<noteq> i \<longrightarrow> set (bs ! i) \<inter> set (bs ! j) = {}"
    using buckets_other [OF b] by blast
  ultimately show ?thesis
    by (rule distinct_concat_nth)
qed

lemma tab_rep_remove:
  assumes "tab_rep st t E" "e \<in> E"
  shows "\<exists>t'. hash_remove st t e = Some (NO_ERROR, t') \<and> tab_rep st t' (E - {e}) \<and>
    tab_matches st t' = tab_matches st t"
proof -
  obtain bs where b: "hash_ok st t" "buckets st t bs" "E = set (concat bs)"
    using assms(1) by (auto simp: tab_rep_def)
  note h = hash_okD [OF b(1) bucketsD(1) [OF b(2)], of "Inl e"]
  let ?h = "hash_func t st (Inl e) (length bs)"
  obtain t' where t': "hash_remove st t e = Some (NO_ERROR, t')"
      "buckets st t' (bs[?h := remove1 e (bs ! ?h)])"
      "hash_func t' = hash_func t" "compare_func t' = compare_func t"
    using buckets_remove [OF b(2) _ refl h] assms(2) b(3) by blast
  have "e \<in> set (bs ! ?h)"
    using buckets_mem_iff [OF b(2) h] assms(2) b(3) by simp
  from mset_concat_remove1 [OF h this]
  have "mset (concat bs) = add_mset e (mset (concat (bs[?h := remove1 e (bs ! ?h)])))"
    by simp
  then have "distinct (e # concat (bs[?h := remove1 e (bs ! ?h)]))"
    "set (concat bs) = set (e # concat (bs[?h := remove1 e (bs ! ?h)]))"
    using buckets_distinct [OF b(2)] by (metis mset.simps(2) mset_eq_imp_distinct_iff mset_eq_setD)+
  then have "set (concat (bs[?h := remove1 e (bs ! ?h)])) = E - {e}"
    using b(3) by auto
  moreover have "hash_ok st t'"
    using t'(3,4) bucketsD(1) [OF b(2)] bucketsD(1) [OF t'(2)]
    by (intro hash_ok_cong [THEN iffD2, OF _ _ _ b(1)]) simp_all
  ultimately show ?thesis
    using t' by (auto simp: tab_rep_def tab_matches_def fun_eq_iff)
qed

lemma tab_rep_remove_absent:
  assumes "tab_rep st t E" "e \<notin> E"
  shows "hash_remove st t e = Some (ERR_GENERAL, t)"
proof -
  obtain bs where b: "hash_ok st t" "buckets st t bs" "E = set (concat bs)"
    using assms(1) by (auto simp: tab_rep_def)
  show ?thesis
    using assms(2) hash_okD [OF b(1) bucketsD(1) [OF b(2)]] unfolding b(3)
    by (intro buckets_remove_absent [OF b(2)])
qed

lemma tab_rep_lookup:
  assumes "tab_rep st t E"
  shows "e \<in> E \<Longrightarrow> tab_matches st t e k \<Longrightarrow> \<exists>x \<in> E. hash_lookup st t k = Some x \<and> tab_matches st t x k"
    and "\<forall>e \<in> E. \<not> tab_matches st t e k \<Longrightarrow> hash_lookup st t k = Some 0"
proof -
  obtain bs where b: "hash_ok st t" "buckets st t bs" "E = set (concat bs)"
    using assms by (auto simp: tab_rep_def)
  let ?h = "hash_func t st (Inr k) (length bs)"
  note h = hash_okD [OF b(1) bucketsD(1) [OF b(2)], of "Inr k"]
  note walk = find_walk_chain [OF bucketsD(2) [OF b(2) h]]
  have sub: "set (bs ! ?h) \<subseteq> E"
    using h b(3) by auto
  {
    assume e: "e \<in> E" "tab_matches st t e k"
    then obtain cmp where c: "compare_func t = Some cmp" "cmp st e k = 0"
      by (auto simp: tab_matches_def split: option.splits)
    then have "hash_func t st (Inl e) (length bs) = ?h"
      using b(1) bucketsD(1) [OF b(2)] by (auto simp: hash_ok_def)
    then have "e \<in> set (bs ! ?h)"
      using buckets_mem_iff [OF b(2), of e] h e(1) b(3) by simp
    then have "find (\<lambda>i. cmp st i k = 0) (bs ! ?h) \<noteq> None"
      using c(2) by (auto simp: find_None_iff)
    then obtain x where x: "find (\<lambda>i. cmp st i k = 0) (bs ! ?h) = Some x"
      by blast
    then have "x \<in> set (bs ! ?h)" "cmp st x k = 0"
      by (auto simp: find_Some_iff)
    moreover have "hash_lookup st t k = Some x"
      using walk [of "\<lambda>i. cmp st i k = 0"] x c(1) bucketsD(1) [OF b(2)]
      by (simp add: hash_lookup_def)
    ultimately show "\<exists>x \<in> E. hash_lookup st t k = Some x \<and> tab_matches st t x k"
      using sub c(1) by (auto simp: tab_matches_def)
  next
    assume n: "\<forall>e \<in> E. \<not> tab_matches st t e k"
    show "hash_lookup st t k = Some 0"
    proof (cases "compare_func t")
      case (Some cmp)
      then have "find (\<lambda>i. cmp st i k = 0) (bs ! ?h) = None"
        using n sub by (auto simp: find_None_iff tab_matches_def)
      then show ?thesis
        using walk [of "\<lambda>i. cmp st i k = 0"] Some bucketsD(1) [OF b(2)]
        by (simp add: hash_lookup_def)
    qed (simp add: hash_lookup_def)
  }
qed

lemma tab_matches_insert: "tab_matches st (hash_insert st t e) = tab_matches st t"
  by (simp add: tab_matches_def fun_eq_iff)

interpretation kh: element_table "tab_rep st" "hash_insert st" "hash_remove st" "hash_lookup st"
    "tab_matches st"
  for st :: 'st
  by unfold_locales
    (assumption | rule tab_rep_nonnull tab_rep_insert tab_matches_insert tab_rep_remove
      tab_rep_remove_absent tab_rep_lookup)+

lemma tab_rep_init:
  assumes "hash_ok st (hash_init n cmp hf mem)"
  shows "tab_rep st (hash_init n cmp hf mem) {}"
proof -
  have "buckets st (hash_init n cmp hf mem) (replicate n [])"
    by (simp add: buckets_def hash_init_def)
  with assms show ?thesis
    unfolding tab_rep_def by force
qed

lemma tab_rep_find:
  assumes "tab_rep st t E"
  shows "hash_find st t e = Some (if e \<in> E then e else 0)"
proof -
  obtain bs where b: "hash_ok st t" "buckets st t bs" "E = set (concat bs)"
    using assms by (auto simp: tab_rep_def)
  show ?thesis
    unfolding b(3) by (rule hash_find_buckets [OF b(2) hash_okD [OF b(1) bucketsD(1) [OF b(2)]]])
qed

section \<open>Properties\<close>

definition demo_table :: "(ptr \<Rightarrow> nat, nat) hash_table" where
  "demo_table = hash_init 3 (Some (\<lambda>st e k. int (st e) - int k))
     (\<lambda>st x n. (case x of Inl e \<Rightarrow> st e | Inr k \<Rightarrow> k) mod n) (\<lambda>_. 0)"

lemma demo_table_rep: "tab_rep st demo_table {}"
  unfolding demo_table_def
  by (rule tab_rep_init) (auto simp: hash_ok_def hash_init_def)

text \<open>an element inserted into a table that holds no element with its key is found by a
  lookup of that key, whatever bucket it falls into.\<close>
theorem hash_insert_lookup:
  assumes "tab_rep st t E" "e \<noteq> 0" "e \<notin> E" "tab_matches st t e k"
    and "\<forall>x \<in> E. \<not> tab_matches st t x k"
  shows "hash_lookup st (hash_insert st t e) k = Some e"
  by (rule kh.ins_look [OF assms])

theorem hash_insert_lookup_witness:
  "hash_lookup (\<lambda>e. e + 1) (hash_insert (\<lambda>e. e + 1) demo_table 4) 5 = Some 4"
  by (rule hash_insert_lookup [where E = "{}"])
    (simp_all add: demo_table_rep, simp add: tab_matches_def demo_table_def hash_init_def)

text \<open>removing an element unlinks exactly that element: the call succeeds, the table then
  stands for the remaining elements, the other keys are still found, and a second removal fails
  and changes nothing.\<close>
theorem hash_remove_correct:
  assumes "tab_rep st t E" "e \<in> E"
  shows "\<exists>t'. hash_remove st t e = Some (NO_ERROR, t') \<and> tab_rep st t' (E - {e}) \<and>
    num_elems t' = num_elems t - 1 \<and> hash_remove st t' e = Some (ERR_GENERAL, t')"
proof -
  obtain t' where t': "hash_remove st t e = Some (NO_ERROR, t')" "tab_rep st t' (E - {e})"
    using kh.del_rep [OF assms] by blast
  have "num_elems t' = num_elems t - 1"
    using t'(1) by (auto simp: hash_remove_def Let_def split: option.splits if_splits)
  then show ?thesis
    using t' kh.del_absent [OF t'(2), of e] by blast
qed

theorem hash_remove_correct_witness:
  "\<exists>t'. hash_remove (\<lambda>e. e) (hash_insert (\<lambda>e. e) demo_table 4) 4 = Some (NO_ERROR, t')"
  using hash_remove_correct [OF kh.ins_rep [OF demo_table_rep, of 4], of 4 "\<lambda>e. e"] by auto

text \<open>C33: a rewound iterator delivers every element of the table exactly once, in bucket order,
  and then NULL for ever.\<close>
theorem hash_iteration:
  assumes "tab_rep st t E"
  shows "\<exists>es. distinct es \<and> set es = E \<and>
    (\<forall>n. hash_walk t n (hash_open it) = take n es @ replicate (n - length es) 0)"
proof -
  obtain bs where b: "buckets st t bs" "E = set (concat bs)"
    using assms by (auto simp: tab_rep_def)
  show ?thesis
    using buckets_distinct [OF b(1)] b(2) hash_walk_iter [OF b(1) iter_at_rewind]
    by (intro exI [of _ "concat bs"]) (simp add: hash_open_def)
qed

theorem hash_iteration_witness:
  "\<exists>es. set es = {4} \<and> hash_walk (hash_insert (\<lambda>e. e) demo_table 4) 2
     (hash_open \<lparr>it_ptr = 7, it_bucket = 1\<rparr>) = take 2 es @ replicate (2 - length es) 0"
  using hash_iteration [OF kh.ins_rep [OF demo_table_rep, of 4], of "\<lambda>e. e" "\<lparr>it_ptr = 7, it_bucket = 1\<rparr>"] by auto

end
