(* ===== verification/Net_Timer.thy ===== *)
theory Net_Timer
  imports Net_Prelude
begin

text \<open>
  \<^verbatim>\<open>SkyCore/Net/net_timer.c\<close>: the timer queue, a doubly linked ring through the sentinel
  \<open>net_q\<close>, ordered by expiry.  Event addresses index the \<open>next\<close>, \<open>prev\<close> and payload fields; 0 is
  NULL.  Callbacks are numbers, interpreted by the caller of the runner.  Times are microseconds
  as integers (the C type has 64 bits); the product \<open>delay_ms * 1000\<close> is 32 bits wide and wraps.
\<close>

section \<open>The code\<close>

record net_timer_event =
  func :: nat
  args :: nat
  sched_time :: int
  pending :: bool

record net_timer_queue =
  tnext :: "ptr \<Rightarrow> ptr"
  tprev :: "ptr \<Rightarrow> ptr"
  tevent :: "ptr \<Rightarrow> net_timer_event"

definition net_q :: ptr where
  "net_q = 1"

definition NET_TIMER_PENDING_IGNORE :: u32 where
  "NET_TIMER_PENDING_IGNORE = 1"

definition clear_net_timer :: "ptr \<Rightarrow> net_timer_queue \<Rightarrow> net_timer_queue" where
  "clear_net_timer e s =
     s\<lparr>tprev := (tprev s)(e := 0), tnext := (tnext s)(e := 0),
       tevent := (tevent s)(e := (tevent s e)\<lparr>pending := False\<rparr>)\<rparr>"

partial_function (option) add_walk ::
  "(ptr \<Rightarrow> ptr) \<Rightarrow> (ptr \<Rightarrow> net_timer_event) \<Rightarrow> int \<Rightarrow> ptr \<Rightarrow> ptr \<Rightarrow> (ptr \<times> ptr) option" where
  "add_walk nxt ev t lst tmp =
     (if tmp = net_q then Some (lst, tmp)
      else if sched_time (ev tmp) > t then Some (lst, tmp)
      else add_walk nxt ev t tmp (nxt tmp))"

definition add_to_queue :: "ptr \<Rightarrow> net_timer_queue \<Rightarrow> net_timer_queue option" where
  "add_to_queue e s =
     map_option (\<lambda>(lst, tmp).
         s\<lparr>tnext := (tnext s)(e := tmp, lst := e), tprev := (tprev s)(e := lst, tmp := e)\<rparr>)
       (add_walk (tnext s) (tevent s) (sched_time (tevent s e)) net_q (tnext s net_q))"

definition remove_from_queue :: "ptr \<Rightarrow> net_timer_queue \<Rightarrow> net_timer_queue" where
  "remove_from_queue e s =
     (let nx = (tnext s)(tprev s e := tnext s e);
          pv = (tprev s)(nx e := tprev s e)
      in s\<lparr>tnext := nx(e := 0), tprev := pv(e := 0)\<rparr>)"


definition cancel_net_timer :: "ptr \<Rightarrow> net_timer_queue \<Rightarrow> int \<times> net_timer_queue" where
  "cancel_net_timer e s =
     (if \<not> pending (tevent s e) then (ERR_GENERAL, s)
      else
        let s1 = remove_from_queue e s
        in (NO_ERROR, s1\<lparr>tevent := (tevent s1)(e := (tevent s1 e)\<lparr>pending := False\<rparr>)\<rparr>))"

definition set_net_timer ::
  "int \<Rightarrow> ptr \<Rightarrow> u32 \<Rightarrow> nat \<Rightarrow> nat \<Rightarrow> u32 \<Rightarrow> net_timer_queue \<Rightarrow> (int \<times> net_timer_queue) option" where
  "set_net_timer now e delay_ms callback a flags s =
     (if pending (tevent s e) \<and> flags AND NET_TIMER_PENDING_IGNORE \<noteq> 0 then Some (ERR_GENERAL, s)
      else
        let s1 = (if pending (tevent s e) then snd (cancel_net_timer e s) else s);
            s2 = s1\<lparr>tevent := (tevent s1)(e :=
                   \<lparr>func = callback, args = a, sched_time = now + uint (delay_ms * 1000),
                    pending = True\<rparr>)\<rparr>
        in map_option (Pair NO_ERROR) (add_to_queue e s2))"


definition net_timer_init :: "int \<Rightarrow> int \<Rightarrow> net_timer_queue \<Rightarrow> int \<times> net_timer_queue" where
  "net_timer_init err runner_thread s =
     (let s1 = s\<lparr>tnext := (tnext s)(net_q := net_q), tprev := (tprev s)(net_q := net_q)\<rparr>
      in if err < 0 then (err, s1)
         else if runner_thread < 0 then (runner_thread, s1)
         else (0, s1))"

section \<open>The ring\<close>

definition linked :: "net_timer_queue \<Rightarrow> (ptr \<times> ptr) set \<Rightarrow> bool" where
  "linked s A \<longleftrightarrow> (\<forall>(a, b) \<in> A. tnext s a = b \<and> tprev s b = a)"

definition ring :: "net_timer_queue \<Rightarrow> ptr list \<Rightarrow> bool" where
  "ring s xs \<longleftrightarrow> distinct (net_q # xs) \<and> 0 \<notin> set xs \<and> linked s (adj (net_q # xs @ [net_q]))"

lemma net_q_nonnull [simp]: "net_q \<noteq> 0" "0 \<noteq> net_q"
  by (simp_all add: net_q_def)

lemma linked_Un [simp]: "linked s (A \<union> B) \<longleftrightarrow> linked s A \<and> linked s B"
  by (simp add: linked_def ball_Un)

lemma linked_insert [simp]:
  "linked s (insert (a, b) A) \<longleftrightarrow> tnext s a = b \<and> tprev s b = a \<and> linked s A"
  by (auto simp: linked_def)

lemma linked_empty [simp]: "linked s {}"
  by (simp add: linked_def)

lemma linked_frame:
  assumes "linked s A"
    and "\<And>x y. (x, y) \<in> A \<Longrightarrow> tnext s' x = tnext s x \<and> tprev s' y = tprev s y"
  shows "linked s' A"
  using assms by (fastforce simp: linked_def)

lemma ring_seg: "ring s xs \<Longrightarrow> seg (tnext s) (tnext s net_q) xs net_q"
  by (rule seg_adj) (auto simp: ring_def linked_def)

lemma ring_split:
  assumes "net_q # ys = L @ [a]" "zs @ [net_q] = b # R"
  shows "ring s (ys @ zs) \<longleftrightarrow> distinct (net_q # ys @ zs) \<and> 0 \<notin> set (ys @ zs) \<and>
    linked s (adj (L @ [a])) \<and> tnext s a = b \<and> tprev s b = a \<and> linked s (adj (b # R))"
proof -
  have "net_q # (ys @ zs) @ [net_q] = (net_q # ys) @ zs @ [net_q]"
    by simp
  also have "\<dots> = L @ a # b # R"
    by (simp only: assms append_assoc append_Cons append_Nil)
  finally show ?thesis
    unfolding ring_def by (simp add: adj_append) blast
qed

lemma ring_ends:
  obtains L a b R where "net_q # ys = L @ [a]" "zs @ [net_q] = b # R"
proof -
  obtain L a where "net_q # ys = L @ [a]"
    by (metis list.distinct(1) rev_exhaust)
  moreover obtain b R where "zs @ [net_q] = b # R"
    by (cases zs) auto
  ultimately show thesis
    by (rule that)
qed

lemma ring_parts:
  assumes eq: "net_q # ys = L @ [a]" "zs @ [net_q] = b # R" and d: "distinct (net_q # ys @ zs)"
  shows "(x, y) \<in> adj (L @ [a]) \<Longrightarrow> x \<noteq> a \<and> y \<noteq> b \<and> x \<in> set (net_q # ys) \<and> y \<in> set ys"
    and "(x, y) \<in> adj (b # R) \<Longrightarrow> x \<noteq> a \<and> y \<noteq> b \<and> x \<in> set zs \<and> y \<in> set (net_q # zs)"
    and "a \<in> set (net_q # ys)" "b \<in> set (net_q # zs)"
    and "a = last (net_q # ys)" "b = hd (zs @ [net_q])"
proof -
  have s1: "set (net_q # ys) = set (L @ [a])"
    by (simp only: eq)
  have s2: "set (net_q # zs) = set (b # R)"
    using arg_cong [OF eq(2), of set] by simp
  have d1: "distinct (L @ [a])"
    unfolding eq(1) [symmetric] using d by simp
  have d2: "distinct (b # R)"
    unfolding eq(2) [symmetric] using d by simp
  show ab: "a \<in> set (net_q # ys)" "b \<in> set (net_q # zs)"
    unfolding s1 s2 by simp_all
  show "a = last (net_q # ys)" "b = hd (zs @ [net_q])"
    unfolding eq by simp_all
  have tl: "tl (L @ [a]) = ys" "butlast (b # R) = zs"
    unfolding eq [symmetric] by simp_all
  show "x \<noteq> a \<and> y \<noteq> b \<and> x \<in> set (net_q # ys) \<and> y \<in> set ys" if "(x, y) \<in> adj (L @ [a])"
  proof -
    have "x \<in> set L" "y \<in> set ys"
      using adj_mem [OF that] tl by simp_all
    moreover from this have "y \<noteq> b"
      using ab(2) d by auto
    moreover have "x \<noteq> a"
      using \<open>x \<in> set L\<close> d1 by auto
    ultimately show ?thesis
      using s1 by auto
  qed
  show "x \<noteq> a \<and> y \<noteq> b \<and> x \<in> set zs \<and> y \<in> set (net_q # zs)" if "(x, y) \<in> adj (b # R)"
  proof -
    have "x \<in> set zs" "y \<in> set R"
      using adj_mem [OF that] tl by simp_all
    moreover from this have "x \<noteq> a"
      using ab(1) d by auto
    moreover have "y \<noteq> b"
      using \<open>y \<in> set R\<close> d2 by auto
    ultimately show ?thesis
      using s2 by auto
  qed
qed

lemma ring_insert:
  assumes r: "ring s (ys @ zs)" and e: "e \<notin> set (net_q # ys @ zs)" "e \<noteq> 0"
    and s': "tnext s' = (tnext s)(e := hd (zs @ [net_q]), last (net_q # ys) := e)"
      "tprev s' = (tprev s)(e := last (net_q # ys), hd (zs @ [net_q]) := e)"
  shows "ring s' (ys @ e # zs)"
proof -
  obtain L a b R where *: "net_q # ys = L @ [a]" "zs @ [net_q] = b # R"
    by (rule ring_ends)
  note R = r [unfolded ring_split [OF *]]
  note P = ring_parts [OF * conjunct1 [OF R]]
  have upd: "tnext s' = (tnext s)(e := b, a := e)" "tprev s' = (tprev s)(e := a, b := e)"
    unfolding s' P(5,6) [symmetric] by simp_all
  have ne: "e \<noteq> a" "e \<noteq> b"
    using P(3,4) e(1) by auto
  have l1: "linked s' (adj (L @ [a]))"
  proof (rule linked_frame [of s])
    show "linked s (adj (L @ [a]))"
      using R by blast
    show "tnext s' x = tnext s x \<and> tprev s' y = tprev s y" if "(x, y) \<in> adj (L @ [a])" for x y
      using P(1) [OF that] e(1) by (auto simp: upd)
  qed
  have l2: "linked s' (adj (b # R))"
  proof (rule linked_frame [of s])
    show "linked s (adj (b # R))"
      using R by blast
    show "tnext s' x = tnext s x \<and> tprev s' y = tprev s y" if "(x, y) \<in> adj (b # R)" for x y
      using P(2) [OF that] e(1) by (auto simp: upd)
  qed
  have **: "(e # zs) @ [net_q] = e # b # R"
    using *(2) by simp
  show ?thesis
    unfolding ring_split [OF *(1) **] using R e l1 l2 ne by (auto simp: upd)
qed

lemma ring_remove:
  assumes r: "ring s (ys @ e # zs)"
    and s': "tnext s' = (tnext s)(tprev s e := tnext s e, e := 0)"
      "tprev s' = (tprev s)(tnext s e := tprev s e, e := 0)"
  shows "ring s' (ys @ zs)"
proof -
  obtain L a b R where *: "net_q # ys = L @ [a]" "zs @ [net_q] = b # R"
    by (rule ring_ends)
  have **: "(e # zs) @ [net_q] = e # b # R"
    using *(2) by simp
  note R = r [unfolded ring_split [OF *(1) **]]
  then have d: "distinct (net_q # ys @ zs)" and en: "e \<notin> set (net_q # ys @ zs)"
    by auto
  note P = ring_parts [OF * d]
  have upd: "tnext s' = (tnext s)(a := b, e := 0)" "tprev s' = (tprev s)(b := a, e := 0)"
    unfolding s' using R by simp_all
  have ne: "e \<noteq> a" "e \<noteq> b"
    using P(3,4) en by auto
  have l1: "linked s' (adj (L @ [a]))"
  proof (rule linked_frame [of s])
    show "linked s (adj (L @ [a]))"
      using R by blast
    show "tnext s' x = tnext s x \<and> tprev s' y = tprev s y" if "(x, y) \<in> adj (L @ [a])" for x y
      using P(1) [OF that] en by (auto simp: upd)
  qed
  have l2: "linked s' (adj (b # R))"
  proof (rule linked_frame [of s])
    show "linked s (adj (b # R))"
      using R by simp
    show "tnext s' x = tnext s x \<and> tprev s' y = tprev s y" if "(x, y) \<in> adj (b # R)" for x y
      using P(2) [OF that] en by (auto simp: upd)
  qed
  show ?thesis
    unfolding ring_split [OF *] using R d l1 l2 ne by (auto simp: upd)
qed

section \<open>The queue invariant\<close>

text \<open>\<open>timers s xs\<close>: the ring holds the events \<open>xs\<close>, ordered by expiry, and these are exactly
  the pending events.\<close>

definition timers :: "net_timer_queue \<Rightarrow> ptr list \<Rightarrow> bool" where
  "timers s xs \<longleftrightarrow> ring s xs \<and> sorted (map (\<lambda>e. sched_time (tevent s e)) xs) \<and>
     (\<forall>e. e \<noteq> 0 \<and> e \<noteq> net_q \<longrightarrow> pending (tevent s e) = (e \<in> set xs))"

lemma add_walk_ring:
  assumes "seg nxt p zs net_q" "net_q \<notin> set zs"
  shows "add_walk nxt ev t a p =
    Some (last (a # takeWhile (\<lambda>x. sched_time (ev x) \<le> t) zs),
          hd (dropWhile (\<lambda>x. sched_time (ev x) \<le> t) zs @ [net_q]))"
  using assms
proof (induction zs arbitrary: a p)
  case (Cons z zs)
  then show ?case
    by (subst add_walk.simps) auto
qed (simp add: add_walk.simps)

lemma sorted_insert_after:
  fixes f :: "'a \<Rightarrow> int"
  assumes "sorted (map f xs)"
  shows "sorted (map f (takeWhile (\<lambda>x. f x \<le> f e) xs @ e # dropWhile (\<lambda>x. f x \<le> f e) xs))"
proof -
  let ?y = "takeWhile (\<lambda>x. f x \<le> f e) xs" and ?z = "dropWhile (\<lambda>x. f x \<le> f e) xs"
  have "sorted (map f (?y @ ?z))"
    using assms by simp
  then have s: "sorted (map f ?y)" "sorted (map f ?z)"
    by (simp_all add: sorted_append del: takeWhile_dropWhile_id)
  have "\<forall>x \<in> set ?y. f x \<le> f e"
    by (auto dest: set_takeWhileD)
  moreover have "\<forall>x \<in> set ?z. f e \<le> f x"
  proof (cases ?z)
    case (Cons z zs)
    then have "f e < f z"
      using hd_dropWhile [of "\<lambda>x. f x \<le> f e" xs] by auto
    then show ?thesis
      using s(2) Cons by (auto simp: sorted_simps)
  next
    case Nil
    then show ?thesis
      by (simp only: Nil list.set(1) ball_empty)
  qed
  ultimately show ?thesis
    using s by (fastforce simp: sorted_append sorted_simps)
qed

text \<open>Where a new event goes: after every event that expires no later.\<close>

definition insert_event :: "net_timer_queue \<Rightarrow> int \<Rightarrow> ptr \<Rightarrow> ptr list \<Rightarrow> ptr list" where
  "insert_event s t e xs =
     takeWhile (\<lambda>x. sched_time (tevent s x) \<le> t) xs @ e #
     dropWhile (\<lambda>x. sched_time (tevent s x) \<le> t) xs"

lemma insert_event_cong:
  "(\<And>x. x \<in> set xs \<Longrightarrow> tevent s x = tevent s' x) \<Longrightarrow> insert_event s t e xs = insert_event s' t e xs"
  by (simp add: insert_event_def cong: takeWhile_cong dropWhile_cong)

lemma set_insert_event [simp]: "set (insert_event s t e xs) = insert e (set xs)"
  unfolding insert_event_def
  by (metis Un_insert_right list.simps(15) set_append takeWhile_dropWhile_id)

lemma add_to_queue_ring:
  assumes r: "ring s xs" and e: "e \<notin> set xs" "e \<noteq> 0" "e \<noteq> net_q"
  shows "\<exists>s'. add_to_queue e s = Some s' \<and> tevent s' = tevent s \<and>
    ring s' (insert_event s (sched_time (tevent s e)) e xs)"
proof -
  let ?P = "\<lambda>x. sched_time (tevent s x) \<le> sched_time (tevent s e)"
  have n: "net_q \<notin> set xs"
    using r by (simp add: ring_def)
  note w = add_walk_ring [OF ring_seg [OF r] n, of "tevent s" "sched_time (tevent s e)" net_q]
  have r': "ring s (takeWhile ?P xs @ dropWhile ?P xs)"
    using r by simp
  have e': "e \<notin> set (net_q # takeWhile ?P xs @ dropWhile ?P xs)"
    using e by simp
  show ?thesis
    unfolding add_to_queue_def w insert_event_def
    using ring_insert [OF r' e' e(2)] by simp
qed

lemma cancel_timers:
  assumes t: "timers s xs" and e: "e \<in> set xs"
  shows "\<exists>s'. cancel_net_timer e s = (NO_ERROR, s') \<and> timers s' (remove1 e xs) \<and>
    tevent s' = (tevent s)(e := (tevent s e)\<lparr>pending := False\<rparr>)"
proof -
  obtain ys zs where xs: "xs = ys @ e # zs" "e \<notin> set ys"
    using e by (meson split_list_first)
  have r: "ring s (ys @ e # zs)"
    using t xs by (simp add: timers_def)
  then have ne: "e \<noteq> 0" "e \<noteq> net_q" "e \<notin> set zs"
    by (auto simp: ring_def)
  have p: "pending (tevent s e)"
    using t e ne by (simp add: timers_def)
  define s' where "s' = snd (cancel_net_timer e s)"
  have s': "cancel_net_timer e s = (NO_ERROR, s')"
    and ev: "tevent s' = (tevent s)(e := (tevent s e)\<lparr>pending := False\<rparr>)"
    and upd: "tnext s' = (tnext s)(tprev s e := tnext s e, e := 0)"
      "tprev s' = (tprev s)(tnext s e := tprev s e, e := 0)"
    using p by (simp_all add: s'_def cancel_net_timer_def remove_from_queue_def Let_def)
  have "ring s' (ys @ zs)"
    by (rule ring_remove [OF r upd])
  moreover have "sched_time (tevent s' x) = sched_time (tevent s x)" for x
    by (simp add: ev)
  then have "sorted (map (\<lambda>x. sched_time (tevent s' x)) (ys @ zs))"
    using t xs(1) by (auto simp: timers_def sorted_append)
  moreover have "pending (tevent s' x) = (x \<in> set (ys @ zs))" if "x \<noteq> 0" "x \<noteq> net_q" for x
    using t xs ne(3) that by (auto simp: timers_def ev)
  moreover have "remove1 e xs = ys @ zs"
    using xs by (simp add: remove1_append)
  ultimately show ?thesis
    using s' ev by (simp add: timers_def)
qed

lemma cancel_timers_idle:
  "timers s xs \<Longrightarrow> e \<noteq> 0 \<Longrightarrow> e \<noteq> net_q \<Longrightarrow> e \<notin> set xs \<Longrightarrow> cancel_net_timer e s = (ERR_GENERAL, s)"
  by (simp add: timers_def cancel_net_timer_def)

lemma tevent_remove [simp]: "tevent (remove_from_queue e s) = tevent s"
  by (simp add: remove_from_queue_def Let_def)

lemma ring_tevent [simp]: "ring (s\<lparr>tevent := ev\<rparr>) xs = ring s xs"
  by (simp add: ring_def linked_def)

lemma arm_timers:
  assumes t: "timers s xs" and e: "e \<notin> set xs" "e \<noteq> 0" "e \<noteq> net_q"
    and s2: "s2 = s\<lparr>tevent := (tevent s)(e := v)\<rparr>" "pending v"
  shows "\<exists>s'. add_to_queue e s2 = Some s' \<and> tevent s' = tevent s2 \<and>
    timers s' (insert_event s (sched_time v) e xs)"
proof -
  let ?t = "sched_time v"
  have ev2: "tevent s2 e = v"
    by (simp add: s2)
  have same: "insert_event s2 ?t e xs = insert_event s ?t e xs"
    by (rule insert_event_cong) (use e(1) s2 in auto)
  have "ring s2 xs"
    using t s2 by (simp add: timers_def)
  from add_to_queue_ring [OF this e] obtain s' where
    s': "add_to_queue e s2 = Some s'" "tevent s' = tevent s2" "ring s' (insert_event s ?t e xs)"
    using s2 same by auto
  have "map (\<lambda>x. sched_time (tevent s2 x)) xs = map (\<lambda>x. sched_time (tevent s x)) xs"
    using e(1) s2 by auto
  then have "sorted (map (\<lambda>x. sched_time (tevent s2 x)) xs)"
    using t by (simp only: timers_def)
  from sorted_insert_after [OF this, of e]
  have "sorted (map (\<lambda>x. sched_time (tevent s' x)) (insert_event s ?t e xs))"
    unfolding same [symmetric] unfolding insert_event_def s'(2) by (simp only: ev2)
  moreover have "pending (tevent s' x) = (x \<in> set (insert_event s ?t e xs))"
    if "x \<noteq> 0" "x \<noteq> net_q" for x
    using t that s'(2) s2 by (simp add: timers_def)
  ultimately show ?thesis
    using s' by (simp add: timers_def)
qed

lemma set_timer_idle:
  assumes t: "timers s xs" and e: "e \<notin> set xs" "e \<noteq> 0" "e \<noteq> net_q"
  shows "\<exists>s'. set_net_timer now e d f a flags s = Some (NO_ERROR, s') \<and>
    timers s' (insert_event s (now + uint (d * 1000)) e xs) \<and>
    tevent s' = (tevent s)(e := \<lparr>func = f, args = a, sched_time = now + uint (d * 1000), pending = True\<rparr>)"
proof -
  have "\<not> pending (tevent s e)"
    using assms by (simp add: timers_def)
  then show ?thesis
    using arm_timers [OF t e refl, of "\<lparr>func = f, args = a, sched_time = now + uint (d * 1000), pending = True\<rparr>"]
    by (auto simp: set_net_timer_def)
qed

lemma rearm_timers:
  assumes t: "timers s xs" and e: "e \<in> set xs" and f: "flags AND NET_TIMER_PENDING_IGNORE = 0"
  shows "\<exists>s'. set_net_timer now e d f a flags s = Some (NO_ERROR, s') \<and>
    timers s' (insert_event s (now + uint (d * 1000)) e (remove1 e xs)) \<and>
    tevent s' = (tevent s)(e := \<lparr>func = f, args = a, sched_time = now + uint (d * 1000), pending = True\<rparr>)"
proof -
  obtain s1 where s1: "cancel_net_timer e s = (NO_ERROR, s1)" "timers s1 (remove1 e xs)"
    "tevent s1 = (tevent s)(e := (tevent s e)\<lparr>pending := False\<rparr>)"
    using cancel_timers [OF t e] by blast
  have xs: "distinct xs" "0 \<notin> set xs" "net_q \<notin> set xs"
    using t by (simp_all add: timers_def ring_def)
  then have "e \<noteq> 0" "e \<noteq> net_q"
    using e by metis+
  then have e': "distinct xs" "e \<noteq> 0" "e \<noteq> net_q" "pending (tevent s e)"
    using t e xs by (simp_all add: timers_def)
  then have n: "e \<notin> set (remove1 e xs)"
    by simp
  have same: "insert_event s1 k e (remove1 e xs) = insert_event s k e (remove1 e xs)" for k
    by (rule insert_event_cong) (use n s1(3) in auto)
  show ?thesis
    using arm_timers [OF s1(2) n e'(2,3) refl, of "\<lparr>func = f, args = a, sched_time = now + uint (d * 1000), pending = True\<rparr>"]
      s1 e'(4) f by (auto simp: set_net_timer_def same)
qed

section \<open>The runner\<close>









section \<open>The interface\<close>

text \<open>What the protocols rely on: a timer service with a set of armed events, armed and
  cancelled by address.\<close>

locale timer_service =
  fixes armed :: "'q \<Rightarrow> 'e \<Rightarrow> bool"
    and ok :: "'q \<Rightarrow> bool"
    and arm :: "'e \<Rightarrow> 'q \<Rightarrow> (int \<times> 'q) option"
    and disarm :: "'e \<Rightarrow> 'q \<Rightarrow> int \<times> 'q"
    and event :: "'e \<Rightarrow> bool"
  assumes arm_law: "ok q \<Longrightarrow> event e \<Longrightarrow> \<exists>q'. arm e q = Some (NO_ERROR, q') \<and> ok q' \<and>
      (\<forall>x. event x \<longrightarrow> armed q' x = (x = e \<or> armed q x))"
    and disarm_law: "ok q \<Longrightarrow> event e \<Longrightarrow> armed q e \<Longrightarrow> \<exists>q'. disarm e q = (NO_ERROR, q') \<and> ok q' \<and>
      (\<forall>x. event x \<longrightarrow> armed q' x = (x \<noteq> e \<and> armed q x))"
    and disarm_idle: "ok q \<Longrightarrow> event e \<Longrightarrow> \<not> armed q e \<Longrightarrow> disarm e q = (ERR_GENERAL, q)"
begin

lemma arm_disarm:
  assumes "ok q" "event e"
  shows "\<exists>q1 q2. arm e q = Some (NO_ERROR, q1) \<and> disarm e q1 = (NO_ERROR, q2) \<and> ok q2 \<and>
    (\<forall>x. event x \<longrightarrow> armed q2 x = (x \<noteq> e \<and> armed q x))"
proof -
  obtain q1 where q1: "arm e q = Some (NO_ERROR, q1)" "ok q1"
      "\<forall>x. event x \<longrightarrow> armed q1 x = (x = e \<or> armed q x)"
    using arm_law [OF assms] by blast
  then obtain q2 where "disarm e q1 = (NO_ERROR, q2)" "ok q2"
      "\<forall>x. event x \<longrightarrow> armed q2 x = (x \<noteq> e \<and> armed q1 x)"
    using disarm_law [OF q1(2) assms(2)] assms(2) by blast
  with q1 show ?thesis
    by auto
qed

lemma disarm_twice:
  assumes "ok q" "event e"
  shows "fst (disarm e (snd (disarm e q))) = ERR_GENERAL"
  using disarm_law [OF assms] disarm_idle [OF assms] disarm_idle assms(2)
  by (cases "armed q e") force+

end

definition is_event :: "ptr \<Rightarrow> bool" where
  "is_event e \<longleftrightarrow> e \<noteq> 0 \<and> e \<noteq> net_q"

lemma timers_armed: "timers s xs \<Longrightarrow> is_event e \<Longrightarrow> pending (tevent s e) = (e \<in> set xs)"
  by (simp add: timers_def is_event_def)

lemma timers_distinct: "timers s xs \<Longrightarrow> distinct xs"
  by (simp add: timers_def ring_def)

lemma set_timer:
  assumes t: "timers s xs" and e: "is_event e" and f: "flags AND NET_TIMER_PENDING_IGNORE = 0"
  shows "\<exists>s'. set_net_timer now e d g a flags s = Some (NO_ERROR, s') \<and>
    timers s' (insert_event s (now + uint (d * 1000)) e (remove1 e xs))"
proof (cases "e \<in> set xs")
  case True
  then show ?thesis
    using rearm_timers [OF t True f] by blast
next
  case False
  then show ?thesis
    using set_timer_idle [OF t False] e unfolding is_event_def remove1_idem [OF False] by blast
qed

interpretation nt: timer_service "\<lambda>s e. pending (tevent s e)" "\<lambda>s. \<exists>xs. timers s xs"
    "\<lambda>e. set_net_timer now e d g a 0" cancel_net_timer is_event
  for now :: int and d :: u32 and g a :: nat
proof unfold_locales
  fix q e
  assume q: "\<exists>xs. timers q xs" and e: "is_event e"
  then obtain xs where xs: "timers q xs"
    by blast
  obtain q' where q': "set_net_timer now e d g a 0 q = Some (NO_ERROR, q')"
      "timers q' (insert_event q (now + uint (d * 1000)) e (remove1 e xs))"
    using set_timer [OF xs e zero_and_eq] by blast
  then show "\<exists>q'. set_net_timer now e d g a 0 q = Some (NO_ERROR, q') \<and> (\<exists>xs. timers q' xs) \<and>
      (\<forall>x. is_event x \<longrightarrow> pending (tevent q' x) = (x = e \<or> pending (tevent q x)))"
    using timers_armed [OF xs] timers_armed [OF q'(2)] timers_distinct [OF xs] by auto
  {
    assume "pending (tevent q e)"
    then have ex: "e \<in> set xs"
      using timers_armed [OF xs e] by simp
    obtain q1 where q1: "cancel_net_timer e q = (NO_ERROR, q1)" "timers q1 (remove1 e xs)"
      using cancel_timers [OF xs ex] by blast
    then show "\<exists>q'. cancel_net_timer e q = (NO_ERROR, q') \<and> (\<exists>xs. timers q' xs) \<and>
        (\<forall>x. is_event x \<longrightarrow> pending (tevent q' x) = (x \<noteq> e \<and> pending (tevent q x)))"
      using timers_armed [OF xs] timers_armed [OF q1(2)] timers_distinct [OF xs] by auto
  next
    assume "\<not> pending (tevent q e)"
    then show "cancel_net_timer e q = (ERR_GENERAL, q)"
      by (simp add: cancel_net_timer_def)
  }
qed

section \<open>Properties\<close>

lemma timer_init_timers:
  assumes "0 \<le> err" "0 \<le> th" "\<forall>e. e \<noteq> 0 \<longrightarrow> \<not> pending (tevent s e)"
  shows "fst (net_timer_init err th s) = 0 \<and> timers (snd (net_timer_init err th s)) []"
  using assms by (simp add: net_timer_init_def timers_def ring_def linked_def)

definition idle_queue :: net_timer_queue where
  "idle_queue = snd (net_timer_init 0 0 \<lparr>tnext = \<lambda>_. 0, tprev = \<lambda>_. 0,
     tevent = \<lambda>_. \<lparr>func = 0, args = 0, sched_time = 0, pending = False\<rparr>\<rparr>)"

lemma idle_queue_timers: "timers idle_queue []"
  unfolding idle_queue_def
  using timer_init_timers [of 0 0 "\<lparr>tnext = \<lambda>_. 0, tprev = \<lambda>_. 0,
     tevent = \<lambda>_. \<lparr>func = 0, args = 0, sched_time = 0, pending = False\<rparr>\<rparr>"] by simp

text \<open>C32: arming a timer, pending or not, re-links the ring so that the pending events stay
  ordered by expiry, with the event placed after all events that expire no later (first armed,
  first fired among equals); its expiry is the clock plus the delay in microseconds computed in
  32 bits.\<close>
theorem set_net_timer_queues:
  assumes "timers s xs" "is_event e" "flags AND NET_TIMER_PENDING_IGNORE = 0"
  shows "\<exists>s'. set_net_timer now e delay_ms cb a flags s = Some (NO_ERROR, s') \<and>
    timers s' (insert_event s (now + uint (delay_ms * 1000)) e (remove1 e xs))"
  by (rule set_timer [OF assms])

theorem set_net_timer_queues_witness:
  "\<exists>s'. set_net_timer 100 5 7 0 0 0 idle_queue = Some (NO_ERROR, s') \<and> timers s' [5]"
  using set_net_timer_queues [OF idle_queue_timers, of 5 0 100 7 0 0]
  by (simp add: is_event_def net_q_def insert_event_def)





end
