(* ===== verification/Cbuf.thy ===== *)
theory Cbuf
  imports Net_Checksum "HOL-Library.Monad_Syntax"
begin

text \<open>
  \<^verbatim>\<open>SkyCore/Net/cbuf.c\<close>: the packet buffers.  A cbuf is a cell with a \<open>next\<close> pointer, a window
  \<open>(data, len)\<close> into its 2024-byte \<open>dat\<close> array, and, on the first cell of a chain, the total
  length.  The region of 512 cells is a heap indexed by address (cell \<open>i\<close> of \<open>cbuf_region\<close> has
  address \<open>i + 1\<close>; 0 is NULL); \<open>data\<close> is the offset from \<open>dat\<close>.  \<open>None\<close> is a fault: a NULL
  dereference, a \<open>memcpy\<close> outside \<open>dat\<close>, a \<open>panic\<close>, or a loop over a cyclic chain.  Lengths are
  naturals; the sums that bounds checks compute in \<open>size_t\<close> wrap at \<open>2 ^ 32\<close>.
\<close>

section \<open>Cells and state\<close>

record cbuf =
  c_next :: ptr
  c_len :: nat
  total_len :: nat
  c_data :: nat
  c_flags :: u32
  packet_next :: ptr
  c_dat :: "byte list"

type_synonym heap = "ptr \<Rightarrow> cbuf"

record cbuf_state =
  heap :: heap
  cbuf_free_list :: ptr
  cbuf_free_noblock_list :: ptr
  cbuf_bitmap :: "byte list"

definition CBUF_LEN :: nat where "CBUF_LEN = 2048"
definition DAT_LEN :: nat where "DAT_LEN = 2024"
definition CBUF_BITMAP_SIZE :: nat where "CBUF_BITMAP_SIZE = 512"
definition ALLOCATE_CHUNK :: nat where "ALLOCATE_CHUNK = 65536"
definition CBUF_FLAG_CHAIN_HEAD :: u32 where "CBUF_FLAG_CHAIN_HEAD = 1"
definition CBUF_FLAG_CHAIN_TAIL :: u32 where "CBUF_FLAG_CHAIN_TAIL = 2"

definition size_t_add :: "nat \<Rightarrow> nat \<Rightarrow> nat" where
  "size_t_add a b = (a + b) mod 2 ^ 32"

definition size_t_sub :: "nat \<Rightarrow> nat \<Rightarrow> nat" where
  "size_t_sub a b = (a + 2 ^ 32 - b) mod 2 ^ 32"

definition initialize_cbuf :: "cbuf \<Rightarrow> cbuf" where
  "initialize_cbuf b = b\<lparr>c_len := DAT_LEN, total_len := 0, c_data := 0, c_flags := 0, packet_next := 0\<rparr>"

text \<open>\<open>validate_cbuf\<close> as a predicate: every test that would panic when \<open>VALIDATE_CBUFS\<close> is set.\<close>

partial_function (option) validate_walk :: "heap \<Rightarrow> ptr \<Rightarrow> ptr \<Rightarrow> ptr \<Rightarrow> nat \<Rightarrow> bool option" where
  "validate_walk h head tail buf counted =
     (if buf = 0 then
        Some (c_flags (h tail) AND CBUF_FLAG_CHAIN_TAIL \<noteq> 0 \<and> counted = total_len (h head))
      else if buf \<noteq> head \<and> c_flags (h buf) AND CBUF_FLAG_CHAIN_HEAD \<noteq> 0 then Some False
      else if c_next (h buf) \<noteq> 0 \<and> c_flags (h buf) AND CBUF_FLAG_CHAIN_TAIL \<noteq> 0 then Some False
      else if c_len (h buf) > DAT_LEN then Some False
      else if c_data (h buf) > DAT_LEN \<or> c_len (h buf) > DAT_LEN then Some False
      else validate_walk h head buf (c_next (h buf)) (counted + c_len (h buf)))"

definition validate_cbuf :: "heap \<Rightarrow> ptr \<Rightarrow> bool option" where
  "validate_cbuf h head =
     (if head = 0 then Some True
      else if c_flags (h head) AND CBUF_FLAG_CHAIN_HEAD = 0 then Some False
      else validate_walk h head 0 head 0)"

section \<open>Allocation from the region\<close>

function alloc_scan ::
  "byte list \<Rightarrow> nat \<Rightarrow> nat \<Rightarrow> nat option \<Rightarrow> nat \<Rightarrow> byte list \<times> nat option \<times> nat" where
  "alloc_scan bm want i start len_found =
     (if i < CBUF_BITMAP_SIZE then
        if i mod 8 = 0 \<and> bm ! (i div 8) = 0xff then alloc_scan bm want (i + 8 + 1) start len_found
        else if \<not> bit (bm ! (i div 8)) (i mod 8) then
          let bm' = bm[i div 8 := bm ! (i div 8) OR push_bit (i mod 8) 1];
              start' = (case start of None \<Rightarrow> Some i | Some j \<Rightarrow> Some j);
              len_found' = len_found + CBUF_LEN
          in if want \<le> len_found' then (bm', start', len_found')
             else alloc_scan bm' want (i + 1) start' len_found'
        else if start \<noteq> None then (bm, start, len_found)
        else alloc_scan bm want (i + 1) start len_found
      else (bm, start, len_found))"
  by auto
termination
  by (relation "measure (\<lambda>(bm, want, i, start, len). CBUF_BITMAP_SIZE - i)") auto

declare alloc_scan.simps [simp del]

text \<open>Returns the address of the first cell (0 for NULL), the want found, and the bitmap.\<close>

definition cbuf_alloc :: "nat \<Rightarrow> byte list \<Rightarrow> ptr \<times> nat \<times> byte list" where
  "cbuf_alloc want bm =
     (case alloc_scan bm want 0 None 0 of
        (bm', None, len_found) \<Rightarrow> (0, 0, bm')
      | (bm', Some start, len_found) \<Rightarrow> (start + 1, len_found, bm'))"

fun init_run :: "nat \<Rightarrow> ptr \<Rightarrow> ptr \<Rightarrow> ptr \<Rightarrow> heap \<Rightarrow> ptr \<times> heap" where
  "init_run 0 buf last_buf head_buf h = (last_buf, h)"
| "init_run (Suc n) buf last_buf head_buf h =
     (let h1 = h(buf := initialize_cbuf (h buf));
          h2 = h1(head_buf := (h1 head_buf)\<lparr>total_len := total_len (h1 head_buf) + c_len (h1 buf)\<rparr>);
          h3 = h2(last_buf := (h2 last_buf)\<lparr>c_next := buf\<rparr>)
      in init_run n (buf + 1) buf head_buf h3)"

partial_function (option) alloc_loop ::
  "nat \<Rightarrow> ptr \<Rightarrow> ptr \<Rightarrow> byte list \<Rightarrow> heap \<Rightarrow> (ptr \<times> ptr \<times> byte list \<times> heap) option" where
  "alloc_loop want head_buf last_buf bm h =
     (if want = 0 then Some (head_buf, last_buf, bm, h)
      else
        let (buf, found_size, bm') = cbuf_alloc want bm
        in if buf = 0 then Some (head_buf, last_buf, bm', h)
           else
             let head_buf' = (if head_buf = 0 then buf else head_buf);
                 last_buf' = (if head_buf = 0 then buf else last_buf);
                 h' = (if head_buf = 0 then h(buf := (h buf)\<lparr>total_len := 0\<rparr>) else h);
                 (last_buf'', h'') = init_run (found_size div CBUF_LEN) buf last_buf' head_buf' h'
             in alloc_loop (want - found_size) head_buf' last_buf'' bm' h'')"

definition page_align :: "nat \<Rightarrow> nat" where
  "page_align n = (n + 4095) div 4096 * 4096"

definition allocate_cbuf_mem :: "nat \<Rightarrow> cbuf_state \<Rightarrow> (ptr \<times> cbuf_state) option" where
  "allocate_cbuf_mem want s = do {
     (head_buf, last_buf, bm, h) \<leftarrow> alloc_loop (page_align want) 0 0 (cbuf_bitmap s) (heap s);
     Some (head_buf,
       s\<lparr>cbuf_bitmap := bm, heap :=
         (if head_buf = 0 then h
          else
            let h1 = h(head_buf := (h head_buf)\<lparr>c_flags := c_flags (h head_buf) OR CBUF_FLAG_CHAIN_HEAD\<rparr>);
                h2 = h1(last_buf := (h1 last_buf)\<lparr>c_flags := c_flags (h1 last_buf) OR CBUF_FLAG_CHAIN_TAIL\<rparr>)
            in h2(last_buf := (h2 last_buf)\<lparr>c_next := 0\<rparr>))\<rparr>)
   }"

section \<open>Freeing and taking chains\<close>

partial_function (option) clear_chain :: "ptr \<Rightarrow> ptr \<Rightarrow> heap \<Rightarrow> (ptr \<times> heap) option" where
  "clear_chain buf tail h =
     (if buf = 0 then Some (tail, h)
      else let h' = h(buf := initialize_cbuf (h buf)) in clear_chain (c_next (h' buf)) buf h')"

definition cbuf_free_chain :: "ptr \<Rightarrow> cbuf_state \<Rightarrow> cbuf_state option" where
  "cbuf_free_chain buf s =
     (if buf = 0 then Some s
      else do {
        (tail, h) \<leftarrow> clear_chain buf 0 (heap s);
        Some (s\<lparr>heap := h(tail := (h tail)\<lparr>c_next := cbuf_free_list s\<rparr>), cbuf_free_list := buf\<rparr>)
      })"

definition cbuf_free_chain_noblock :: "ptr \<Rightarrow> cbuf_state \<Rightarrow> cbuf_state option" where
  "cbuf_free_chain_noblock buf s =
     (if buf = 0 then Some s
      else do {
        (tail, h) \<leftarrow> clear_chain buf 0 (heap s);
        Some (s\<lparr>heap := h(tail := (h tail)\<lparr>c_next := cbuf_free_noblock_list s\<rparr>),
               cbuf_free_noblock_list := buf\<rparr>)
      })"

partial_function (option) get_loop ::
  "nat \<Rightarrow> ptr \<Rightarrow> ptr \<Rightarrow> nat \<Rightarrow> cbuf_state \<Rightarrow> (ptr \<times> ptr \<times> nat \<times> cbuf_state) option" where
  "get_loop len chn tail chain_len s =
     (if chain_len < len then
        if cbuf_free_list s = 0 then do {
          (temp, s1) \<leftarrow> allocate_cbuf_mem ALLOCATE_CHUNK s;
          if temp = 0 then do {
            s2 \<leftarrow> (if chn \<noteq> 0 then cbuf_free_chain chn s1 else Some s1);
            Some (0, 0, chain_len, s2)
          }
          else do {
            s2 \<leftarrow> cbuf_free_chain temp s1;
            get_loop len chn tail chain_len s2
          }
        }
        else
          let temp = cbuf_free_list s;
              s1 = s\<lparr>cbuf_free_list := c_next (heap s temp),
                     heap := (heap s)(temp := (heap s temp)\<lparr>c_flags := 0, c_next := chn\<rparr>)\<rparr>
          in get_loop len temp (if chn = 0 then temp else tail)
               (chain_len + c_len (heap s1 temp)) s1
      else Some (chn, tail, chain_len, s))"

definition fixup_chain :: "ptr \<Rightarrow> ptr \<Rightarrow> nat \<Rightarrow> nat \<Rightarrow> heap \<Rightarrow> heap" where
  "fixup_chain chn tail chain_len len h =
     (let h1 = h(chn := (h chn)\<lparr>total_len := len,
                   c_flags := c_flags (h chn) OR CBUF_FLAG_CHAIN_HEAD\<rparr>)
      in h1(tail := (h1 tail)\<lparr>c_len := c_len (h1 tail) - (chain_len - len),
              c_flags := c_flags (h1 tail) OR CBUF_FLAG_CHAIN_TAIL\<rparr>))"

definition cbuf_get_chain :: "nat \<Rightarrow> cbuf_state \<Rightarrow> (ptr \<times> cbuf_state) option" where
  "cbuf_get_chain len s =
     (if len = 0 then None
      else do {
        (chn, tail, chain_len, s1) \<leftarrow> get_loop len 0 0 0 s;
        if chn = 0 then Some (0, s1)
        else Some (chn, s1\<lparr>heap := fixup_chain chn tail chain_len len (heap s1)\<rparr>)
      })"

partial_function (option) get_noblock_loop ::
  "nat \<Rightarrow> ptr \<Rightarrow> ptr \<Rightarrow> nat \<Rightarrow> cbuf_state \<Rightarrow> (ptr \<times> ptr \<times> nat \<times> cbuf_state) option" where
  "get_noblock_loop len chn tail chain_len s =
     (if chain_len < len then
        if cbuf_free_noblock_list s = 0 then do {
          s1 \<leftarrow> (if chn \<noteq> 0 then cbuf_free_chain_noblock chn s else Some s);
          Some (0, 0, chain_len, s1)
        }
        else
          let temp = cbuf_free_noblock_list s;
              s1 = s\<lparr>cbuf_free_noblock_list := c_next (heap s temp),
                     heap := (heap s)(temp := (heap s temp)\<lparr>c_next := chn\<rparr>)\<rparr>
          in get_noblock_loop len temp (if chn = 0 then temp else tail)
               (chain_len + c_len (heap s1 temp)) s1
      else Some (chn, tail, chain_len, s))"

definition cbuf_get_chain_noblock :: "nat \<Rightarrow> cbuf_state \<Rightarrow> (ptr \<times> cbuf_state) option" where
  "cbuf_get_chain_noblock len s = do {
     (chn, tail, chain_len, s1) \<leftarrow> get_noblock_loop len 0 0 0 s;
     if chn = 0 then (if len = 0 then None else Some (0, s1))
     else Some (chn, s1\<lparr>heap := fixup_chain chn tail chain_len len (heap s1)\<rparr>)
   }"

section \<open>Copying\<close>

definition mem_read :: "cbuf \<Rightarrow> nat \<Rightarrow> nat \<Rightarrow> byte list option" where
  "mem_read b off n =
     (if c_data b + off + n \<le> length (c_dat b) then Some (take n (drop (c_data b + off) (c_dat b)))
      else None)"

definition mem_write :: "cbuf \<Rightarrow> nat \<Rightarrow> byte list \<Rightarrow> cbuf option" where
  "mem_write b off xs =
     (let i = c_data b + off
      in if i + length xs \<le> length (c_dat b) then
           Some (b\<lparr>c_dat := take i (c_dat b) @ xs @ drop (i + length xs) (c_dat b)\<rparr>)
         else None)"

text \<open>The search for the cell that holds \<open>offset\<close>: \<open>Inl\<close> when the chain ends too early.\<close>

partial_function (option) find_start :: "heap \<Rightarrow> ptr \<Rightarrow> nat \<Rightarrow> (int + ptr \<times> nat) option" where
  "find_start h buf offset =
     (if offset = 0 then Some (Inr (buf, 0))
      else if buf = 0 then Some (Inl ERR_GENERAL)
      else if offset < c_len (h buf) then Some (Inr (buf, offset))
      else find_start h (c_next (h buf)) (offset - c_len (h buf)))"

partial_function (option) copy_to_loop :: "ptr \<Rightarrow> nat \<Rightarrow> byte list \<Rightarrow> heap \<Rightarrow> (int \<times> heap) option" where
  "copy_to_loop buf buf_offset src h =
     (if src = [] then Some (NO_ERROR, h)
      else if buf = 0 then None
      else do {
        let to_copy = min (length src) (c_len (h buf) - buf_offset);
        b \<leftarrow> mem_write (h buf) buf_offset (take to_copy src);
        copy_to_loop (c_next (h buf)) 0 (drop to_copy src) (h(buf := b))
      })"

definition cbuf_memcpy_to_chain :: "ptr \<Rightarrow> nat \<Rightarrow> byte list \<Rightarrow> heap \<Rightarrow> (int \<times> heap) option" where
  "cbuf_memcpy_to_chain chn offset src h =
     (if chn = 0 then None
      else if size_t_add offset (length src) > total_len (h chn) then None
      else do {
        r \<leftarrow> find_start h chn offset;
        case r of
          Inl e \<Rightarrow> None
        | Inr (buf, buf_offset) \<Rightarrow> copy_to_loop buf buf_offset src h
      })"

partial_function (option) copy_from_loop ::
  "heap \<Rightarrow> ptr \<Rightarrow> nat \<Rightarrow> nat \<Rightarrow> byte list \<Rightarrow> (int \<times> byte list) option" where
  "copy_from_loop h buf buf_offset len dest =
     (if len = 0 then Some (NO_ERROR, dest)
      else if buf = 0 then Some (ERR_GENERAL, dest)
      else do {
        let to_copy = min len (c_len (h buf) - buf_offset);
        xs \<leftarrow> mem_read (h buf) buf_offset to_copy;
        copy_from_loop h (c_next (h buf)) 0 (len - to_copy) (dest @ xs)
      })"

definition cbuf_memcpy_from_chain :: "ptr \<Rightarrow> nat \<Rightarrow> nat \<Rightarrow> heap \<Rightarrow> (int \<times> byte list) option" where
  "cbuf_memcpy_from_chain chn offset len h =
     (if chn = 0 then None
      else if size_t_add len offset > total_len (h chn) then Some (ERR_INVALID_ARGS, [])
      else do {
        r \<leftarrow> find_start h chn offset;
        case r of
          Inl e \<Rightarrow> Some (e, [])
        | Inr (buf, buf_offset) \<Rightarrow> copy_from_loop h buf buf_offset len []
      })"

text \<open>The user variants copy with \<open>user_memcpy\<close>, a parameter: for the user address and the bytes
  of a piece it gives its result and how many bytes it moved before a fault.  The assignment in
  \<open>(err = user_memcpy(...) < 0)\<close> stores the comparison.\<close>

type_synonym user_copy = "nat \<Rightarrow> byte list \<Rightarrow> int \<times> nat"

partial_function (option) user_copy_to_loop ::
  "user_copy \<Rightarrow> ptr \<Rightarrow> nat \<Rightarrow> nat \<Rightarrow> byte list \<Rightarrow> int \<Rightarrow> heap \<Rightarrow> (int \<times> heap) option" where
  "user_copy_to_loop user_memcpy buf buf_offset uaddr src err h =
     (if src = [] then Some (err, h)
      else if buf = 0 then Some (ERR_GENERAL, h)
      else do {
        let to_copy = min (length src) (c_len (h buf) - buf_offset);
        let r = user_memcpy uaddr (take to_copy src);
        let err' = (if fst r < 0 then 1 else 0);
        if err' \<noteq> 0 then do {
          b \<leftarrow> mem_write (h buf) buf_offset (take (min (snd r) to_copy) src);
          Some (err', h(buf := b))
        }
        else do {
          b \<leftarrow> mem_write (h buf) buf_offset (take to_copy src);
          user_copy_to_loop user_memcpy (c_next (h buf)) 0 (uaddr + to_copy) (drop to_copy src) err'
            (h(buf := b))
        }
      })"

definition cbuf_user_memcpy_to_chain ::
  "user_copy \<Rightarrow> ptr \<Rightarrow> nat \<Rightarrow> nat \<Rightarrow> byte list \<Rightarrow> heap \<Rightarrow> (int \<times> heap) option" where
  "cbuf_user_memcpy_to_chain user_memcpy chn offset uaddr src h =
     (if chn = 0 then None
      else if size_t_add (length src) offset > total_len (h chn) then Some (ERR_INVALID_ARGS, h)
      else do {
        r \<leftarrow> find_start h chn offset;
        case r of
          Inl e \<Rightarrow> Some (e, h)
        | Inr (buf, buf_offset) \<Rightarrow>
            user_copy_to_loop user_memcpy buf buf_offset uaddr src NO_ERROR h
      })"

partial_function (option) user_copy_from_loop ::
  "user_copy \<Rightarrow> heap \<Rightarrow> ptr \<Rightarrow> nat \<Rightarrow> nat \<Rightarrow> nat \<Rightarrow> int \<Rightarrow> byte list \<Rightarrow> (int \<times> byte list) option" where
  "user_copy_from_loop user_memcpy h buf buf_offset uaddr len err dest =
     (if len = 0 then Some (err, dest)
      else if buf = 0 then Some (ERR_GENERAL, dest)
      else do {
        let to_copy = min len (c_len (h buf) - buf_offset);
        xs \<leftarrow> mem_read (h buf) buf_offset to_copy;
        let r = user_memcpy uaddr xs;
        let err' = (if fst r < 0 then 1 else 0);
        if err' \<noteq> 0 then Some (err', dest @ take (snd r) xs)
        else user_copy_from_loop user_memcpy h (c_next (h buf)) 0 (uaddr + to_copy) (len - to_copy)
               err' (dest @ xs)
      })"

definition cbuf_user_memcpy_from_chain ::
  "user_copy \<Rightarrow> nat \<Rightarrow> ptr \<Rightarrow> nat \<Rightarrow> nat \<Rightarrow> heap \<Rightarrow> (int \<times> byte list) option" where
  "cbuf_user_memcpy_from_chain user_memcpy uaddr chn offset len h =
     (if chn = 0 then None
      else if size_t_add len offset > total_len (h chn) then Some (ERR_INVALID_ARGS, [])
      else do {
        r \<leftarrow> find_start h chn offset;
        case r of
          Inl e \<Rightarrow> Some (e, [])
        | Inr (buf, buf_offset) \<Rightarrow>
            user_copy_from_loop user_memcpy h buf buf_offset uaddr len NO_ERROR []
      })"

section \<open>Duplicating, merging, measuring\<close>

partial_function (option) sum_len :: "heap \<Rightarrow> ptr \<Rightarrow> nat \<Rightarrow> nat option" where
  "sum_len h buf len =
     (if buf = 0 then Some len else sum_len h (c_next (h buf)) (len + c_len (h buf)))"

definition cbuf_get_len :: "ptr \<Rightarrow> heap \<Rightarrow> nat option" where
  "cbuf_get_len buf h =
     (if buf = 0 then Some 0
      else if c_flags (h buf) AND CBUF_FLAG_CHAIN_HEAD \<noteq> 0 then Some (total_len (h buf))
      else sum_len h buf 0)"

text \<open>The address of byte \<open>offset\<close>, as a cell and the offset in its \<open>dat\<close>; \<open>None\<close> inside is NULL.\<close>

partial_function (option) cbuf_get_ptr :: "heap \<Rightarrow> ptr \<Rightarrow> nat \<Rightarrow> (ptr \<times> nat) option option" where
  "cbuf_get_ptr h buf offset =
     (if buf = 0 then Some None
      else if c_len (h buf) > offset then Some (Some (buf, c_data (h buf) + offset))
      else cbuf_get_ptr h (c_next (h buf)) (offset - c_len (h buf)))"

text \<open>\<open>end\<close> is unsigned: when a cell before the region is longer than \<open>end\<close> it wraps.\<close>

partial_function (option) cbuf_is_contig_region :: "heap \<Rightarrow> ptr \<Rightarrow> nat \<Rightarrow> nat \<Rightarrow> bool option" where
  "cbuf_is_contig_region h buf start e =
     (if buf = 0 then Some False
      else if c_len (h buf) > start then Some (c_len (h buf) - start \<ge> e)
      else cbuf_is_contig_region h (c_next (h buf)) (start - c_len (h buf)) (size_t_sub e (c_len (h buf))))"

partial_function (option) chain_tail :: "heap \<Rightarrow> ptr \<Rightarrow> ptr option" where
  "chain_tail h buf = (if c_next (h buf) = 0 then Some buf else chain_tail h (c_next (h buf)))"

definition cbuf_merge_chains :: "ptr \<Rightarrow> ptr \<Rightarrow> heap \<Rightarrow> (ptr \<times> heap) option" where
  "cbuf_merge_chains chain1 chain2 h =
     (if chain1 = 0 \<and> chain2 = 0 then Some (0, h)
      else if chain1 = 0 then Some (chain2, h)
      else if chain2 = 0 then Some (chain1, h)
      else if chain1 = chain2 then Some (chain1, h)
      else do {
        buf \<leftarrow> chain_tail h chain1;
        let h1 = h(buf := (h buf)\<lparr>c_next := chain2\<rparr>);
        let h2 = h1(buf := (h1 buf)\<lparr>c_flags := c_flags (h1 buf) AND NOT CBUF_FLAG_CHAIN_TAIL\<rparr>);
        let h3 = h2(chain1 := (h2 chain1)\<lparr>total_len := total_len (h2 chain1) + total_len (h2 chain2)\<rparr>);
        let h4 = h3(chain2 := (h3 chain2)\<lparr>c_flags := c_flags (h3 chain2) AND NOT CBUF_FLAG_CHAIN_HEAD\<rparr>);
        Some (chain1, h4)
      })"

section \<open>Truncating and extending\<close>

partial_function (option) trunc_head_loop ::
  "bool \<Rightarrow> ptr \<Rightarrow> ptr \<Rightarrow> nat \<Rightarrow> ptr \<Rightarrow> heap \<Rightarrow> (ptr \<times> heap) option" where
  "trunc_head_loop free_unused head buf trunc_bytes tail h =
     (if buf \<noteq> 0 \<and> trunc_bytes > 0 then
        let to_trunc = min trunc_bytes (c_len (h buf));
            h1 = h(buf := (h buf)\<lparr>c_len := c_len (h buf) - to_trunc, c_data := c_data (h buf) + to_trunc\<rparr>);
            h2 = h1(head := (h1 head)\<lparr>total_len := total_len (h1 head) - to_trunc\<rparr>)
        in trunc_head_loop free_unused head (c_next (h2 buf)) (trunc_bytes - to_trunc)
             (if free_unused \<and> c_len (h2 buf) = 0 then buf else tail) h2
      else Some (tail, h))"

definition cbuf_truncate_head :: "ptr \<Rightarrow> nat \<Rightarrow> bool \<Rightarrow> cbuf_state \<Rightarrow> (ptr \<times> cbuf_state) option" where
  "cbuf_truncate_head buf trunc_bytes free_unused s =
     (if buf = 0 then Some (0, s)
      else do {
        (tail, h) \<leftarrow> trunc_head_loop free_unused buf buf trunc_bytes 0 (heap s);
        if tail = 0 then Some (buf, s\<lparr>heap := h\<rparr>)
        else do {
          let nbuf = c_next (h tail);
          let h1 = h(tail := (h tail)\<lparr>c_next := 0, c_flags := c_flags (h tail) OR CBUF_FLAG_CHAIN_TAIL\<rparr>);
          let h2 = (if nbuf \<noteq> 0 then
                      h1(nbuf := (h1 nbuf)\<lparr>total_len := total_len (h1 buf),
                           c_flags := c_flags (h1 nbuf) OR CBUF_FLAG_CHAIN_HEAD,
                           packet_next := packet_next (h1 buf)\<rparr>)
                    else h1);
          s' \<leftarrow> cbuf_free_chain buf (s\<lparr>heap := h2\<rparr>);
          Some (nbuf, s')
        }
      })"

partial_function (option) trunc_find :: "heap \<Rightarrow> ptr \<Rightarrow> nat \<Rightarrow> (ptr \<times> nat) option" where
  "trunc_find h buf offset =
     (if buf = 0 then Some (0, offset)
      else if offset \<le> c_len (h buf) then Some (buf, offset)
      else trunc_find h (c_next (h buf)) (offset - c_len (h buf)))"

partial_function (option) trunc_tail_loop ::
  "bool \<Rightarrow> ptr \<Rightarrow> ptr \<Rightarrow> ptr \<Rightarrow> heap \<Rightarrow> (ptr \<times> heap) option" where
  "trunc_tail_loop free_unused head buf free_chain h =
     (if buf \<noteq> 0 then
        let h1 = h(head := (h head)\<lparr>total_len := total_len (h head) - c_len (h buf)\<rparr>);
            nxt = c_next (h1 buf)
        in if free_unused then
             trunc_tail_loop free_unused head nxt buf (h1(buf := (h1 buf)\<lparr>c_next := free_chain\<rparr>))
           else trunc_tail_loop free_unused head nxt free_chain h1
      else Some (free_chain, h))"

definition cbuf_truncate_tail :: "ptr \<Rightarrow> nat \<Rightarrow> bool \<Rightarrow> cbuf_state \<Rightarrow> (int \<times> cbuf_state) option" where
  "cbuf_truncate_tail buf trunc_bytes free_unused s =
     (if buf = 0 then None
      else do {
        let h = heap s;
        let trunc_bytes' = min trunc_bytes (total_len (h buf));
        (b, offset) \<leftarrow> trunc_find h buf (total_len (h buf) - trunc_bytes');
        if b = 0 then Some (ERR_GENERAL, s)
        else do {
          let h1 = h(buf := (h buf)\<lparr>total_len := total_len (h buf) - (c_len (h b) - offset)\<rparr>);
          let h2 = h1(b := (h1 b)\<lparr>c_len := offset\<rparr>);
          let h3 = (if free_unused then
                      h2(b := (h2 b)\<lparr>c_flags := c_flags (h2 b) OR CBUF_FLAG_CHAIN_TAIL\<rparr>)
                    else h2);
          (free_chain, h4) \<leftarrow> trunc_tail_loop free_unused buf (c_next (h3 b)) 0 h3;
          s' \<leftarrow> (if free_chain \<noteq> 0 then cbuf_free_chain free_chain (s\<lparr>heap := h4\<rparr>)
                 else Some (s\<lparr>heap := h4\<rparr>));
          Some (NO_ERROR, s')
        }
      })"

text \<open>\<open>cbuf_extend_head\<close> never stores into \<open>*_buf\<close>: the new head is only a local.  The result
  carries it besides the error code, for the statements about it.\<close>

definition cbuf_extend_head :: "ptr \<Rightarrow> nat \<Rightarrow> cbuf_state \<Rightarrow> (int \<times> ptr \<times> cbuf_state) option" where
  "cbuf_extend_head buf extend_bytes s =
     (if buf = 0 then Some (ERR_INVALID_ARGS, 0, s)
      else do {
        let h = heap s;
        let to_extend = (if c_len (h buf) < DAT_LEN \<and> c_data (h buf) \<noteq> 0
                         then min (c_data (h buf)) extend_bytes else 0);
        let s1 = s\<lparr>heap := h(buf := (h buf)\<lparr>c_len := c_len (h buf) + to_extend,
                                             c_data := c_data (h buf) - to_extend\<rparr>)\<rparr>;
        if extend_bytes - to_extend > 0 then do {
          (new_buf, s2) \<leftarrow> cbuf_get_chain (extend_bytes - to_extend) s1;
          if new_buf = 0 then Some (ERR_NO_MEMORY, buf, s2)
          else do {
            let h2 = heap s2;
            let h3 = (if c_next (h2 new_buf) = 0 then
                        h2(buf := (h2 buf)\<lparr>c_data := c_data (h2 buf) + (DAT_LEN - c_len (h2 new_buf))\<rparr>)
                      else h2);
            (m, h4) \<leftarrow> cbuf_merge_chains new_buf buf h3;
            Some (NO_ERROR, m, s2\<lparr>heap := h4\<rparr>)
          }
        }
        else Some (NO_ERROR, buf, s1)
      })"

definition cbuf_extend_tail :: "ptr \<Rightarrow> nat \<Rightarrow> cbuf_state \<Rightarrow> (int \<times> cbuf_state) option" where
  "cbuf_extend_tail head extend_bytes s =
     (if head = 0 then Some (ERR_INVALID_ARGS, s)
      else do {
        let h = heap s;
        temp \<leftarrow> chain_tail h head;
        let available = DAT_LEN - (c_len (h temp) + c_data (h temp));
        let extend_by = min available extend_bytes;
        let h1 = h(temp := (h temp)\<lparr>c_len := c_len (h temp) + extend_by\<rparr>);
        let h2 = h1(head := (h1 head)\<lparr>total_len := total_len (h1 head) + extend_by\<rparr>);
        if extend_bytes - extend_by > 0 then do {
          (new_buf, s2) \<leftarrow> cbuf_get_chain (extend_bytes - extend_by) (s\<lparr>heap := h2\<rparr>);
          if new_buf = 0 then Some (ERR_NO_MEMORY, s2)
          else do {
            (m, h3) \<leftarrow> cbuf_merge_chains head new_buf (heap s2);
            Some (NO_ERROR, s2\<lparr>heap := h3\<rparr>)
          }
        }
        else Some (NO_ERROR, s\<lparr>heap := h2\<rparr>)
      })"

partial_function (option) dup_loop ::
  "ptr \<Rightarrow> nat \<Rightarrow> ptr \<Rightarrow> nat \<Rightarrow> nat \<Rightarrow> heap \<Rightarrow> (bool \<times> heap) option" where
  "dup_loop buf buf_offset destbuf dest_buf_offset len h =
     (if len = 0 then Some (True, h)
      else if buf = 0 \<or> destbuf = 0 then Some (False, h)
      else do {
        let to_copy = min (min (c_len (h destbuf) - dest_buf_offset) (c_len (h buf) - buf_offset)) len;
        xs \<leftarrow> mem_read (h buf) buf_offset to_copy;
        b \<leftarrow> mem_write (h destbuf) dest_buf_offset xs;
        let h1 = h(destbuf := b);
        let (buf', bo) = (if to_copy + buf_offset = c_len (h1 buf) then (c_next (h1 buf), 0)
                          else (buf, buf_offset + to_copy));
        let (destbuf', dbo) = (if to_copy + dest_buf_offset = c_len (h1 destbuf)
                               then (c_next (h1 destbuf), 0)
                               else (destbuf, dest_buf_offset + to_copy));
        dup_loop buf' bo destbuf' dbo (len - to_copy) h1
      })"

definition cbuf_duplicate_chain ::
  "ptr \<Rightarrow> nat \<Rightarrow> nat \<Rightarrow> nat \<Rightarrow> cbuf_state \<Rightarrow> (ptr \<times> cbuf_state) option" where
  "cbuf_duplicate_chain chn offset len leading_space s =
     (if chn = 0 then Some (0, s)
      else if total_len (heap s chn) \<le> offset then Some (0, s)
      else do {
        let len' = min len (total_len (heap s chn) - offset);
        (newbuf, s1) \<leftarrow> cbuf_get_chain (len' + leading_space) s;
        if newbuf = 0 then Some (0, s1)
        else do {
          s2 \<leftarrow> (if leading_space > 0 then map_option snd (cbuf_truncate_head newbuf leading_space False s1)
                 else Some s1);
          r \<leftarrow> find_start (heap s2) chn offset;
          case r of
            Inl e \<Rightarrow> do { s3 \<leftarrow> cbuf_free_chain newbuf s2; Some (0, s3) }
          | Inr (buf, buf_offset) \<Rightarrow> do {
              (done, h) \<leftarrow> dup_loop buf buf_offset newbuf 0 len' (heap s2);
              if done then Some (newbuf, s2\<lparr>heap := h\<rparr>)
              else do { s3 \<leftarrow> cbuf_free_chain newbuf (s2\<lparr>heap := h\<rparr>); Some (0, s3) }
            }
        }
      })"

section \<open>Checksums over chains\<close>

definition swap_sum :: "u16 \<Rightarrow> u16" where
  "swap_sum csum = push_bit 8 (csum AND 0xff) OR (drop_bit 8 csum AND 0xff)"

partial_function (option) cksum_find :: "heap \<Rightarrow> ptr \<Rightarrow> nat \<Rightarrow> (ptr \<times> nat) option" where
  "cksum_find h buf offset =
     (if buf = 0 then Some (0, offset)
      else if c_len (h buf) > offset then Some (buf, offset)
      else cksum_find h (c_next (h buf)) (offset - c_len (h buf)))"

partial_function (option) cksum_loop ::
  "heap \<Rightarrow> ptr \<Rightarrow> nat \<Rightarrow> nat \<Rightarrow> u16 \<Rightarrow> bool \<Rightarrow> (u16 \<times> bool) option" where
  "cksum_loop h buf offset len csum swapped =
     (if buf \<noteq> 0 \<and> len > 0 then do {
        let plen = min len (c_len (h buf) - offset);
        xs \<leftarrow> mem_read (h buf) offset plen;
        let sum1 = ones_sum16 (ucast csum) xs;
        let len1 = len - plen;
        let buf1 = c_next (h buf);
        if buf1 \<noteq> 0 \<and> len1 > 0 \<and> (odd offset \<and> even plen \<or> even offset \<and> odd plen)
        then cksum_loop h buf1 0 len1 (swap_sum sum1) (\<not> swapped)
        else cksum_loop h buf1 0 len1 sum1 swapped
      }
      else Some (csum, swapped))"

definition cbuf_ones_sum16 :: "heap \<Rightarrow> ptr \<Rightarrow> nat \<Rightarrow> nat \<Rightarrow> u16 \<Rightarrow> u16 option" where
  "cbuf_ones_sum16 h buf offset len csum =
     (if buf = 0 then Some csum
      else do {
        (b, off) \<leftarrow> cksum_find h buf offset;
        (sum1, swapped) \<leftarrow> cksum_loop h b off len csum False;
        Some (if swapped then swap_sum sum1 else sum1)
      })"

definition cbuf_ones_cksum16 :: "heap \<Rightarrow> ptr \<Rightarrow> nat \<Rightarrow> nat \<Rightarrow> u16 option" where
  "cbuf_ones_cksum16 h chn offset len = map_option (\<lambda>s. NOT s) (cbuf_ones_sum16 h chn offset len 0)"

definition cbuf_ones_cksum16_2 :: "heap \<Rightarrow> ptr \<Rightarrow> nat \<Rightarrow> nat \<Rightarrow> byte list \<Rightarrow> u16 option" where
  "cbuf_ones_cksum16_2 h chn offset len buf =
     map_option (\<lambda>s. NOT s) (cbuf_ones_sum16 h chn offset len (ones_sum16 0 buf))"

section \<open>Initialisation\<close>

text \<open>\<open>region\<close> and \<open>bitmap_region\<close> are the results of \<open>vm_create_anonymous_region\<close>, \<open>err\<close> the
  uninitialised local the first test reads.\<close>

definition cbuf_init :: "int \<Rightarrow> int \<Rightarrow> cbuf_state \<Rightarrow> (int \<times> cbuf_state) option" where
  "cbuf_init err region s =
     (if err < 0 \<or> region < 0 then None
      else do {
        let s1 = s\<lparr>cbuf_free_list := 0, cbuf_free_noblock_list := 0,
                    cbuf_bitmap := replicate (CBUF_BITMAP_SIZE div 8) 0\<rparr>;
        (buf, s2) \<leftarrow> allocate_cbuf_mem ALLOCATE_CHUNK s1;
        if buf = 0 then Some (ERR_NO_MEMORY, s2)
        else do {
          s3 \<leftarrow> cbuf_free_chain buf s2;
          Some (NO_ERROR, s3)
        }
      })"

end
