(* ===== verification/Cbuf_Chain.thy ===== *)
theory Cbuf_Chain
  imports Cbuf
begin

text \<open>
  Chains of cbufs as byte strings: the chain predicate (what \<open>validate_cbuf\<close> checks), the content
  of a chain, and the operations of \<^verbatim>\<open>SkyCore/Net/cbuf.c\<close> that only read or rewrite chains, related to
  \<open>take\<close>, \<open>drop\<close>, \<open>@\<close> and the checksum on that content.
\<close>

section \<open>Cells, chains and their content\<close>

definition wf_cell :: "cbuf \<Rightarrow> bool" where
  "wf_cell b \<longleftrightarrow> c_data b + c_len b \<le> DAT_LEN \<and> length (c_dat b) = DAT_LEN"

definition cell_bytes :: "cbuf \<Rightarrow> byte list" where
  "cell_bytes b = take (c_len b) (drop (c_data b) (c_dat b))"

definition content :: "heap \<Rightarrow> ptr list \<Rightarrow> byte list" where
  "content h bs = concat (map (\<lambda>b. cell_bytes (h b)) bs)"

abbreviation nexts :: "heap \<Rightarrow> ptr \<Rightarrow> ptr" where
  "nexts h \<equiv> \<lambda>b. c_next (h b)"

definition cells :: "heap \<Rightarrow> ptr \<Rightarrow> ptr list \<Rightarrow> bool" where
  "cells h p bs \<longleftrightarrow> chain (nexts h) p bs \<and> (\<forall>b \<in> set bs. wf_cell (h b))"

lemma length_cell_bytes [simp]: "wf_cell b \<Longrightarrow> length (cell_bytes b) = c_len b"
  by (auto simp: wf_cell_def cell_bytes_def)

lemma cells_Nil [simp]: "cells h p [] \<longleftrightarrow> p = 0"
  by (simp add: cells_def)

lemma cells_Cons [simp]:
  "cells h p (b # bs) \<longleftrightarrow> p = b \<and> b \<noteq> 0 \<and> wf_cell (h b) \<and> cells h (c_next (h b)) bs"
  by (auto simp: cells_def)

lemma cells_null [simp]: "cells h 0 bs \<longleftrightarrow> bs = []"
  by (auto simp: cells_def)

lemma cells_distinct: "cells h p bs \<Longrightarrow> distinct bs"
  by (auto simp: cells_def intro: chain_distinct)

lemma cells_nonnull: "cells h p bs \<Longrightarrow> 0 \<notin> set bs"
  by (auto simp: cells_def dest: seg_nonnull)

lemma cells_cong:
  assumes "\<And>b. b \<in> set bs \<Longrightarrow> h' b = h b"
  shows "cells h' p bs = cells h p bs" and "content h' bs = content h bs"
proof -
  have "chain (nexts h') p bs = chain (nexts h) p bs"
    by (rule seg_cong) (simp add: assms)
  then show "cells h' p bs = cells h p bs"
    by (auto simp: cells_def assms)
  show "content h' bs = content h bs"
    unfolding content_def by (rule arg_cong [where f = concat]) (simp add: assms)
qed

lemma cells_upd [simp]: "b \<notin> set bs \<Longrightarrow> cells (h(b := c)) p bs = cells h p bs"
  by (rule cells_cong) auto

lemma content_upd [simp]: "b \<notin> set bs \<Longrightarrow> content (h(b := c)) bs = content h bs"
  by (rule cells_cong) auto

lemma content_simps [simp]:
  "content h [] = []" "content h (b # bs) = cell_bytes (h b) @ content h bs"
  "content h (xs @ ys) = content h xs @ content h ys"
  by (simp_all add: content_def)

lemma cell_bytes_cong:
  "c_len b' = c_len b \<Longrightarrow> c_data b' = c_data b \<Longrightarrow> c_dat b' = c_dat b \<Longrightarrow> cell_bytes b' = cell_bytes b"
  by (simp add: cell_bytes_def)

lemma wf_cell_cong:
  "c_len b' = c_len b \<Longrightarrow> c_data b' = c_data b \<Longrightarrow> c_dat b' = c_dat b \<Longrightarrow> wf_cell b' = wf_cell b"
  by (simp add: wf_cell_def)

lemma cells_frame:
  assumes "\<And>b. b \<in> set bs \<Longrightarrow> c_next (h' b) = c_next (h b) \<and> c_len (h' b) = c_len (h b) \<and>
    c_data (h' b) = c_data (h b) \<and> c_dat (h' b) = c_dat (h b)"
  shows "cells h' p bs = cells h p bs" and "content h' bs = content h bs"
proof -
  have "chain (nexts h') p bs = chain (nexts h) p bs"
    by (rule seg_cong) (simp add: assms)
  moreover have "wf_cell (h' b) = wf_cell (h b)" if "b \<in> set bs" for b
    using assms [OF that] by (intro wf_cell_cong) simp_all
  ultimately show "cells h' p bs = cells h p bs"
    by (simp add: cells_def)
  have "map (\<lambda>b. cell_bytes (h' b)) bs = map (\<lambda>b. cell_bytes (h b)) bs"
    by (rule map_cong [OF refl], rule cell_bytes_cong) (simp_all add: assms)
  then show "content h' bs = content h bs"
    unfolding content_def by (simp only:)
qed

text \<open>A packet: a well-formed chain whose head carries the total length, with the head and tail
  flags exactly on the ends.\<close>

definition flags_ok :: "heap \<Rightarrow> ptr list \<Rightarrow> bool" where
  "flags_ok h bs \<longleftrightarrow>
     (\<forall>b \<in> set (butlast bs). c_flags (h b) AND CBUF_FLAG_CHAIN_TAIL = 0) \<and>
     (\<forall>b \<in> set (tl bs). c_flags (h b) AND CBUF_FLAG_CHAIN_HEAD = 0) \<and>
     c_flags (h (hd bs)) AND CBUF_FLAG_CHAIN_HEAD \<noteq> 0 \<and>
     c_flags (h (last bs)) AND CBUF_FLAG_CHAIN_TAIL \<noteq> 0"

definition pkt :: "heap \<Rightarrow> ptr \<Rightarrow> ptr list \<Rightarrow> byte list \<Rightarrow> bool" where
  "pkt h p bs xs \<longleftrightarrow> p \<noteq> 0 \<and> cells h p bs \<and> content h bs = xs \<and> total_len (h p) = length xs \<and>
     flags_ok h bs"

lemma validate_walk_cells:
  "cells h p bs \<Longrightarrow> head \<notin> set bs \<Longrightarrow> tl' \<noteq> 0 \<Longrightarrow>
   validate_walk h head tl' p n = Some
     ((\<forall>b \<in> set bs. c_flags (h b) AND CBUF_FLAG_CHAIN_HEAD = 0) \<and>
      (\<forall>b \<in> set (butlast bs). c_flags (h b) AND CBUF_FLAG_CHAIN_TAIL = 0) \<and>
      c_flags (h (last (tl' # bs))) AND CBUF_FLAG_CHAIN_TAIL \<noteq> 0 \<and>
      n + length (content h bs) = total_len (h head))"
proof (induction bs arbitrary: p n tl')
  case (Cons b bs)
  have wf: "c_len (h b) \<le> DAT_LEN" "c_data (h b) \<le> DAT_LEN"
    using Cons.prems by (auto simp: wf_cell_def)
  have "c_next (h b) \<noteq> 0 \<longleftrightarrow> bs \<noteq> []"
    using Cons.prems by (cases bs) auto
  then show ?case
    using Cons.prems Cons.IH [of "c_next (h b)" b "n + c_len (h b)"] wf
    by (subst validate_walk.simps) (auto simp: add.assoc)
qed (simp add: validate_walk.simps)

lemma validate_cbuf_pkt:
  assumes "cells h p bs" "p \<noteq> 0"
  shows "validate_cbuf h p = Some (pkt h p bs (content h bs))"
proof -
  obtain cs where bs: "bs = p # cs" "cells h (c_next (h p)) cs" "wf_cell (h p)"
    using assms by (cases bs) auto
  have p: "p \<notin> set cs"
    using cells_distinct [OF assms(1)] bs(1) by simp
  have wf: "c_len (h p) \<le> DAT_LEN" "c_data (h p) \<le> DAT_LEN"
    using bs(3) by (auto simp: wf_cell_def)
  have "c_next (h p) \<noteq> 0 \<longleftrightarrow> cs \<noteq> []"
    using bs(2) by (cases cs) auto
  then show ?thesis
    using assms bs wf p validate_walk_cells [OF bs(2) p assms(2), of "c_len (h p)"]
    by (subst validate_cbuf_def) (subst validate_walk.simps, auto simp: pkt_def flags_ok_def)
qed

lemma take_drop_append: "take k xs @ drop k xs @ ys = xs @ ys"
  by (metis append_assoc append_take_drop_id)

section \<open>Reading and writing\<close>

lemma mem_read_cell:
  assumes "wf_cell b" "off + n \<le> c_len b"
  shows "mem_read b off n = Some (take n (drop off (cell_bytes b)))"
  using assms by (auto simp: mem_read_def wf_cell_def cell_bytes_def take_drop add.commute min_def)

lemma mem_write_cell:
  assumes "wf_cell b" "off + length xs \<le> c_len b"
  shows "\<exists>b'. mem_write b off xs = Some b' \<and> wf_cell b' \<and> c_next b' = c_next b \<and>
    c_len b' = c_len b \<and> c_data b' = c_data b \<and> total_len b' = total_len b \<and> c_flags b' = c_flags b \<and>
    packet_next b' = packet_next b \<and>
    cell_bytes b' = take off (cell_bytes b) @ xs @ drop (off + length xs) (cell_bytes b)"
proof -
  let ?i = "c_data b + off"
  have i: "?i + length xs \<le> length (c_dat b)" "length (c_dat b) = DAT_LEN"
    using assms by (auto simp: wf_cell_def)
  have "cell_bytes (b\<lparr>c_dat := take ?i (c_dat b) @ xs @ drop (?i + length xs) (c_dat b)\<rparr>) =
      take off (cell_bytes b) @ xs @ drop (off + length xs) (cell_bytes b)"
  proof -
    let ?D = "drop (c_data b) (c_dat b)"
    have "drop (c_data b) (take ?i (c_dat b) @ xs @ drop (?i + length xs) (c_dat b)) =
        take off ?D @ xs @ drop (off + length xs) ?D"
      using i(1) by (simp add: drop_take add.commute add.left_commute)
    moreover have "take (c_len b) (take off ?D @ xs @ drop (off + length xs) ?D) =
        take off (take (c_len b) ?D) @ xs @ drop (off + length xs) (take (c_len b) ?D)"
      using assms(2) i(1) by (simp add: drop_take min_absorb1 min_absorb2)
    ultimately show ?thesis
      by (simp add: cell_bytes_def)
  qed
  then show ?thesis
    using i assms by (simp add: mem_write_def Let_def wf_cell_def)
qed

lemma find_start_cells:
  assumes "cells h p bs" "off \<le> length (content h bs)"
  shows "\<exists>us vs q bo. find_start h p off = Some (Inr (q, bo)) \<and> bs = us @ vs \<and> cells h q vs \<and>
    off = length (content h us) + bo \<and> (bo = 0 \<or> vs \<noteq> [] \<and> bo < c_len (h q))"
  using assms
proof (induction bs arbitrary: p off)
  case Nil
  then show ?case
    by (simp add: find_start.simps)
next
  case (Cons b bs)
  consider "off = 0" | "off \<noteq> 0" "off < c_len (h b)" | "off \<noteq> 0" "c_len (h b) \<le> off"
    by linarith
  then show ?case
  proof cases
    case 1
    then show ?thesis
      using Cons.prems by (intro exI [of _ "[]"] exI [of _ "b # bs"]) (simp add: find_start.simps)
  next
    case 2
    then show ?thesis
      using Cons.prems by (intro exI [of _ "[]"] exI [of _ "b # bs"]) (simp add: find_start.simps)
  next
    case 3
    have "cells h (c_next (h b)) bs" "off - c_len (h b) \<le> length (content h bs)"
      using Cons.prems by auto
    from Cons.IH [OF this] obtain us vs q bo where
      "find_start h (c_next (h b)) (off - c_len (h b)) = Some (Inr (q, bo))" "bs = us @ vs"
      "cells h q vs" "off - c_len (h b) = length (content h us) + bo"
      "bo = 0 \<or> vs \<noteq> [] \<and> bo < c_len (h q)"
      by blast
    then have "find_start h p off = Some (Inr (q, bo)) \<and> b # bs = (b # us) @ vs \<and> cells h q vs \<and>
        off = length (content h (b # us)) + bo \<and> (bo = 0 \<or> vs \<noteq> [] \<and> bo < c_len (h q))"
      using 3 Cons.prems by (auto simp: find_start.simps [of h b off])
    then show ?thesis
      by blast
  qed
qed

lemma copy_from_loop_cells:
  assumes "cells h p bs" "bo = 0 \<or> bs \<noteq> [] \<and> bo \<le> c_len (h p)"
    and "bo + n \<le> length (content h bs)"
  shows "copy_from_loop h p bo n dest = Some (NO_ERROR, dest @ take n (drop bo (content h bs)))"
  using assms
proof (induction bs arbitrary: p bo n dest)
  case Nil
  then show ?case
    by (simp add: copy_from_loop.simps)
next
  case (Cons b bs)
  let ?k = "min n (c_len (h b) - bo)"
  have wf: "wf_cell (h b)" "p = b" "b \<noteq> 0" and bo: "bo \<le> c_len (h b)"
    using Cons.prems by auto
  have r: "mem_read (h b) bo ?k = Some (take ?k (drop bo (cell_bytes (h b))))"
    using wf bo by (intro mem_read_cell) auto
  have "copy_from_loop h (c_next (h b)) 0 (n - ?k) (dest @ take ?k (drop bo (cell_bytes (h b)))) =
      Some (NO_ERROR, (dest @ take ?k (drop bo (cell_bytes (h b)))) @ take (n - ?k) (drop 0 (content h bs)))"
    using Cons.prems wf bo by (intro Cons.IH) auto
  moreover have "take ?k (drop bo (cell_bytes (h b))) @ take (n - ?k) (content h bs) =
      take n (drop bo (content h (b # bs)))"
    using wf bo by (auto simp: min_def)
  ultimately show ?case
    using r wf by (subst copy_from_loop.simps) (auto simp: Let_def)
qed

text \<open>Two heaps that differ at most in the bytes of the cells \<open>S\<close>.\<close>

definition same_shape :: "ptr set \<Rightarrow> heap \<Rightarrow> heap \<Rightarrow> bool" where
  "same_shape S h h' \<longleftrightarrow> (\<forall>b. b \<notin> S \<longrightarrow> h' b = h b) \<and>
     (\<forall>b. c_next (h' b) = c_next (h b) \<and> c_len (h' b) = c_len (h b) \<and> c_data (h' b) = c_data (h b) \<and>
       total_len (h' b) = total_len (h b) \<and> c_flags (h' b) = c_flags (h b) \<and>
       packet_next (h' b) = packet_next (h b) \<and> length (c_dat (h' b)) = length (c_dat (h b)))"

lemma same_shape_refl [simp]: "same_shape S h h"
  by (simp add: same_shape_def)

lemma same_shape_trans: "same_shape S h h' \<Longrightarrow> same_shape T h' h'' \<Longrightarrow> S \<union> T \<subseteq> U \<Longrightarrow> same_shape U h h''"
  unfolding same_shape_def by (metis Un_iff subsetD)

lemma same_shape_cells: "same_shape S h h' \<Longrightarrow> cells h' p bs = cells h p bs"
proof -
  assume s: "same_shape S h h'"
  have "chain (nexts h') p bs = chain (nexts h) p bs"
    by (rule seg_cong) (use s in \<open>simp add: same_shape_def\<close>)
  then show ?thesis
    using s by (simp add: cells_def wf_cell_def same_shape_def)
qed

lemma same_shape_content: "same_shape S h h' \<Longrightarrow> S \<inter> set bs = {} \<Longrightarrow> content h' bs = content h bs"
  by (rule cells_cong) (auto simp: same_shape_def)

lemma same_shape_flags: "same_shape S h h' \<Longrightarrow> flags_ok h' bs = flags_ok h bs"
  by (simp add: same_shape_def flags_ok_def)

lemma copy_to_loop_cells:
  assumes "cells h p bs" "bo = 0 \<or> bs \<noteq> [] \<and> bo \<le> c_len (h p)"
    and "bo + length src \<le> length (content h bs)"
  shows "\<exists>h'. copy_to_loop p bo src h = Some (NO_ERROR, h') \<and> same_shape (set bs) h h' \<and>
    content h' bs = take bo (content h bs) @ src @ drop (bo + length src) (content h bs)"
  using assms
proof (induction bs arbitrary: p bo src h)
  case Nil
  then show ?case
    by (simp add: copy_to_loop.simps)
next
  case (Cons b bs)
  let ?k = "min (length src) (c_len (h b) - bo)"
  have wf: "wf_cell (h b)" "p = b" "b \<noteq> 0" and bo: "bo \<le> c_len (h b)"
    and nb: "b \<notin> set bs" and c: "cells h (c_next (h b)) bs"
    using Cons.prems cells_distinct [of h p "b # bs"] by auto
  show ?case
  proof (cases "src = []")
    case False
    obtain b' where b': "mem_write (h b) bo (take ?k src) = Some b'"
        "c_next b' = c_next (h b)" "c_len b' = c_len (h b)" "c_data b' = c_data (h b)"
        "total_len b' = total_len (h b)" "c_flags b' = c_flags (h b)"
        "packet_next b' = packet_next (h b)" "wf_cell b'"
        "cell_bytes b' = take bo (cell_bytes (h b)) @ take ?k src @
           drop (bo + length (take ?k src)) (cell_bytes (h b))"
      using mem_write_cell [OF wf(1), of bo "take ?k src"] bo by fastforce
    let ?h = "h(b := b')"
    have c': "cells ?h (c_next (h b)) bs" and cc: "content ?h bs = content h bs"
      using c nb by simp_all
    have len: "0 + length (drop ?k src) \<le> length (content ?h bs)"
      using Cons.prems(3) wf(1) bo cc by auto
    have z: "0 = (0::nat) \<or> bs \<noteq> [] \<and> (0::nat) \<le> c_len (?h (c_next (h b)))"
      by simp
    from Cons.IH [OF c' z len] obtain h' where
        h': "copy_to_loop (c_next (h b)) 0 (drop ?k src) ?h = Some (NO_ERROR, h')"
        "same_shape (set bs) ?h h'"
        "content h' bs = take 0 (content h bs) @ drop ?k src @ drop (0 + length (drop ?k src)) (content h bs)"
      unfolding cc by blast
    have "same_shape {b} h ?h"
      using b' wf(1) by (auto simp: same_shape_def wf_cell_def)
    then have sh: "same_shape (set (b # bs)) h h'"
      using h'(2) by (rule same_shape_trans) auto
    have "h' b = b'"
      using h'(2) nb by (simp add: same_shape_def)
    then have "content h' (b # bs) =
        take bo (content h (b # bs)) @ src @ drop (bo + length src) (content h (b # bs))"
      using h'(3) b'(9) bo wf(1) by (auto simp: min_def add.commute take_drop_append)
    moreover have "copy_to_loop p bo src h = Some (NO_ERROR, h')"
      using False wf b'(1,2) h'(1) by (subst copy_to_loop.simps) (simp add: Let_def)
    ultimately show ?thesis
      using sh by blast
  next
    case True
    have "content h (b # bs) =
        take bo (content h (b # bs)) @ src @ drop (bo + length src) (content h (b # bs))"
      unfolding True by (simp only: list.size add_0_right append_Nil append_take_drop_id)
    moreover have "copy_to_loop p bo src h = Some (NO_ERROR, h)"
      using True by (simp add: copy_to_loop.simps)
    ultimately show ?thesis
      using same_shape_refl by blast
  qed
qed

lemma pktD:
  assumes "pkt h p bs xs"
  shows "p \<noteq> 0" "cells h p bs" "content h bs = xs" "total_len (h p) = length xs" "flags_ok h bs"
    "bs \<noteq> []" "hd bs = p"
proof -
  show *: "p \<noteq> 0" "cells h p bs" "content h bs = xs" "total_len (h p) = length xs" "flags_ok h bs"
    using assms by (simp_all add: pkt_def)
  show "bs \<noteq> []" "hd bs = p"
    using * by (cases bs; simp)+
qed

lemma pkt_same_shape:
  assumes "pkt h p bs xs" "same_shape S h h'"
  shows "pkt h' p bs (content h' bs)"
proof -
  have "length (content h' bs) = length (content h bs)"
  proof -
    have "length (cell_bytes (h' b)) = length (cell_bytes (h b))" for b
      using assms(2) by (simp add: cell_bytes_def same_shape_def)
    then have "map length (map (\<lambda>b. cell_bytes (h' b)) bs) = map length (map (\<lambda>b. cell_bytes (h b)) bs)"
      by simp
    then show ?thesis
      unfolding content_def length_concat by (simp only:)
  qed
  then show ?thesis
    using assms same_shape_cells [OF assms(2)] same_shape_flags [OF assms(2)]
    by (simp add: pkt_def same_shape_def)
qed

lemma pkt_cong:
  assumes "\<And>b. b \<in> set bs \<Longrightarrow> h' b = h b"
  shows "pkt h' p bs xs = pkt h p bs xs"
proof (cases "p \<noteq> 0 \<and> cells h p bs")
  case True
  then have "p \<in> set bs" "bs \<noteq> []"
    by (cases bs; simp)+
  moreover have "flags_ok h' bs = flags_ok h bs"
    using assms \<open>bs \<noteq> []\<close> in_set_butlastD [of _ bs] list.set_sel(2) [of bs]
    by (auto simp: flags_ok_def)
  ultimately show ?thesis
    using cells_cong [of bs h' h] assms by (simp add: pkt_def)
next
  case False
  then show ?thesis
    using cells_cong(1) [of bs h' h p] assms by (auto simp: pkt_def)
qed

lemma memcpy_from_pkt:
  assumes "pkt h p bs xs" "off + n \<le> length xs" "length xs < 2 ^ 32"
  shows "cbuf_memcpy_from_chain p off n h = Some (NO_ERROR, take n (drop off xs))"
proof -
  note P = pktD [OF assms(1)]
  have "off \<le> length (content h bs)"
    using assms(2) P(3) by simp
  from find_start_cells [OF P(2) this] obtain us vs q bo where
    f: "find_start h p off = Some (Inr (q, bo))" "bs = us @ vs" "cells h q vs"
      "off = length (content h us) + bo" "bo = 0 \<or> vs \<noteq> [] \<and> bo < c_len (h q)"
    by blast
  have len: "bo + n \<le> length (content h vs)" and d: "drop bo (content h vs) = drop off xs"
    using assms(2) P(3) f(2,4) by auto
  have "bo = 0 \<or> vs \<noteq> [] \<and> bo \<le> c_len (h q)"
    using f(5) by auto
  from copy_from_loop_cells [OF f(3) this len, of "[]"] show ?thesis
    using f(1) d P(1,4) assms(2,3) by (simp add: cbuf_memcpy_from_chain_def size_t_add_def add.commute)
qed

lemma memcpy_to_pkt:
  assumes "pkt h p bs xs" "off + length src \<le> length xs" "length xs < 2 ^ 32"
  shows "\<exists>h'. cbuf_memcpy_to_chain p off src h = Some (NO_ERROR, h') \<and> same_shape (set bs) h h' \<and>
    pkt h' p bs (take off xs @ src @ drop (off + length src) xs)"
proof -
  note P = pktD [OF assms(1)]
  have "off \<le> length (content h bs)"
    using assms(2) P(3) by simp
  from find_start_cells [OF P(2) this] obtain us vs q bo where
    f: "find_start h p off = Some (Inr (q, bo))" "bs = us @ vs" "cells h q vs"
      "off = length (content h us) + bo" "bo = 0 \<or> vs \<noteq> [] \<and> bo < c_len (h q)"
    by blast
  have len: "bo + length src \<le> length (content h vs)"
    using assms(2) P(3) f(2,4) by auto
  have "bo = 0 \<or> vs \<noteq> [] \<and> bo \<le> c_len (h q)"
    using f(5) by auto
  from copy_to_loop_cells [OF f(3) this len] obtain h' where
    h': "copy_to_loop q bo src h = Some (NO_ERROR, h')" "same_shape (set vs) h h'"
      "content h' vs = take bo (content h vs) @ src @ drop (bo + length src) (content h vs)"
    by blast
  have sh: "same_shape (set bs) h h'"
    by (rule same_shape_trans [OF same_shape_refl h'(2)]) (use f(2) in auto)
  have "set vs \<inter> set us = {}"
    using cells_distinct [OF P(2)] f(2) by auto
  then have "content h' us = content h us"
    by (rule same_shape_content [OF h'(2)])
  then have "content h' bs = take off xs @ src @ drop (off + length src) xs"
    using h'(3) P(3) f(2,4) by (auto simp: add.assoc)
  then show ?thesis
    using sh pkt_same_shape [OF assms(1) sh] h'(1) f(1) P(1,4) assms(2,3)
    by (simp add: cbuf_memcpy_to_chain_def size_t_add_def)
qed

section \<open>Merging\<close>

lemma chain_tail_cells:
  "cells h p bs \<Longrightarrow> p \<noteq> 0 \<Longrightarrow> chain_tail h p = Some (last bs)"
proof (induction bs arbitrary: p)
  case (Cons b bs)
  show ?case
  proof (cases bs)
    case (Cons c cs)
    then show ?thesis
      using Cons.prems Cons.IH [of "c_next (h b)"] by (subst chain_tail.simps) auto
  qed (use Cons.prems in \<open>simp add: chain_tail.simps\<close>)
qed simp

definition merged :: "ptr \<Rightarrow> ptr \<Rightarrow> ptr \<Rightarrow> heap \<Rightarrow> heap" where
  "merged last1 p q h = (\<lambda>b. (h b)\<lparr>
     c_next := (if b = last1 then q else c_next (h b)),
     total_len := (if b = p then total_len (h p) + total_len (h q) else total_len (h b)),
     c_flags := (if b = last1 then c_flags (h b) AND NOT CBUF_FLAG_CHAIN_TAIL
                 else if b = q then c_flags (h b) AND NOT CBUF_FLAG_CHAIN_HEAD
                 else c_flags (h b))\<rparr>)"

lemma merge_chains_eq:
  assumes "cells h p bs" "p \<noteq> 0" "q \<noteq> 0" "q \<notin> set bs"
  shows "cbuf_merge_chains p q h = Some (p, merged (last bs) p q h)"
proof -
  have b: "p \<in> set bs" "last bs \<in> set bs"
    using assms(1,2) by (cases bs; simp)+
  then have ne: "p \<noteq> q" "last bs \<noteq> q"
    using assms(4) by auto
  then show ?thesis
    using assms chain_tail_cells [OF assms(1,2)]
    by (cases "p = last bs"; simp add: cbuf_merge_chains_def Let_def; intro ext; auto simp: merged_def)
qed

lemma flag_bits [simp]:
  "(f AND NOT CBUF_FLAG_CHAIN_TAIL) AND CBUF_FLAG_CHAIN_TAIL = 0"
  "(f AND NOT CBUF_FLAG_CHAIN_TAIL) AND CBUF_FLAG_CHAIN_HEAD = f AND CBUF_FLAG_CHAIN_HEAD"
  "(f AND NOT CBUF_FLAG_CHAIN_HEAD) AND CBUF_FLAG_CHAIN_HEAD = 0"
  "(f AND NOT CBUF_FLAG_CHAIN_HEAD) AND CBUF_FLAG_CHAIN_TAIL = f AND CBUF_FLAG_CHAIN_TAIL"
  "(f OR CBUF_FLAG_CHAIN_TAIL) AND CBUF_FLAG_CHAIN_TAIL = CBUF_FLAG_CHAIN_TAIL"
  "(f OR CBUF_FLAG_CHAIN_HEAD) AND CBUF_FLAG_CHAIN_HEAD = CBUF_FLAG_CHAIN_HEAD"
  "(f OR CBUF_FLAG_CHAIN_HEAD) AND CBUF_FLAG_CHAIN_TAIL = f AND CBUF_FLAG_CHAIN_TAIL"
  "(f OR CBUF_FLAG_CHAIN_TAIL) AND CBUF_FLAG_CHAIN_HEAD = f AND CBUF_FLAG_CHAIN_HEAD"
  "CBUF_FLAG_CHAIN_TAIL \<noteq> 0" "CBUF_FLAG_CHAIN_HEAD \<noteq> 0"
  by (simp_all add: CBUF_FLAG_CHAIN_TAIL_def CBUF_FLAG_CHAIN_HEAD_def and.assoc bit.conj_disj_distrib2)

lemma merged_fields [simp]:
  "c_len (merged l p q h b) = c_len (h b)" "c_data (merged l p q h b) = c_data (h b)"
  "c_dat (merged l p q h b) = c_dat (h b)"
  "c_next (merged l p q h b) = (if b = l then q else c_next (h b))"
  "total_len (merged l p q h b) = (if b = p then total_len (h p) + total_len (h q) else total_len (h b))"
  "c_flags (merged l p q h b) = (if b = l then c_flags (h b) AND NOT CBUF_FLAG_CHAIN_TAIL
     else if b = q then c_flags (h b) AND NOT CBUF_FLAG_CHAIN_HEAD else c_flags (h b))"
  "packet_next (merged l p q h b) = packet_next (h b)"
  by (simp_all add: merged_def)

lemma merged_other: "b \<noteq> l \<Longrightarrow> b \<noteq> p \<Longrightarrow> b \<noteq> q \<Longrightarrow> merged l p q h b = h b"
  by (simp add: merged_def)

lemma content_merged [simp]: "content (merged l p q h) bs = content h bs"
  by (simp add: content_def cell_bytes_def)

lemma cells_merged:
  assumes "cells h p bs" "p \<noteq> 0" "cells h q cs" "set bs \<inter> set cs = {}"
  shows "cells (merged (last bs) p q h) p (bs @ cs)"
proof -
  obtain us l where bs: "bs = us @ [l]"
    using assms(1,2) by (cases bs rule: rev_cases) auto
  have d: "l \<notin> set us" "l \<notin> set cs"
    using cells_distinct [OF assms(1)] bs assms(4) by auto
  have nx: "nexts (merged (last bs) p q h) = (nexts h)(l := q)"
    by (simp add: bs fun_eq_iff)
  have "seg (nexts h) p (us @ [l]) 0"
    using assms(1) bs by (simp add: cells_def)
  from seg_redirect [OF this d(1), of q]
  have "seg ((nexts h)(l := q)) p bs q"
    by (simp add: bs)
  moreover have "chain ((nexts h)(l := q)) q cs"
    using assms(3) d(2) by (simp add: cells_def)
  ultimately have "chain (nexts (merged (last bs) p q h)) p (bs @ cs)"
    unfolding nx seg_append by blast
  then show ?thesis
    using assms(1,3) by (auto simp: cells_def wf_cell_def)
qed

lemma merge_pkt:
  assumes "pkt h p bs xs" "pkt h q cs ys" "set bs \<inter> set cs = {}"
  shows "pkt (merged (last bs) p q h) p (bs @ cs) (xs @ ys)"
proof -
  note P = pktD [OF assms(1)] and Q = pktD [OF assms(2)]
  let ?h = "merged (last bs) p q h"
  have l: "last bs \<in> set bs" "p \<in> set bs" "q \<in> set cs" "last cs \<in> set cs"
    using P Q by (auto intro: hd_in_set last_in_set)
  have ne: "\<And>b. b \<in> set cs \<Longrightarrow> b \<noteq> last bs" "\<And>b. b \<in> set bs \<Longrightarrow> b \<noteq> q"
    using l assms(3) by auto
  obtain us where bs: "bs = us @ [last bs]"
    using P(6) by (metis append_butlast_last_id)
  have "flags_ok ?h (bs @ cs)"
    unfolding flags_ok_def
  proof (intro conjI ballI)
    fix b
    assume "b \<in> set (butlast (bs @ cs))"
    then consider "b = last bs" | "b \<in> set (butlast bs)" "b \<noteq> last bs" | "b \<in> set (butlast cs)"
      using Q(6) bs by (metis Un_iff append_butlast_last_id butlast_append in_set_butlast_appendI
          insert_iff list.set(2) rotate1.simps(2) set_append set_rotate1)
    then show "c_flags (?h b) AND CBUF_FLAG_CHAIN_TAIL = 0"
      using P(5) Q(5) ne(2) [of b] in_set_butlastD [of b bs]
      by cases (auto simp: flags_ok_def)
  next
    fix b
    assume "b \<in> set (tl (bs @ cs))"
    then consider "b \<in> set (tl bs)" | "b = q" | "b \<in> set (tl cs)" "b \<noteq> q"
      using P(6) Q(6,7) by (cases cs) (auto simp: tl_append split: list.splits)
    then show "c_flags (?h b) AND CBUF_FLAG_CHAIN_HEAD = 0"
    proof cases
      case 2
      then show ?thesis
        using ne(1) [OF l(3)] by simp
    qed (use P(5) Q(5) in \<open>auto simp: flags_ok_def\<close>)
  next
    show "c_flags (?h (hd (bs @ cs))) AND CBUF_FLAG_CHAIN_HEAD \<noteq> 0"
      using P(5,6,7) ne(2) [OF l(2)] by (auto simp: flags_ok_def)
    show "c_flags (?h (last (bs @ cs))) AND CBUF_FLAG_CHAIN_TAIL \<noteq> 0"
      using Q(5,6) ne(1) [OF l(4)] by (auto simp: flags_ok_def)
  qed
  then show ?thesis
    using cells_merged [OF P(2,1) Q(2) assms(3)] P Q by (simp add: pkt_def)
qed

lemma merge_chains_pkt:
  assumes "pkt h p bs xs" "pkt h q cs ys" "set bs \<inter> set cs = {}"
  shows "\<exists>h'. cbuf_merge_chains p q h = Some (p, h') \<and> pkt h' p (bs @ cs) (xs @ ys) \<and>
    (\<forall>b. b \<notin> set bs \<union> set cs \<longrightarrow> h' b = h b)"
proof -
  note P = pktD [OF assms(1)] and Q = pktD [OF assms(2)]
  have l: "last bs \<in> set bs" "p \<in> set bs" "q \<in> set cs"
    using P Q by (auto intro: hd_in_set last_in_set)
  have "q \<notin> set bs"
    using l(3) assms(3) by auto
  then show ?thesis
    using merge_chains_eq [OF P(2,1) Q(1)] merge_pkt [OF assms] l
    by (intro exI [of _ "merged (last bs) p q h"]) (auto intro: merged_other)
qed

section \<open>Truncating the head\<close>

lemma content_nil_cells:
  assumes "cells h p bs" "content h bs = []"
  shows "\<forall>b \<in> set bs. c_len (h b) = 0"
  using assms
proof (induction bs arbitrary: p)
  case (Cons b bs)
  then show ?case
    using length_cell_bytes [of "h b"] by auto
qed simp

text \<open>What the loop leaves: the windows cut from the front, the emptied cells first.\<close>

lemma trunc_head_loop_cells:
  assumes "cells h p bs"
  shows "\<exists>h' t us vs. trunc_head_loop fu head p n tail h = Some (t, h') \<and>
    cells h' p bs \<and> content h' bs = drop n (content h bs) \<and>
    total_len (h' head) = total_len (h head) - min n (length (content h bs)) \<and>
    (\<forall>b. c_next (h' b) = c_next (h b) \<and> c_flags (h' b) = c_flags (h b) \<and>
       packet_next (h' b) = packet_next (h b) \<and> c_dat (h' b) = c_dat (h b) \<and>
       (b \<notin> set bs \<longrightarrow> c_len (h' b) = c_len (h b) \<and> c_data (h' b) = c_data (h b)) \<and>
       (b \<noteq> head \<longrightarrow> total_len (h' b) = total_len (h b))) \<and>
    bs = us @ vs \<and> content h' us = [] \<and> t = last (tail # us) \<and> (\<not> fu \<longrightarrow> us = [])"
  using assms
proof (induction bs arbitrary: p n tail h)
  case Nil
  then show ?case
    by (simp add: trunc_head_loop.simps)
next
  case (Cons b bs)
  have b: "p = b" "b \<noteq> 0" "wf_cell (h b)" "cells h (c_next (h b)) bs" "b \<notin> set bs"
    using Cons.prems cells_distinct [OF Cons.prems] by auto
  show ?case
  proof (cases "n = 0")
    case True
    have "content h (b # bs) = drop n (content h (b # bs))"
      using True by simp
    then show ?thesis
      using Cons.prems True
      by (intro exI [of _ h] exI [of _ tail] exI [of _ "[]"] exI [of _ "b # bs"])
        (simp add: trunc_head_loop.simps)
  next
    case False
    let ?k = "min n (c_len (h b))"
    define h1 where "h1 = h(b := (h b)\<lparr>c_len := c_len (h b) - ?k, c_data := c_data (h b) + ?k\<rparr>)"
    define h2 where "h2 = h1(head := (h1 head)\<lparr>total_len := total_len (h1 head) - ?k\<rparr>)"
    define tail2 where "tail2 = (if fu \<and> c_len (h2 b) = 0 then b else tail)"
    have f2: "c_next (h2 x) = c_next (h x)" "c_flags (h2 x) = c_flags (h x)"
      "packet_next (h2 x) = packet_next (h x)" "c_dat (h2 x) = c_dat (h x)"
      "x \<noteq> b \<Longrightarrow> c_len (h2 x) = c_len (h x) \<and> c_data (h2 x) = c_data (h x)"
      "x \<noteq> head \<Longrightarrow> total_len (h2 x) = total_len (h x)" for x
      by (simp_all add: h2_def h1_def)
    have t2: "total_len (h2 head) = total_len (h head) - ?k"
      by (simp add: h2_def h1_def)
    have b2: "c_len (h2 b) = c_len (h b) - ?k" "c_data (h2 b) = c_data (h b) + ?k"
      by (simp_all add: h2_def h1_def)
    have cb: "cell_bytes (h2 b) = drop n (cell_bytes (h b))" "wf_cell (h2 b)"
      using b(3) by (auto simp: cell_bytes_def wf_cell_def b2 f2 drop_take min_def add.commute)
    have c2: "cells h2 (c_next (h2 b)) bs" and cc: "content h2 bs = content h bs"
      using cells_frame [of bs h2 h] f2 b(4,5) by (metis, metis)
    from Cons.IH [OF c2, of "n - ?k" tail2] obtain h' t us vs where
      L: "trunc_head_loop fu head (c_next (h2 b)) (n - ?k) tail2 h2 = Some (t, h')"
      and C: "cells h' (c_next (h2 b)) bs" "content h' bs = drop (n - ?k) (content h bs)"
      and T: "total_len (h' head) = total_len (h2 head) - min (n - ?k) (length (content h bs))"
      and F: "\<forall>x. c_next (h' x) = c_next (h2 x) \<and> c_flags (h' x) = c_flags (h2 x) \<and>
        packet_next (h' x) = packet_next (h2 x) \<and> c_dat (h' x) = c_dat (h2 x) \<and>
        (x \<notin> set bs \<longrightarrow> c_len (h' x) = c_len (h2 x) \<and> c_data (h' x) = c_data (h2 x)) \<and>
        (x \<noteq> head \<longrightarrow> total_len (h' x) = total_len (h2 x))"
      and U: "bs = us @ vs" "content h' us = []" "t = last (tail2 # us)" "\<not> fu \<longrightarrow> us = []"
      unfolding cc by blast
    have "(b \<noteq> 0 \<and> 0 < n) = True"
      using False b(2) by simp
    then have step: "trunc_head_loop fu head p n tail h = Some (t, h')"
      using L unfolding tail2_def h2_def h1_def
      by (subst trunc_head_loop.simps) (simp only: b(1) Let_def if_True)
    have hb: "cell_bytes (h' b) = drop n (cell_bytes (h b))" "wf_cell (h' b)"
      using F b(5) cb by (auto simp: cell_bytes_def wf_cell_def)
    have len: "length (cell_bytes (h b)) = c_len (h b)"
      using b(3) by simp
    have CC: "cells h' p (b # bs)" "content h' (b # bs) = drop n (content h (b # bs))"
      using C b(1,2) hb F len by (auto simp: min_def)
    have TT: "total_len (h' head) = total_len (h head) - min n (length (content h (b # bs)))"
      using T t2 len by (auto simp: min_def)
    have FF: "\<forall>x. c_next (h' x) = c_next (h x) \<and> c_flags (h' x) = c_flags (h x) \<and>
        packet_next (h' x) = packet_next (h x) \<and> c_dat (h' x) = c_dat (h x) \<and>
        (x \<notin> set (b # bs) \<longrightarrow> c_len (h' x) = c_len (h x) \<and> c_data (h' x) = c_data (h x)) \<and>
        (x \<noteq> head \<longrightarrow> total_len (h' x) = total_len (h x))"
      using F f2 by simp
    have UU: "\<exists>us vs. b # bs = us @ vs \<and> content h' us = [] \<and> t = last (tail # us) \<and> (\<not> fu \<longrightarrow> us = [])"
    proof (cases "fu \<and> c_len (h2 b) = 0")
      case True
      then have "cell_bytes (h' b) = []"
        using hb cb(1) length_cell_bytes [OF cb(2)] by simp
      then show ?thesis
        using True U by (intro exI [of _ "b # us"] exI [of _ vs]) (auto simp: tail2_def)
    next
      case no: False
      have "t = tail"
      proof (cases fu)
        case True
        then have "n - ?k = 0"
          using no b2(1) by auto
        then show ?thesis
          using L no True by (auto simp: trunc_head_loop.simps tail2_def)
      next
        case False
        then show ?thesis
          using U by (simp add: tail2_def)
      qed
      then show ?thesis
        by (intro exI [of _ "[]"] exI [of _ "b # bs"]) simp
    qed
    show ?thesis
      using step CC TT FF UU by blast
  qed
qed

lemma truncate_head_pkt:
  assumes "pkt (heap s) p bs xs"
  shows "\<exists>h'. cbuf_truncate_head p n False s = Some (p, s\<lparr>heap := h'\<rparr>) \<and> pkt h' p bs (drop n xs) \<and>
    (\<forall>b. b \<notin> set bs \<longrightarrow> h' b = heap s b) \<and> (\<forall>b. packet_next (h' b) = packet_next (heap s b))"
proof -
  note P = pktD [OF assms]
  obtain h' t us vs where T: "trunc_head_loop False p p n 0 (heap s) = Some (t, h')"
    and C: "cells h' p bs" "content h' bs = drop n xs"
    and L: "total_len (h' p) = length xs - min n (length xs)"
    and F: "\<forall>b. c_next (h' b) = c_next (heap s b) \<and> c_flags (h' b) = c_flags (heap s b) \<and>
       packet_next (h' b) = packet_next (heap s b) \<and> c_dat (h' b) = c_dat (heap s b) \<and>
       (b \<notin> set bs \<longrightarrow> c_len (h' b) = c_len (heap s b) \<and> c_data (h' b) = c_data (heap s b)) \<and>
       (b \<noteq> p \<longrightarrow> total_len (h' b) = total_len (heap s b))"
    and U: "t = last (0 # us)" "us = []"
    using trunc_head_loop_cells [OF P(2), of False p n 0] P(3,4) by auto
  have "p \<in> set bs"
    using P(6,7) hd_in_set by metis
  then have "h' b = heap s b" if "b \<notin> set bs" for b
    using F that by (metis (full_types) cbuf.equality old.unit.exhaust)
  moreover have "pkt h' p bs (drop n xs)"
    using P(1,5) C L F by (simp add: pkt_def flags_ok_def)
  ultimately show ?thesis
    using T U P(1) F by (intro exI [of _ h']) (simp add: cbuf_truncate_head_def)
qed

section \<open>Checksums over chains\<close>

lemma swap_sum_ntohs: "swap_sum s = ntohs s"
proof -
  have "drop_bit 8 s AND 0xff = drop_bit 8 s"
    unfolding and_ff16 by (rule bit_word_eqI) (auto simp: bit_simps dest: bit_imp_le_length)
  then show ?thesis
    by (simp add: swap_sum_def ntohs_def)
qed

lemma swap_sum_swap_sum [simp]: "swap_sum (swap_sum s) = s"
  by (simp add: swap_sum_ntohs)

lemma swap_sum_mod: "unat (swap_sum s) mod 65535 = (256 * unat s) mod 65535"
  and swap_sum_0 [simp]: "swap_sum s = 0 \<longleftrightarrow> s = 0"
proof -
  have s: "swap_sum s = push_bit 8 (take_bit 8 s) + drop_bit 8 s"
    unfolding swap_sum_ntohs ntohs_def and_ff16
    by (rule disjunctive_add [symmetric]) (auto simp: bit_simps dest: bit_imp_le_length)
  have u: "unat (take_bit 8 s) = unat s mod 256" "unat (drop_bit 8 s) = unat s div 256"
    by (simp_all add: take_bit_eq_mod drop_bit_eq_div unat_mod_distrib unat_div_distrib)
  have "unat (push_bit 8 (take_bit 8 s)) = 256 * (unat s mod 256)"
    using u(1) by (simp add: push_bit_eq_mult unat_mult_lem [THEN iffD1] mult.commute)
  then have v: "unat (swap_sum s) = 256 * (unat s mod 256) + unat s div 256"
    using u unat_u16_less [of s] unfolding s by (simp add: unat_add_lem [THEN iffD1])
  have "256 * unat s = unat (swap_sum s) + 65535 * (unat s div 256)"
    using v div_mult_mod_eq [of "unat s" 256] by linarith
  then show "unat (swap_sum s) mod 65535 = (256 * unat s) mod 65535"
    by (metis mod_mult_self2)
  show "swap_sum s = 0 \<longleftrightarrow> s = 0"
    by (metis swap_sum_def swap_sum_swap_sum push_bit_of_0 drop_bit_of_0 zero_and_eq or.right_neutral)
qed

lemma wsum_0_iff: "wsum xs = 0 \<longleftrightarrow> (\<forall>b \<in> set xs. b = 0)"
  by (induction xs rule: wsum.induct) (auto simp: unat_eq_zero)

lemma wsum_append_odd:
  assumes "odd (length xs)"
  shows "wsum (xs @ ys) mod 65535 = (wsum xs + 256 * wsum ys) mod 65535"
proof -
  obtain zs b where xs: "xs = zs @ [b]" "even (length zs)"
    using assms by (cases xs rule: rev_cases) auto
  then have "wsum (xs @ ys) = wsum zs + wsum (b # ys)" "wsum xs = wsum zs + unat b"
    using wsum_append [OF xs(2), of "b # ys"] wsum_append [OF xs(2), of "[b]"] by simp_all
  moreover have "(wsum zs + wsum (b # ys)) mod 65535 = (wsum zs + (unat b + 256 * wsum ys)) mod 65535"
    by (rule mod_add_cong [OF refl wsum_shift])
  ultimately show ?thesis
    by (simp only: add.assoc)
qed

text \<open>What a sum \<open>c\<close> contributes: \<open>t\<close> up to the two zeros of one's complement.\<close>

definition stands_for :: "u16 \<Rightarrow> nat \<Rightarrow> bool" where
  "stands_for c t \<longleftrightarrow> unat c mod 65535 = t mod 65535 \<and> (c = 0 \<longleftrightarrow> t = 0)"

lemma stands_for_iff: "stands_for c t \<longleftrightarrow> unat c = ocanon t"
proof -
  have "unat c = ocanon (unat c)"
    using unat_u16_less [of c] by (simp add: ocanon_small)
  then show ?thesis
    unfolding stands_for_def by (metis ocanon_eq_iff unat_eq_zero)
qed

lemma stands_for_ones: "stands_for (ones_sum16 (ucast (c :: u16)) xs) (unat c + wsum xs)"
  using unat_u16_less [of c] by (simp add: stands_for_iff unat_ones_sum16)

lemma stands_for_cong:
  "stands_for c t \<Longrightarrow> t mod 65535 = t' mod 65535 \<Longrightarrow> t = 0 \<longleftrightarrow> t' = 0 \<Longrightarrow> stands_for c t'"
  by (simp add: stands_for_def)

lemma stands_for_swap: "stands_for c t \<Longrightarrow> stands_for (swap_sum c) (256 * t)"
proof -
  assume "stands_for c t"
  then have c: "unat c mod 65535 = t mod 65535" "c = 0 \<longleftrightarrow> t = 0"
    by (simp_all add: stands_for_def)
  have "unat (swap_sum c) mod 65535 = (256 * t) mod 65535"
    unfolding swap_sum_mod by (rule mod_mult_cong [OF refl c(1)])
  then show ?thesis
    using c(2) by (simp add: stands_for_def)
qed

definition order_factor :: "bool \<Rightarrow> nat" where
  "order_factor sw = (if sw then 256 else 1)"

lemma mod_65536: "(65536 * x) mod 65535 = x mod (65535 :: nat)"
proof -
  have "65536 * x = x + 65535 * x"
    by simp
  then show ?thesis
    by (metis mod_mult_self2)
qed

lemma order_factor_step:
  assumes s1: "unat s1 mod 65535 = (s + wsum xs) mod 65535"
    and cut: "odd_cut \<Longrightarrow> odd (length xs)" "\<not> odd_cut \<Longrightarrow> even (length xs) \<or> ys = []"
  shows "(order_factor (sw \<noteq> odd_cut) * (unat (if odd_cut then swap_sum s1 else s1) + wsum ys)) mod 65535 =
    (order_factor sw * (s + wsum (xs @ ys))) mod 65535"
proof (cases odd_cut)
  case False
  then have "wsum (xs @ ys) = wsum xs + wsum ys"
    using cut(2) by (auto simp: wsum_append)
  then have "(unat s1 + wsum ys) mod 65535 = (s + wsum (xs @ ys)) mod 65535"
    using mod_add_cong [OF s1 refl, of "wsum ys"] by (simp only: add.assoc)
  then show ?thesis
    using False mod_mult_cong [OF refl, of "unat s1 + wsum ys" 65535] by simp
next
  case True
  have o: "(s + wsum (xs @ ys)) mod 65535 = (unat s1 + 256 * wsum ys) mod 65535"
    using mod_add_cong [OF refl wsum_append_odd [OF cut(1) [OF True]], of s ys]
      mod_add_cong [OF s1 refl, of "256 * wsum ys"] by (simp only: add.assoc)
  have sw: "unat (swap_sum s1) mod 65535 = (256 * unat s1) mod 65535"
    by (rule swap_sum_mod)
  show ?thesis
  proof (cases sw)
    case True
    have "(256 * (s + wsum (xs @ ys))) mod 65535 = (256 * (unat s1 + 256 * wsum ys)) mod 65535"
      by (rule mod_mult_cong [OF refl o])
    also have "\<dots> = (256 * unat s1 + 65536 * wsum ys) mod 65535"
      by (simp only: distrib_left mult.assoc [symmetric]) simp
    also have "\<dots> = (unat (swap_sum s1) + wsum ys) mod 65535"
      by (rule mod_add_cong [OF sw [symmetric] mod_65536])
    finally show ?thesis
      using True \<open>odd_cut\<close> by (simp add: order_factor_def)
  next
    case False
    have "(256 * (unat (swap_sum s1) + wsum ys)) mod 65535 = (256 * (256 * unat s1 + wsum ys)) mod 65535"
      by (rule mod_mult_cong [OF refl mod_add_cong [OF sw refl]])
    also have "\<dots> = (65536 * unat s1 + 256 * wsum ys) mod 65535"
      by (simp only: distrib_left mult.assoc [symmetric]) simp
    also have "\<dots> = (unat s1 + 256 * wsum ys) mod 65535"
      by (rule mod_add_cong [OF mod_65536 refl])
    finally show ?thesis
      using False \<open>odd_cut\<close> o by (simp add: order_factor_def)
  qed
qed

lemma cksum_loop_cells:
  assumes "cells h p bs" "n \<le> length (content h bs)"
  shows "\<exists>c sw'. cksum_loop h p 0 n s sw = Some (c, sw') \<and>
    stands_for (if sw' then swap_sum c else c) (order_factor sw * (unat s + wsum (take n (content h bs))))"
  using assms
proof (induction bs arbitrary: p n s sw)
  case Nil
  have "stands_for s (unat s)"
    by (simp add: stands_for_def unat_eq_zero)
  then have "stands_for (if sw then swap_sum s else s) (order_factor sw * unat s)"
    using stands_for_swap by (simp add: order_factor_def)
  then show ?case
    using Nil by (simp add: cksum_loop.simps)
next
  case (Cons b bs)
  have b: "p = b" "b \<noteq> 0" "wf_cell (h b)" "cells h (c_next (h b)) bs"
    using Cons.prems by auto
  show ?case
  proof (cases "n = 0")
    case True
    have "stands_for s (unat s)"
      by (simp add: stands_for_def unat_eq_zero)
    then have "stands_for (if sw then swap_sum s else s) (order_factor sw * unat s)"
      using stands_for_swap by (simp add: order_factor_def)
    then show ?thesis
      using True by (simp add: cksum_loop.simps)
  next
    case False
    define k where "k = min n (c_len (h b))"
    define xs where "xs = take k (cell_bytes (h b))"
    define ys where "ys = take (n - k) (content h bs)"
    define s1 where "s1 = ones_sum16 (ucast s) xs"
    have lx: "length xs = k" and cat: "take n (content h (b # bs)) = xs @ ys"
      using b(3) by (auto simp: xs_def ys_def k_def min_def)
    have r: "mem_read (h b) 0 k = Some xs"
      using mem_read_cell [OF b(3), of 0 k] by (simp add: xs_def k_def)
    have st: "stands_for s1 (unat s + wsum xs)"
      unfolding s1_def by (rule stands_for_ones)
    have len: "n - k \<le> length (content h bs)"
      using Cons.prems(2) b(3) by (auto simp: k_def)
    let ?more = "c_next (h b) \<noteq> 0 \<and> n - k > 0"
    have more: "ys = []" if "\<not> ?more"
      using that b(4) by (auto simp: ys_def)
    have z: "wsum (xs @ ys) = 0 \<longleftrightarrow> wsum xs = 0 \<and> wsum ys = 0"
      by (auto simp: wsum_0_iff)
    define odd_cut where "odd_cut \<longleftrightarrow> ?more \<and> odd k"
    define s2 where "s2 = (if odd_cut then swap_sum s1 else s1)"
    have step: "cksum_loop h p 0 n s sw = cksum_loop h (c_next (h b)) 0 (n - k) s2 (sw \<noteq> odd_cut)"
      using b(1,2) False r unfolding k_def
      by (subst cksum_loop.simps) (auto simp: Let_def s2_def odd_cut_def s1_def k_def)
    obtain c sw' where IH: "cksum_loop h (c_next (h b)) 0 (n - k) s2 (sw \<noteq> odd_cut) = Some (c, sw')"
      "stands_for (if sw' then swap_sum c else c) (order_factor (sw \<noteq> odd_cut) * (unat s2 + wsum ys))"
      using Cons.IH [OF b(4) len] unfolding ys_def by blast
    have "unat s1 mod 65535 = (unat s + wsum xs) mod 65535"
      using st by (simp add: stands_for_def)
    then have "(order_factor (sw \<noteq> odd_cut) * (unat s2 + wsum ys)) mod 65535 =
        (order_factor sw * (unat s + wsum (xs @ ys))) mod 65535"
      unfolding s2_def
      by (rule order_factor_step) (use more lx in \<open>auto simp: odd_cut_def\<close>)
    moreover have "order_factor (sw \<noteq> odd_cut) * (unat s2 + wsum ys) = 0 \<longleftrightarrow>
        order_factor sw * (unat s + wsum (xs @ ys)) = 0"
      using st z by (auto simp: order_factor_def stands_for_def s2_def unat_eq_zero)
    ultimately show ?thesis
      using stands_for_cong [OF IH(2)] IH(1) step cat by auto
  qed
qed

lemma cbuf_cksum_pkt:
  assumes "pkt h p bs xs" "n \<le> length xs" "xs \<noteq> []"
  shows "cbuf_ones_sum16 h p 0 n s = Some (ones_sum16 (ucast s) (take n xs))"
proof -
  note P = pktD [OF assms(1)]
  have "\<exists>q cs. cksum_find h p 0 = Some (q, 0) \<and> cells h q cs \<and> content h cs = xs"
    using P(2,3) assms(3)
  proof (induction bs arbitrary: p)
    case (Cons b bs)
    show ?case
    proof (cases "c_len (h b) = 0")
      case True
      then have "cell_bytes (h b) = []"
        by (simp add: cell_bytes_def)
      then have "content h bs = xs"
        using Cons.prems by simp
      then obtain q cs where "cksum_find h (c_next (h b)) 0 = Some (q, 0)" "cells h q cs" "content h cs = xs"
        using Cons.IH [of "c_next (h b)"] Cons.prems by auto
      then show ?thesis
        using Cons.prems True by (subst cksum_find.simps) auto
    next
      case False
      then show ?thesis
        using Cons.prems by (subst cksum_find.simps) (intro exI [of _ b] exI [of _ "b # bs"], auto)
    qed
  qed simp
  then obtain q cs where q: "cksum_find h p 0 = Some (q, 0)" "cells h q cs" "content h cs = xs"
    by blast
  obtain c sw where c: "cksum_loop h q 0 n s False = Some (c, sw)"
    "stands_for (if sw then swap_sum c else c) (unat s + wsum (take n xs))"
    using cksum_loop_cells [OF q(2), of n s False] assms(2) q(3) by (auto simp: order_factor_def)
  have "unat (if sw then swap_sum c else c) = unat (ones_sum16 (ucast s) (take n xs))"
    using c(2) unat_u16_less [of s] by (simp add: stands_for_iff unat_ones_sum16)
  then have "(if sw then swap_sum c else c) = ones_sum16 (ucast s) (take n xs)"
    by (rule unat_inj)
  then show ?thesis
    using q(1) c(1) P(1) by (simp add: cbuf_ones_sum16_def)
qed

lemma cbuf_cksum16_pkt:
  assumes "pkt h p bs xs" "n \<le> length xs" "xs \<noteq> []"
  shows "cbuf_ones_cksum16 h p 0 n = Some (cksum16 (take n xs))"
  using cbuf_cksum_pkt [OF assms, of 0] by (simp add: cbuf_ones_cksum16_def cksum16_def)

end
