(* ===== verification/Cbuf_Pool.thy ===== *)
theory Cbuf_Pool
  imports Cbuf_Chain
begin

text \<open>
  The allocator side of \<^verbatim>\<open>SkyCore/Net/cbuf.c\<close>: the region bitmap, the free list, and the operations
  that take cells from it or give them back.  \<open>pool s m F\<close> says that the first \<open>m\<close> chunks of 32
  cells were handed out by the region, that the free list is the chain \<open>F\<close> of initialised cells,
  and that everything the pool knows lives in these chunks.
\<close>

section \<open>The region bitmap\<close>

definition prefix_bitmap :: "nat \<Rightarrow> byte list" where
  "prefix_bitmap m = replicate (4 * m) 0xff @ replicate (64 - 4 * m) 0"

lemma mask8: "(mask 8 :: byte) = 0xff"
  by (simp add: mask_eq_exp_minus_1)

lemma bit_ff: "bit (0xff :: byte) j \<longleftrightarrow> j < 8"
proof -
  have "bit (mask 8 :: byte) j \<longleftrightarrow> j < 8"
    by (auto simp: bit_mask_iff)
  then show ?thesis
    by (simp only: mask8)
qed

lemma mask_ff: "j < 8 \<Longrightarrow> (mask j :: byte) \<noteq> 0xff"
proof
  assume "j < 8" "(mask j :: byte) = 0xff"
  then have "bit (mask j :: byte) j"
    by (metis bit_ff)
  then show False
    by (simp add: bit_mask_iff)
qed

lemma mask_step: "j < 8 \<Longrightarrow> (mask j :: byte) OR push_bit j 1 = mask (Suc j)"
  by (rule bit_word_eqI) (auto simp: bit_simps less_Suc_eq)

lemma scan_skip:
  assumes "k < 64" "bm ! k = 0xff" "even k" "Suc k < 64" "bm ! Suc k = 0xff"
  shows "alloc_scan bm w (8 * k) None n = alloc_scan bm w (8 * (k + 2)) None n"
proof -
  have used: "alloc_scan bm w (8 * Suc k + j) None n = alloc_scan bm w (8 * Suc k + 8) None n"
    if "1 \<le> j" "j \<le> 8" for j
    using that
  proof (induction "8 - j" arbitrary: j)
    case (Suc d)
    then have "j < 8"
      by linarith
    moreover from this have "(8 * Suc k + j) div 8 = Suc k" "(8 * Suc k + j) mod 8 = j"
      by presburger+
    moreover have "bit (0xff :: byte) j"
      using \<open>j < 8\<close> by (simp only: bit_ff)
    ultimately have "alloc_scan bm w (8 * Suc k + j) None n = alloc_scan bm w (8 * Suc k + Suc j) None n"
      using assms Suc by (subst alloc_scan.simps) (simp add: CBUF_BITMAP_SIZE_def)
    then show ?case
      using Suc.hyps(1) [of "Suc j"] Suc.hyps(2) Suc.prems by simp
  qed simp
  have "alloc_scan bm w (8 * k) None n = alloc_scan bm w (8 * Suc k + 1) None n"
    using assms by (subst alloc_scan.simps) (simp add: CBUF_BITMAP_SIZE_def)
  also have "\<dots> = alloc_scan bm w (8 * (k + 2)) None n"
    using used [of 1] by simp
  finally show ?thesis .
qed

text \<open>The bits of one free byte are taken one after the other.\<close>

lemma scan_byte:
  assumes "k < 64" "k < length bm" "bm ! k = mask j" "j < 8"
    and "n + (8 - j) * CBUF_LEN \<le> w"
  shows "alloc_scan bm w (8 * k + j) st n =
    (let st' = Some (case st of None \<Rightarrow> 8 * k + j | Some i \<Rightarrow> i); n' = n + (8 - j) * CBUF_LEN
     in if n' = w then (bm[k := 0xff], st', n') else alloc_scan (bm[k := 0xff]) w (8 * k + 8) st' n')"
  using assms
proof (induction "7 - j" arbitrary: j n bm st)
  case 0
  then have j: "j = 7"
    by simp
  have m8: "(mask 7 :: byte) OR 128 = 0xff"
    using mask_step [of 7] mask8 by simp
  have "(8 * k + 7) div 8 = k" "(8 * k + 7) mod 8 = 7"
    by simp_all
  then show ?case
    using 0 unfolding j
    by (subst alloc_scan.simps)
      (auto simp: CBUF_BITMAP_SIZE_def bit_mask_iff Let_def m8 add.commute split: option.splits)
next
  case (Suc d)
  then have j: "j < 7" "(8 * k + j) div 8 = k" "(8 * k + j) mod 8 = j"
    by auto
  let ?bm = "bm[k := mask (Suc j)]"
  have lt: "\<not> w \<le> n + CBUF_LEN"
    using Suc.prems(5) j(1) by (auto simp: CBUF_LEN_def)
  have "alloc_scan bm w (8 * k + j) st n =
      alloc_scan ?bm w (8 * k + Suc j) (Some (case st of None \<Rightarrow> 8 * k + j | Some i \<Rightarrow> i)) (n + CBUF_LEN)"
    using Suc.prems j lt mask_ff [of j] mask_step [of j]
    by (subst alloc_scan.simps)
      (auto simp: CBUF_BITMAP_SIZE_def bit_mask_iff Let_def split: option.splits)
  also have "\<dots> = (let st' = Some (case st of None \<Rightarrow> 8 * k + j | Some i \<Rightarrow> i); n' = n + (8 - j) * CBUF_LEN
     in if n' = w then (?bm[k := 0xff], st', n') else alloc_scan (?bm[k := 0xff]) w (8 * k + 8) st' n')"
  proof -
    have "8 - j = Suc (8 - Suc j)"
      using j(1) by simp
    then have e: "n + CBUF_LEN + (8 - Suc j) * CBUF_LEN = n + (8 - j) * CBUF_LEN"
      by simp
    have "d = 7 - Suc j"
      using Suc.hyps(2) by simp
    from Suc.hyps(1) [OF this, of ?bm "n + CBUF_LEN" "Some (case st of None \<Rightarrow> 8 * k + j | Some i \<Rightarrow> i)"]
    show ?thesis
      unfolding e using Suc.prems j(1) by (simp add: Let_def)
  qed
  finally show ?case
    by (simp only: list_update_overwrite)
qed

lemma scan_bytes:
  assumes "k + d < 64" "length bm = 64" "\<forall>i \<le> d. bm ! (k + i) = 0" "n + Suc d * 16384 = w"
  shows "\<exists>bm'. alloc_scan bm w (8 * k) st n = (bm', Some (case st of None \<Rightarrow> 8 * k | Some i \<Rightarrow> i), w) \<and>
    length bm' = 64 \<and> (\<forall>i < 64. bm' ! i = (if k \<le> i \<and> i \<le> k + d then 0xff else bm ! i))"
  using assms
proof (induction d arbitrary: k bm n st)
  case 0
  then have "bm ! k = mask 0" "k < 64"
    by auto
  then show ?case
    using 0 scan_byte [of k bm 0 n w st] by (auto simp: CBUF_LEN_def nth_list_update Let_def split: option.splits)
next
  case (Suc d)
  have z: "bm ! k = mask 0" "k < 64" "k < length bm" "(0::nat) < 8"
    using Suc.prems(3) [rule_format, of 0] Suc.prems(1,2) by auto
  have "n + (8 - 0) * CBUF_LEN \<le> w" "n + (8 - 0) * CBUF_LEN \<noteq> w"
    using Suc.prems(4) by (auto simp: CBUF_LEN_def)
  then have step: "alloc_scan bm w (8 * k) st n =
      alloc_scan (bm[k := 0xff]) w (8 * Suc k) (Some (case st of None \<Rightarrow> 8 * k | Some i \<Rightarrow> i)) (n + 16384)"
    using scan_byte [OF z(2,3,1,4), of n w st]
    by (simp add: Let_def CBUF_LEN_def add.commute split: option.splits)
  have "Suc k + d < 64" "length (bm[k := 0xff]) = 64" "\<forall>i \<le> d. bm[k := 0xff] ! (Suc k + i) = 0"
    "n + 16384 + Suc d * 16384 = w"
    using Suc.prems by auto
  from Suc.IH [OF this, of "Some (case st of None \<Rightarrow> 8 * k | Some i \<Rightarrow> i)"] obtain bm' where
    bm': "alloc_scan (bm[k := 0xff]) w (8 * Suc k) (Some (case st of None \<Rightarrow> 8 * k | Some i \<Rightarrow> i)) (n + 16384) =
      (bm', Some (case st of None \<Rightarrow> 8 * k | Some i \<Rightarrow> i), w)" "length bm' = 64"
      "\<forall>i < 64. bm' ! i = (if Suc k \<le> i \<and> i \<le> Suc k + d then 0xff else bm[k := 0xff] ! i)"
    by auto
  have "bm' ! i = (if k \<le> i \<and> i \<le> k + Suc d then 0xff else bm ! i)" if "i < 64" for i
    using bm'(3) that Suc.prems(2) by (cases "i = k") auto
  then show ?case
    unfolding step using bm'(1,2) by blast
qed

lemma prefix_bitmap_nth:
  "m \<le> 16 \<Longrightarrow> i < 64 \<Longrightarrow> prefix_bitmap m ! i = (if i < 4 * m then 0xff else 0)"
  by (auto simp: prefix_bitmap_def nth_append)

lemma length_prefix_bitmap [simp]: "m \<le> 16 \<Longrightarrow> length (prefix_bitmap m) = 64"
  by (simp add: prefix_bitmap_def)

lemma scan_full:
  assumes "m \<le> 16" "j \<le> 2 * m"
  shows "alloc_scan (prefix_bitmap m) w 0 None 0 = alloc_scan (prefix_bitmap m) w (16 * j) None 0"
  using assms(2)
proof (induction j)
  case (Suc j)
  have "alloc_scan (prefix_bitmap m) w (8 * (2 * j)) None 0 =
      alloc_scan (prefix_bitmap m) w (8 * (2 * j + 2)) None 0"
    using Suc.prems assms(1) by (intro scan_skip) (auto simp: prefix_bitmap_nth)
  then show ?case
    using Suc by simp
qed simp

lemma cbuf_alloc_chunk:
  assumes "m < 16"
  shows "cbuf_alloc ALLOCATE_CHUNK (prefix_bitmap m) = (32 * m + 1, ALLOCATE_CHUNK, prefix_bitmap (m + 1))"
proof -
  have a: "4 * m + 3 < 64" "length (prefix_bitmap m) = 64" "\<forall>i \<le> 3. prefix_bitmap m ! (4 * m + i) = 0"
    "0 + Suc 3 * 16384 = ALLOCATE_CHUNK"
    using assms by (auto simp: prefix_bitmap_nth ALLOCATE_CHUNK_def)
  obtain bm' where bm': "alloc_scan (prefix_bitmap m) ALLOCATE_CHUNK (8 * (4 * m)) None 0 =
      (bm', Some (32 * m), ALLOCATE_CHUNK)" "length bm' = 64"
      "\<forall>i < 64. bm' ! i = (if 4 * m \<le> i \<and> i \<le> 4 * m + 3 then 0xff else prefix_bitmap m ! i)"
    using scan_bytes [OF a, of None] by auto
  have "bm' = prefix_bitmap (m + 1)"
    by (rule nth_equalityI) (use bm'(2,3) assms in \<open>auto simp: prefix_bitmap_nth\<close>)
  then show ?thesis
    using bm'(1) scan_full [of m "2 * m" ALLOCATE_CHUNK] assms
    by (simp add: cbuf_alloc_def mult.assoc [symmetric])
qed

lemma cbuf_alloc_full: "cbuf_alloc ALLOCATE_CHUNK (prefix_bitmap 16) = (0, 0, prefix_bitmap 16)"
proof -
  have "alloc_scan (prefix_bitmap 16) ALLOCATE_CHUNK 512 None 0 = (prefix_bitmap 16, None, 0)"
    by (subst alloc_scan.simps) (simp add: CBUF_BITMAP_SIZE_def)
  then show ?thesis
    using scan_full [of 16 32 ALLOCATE_CHUNK] by (simp add: cbuf_alloc_def)
qed

section \<open>Chunks\<close>

lemma chain_upt:
  assumes "a \<noteq> 0" "\<And>x. a \<le> x \<Longrightarrow> x < a + n \<Longrightarrow> nxt x = Suc x" "nxt (a + n) = 0"
  shows "chain nxt a [a..<Suc (a + n)]"
  using assms
proof (induction n arbitrary: a)
  case (Suc n)
  have "chain nxt (Suc a) [Suc a..<Suc (Suc a + n)]"
    using Suc.prems by (intro Suc.IH) auto
  moreover have "[a..<Suc (a + Suc n)] = a # [Suc a..<Suc (Suc a + n)]"
    by (simp add: upt_rec)
  ultimately show ?case
    using Suc.prems by simp
qed simp

lemma init_run_spec:
  assumes "init_run n (Suc l) l hd' h = (l', h')"
  shows "l' = l + n \<and> (\<forall>x. c_dat (h' x) = c_dat (h x)) \<and>
    (\<forall>x. c_next (h' x) = (if l \<le> x \<and> x < l + n then Suc x else c_next (h x))) \<and>
    (\<forall>x. x \<noteq> hd' \<and> \<not> (l \<le> x \<and> x \<le> l + n) \<longrightarrow> h' x = h x)"
  using assms
proof (induction n arbitrary: l h)
  case (Suc n)
  define h1 where "h1 = h(Suc l := initialize_cbuf (h (Suc l)))"
  define h2 where "h2 = h1(hd' := (h1 hd')\<lparr>total_len := total_len (h1 hd') + c_len (h1 (Suc l))\<rparr>)"
  define h3 where "h3 = h2(l := (h2 l)\<lparr>c_next := Suc l\<rparr>)"
  have "init_run n (Suc (Suc l)) (Suc l) hd' h3 = (l', h')"
    using Suc.prems unfolding h3_def h2_def h1_def init_run.simps(2) Let_def
    by (simp only: Suc_eq_plus1)
  note IH = Suc.IH [OF this]
  have "c_dat (h3 x) = c_dat (h x)" "c_next (h3 x) = (if x = l then Suc l else c_next (h x))"
    "x \<noteq> hd' \<Longrightarrow> x \<noteq> l \<Longrightarrow> x \<noteq> Suc l \<Longrightarrow> h3 x = h x" for x
    by (simp_all add: h3_def h2_def h1_def initialize_cbuf_def)
  then show ?case
    using IH by auto
qed simp

lemma page_align_chunk: "page_align ALLOCATE_CHUNK = ALLOCATE_CHUNK"
  by (simp add: page_align_def ALLOCATE_CHUNK_def)

lemma allocate_chunk:
  assumes "m < 16" "cbuf_bitmap s = prefix_bitmap m"
  shows "\<exists>h'. allocate_cbuf_mem ALLOCATE_CHUNK s =
      Some (32 * m + 1, s\<lparr>cbuf_bitmap := prefix_bitmap (m + 1), heap := h'\<rparr>) \<and>
    chain (nexts h') (32 * m + 1) [32 * m + 1..<32 * m + 33] \<and>
    (\<forall>x. c_dat (h' x) = c_dat (heap s x)) \<and>
    (\<forall>x. \<not> (32 * m + 1 \<le> x \<and> x \<le> 32 * m + 32) \<longrightarrow> h' x = heap s x)"
proof -
  define b where "b = Suc (32 * m)"
  define h0 where "h0 = (heap s)(b := (heap s b)\<lparr>total_len := 0\<rparr>)"
  define h1 where "h1 = h0(b := initialize_cbuf (h0 b))"
  define h2 where "h2 = h1(b := (h1 b)\<lparr>total_len := total_len (h1 b) + c_len (h1 b)\<rparr>)"
  define h3 where "h3 = h2(b := (h2 b)\<lparr>c_next := b\<rparr>)"
  obtain l' h4 where r: "init_run 31 (Suc b) b b h3 = (l', h4)"
    by force
  note R = init_run_spec [OF r]
  have run: "init_run 32 b b b h0 = (b + 31, h4)"
  proof -
    have "init_run (Suc 31) b b b h0 = init_run 31 (b + 1) b b h3"
      unfolding h3_def h2_def h1_def init_run.simps(2) Let_def by (rule refl)
    then show ?thesis
      using r R by simp
  qed
  have cnt: "ALLOCATE_CHUNK div CBUF_LEN = 32" "ALLOCATE_CHUNK \<noteq> 0"
    by (simp_all add: ALLOCATE_CHUNK_def CBUF_LEN_def)
  have "b \<noteq> 0"
    by (simp add: b_def)
  then have loop: "alloc_loop ALLOCATE_CHUNK 0 0 (prefix_bitmap m) (heap s) =
      Some (b, b + 31, prefix_bitmap (m + 1), h4)"
    using run cnt cbuf_alloc_chunk [OF assms(1)]
    by (subst alloc_loop.simps) (simp add: b_def [symmetric] h0_def [symmetric] alloc_loop.simps [of 0])
  define h5 where "h5 = h4(b := (h4 b)\<lparr>c_flags := c_flags (h4 b) OR CBUF_FLAG_CHAIN_HEAD\<rparr>)"
  define h6 where "h6 = h5(b + 31 := (h5 (b + 31))\<lparr>c_flags := c_flags (h5 (b + 31)) OR CBUF_FLAG_CHAIN_TAIL\<rparr>)"
  define h7 where "h7 = h6(b + 31 := (h6 (b + 31))\<lparr>c_next := 0\<rparr>)"
  have al: "allocate_cbuf_mem ALLOCATE_CHUNK s =
      Some (b, s\<lparr>cbuf_bitmap := prefix_bitmap (m + 1), heap := h7\<rparr>)"
    using loop assms(2) by (simp add: allocate_cbuf_mem_def page_align_chunk Let_def h5_def h6_def h7_def b_def)
  have n7: "c_next (h7 x) = (if x = b + 31 then 0 else c_next (h4 x))" "c_dat (h7 x) = c_dat (h4 x)"
    "x \<noteq> b \<Longrightarrow> x \<noteq> b + 31 \<Longrightarrow> h7 x = h4 x" for x
    by (simp_all add: h7_def h6_def h5_def)
  have n3: "c_dat (h3 x) = c_dat (heap s x)" "x \<noteq> b \<Longrightarrow> h3 x = heap s x" for x
    by (simp_all add: h3_def h2_def h1_def h0_def initialize_cbuf_def)
  have "chain (nexts h7) b [b..<Suc (b + 31)]"
    using R by (intro chain_upt) (auto simp: n7 b_def)
  moreover have "\<forall>x. \<not> (b \<le> x \<and> x \<le> b + 31) \<longrightarrow> h7 x = heap s x"
    using R n3 n7 by auto
  ultimately show ?thesis
    using al R n3 n7 by (intro exI [of _ h7]) (simp add: b_def add.commute)
qed

lemma allocate_full:
  assumes "cbuf_bitmap s = prefix_bitmap 16"
  shows "allocate_cbuf_mem ALLOCATE_CHUNK s = Some (0, s)"
proof -
  have "ALLOCATE_CHUNK \<noteq> 0"
    by (simp add: ALLOCATE_CHUNK_def)
  then have "alloc_loop ALLOCATE_CHUNK 0 0 (prefix_bitmap 16) (heap s) = Some (0, 0, prefix_bitmap 16, heap s)"
    by (subst alloc_loop.simps) (simp add: cbuf_alloc_full)
  then show ?thesis
    using assms by (simp add: allocate_cbuf_mem_def page_align_chunk)
qed

section \<open>The pool invariant\<close>

definition fresh :: "cbuf \<Rightarrow> bool" where
  "fresh b \<longleftrightarrow> c_len b = DAT_LEN \<and> total_len b = 0 \<and> c_data b = 0 \<and> c_flags b = 0 \<and> packet_next b = 0"

definition pool :: "cbuf_state \<Rightarrow> nat \<Rightarrow> ptr list \<Rightarrow> bool" where
  "pool s m F \<longleftrightarrow> m \<le> 16 \<and> cbuf_bitmap s = prefix_bitmap m \<and>
     chain (nexts (heap s)) (cbuf_free_list s) F \<and>
     (\<forall>b \<in> set F. fresh (heap s b) \<and> b \<le> 32 * m) \<and>
     (\<forall>b. length (c_dat (heap s b)) = DAT_LEN)"

lemma clear_chain_spec:
  "chain (nexts h) p bs \<Longrightarrow>
   clear_chain p t h = Some (last (t # bs), \<lambda>b. if b \<in> set bs then initialize_cbuf (h b) else h b)"
proof (induction bs arbitrary: p t h)
  case (Cons b bs)
  have b: "p = b" "b \<noteq> 0" "chain (nexts h) (c_next (h b)) bs" "b \<notin> set bs"
    using Cons.prems chain_distinct [OF Cons.prems] by auto
  let ?h = "h(b := initialize_cbuf (h b))"
  have "nexts ?h = nexts h"
    by (simp add: fun_eq_iff initialize_cbuf_def)
  then have "chain (nexts ?h) (c_next (?h b)) bs"
    using b(3) by (simp add: initialize_cbuf_def)
  from Cons.IH [OF this, of b]
  have "clear_chain (c_next (?h b)) b ?h = Some (last (b # bs),
      \<lambda>x. if x \<in> set bs then initialize_cbuf (?h x) else ?h x)" .
  moreover have "(\<lambda>x. if x \<in> set bs then initialize_cbuf (?h x) else ?h x) =
      (\<lambda>x. if x \<in> set (b # bs) then initialize_cbuf (h x) else h x)"
    by (rule ext) (use b(4) in auto)
  ultimately show ?case
    using b(1,2) by (subst clear_chain.simps) (simp only: Let_def, simp)
qed (simp add: clear_chain.simps)

lemma fresh_initialize: "fresh (initialize_cbuf b)" "c_next (initialize_cbuf b) = c_next b"
  "c_dat (initialize_cbuf b) = c_dat b" "fresh (b\<lparr>c_next := n\<rparr>) = fresh b"
  by (simp_all add: fresh_def initialize_cbuf_def)

lemma free_chain_pool:
  assumes P: "pool s m F" and c: "chain (nexts (heap s)) p bs" and p: "p \<noteq> 0"
    and d: "set bs \<inter> set F = {}" and r: "\<forall>b \<in> set bs. b \<le> 32 * m"
  shows "\<exists>s'. cbuf_free_chain p s = Some s' \<and> pool s' m (bs @ F) \<and>
    (\<forall>b. b \<notin> set bs \<longrightarrow> heap s' b = heap s b) \<and>
    cbuf_free_noblock_list s' = cbuf_free_noblock_list s"
proof -
  obtain us l where bs: "bs = us @ [l]"
    using c p by (cases bs rule: rev_cases) auto
  have l: "l \<notin> set us" "l \<notin> set F"
    using chain_distinct [OF c] d bs by auto
  define h1 where "h1 = (\<lambda>b. if b \<in> set bs then initialize_cbuf (heap s b) else heap s b)"
  define h2 where "h2 = h1(l := (h1 l)\<lparr>c_next := cbuf_free_list s\<rparr>)"
  define s' where "s' = s\<lparr>heap := h2, cbuf_free_list := p\<rparr>"
  have free: "cbuf_free_chain p s = Some s'"
    using clear_chain_spec [OF c, of 0] p bs
    by (simp add: cbuf_free_chain_def s'_def h2_def h1_def)
  have n: "nexts h2 = (nexts (heap s))(l := cbuf_free_list s)"
    by (auto simp: fun_eq_iff h2_def h1_def fresh_initialize)
  have "seg (nexts h2) p bs (cbuf_free_list s)"
    unfolding n bs by (rule seg_redirect) (use c bs l in auto)
  moreover have "chain (nexts h2) (cbuf_free_list s) F"
    using P l(2) by (simp add: n pool_def)
  ultimately have "chain (nexts h2) p (bs @ F)"
    unfolding seg_append by blast
  moreover have "\<forall>b \<in> set (bs @ F). fresh (h2 b)" "\<forall>b. length (c_dat (h2 b)) = DAT_LEN"
    using P by (auto simp: h2_def h1_def fresh_initialize pool_def)
  moreover have "\<forall>b. b \<notin> set bs \<longrightarrow> h2 b = heap s b"
    using bs by (simp add: h2_def h1_def)
  ultimately show ?thesis
    using free P r by (auto simp: pool_def s'_def)
qed

section \<open>Taking chains\<close>

text \<open>A chain under construction: fresh cells, newest first, \<open>tail\<close> the oldest.\<close>

definition partial_chain :: "heap \<Rightarrow> ptr \<Rightarrow> ptr \<Rightarrow> ptr list \<Rightarrow> bool" where
  "partial_chain h p tail bs \<longleftrightarrow> chain (nexts h) p bs \<and> (\<forall>b \<in> set bs. fresh (h b)) \<and>
     (bs \<noteq> [] \<longrightarrow> tail = last bs)"

definition chunk_cells :: "nat \<Rightarrow> nat \<Rightarrow> ptr set" where
  "chunk_cells m m' = {b. 32 * m < b \<and> b \<le> 32 * m'}"

lemma chunk_cells_refl [simp]: "chunk_cells m m = {}"
  by (auto simp: chunk_cells_def)

lemma chunk_cells_trans: "m \<le> m1 \<Longrightarrow> m1 \<le> m2 \<Longrightarrow> chunk_cells m m1 \<union> chunk_cells m1 m2 = chunk_cells m m2"
  by (auto simp: chunk_cells_def)

text \<open>The outcome of the allocation loop: cells move between the pool and the chain, none is lost
  or doubled, cells of others are not touched, and the loop gives up only when the region and the
  pool together hold less than \<open>len\<close> bytes.\<close>

definition get_outcome ::
  "nat \<Rightarrow> nat \<Rightarrow> ptr list \<Rightarrow> ptr list \<Rightarrow> cbuf_state \<Rightarrow> ptr \<times> ptr \<times> nat \<times> cbuf_state \<Rightarrow> bool" where
  "get_outcome len m F bs s r \<longleftrightarrow> (case r of (p, tail, cl, s') \<Rightarrow>
     \<exists>m' F' bs'. pool s' m' F' \<and> m \<le> m' \<and> set bs' \<inter> set F' = {} \<and>
       set bs' \<union> set F' = set bs \<union> set F \<union> chunk_cells m m' \<and>
       (\<forall>b. b \<notin> set bs \<and> b \<notin> set F \<and> b \<le> 32 * m \<longrightarrow> heap s' b = heap s b) \<and>
       cbuf_free_noblock_list s' = cbuf_free_noblock_list s \<and>
       (if p = 0 then bs' = [] \<and> m' = 16 \<and> length F' * DAT_LEN < len
        else partial_chain (heap s') p tail bs' \<and> cl = length bs' * DAT_LEN \<and>
          len \<le> cl \<and> cl < len + DAT_LEN))"

lemma get_outcome_weaken:
  assumes "get_outcome len m1 F1 bs1 s1 r" "m \<le> m1"
    and "set bs1 \<union> set F1 = set bs \<union> set F \<union> chunk_cells m m1"
    and "\<forall>b. b \<notin> set bs \<and> b \<notin> set F \<and> b \<le> 32 * m \<longrightarrow> heap s1 b = heap s b"
    and "cbuf_free_noblock_list s1 = cbuf_free_noblock_list s"
  shows "get_outcome len m F bs s r"
proof -
  obtain p tail cl s' where r: "r = (p, tail, cl, s')"
    by (cases r) auto
  obtain m' F' bs' where *: "pool s' m' F'" "m1 \<le> m'" "set bs' \<inter> set F' = {}"
    "set bs' \<union> set F' = set bs1 \<union> set F1 \<union> chunk_cells m1 m'"
    "\<forall>b. b \<notin> set bs1 \<and> b \<notin> set F1 \<and> b \<le> 32 * m1 \<longrightarrow> heap s' b = heap s1 b"
    "cbuf_free_noblock_list s' = cbuf_free_noblock_list s1"
    "if p = 0 then bs' = [] \<and> m' = 16 \<and> length F' * DAT_LEN < len
        else partial_chain (heap s') p tail bs' \<and> cl = length bs' * DAT_LEN \<and>
          len \<le> cl \<and> cl < len + DAT_LEN"
    using assms(1) unfolding get_outcome_def r by auto
  have "set bs' \<union> set F' = set bs \<union> set F \<union> chunk_cells m m'"
    using *(4) assms(3) chunk_cells_trans [OF assms(2) *(2)] by blast
  moreover have "heap s' b = heap s b" if "b \<notin> set bs" "b \<notin> set F" "b \<le> 32 * m" for b
  proof -
    have "b \<notin> chunk_cells m m1"
      using that by (auto simp: chunk_cells_def)
    then have "b \<notin> set bs1" "b \<notin> set F1"
      using assms(3) that by blast+
    then show ?thesis
      using *(5) assms(2,4) that by simp
  qed
  ultimately show ?thesis
    using * assms(2,5) unfolding get_outcome_def r by (intro case_prodI exI conjI) auto
qed

lemma partial_chain_frame:
  "partial_chain h p t bs \<Longrightarrow> (\<And>b. b \<in> set bs \<Longrightarrow> h' b = h b) \<Longrightarrow> partial_chain h' p t bs"
proof -
  assume a: "partial_chain h p t bs" "\<And>b. b \<in> set bs \<Longrightarrow> h' b = h b"
  have "chain (nexts h') p bs = chain (nexts h) p bs"
    by (rule seg_cong) (simp add: a(2))
  then show ?thesis
    using a by (simp add: partial_chain_def)
qed

lemma get_loop_take:
  assumes P: "pool s m F" and B: "partial_chain (heap s) p tail bs" "set bs \<inter> set F = {}"
    and F: "F = f # G"
    and s1: "s1 = s\<lparr>cbuf_free_list := c_next (heap s f),
                 heap := (heap s)(f := (heap s f)\<lparr>c_flags := 0, c_next := p\<rparr>)\<rparr>"
  shows "pool s1 m G" "partial_chain (heap s1) f (if p = 0 then f else tail) (f # bs)"
    "set (f # bs) \<inter> set G = {}" "c_len (heap s1 f) = DAT_LEN" "f \<noteq> 0" "cbuf_free_list s = f"
proof -
  have f: "cbuf_free_list s = f" "f \<noteq> 0" "chain (nexts (heap s)) (c_next (heap s f)) G" "f \<notin> set G" "f \<notin> set bs"
    "distinct F" "fresh (heap s f)"
    using P B(2) F chain_distinct [of "nexts (heap s)" "cbuf_free_list s" F] by (auto simp: pool_def)
  have n: "nexts (heap s1) = (nexts (heap s))(f := p)"
    by (auto simp: s1)
  show "pool s1 m G"
    using P f F n by (auto simp: pool_def s1)
  show "partial_chain (heap s1) f (if p = 0 then f else tail) (f # bs)"
    using B(1) f n by (auto simp: partial_chain_def s1 fresh_def)
  show "set (f # bs) \<inter> set G = {}" "c_len (heap s1 f) = DAT_LEN" "f \<noteq> 0" "cbuf_free_list s = f"
    using B(2) F f by (auto simp: s1 fresh_def)
qed

lemma get_loop_spec:
  assumes "pool s m F" "partial_chain (heap s) p tail bs" "set bs \<inter> set F = {}"
    and "\<forall>b \<in> set bs. b \<le> 32 * m" "cl = length bs * DAT_LEN" "p = 0 \<longleftrightarrow> bs = []"
    and "cl < len + DAT_LEN" "0 < len"
  shows "\<exists>r. get_loop len p tail cl s = Some r \<and> get_outcome len m F bs s r"
  using assms(1-7)
proof (induction "(len - cl) + (16 - m)" arbitrary: s m F p tail bs cl rule: less_induct)
  case less
  note P = less.prems(1) and B = less.prems(2)
  consider "len \<le> cl" | "cl < len" "F = []" "m = 16" | "cl < len" "F = []" "m < 16"
    | f G where "cl < len" "F = f # G"
    using P unfolding pool_def by (metis le_neq_implies_less linorder_not_le list.exhaust)
  then show ?case
  proof cases
    case 1
    then have "p \<noteq> 0"
      using less.prems(5,6) assms(8) by auto
    then have "get_outcome len m F bs s (p, tail, cl, s)"
      using 1 less.prems unfolding get_outcome_def
      by (intro case_prodI exI [of _ m] exI [of _ F] exI [of _ bs]) auto
    then show ?thesis
      using 1 by (subst get_loop.simps) simp
  next
    case 2
    then have z: "cbuf_free_list s = 0" "allocate_cbuf_mem ALLOCATE_CHUNK s = Some (0, s)"
      using P allocate_full by (auto simp: pool_def)
    show ?thesis
    proof (cases "p = 0")
      case True
      then have "get_outcome len m F bs s (0, 0, cl, s)"
        using 2 less.prems assms(8) unfolding get_outcome_def
        by (intro case_prodI exI [of _ m] exI [of _ F] exI [of _ bs]) auto
      then show ?thesis
        using True z 2 by (subst get_loop.simps) simp
    next
      case False
      obtain s' where s': "cbuf_free_chain p s = Some s'" "pool s' m (bs @ F)"
          "\<forall>b. b \<notin> set bs \<longrightarrow> heap s' b = heap s b"
          "cbuf_free_noblock_list s' = cbuf_free_noblock_list s"
        using free_chain_pool [OF P _ False less.prems(3,4)] B by (auto simp: partial_chain_def)
      have "get_outcome len m F bs s (0, 0, cl, s')"
        using s' 2 less.prems(5) unfolding get_outcome_def
        by (intro case_prodI exI [of _ m] exI [of _ "bs @ F"] exI [of _ "[]"]) auto
      then show ?thesis
        using False z 2 s'(1) by (subst get_loop.simps) simp
    qed
  next
    case 3
    then have z: "cbuf_free_list s = 0"
      using P by (simp add: pool_def)
    let ?c = "32 * m + 1" and ?cs = "[32 * m + 1..<32 * m + 33]"
    obtain h' where h': "allocate_cbuf_mem ALLOCATE_CHUNK s =
        Some (?c, s\<lparr>cbuf_bitmap := prefix_bitmap (m + 1), heap := h'\<rparr>)"
      "chain (nexts h') ?c ?cs" "\<forall>x. c_dat (h' x) = c_dat (heap s x)"
      "\<forall>x. \<not> (32 * m + 1 \<le> x \<and> x \<le> 32 * m + 32) \<longrightarrow> h' x = heap s x"
      using allocate_chunk [OF 3(3), of s] P by (auto simp: pool_def)
    define s1 where "s1 = s\<lparr>cbuf_bitmap := prefix_bitmap (m + 1), heap := h'\<rparr>"
    have P1: "pool s1 (m + 1) []"
      using P 3 h'(3) z by (simp add: pool_def s1_def)
    have c1: "chain (nexts (heap s1)) ?c ?cs"
      using h'(2) by (simp add: s1_def)
    have "\<forall>b \<in> set ?cs. b \<le> 32 * (m + 1)" "?c \<noteq> 0" "set ?cs \<inter> set [] = {}"
      by auto
    from free_chain_pool [OF P1 c1 this(2,3,1)] obtain s2 where
      s2: "cbuf_free_chain ?c s1 = Some s2" "pool s2 (m + 1) ?cs"
        "\<forall>b. b \<notin> set ?cs \<longrightarrow> heap s2 b = heap s1 b"
        "cbuf_free_noblock_list s2 = cbuf_free_noblock_list s1"
      by auto
    have same: "heap s2 b = heap s b" if "b \<le> 32 * m" for b
      using s2(3) h'(4) that by (simp add: s1_def)
    have cs: "set ?cs = chunk_cells m (m + 1)"
      by (auto simp: chunk_cells_def)
    have "(len - cl) + (16 - (m + 1)) < (len - cl) + (16 - m)"
      using 3(3) by simp
    moreover have "partial_chain (heap s2) p tail bs"
      by (rule partial_chain_frame [OF B]) (use less.prems(4) same in auto)
    moreover have "set bs \<inter> set ?cs = {}" "\<forall>b \<in> set bs. b \<le> 32 * (m + 1)"
      using less.prems(4) by fastforce+
    ultimately obtain r where r: "get_loop len p tail cl s2 = Some r" "get_outcome len (m + 1) ?cs bs s2 r"
      using less.hyps [of cl "m + 1" s2 ?cs p tail bs] s2(2) less.prems(5-7) by blast
    have "get_outcome len m F bs s r"
      by (rule get_outcome_weaken [OF r(2)]) (use cs same 3 s2(4) in \<open>auto simp: s1_def\<close>)
    moreover have "get_loop len p tail cl s = Some r"
      using 3(1) z h'(1) s2(1) r(1) by (subst get_loop.simps) (simp add: s1_def)
    ultimately show ?thesis
      by blast
  next
    case 4
    define s1 where "s1 = s\<lparr>cbuf_free_list := c_next (heap s f),
                 heap := (heap s)(f := (heap s f)\<lparr>c_flags := 0, c_next := p\<rparr>)\<rparr>"
    note T = get_loop_take [OF P B less.prems(3) 4(2) s1_def]
    have D: "DAT_LEN > 0"
      by (simp add: DAT_LEN_def)
    have "(len - (cl + DAT_LEN)) + (16 - m) < (len - cl) + (16 - m)"
      using 4(1) D by simp
    moreover have "cl + DAT_LEN = length (f # bs) * DAT_LEN" "cl + DAT_LEN < len + DAT_LEN"
      "f = 0 \<longleftrightarrow> f # bs = []" "\<forall>b \<in> set (f # bs). b \<le> 32 * m"
      using less.prems(4,5) 4 T(5) P by (auto simp: pool_def)
    ultimately obtain r where r: "get_loop len f (if p = 0 then f else tail) (cl + DAT_LEN) s1 = Some r"
        "get_outcome len m G (f # bs) s1 r"
      using less.hyps [of "cl + DAT_LEN" m s1 G f "if p = 0 then f else tail" "f # bs"] T(1-3) by blast
    have "get_outcome len m F bs s r"
      by (rule get_outcome_weaken [OF r(2)]) (use 4(2) in \<open>auto simp: s1_def\<close>)
    moreover have "get_loop len p tail cl s = Some r"
      using r(1) 4(1) T(4-6) unfolding s1_def by (subst get_loop.simps) (simp add: Let_def)
    ultimately show ?thesis
      by blast
  qed
qed

lemma fixup_pkt:
  assumes B: "partial_chain h p tail bs" and p: "p \<noteq> 0" and d: "\<forall>b. length (c_dat (h b)) = DAT_LEN"
    and cl: "cl = length bs * DAT_LEN" "len \<le> cl" "cl < len + DAT_LEN"
  shows "\<exists>xs. pkt (fixup_chain p tail cl len h) p bs xs \<and> length xs = len"
    and "\<forall>b. b \<notin> set bs \<longrightarrow> fixup_chain p tail cl len h b = h b"
    and "packet_next (fixup_chain p tail cl len h b) = packet_next (h b)"
proof -
  let ?h = "fixup_chain p tail cl len h"
  obtain us where bs: "bs = us @ [tail]"
    using B p unfolding partial_chain_def
    by (metis append_butlast_last_id chain_null seg.simps(1))
  have c: "chain (nexts h) p bs" and fr: "\<forall>b \<in> set bs. fresh (h b)"
    using B by (simp_all add: partial_chain_def)
  have hd: "hd bs = p" "bs \<noteq> []"
    using seg_hd [OF c] bs by auto
  then have "p \<in> set bs"
    using list.set_sel(1) by blast
  moreover have "tail \<in> set bs" "tail \<notin> set us"
    using bs chain_distinct [OF c] by simp_all
  ultimately have ps: "p \<in> set bs" "tail \<in> set bs" "tail \<notin> set us"
    by blast+
  have f: "c_next (?h b) = c_next (h b)" "c_data (?h b) = c_data (h b)" "c_dat (?h b) = c_dat (h b)"
    "packet_next (?h b) = packet_next (h b)"
    "c_len (?h b) = (if b = tail then c_len (h b) - (cl - len) else c_len (h b))"
    "total_len (?h b) = (if b = p then len else total_len (h b))"
    "c_flags (?h b) = (let g = (if b = p then c_flags (h b) OR CBUF_FLAG_CHAIN_HEAD else c_flags (h b))
       in if b = tail then g OR CBUF_FLAG_CHAIN_TAIL else g)" for b
    by (auto simp: fixup_chain_def Let_def)
  show "packet_next (?h b) = packet_next (h b)"
    by (rule f(4))
  show "\<forall>b. b \<notin> set bs \<longrightarrow> ?h b = h b"
    using ps by (auto simp: fixup_chain_def Let_def)
  have "nexts ?h = nexts h"
    by (simp add: f fun_eq_iff)
  then have cells: "cells ?h p bs"
    using c fr d by (auto simp: cells_def wf_cell_def f fresh_def)
  have "length (content ?h us) = length us * DAT_LEN"
    using fr ps(3) d unfolding bs
    by (induction us) (auto simp: cell_bytes_def f fresh_def)
  moreover have "length (cell_bytes (?h tail)) = DAT_LEN - (cl - len)"
    using fr ps(2) d by (simp add: cell_bytes_def f fresh_def)
  ultimately have len: "length (content ?h bs) = len"
    using cl unfolding bs by simp
  have "flags_ok ?h bs"
    unfolding flags_ok_def
  proof (intro conjI ballI)
    fix b
    assume "b \<in> set (butlast bs)"
    then show "c_flags (?h b) AND CBUF_FLAG_CHAIN_TAIL = 0"
      using fr ps(3) bs by (auto simp: f Let_def fresh_def)
  next
    fix b
    assume "b \<in> set (tl bs)"
    moreover have "p \<notin> set (tl bs)"
      using chain_distinct [OF c] hd by (cases bs) auto
    ultimately show "c_flags (?h b) AND CBUF_FLAG_CHAIN_HEAD = 0"
      using fr list.set_sel(2) [OF hd(2)] by (auto simp: f Let_def fresh_def)
  next
    show "c_flags (?h (hd bs)) AND CBUF_FLAG_CHAIN_HEAD \<noteq> 0"
      "c_flags (?h (last bs)) AND CBUF_FLAG_CHAIN_TAIL \<noteq> 0"
      using hd bs by (auto simp: f Let_def)
  qed
  then show "\<exists>xs. pkt ?h p bs xs \<and> length xs = len"
    using cells len p by (simp add: pkt_def f)
qed

lemma get_chain_pool:
  assumes P: "pool s m F" and len: "0 < len"
  shows "\<exists>p s' m' F' bs. cbuf_get_chain len s = Some (p, s') \<and> pool s' m' F' \<and> m \<le> m' \<and>
    set bs \<inter> set F' = {} \<and> set bs \<union> set F' = set F \<union> chunk_cells m m' \<and>
    (\<forall>b. b \<notin> set F \<and> b \<le> 32 * m \<longrightarrow> heap s' b = heap s b) \<and>
    (if p = 0 then bs = [] \<and> m' = 16 \<and> length F' * DAT_LEN < len
     else (\<exists>xs. pkt (heap s') p bs xs \<and> length xs = len) \<and> length bs * DAT_LEN < len + DAT_LEN)"
proof -
  have B: "partial_chain (heap s) 0 0 []"
    by (simp add: partial_chain_def)
  obtain p tail cl s1 where g: "get_loop len 0 0 0 s = Some (p, tail, cl, s1)"
      "get_outcome len m F [] s (p, tail, cl, s1)"
    using get_loop_spec [OF P B, of 0 len] len by (auto simp: DAT_LEN_def)
  then obtain m' F' bs where *: "pool s1 m' F'" "m \<le> m'" "set bs \<inter> set F' = {}"
    "set bs \<union> set F' = set F \<union> chunk_cells m m'"
    "\<forall>b. b \<notin> set F \<and> b \<le> 32 * m \<longrightarrow> heap s1 b = heap s b"
    "if p = 0 then bs = [] \<and> m' = 16 \<and> length F' * DAT_LEN < len
        else partial_chain (heap s1) p tail bs \<and> cl = length bs * DAT_LEN \<and>
          len \<le> cl \<and> cl < len + DAT_LEN"
    unfolding get_outcome_def by auto
  show ?thesis
  proof (cases "p = 0")
    case True
    then show ?thesis
      using * g(1) len by (intro exI [of _ p] exI [of _ s1] exI [of _ m'] exI [of _ F'] exI [of _ bs])
        (simp add: cbuf_get_chain_def)
  next
    case False
    define s' where "s' = s1\<lparr>heap := fixup_chain p tail cl len (heap s1)\<rparr>"
    have d: "\<forall>b. length (c_dat (heap s1 b)) = DAT_LEN"
      using *(1) by (simp add: pool_def)
    have f: "partial_chain (heap s1) p tail bs" "cl = length bs * DAT_LEN" "len \<le> cl" "cl < len + DAT_LEN"
      using *(6) False by simp_all
    note X = fixup_pkt [OF f(1) False d f(2-4)]
    have c: "cbuf_get_chain len s = Some (p, s')"
      using g(1) False len by (simp add: cbuf_get_chain_def s'_def)
    have eq: "heap s' b = heap s1 b" if "b \<notin> set bs" for b
      using X(2) that by (simp add: s'_def)
    have F': "chain (nexts (heap s')) (cbuf_free_list s') F'"
    proof -
      have "chain (nexts (heap s')) (cbuf_free_list s1) F' = chain (nexts (heap s1)) (cbuf_free_list s1) F'"
        using *(3) by (intro seg_cong) (metis disjoint_iff eq)
      then show ?thesis
        using *(1) by (simp add: pool_def s'_def)
    qed
    have "heap s' b = heap s1 b" if "b \<in> set F'" for b
      using that *(3) eq by blast
    moreover have "length (c_dat (heap s' b)) = DAT_LEN" for b
      using d by (auto simp: s'_def fixup_chain_def Let_def)
    ultimately have "pool s' m' F'"
      using *(1) F' by (simp add: pool_def s'_def)
    moreover have "\<forall>b. b \<notin> set F \<and> b \<le> 32 * m \<longrightarrow> heap s' b = heap s b"
    proof (intro allI impI)
      fix b
      assume b: "b \<notin> set F \<and> b \<le> 32 * m"
      then have "b \<notin> set bs"
        using *(4) by (auto simp: chunk_cells_def set_eq_iff)
      then show "heap s' b = heap s b"
        using eq *(5) b by simp
    qed
    ultimately show ?thesis
      using c * X(1) False f by (intro exI [of _ p] exI [of _ s'] exI [of _ m'] exI [of _ F'] exI [of _ bs])
        (auto simp: s'_def)
  qed
qed

section \<open>Packets and the pool\<close>

text \<open>\<open>owns s m F L\<close>: the pool and the live packets \<open>L\<close> (their cells) share the handed-out cells
  without overlap.\<close>

definition live :: "cbuf_state \<Rightarrow> nat \<Rightarrow> ptr list \<Rightarrow> ptr \<Rightarrow> ptr list \<Rightarrow> byte list \<Rightarrow> bool" where
  "live s m F p bs xs \<longleftrightarrow> pool s m F \<and> pkt (heap s) p bs xs \<and> set bs \<inter> set F = {} \<and>
     (\<forall>b \<in> set bs. b \<le> 32 * m)"

lemma pool_heap:
  assumes P: "pool s m F" and "\<And>b. b \<in> set F \<Longrightarrow> h' b = heap s b"
    and "\<And>b. length (c_dat (h' b)) = DAT_LEN"
  shows "pool (s\<lparr>heap := h'\<rparr>) m F"
proof -
  have "chain (nexts h') (cbuf_free_list s) F = chain (nexts (heap s)) (cbuf_free_list s) F"
    by (rule seg_cong) (simp add: assms(2))
  then show ?thesis
    using assms by (simp add: pool_def)
qed

lemma free_live:
  assumes "live s m F p bs xs"
  shows "\<exists>s'. cbuf_free_chain p s = Some s' \<and> pool s' m (bs @ F) \<and>
    (\<forall>b. b \<notin> set bs \<longrightarrow> heap s' b = heap s b)"
proof -
  have a: "pool s m F" "set bs \<inter> set F = {}" "\<forall>b \<in> set bs. b \<le> 32 * m" "pkt (heap s) p bs xs"
    using assms by (simp_all add: live_def)
  have c: "chain (nexts (heap s)) p bs"
    using pktD(2) [OF a(4)] by (simp add: cells_def)
  show ?thesis
    using free_chain_pool [OF a(1) c pktD(1) [OF a(4)] a(2,3)] by blast
qed

text \<open>Duplication.\<close>

lemma dup_loop_cells:
  assumes "cells h p bs" "bo = 0 \<or> bs \<noteq> [] \<and> bo < c_len (h p)"
    and "cells h q cs" "dbo = 0 \<or> cs \<noteq> [] \<and> dbo < c_len (h q)"
    and "set bs \<inter> set cs = {}"
    and "bo + n \<le> length (content h bs)" "dbo + n \<le> length (content h cs)"
  shows "\<exists>h'. dup_loop p bo q dbo n h = Some (True, h') \<and> same_shape (set cs) h h' \<and>
    content h' cs = take dbo (content h cs) @ take n (drop bo (content h bs)) @ drop (dbo + n) (content h cs)"
  using assms
proof (induction "length bs + length cs" arbitrary: p bs bo q cs dbo n h rule: less_induct)
  case less
  show ?case
  proof (cases "n = 0")
    case True
    have "content h cs = take dbo (content h cs) @ take n (drop bo (content h bs)) @ drop (dbo + n) (content h cs)"
      using True by simp
    moreover have "dup_loop p bo q dbo n h = Some (True, h)"
      using True by (subst dup_loop.simps) simp
    ultimately show ?thesis
      using same_shape_refl by blast
  next
    case False
    obtain b bs' where bs: "bs = b # bs'"
      using False less.prems(6) by (cases bs) auto
    obtain c cs' where cs: "cs = c # cs'"
      using False less.prems(7) by (cases cs) auto
    have b: "p = b" "b \<noteq> 0" "wf_cell (h b)" "cells h (c_next (h b)) bs'" "bo \<le> c_len (h b)"
      using less.prems(1,2) bs by auto
    have c: "q = c" "c \<noteq> 0" "wf_cell (h c)" "cells h (c_next (h c)) cs'" "dbo \<le> c_len (h c)"
      "c \<notin> set cs'" "c \<notin> set bs" "b \<noteq> c"
      using less.prems(3-5) cs bs cells_distinct [OF less.prems(3)] by auto
    define k where "k = min (min (c_len (h c) - dbo) (c_len (h b) - bo)) n"
    define S where "S = drop bo (content h bs)"
    define D where "D = content h cs"
    define xs where "xs = take k (drop bo (cell_bytes (h b)))"
    have k: "bo + k \<le> c_len (h b)" "dbo + k \<le> c_len (h c)" "k \<le> n"
      using b(5) c(5) by (auto simp: k_def)
    have lx: "length xs = k"
      using k(1) b(3) by (simp add: xs_def)
    have xsS: "xs = take k S"
      using k(1) b(3,5) bs by (simp add: xs_def S_def)
    have r: "mem_read (h b) bo k = Some xs"
      using mem_read_cell [OF b(3) k(1)] by (simp add: xs_def)
    obtain c' where c': "mem_write (h c) dbo xs = Some c'" "wf_cell c'" "c_next c' = c_next (h c)"
        "c_len c' = c_len (h c)" "c_data c' = c_data (h c)" "total_len c' = total_len (h c)"
        "c_flags c' = c_flags (h c)" "packet_next c' = packet_next (h c)"
        "cell_bytes c' = take dbo (cell_bytes (h c)) @ xs @ drop (dbo + k) (cell_bytes (h c))"
      using mem_write_cell [OF c(3), of dbo xs] k(2) lx by auto
    define h1 where "h1 = h(c := c')"
    have sh1: "same_shape {c} h h1"
      using c' c(3) by (auto simp: same_shape_def h1_def wf_cell_def)
    define D1 where "D1 = take dbo D @ xs @ drop (dbo + k) D"
    have D1: "content h1 cs = D1"
      using c(3,5,6) c'(9) k(2) cs by (simp add: h1_def D1_def D_def)
    define srcdone where "srcdone \<longleftrightarrow> k + bo = c_len (h b)"
    define dstdone where "dstdone \<longleftrightarrow> k + dbo = c_len (h c)"
    define bs1 where "bs1 = (if srcdone then bs' else bs)"
    define cs1 where "cs1 = (if dstdone then cs' else cs)"
    define p1 where "p1 = (if srcdone then c_next (h b) else b)"
    define q1 where "q1 = (if dstdone then c_next (h c) else c)"
    define bo1 where "bo1 = (if srcdone then 0 else bo + k)"
    define dbo1 where "dbo1 = (if dstdone then 0 else dbo + k)"
    have hb: "h1 b = h b" "c_next (h1 c) = c_next (h c)" "c_len (h1 c) = c_len (h c)"
      using c(8) c' by (simp_all add: h1_def)
    have step: "dup_loop p bo q dbo n h = dup_loop p1 bo1 q1 dbo1 (n - k) h1"
    proof -
      have "dup_loop b bo c dbo n h =
          (let (buf', bo') = (if k + bo = c_len (h1 b) then (c_next (h1 b), 0) else (b, bo + k));
               (destbuf', dbo') = (if k + dbo = c_len (h1 c) then (c_next (h1 c), 0) else (c, dbo + k))
           in dup_loop buf' bo' destbuf' dbo' (n - k) h1)"
        using r c'(1) False b(2) c(2) unfolding k_def h1_def
        by (subst dup_loop.simps) (simp only: Let_def if_False if_True simp_thms Option.bind.simps de_Morgan_disj)
      then show ?thesis
        unfolding b(1) c(1) hb by (simp add: p1_def q1_def bo1_def dbo1_def srcdone_def dstdone_def)
    qed
    show ?thesis
    proof (cases "k = n")
      case True
      then have "dup_loop p bo q dbo n h = Some (True, h1)"
        unfolding step by (subst dup_loop.simps) simp
      moreover have "same_shape (set cs) h h1"
        by (rule same_shape_trans [OF sh1 same_shape_refl [of "{}"]]) (simp add: cs)
      ultimately show ?thesis
        using D1 True xsS unfolding D1_def D_def S_def by blast
    next
      case kn: False
      then have adv: "srcdone \<or> dstdone"
        using k b(5) c(5) by (auto simp: k_def srcdone_def dstdone_def min_def split: if_splits)
      have c1: "cells h1 p1 bs1" "content h1 bs1 = content h bs1"
        using less.prems(1) b c(7) bs unfolding h1_def bs1_def p1_def by auto
      have c2: "cells h1 q1 cs1"
        using less.prems(3) c cs c'(2,3) unfolding h1_def cs1_def q1_def by auto
      have o1: "bo1 = 0 \<or> bs1 \<noteq> [] \<and> bo1 < c_len (h1 p1)"
        using k(1) bs hb by (auto simp: bo1_def bs1_def p1_def srcdone_def)
      have o2: "dbo1 = 0 \<or> cs1 \<noteq> [] \<and> dbo1 < c_len (h1 q1)"
        using k(2) cs hb by (auto simp: dbo1_def cs1_def q1_def dstdone_def)
      have dj: "set bs1 \<inter> set cs1 = {}"
        using less.prems(5) bs cs by (auto simp: bs1_def cs1_def)
      have "drop bo1 (content h bs1) = drop (k + bo) (content h bs)"
        using b(3) bs by (simp add: bo1_def bs1_def srcdone_def add.commute)
      then have S1: "drop bo1 (content h bs1) = drop k S"
        by (simp add: S_def)
      have pre: "take (dbo + k) D1 = take dbo D @ xs" and post: "drop (dbo + n) D1 = drop (dbo + n) D"
        using less.prems(7) k(3) lx by (auto simp: D1_def D_def add.commute)
      have l1: "bo1 + (n - k) \<le> length (content h1 bs1)"
        using less.prems(6) bs b(3) k c1(2) by (auto simp: bo1_def bs1_def srcdone_def)
      have "length D1 = length D"
        using less.prems(7) k(3) lx by (auto simp: D1_def D_def)
      then have l2: "dbo1 + (n - k) \<le> length (content h1 cs1)"
        using less.prems(7) cs c(3,6) k D1 c'(2,4)
        by (auto simp: dbo1_def cs1_def dstdone_def D_def h1_def)
      have "length bs1 + length cs1 < length bs + length cs"
        using adv bs cs by (auto simp: bs1_def cs1_def)
      from less.hyps [OF this c1(1) o1 c2 o2 dj l1 l2] obtain h' where
        h': "dup_loop p1 bo1 q1 dbo1 (n - k) h1 = Some (True, h')" "same_shape (set cs1) h1 h'"
          "content h' cs1 = take dbo1 (content h1 cs1) @ take (n - k) (drop k S) @
             drop (dbo1 + (n - k)) (content h1 cs1)"
        unfolding c1(2) S1 by blast
      have sh: "same_shape (set cs) h h'"
        by (rule same_shape_trans [OF sh1 h'(2)]) (auto simp: cs cs1_def)
      have "content h' cs = take (dbo + k) D1 @ take (n - k) (drop k S) @ drop (dbo + n) D1"
      proof (cases dstdone)
        case True
        then have "h' c = h1 c" "dbo + k = length (cell_bytes (h1 c))"
          using h'(2) c(6) c'(2,4) by (auto simp: same_shape_def cs1_def dstdone_def h1_def)
        moreover from this have "dbo + n - length (cell_bytes (h1 c)) = n - k"
          using k(3) by simp
        ultimately show ?thesis
          using True h'(3) cs D1 k(3) by (auto simp: cs1_def dbo1_def)
      next
        case False
        then show ?thesis
          using h'(3) D1 k(3) by (simp add: cs1_def dbo1_def)
      qed
      moreover have "xs @ take (n - k) (drop k S) = take n S"
        unfolding xsS using k(3) by (metis le_add_diff_inverse take_add)
      ultimately have "content h' cs = take dbo D @ take n S @ drop (dbo + n) D"
        unfolding pre post by (metis append_assoc)
      then show ?thesis
        using h'(1) sh step unfolding D_def S_def by auto
    qed
  qed
qed

lemma live_pkt: "live s m F p bs xs \<Longrightarrow> pkt (heap s) p bs xs"
  by (simp add: live_def)

lemma live_heap:
  assumes "live s m F p bs xs" "pkt h' p bs' ys" "set bs' \<subseteq> set bs"
    and "\<And>b. b \<notin> set bs \<Longrightarrow> h' b = heap s b" "\<And>b. length (c_dat (h' b)) = DAT_LEN"
  shows "live (s\<lparr>heap := h'\<rparr>) m F p bs' ys"
proof -
  have "pool (s\<lparr>heap := h'\<rparr>) m F"
    by (rule pool_heap) (use assms in \<open>auto simp: live_def\<close>)
  then show ?thesis
    using assms(1-3) by (auto simp: live_def)
qed

lemma truncate_head_live:
  assumes L: "live s m F p bs xs"
  shows "\<exists>h'. cbuf_truncate_head p n False s = Some (p, s\<lparr>heap := h'\<rparr>) \<and>
    live (s\<lparr>heap := h'\<rparr>) m F p bs (drop n xs) \<and> (\<forall>b. b \<notin> set bs \<longrightarrow> h' b = heap s b)"
proof -
  obtain h' where h': "cbuf_truncate_head p n False s = Some (p, s\<lparr>heap := h'\<rparr>)"
      "pkt h' p bs (drop n xs)" "\<forall>b. b \<notin> set bs \<longrightarrow> h' b = heap s b"
    using truncate_head_pkt [OF live_pkt [OF L]] by blast
  have "length (c_dat (h' b)) = DAT_LEN" for b
  proof (cases "b \<in> set bs")
    case True
    then show ?thesis
      using pktD(2) [OF h'(2)] by (simp add: cells_def wf_cell_def)
  next
    case False
    then show ?thesis
      using h'(3) L by (simp add: live_def pool_def)
  qed
  then have "live (s\<lparr>heap := h'\<rparr>) m F p bs (drop n xs)"
    using h' by (intro live_heap [OF L]) auto
  then show ?thesis
    using h' by blast
qed

lemma get_chain_live:
  assumes P: "pool s m F" and len: "0 < len"
  shows "\<exists>q s' m' F'. cbuf_get_chain len s = Some (q, s') \<and> pool s' m' F' \<and> m \<le> m' \<and>
    set F' \<subseteq> set F \<union> chunk_cells m m' \<and>
    (\<forall>b. b \<notin> set F \<and> b \<le> 32 * m \<longrightarrow> heap s' b = heap s b) \<and>
    (if q = 0 then m' = 16 \<and> length F' * DAT_LEN < len
     else \<exists>cs ys. live s' m' F' q cs ys \<and> length ys = len \<and> set cs \<subseteq> set F \<union> chunk_cells m m')"
proof -
  obtain q s' m' F' cs where g: "cbuf_get_chain len s = Some (q, s')" "pool s' m' F'" "m \<le> m'"
    "set cs \<inter> set F' = {}" "set cs \<union> set F' = set F \<union> chunk_cells m m'"
    "\<forall>b. b \<notin> set F \<and> b \<le> 32 * m \<longrightarrow> heap s' b = heap s b"
    "if q = 0 then cs = [] \<and> m' = 16 \<and> length F' * DAT_LEN < len
     else (\<exists>xs. pkt (heap s') q cs xs \<and> length xs = len) \<and> length cs * DAT_LEN < len + DAT_LEN"
    using get_chain_pool [OF P len] by blast
  have "set cs \<subseteq> set F \<union> chunk_cells m m'" "set F' \<subseteq> set F \<union> chunk_cells m m'"
    using g(5) by blast+
  moreover have "\<forall>b \<in> set F \<union> chunk_cells m m'. b \<le> 32 * m'"
    using P g(3) by (auto simp: pool_def chunk_cells_def)
  moreover from calculation have "\<forall>b \<in> set cs. b \<le> 32 * m'"
    by blast
  ultimately have "if q = 0 then m' = 16 \<and> length F' * DAT_LEN < len
     else \<exists>cs ys. live s' m' F' q cs ys \<and> length ys = len \<and> set cs \<subseteq> set F \<union> chunk_cells m m'"
  proof (cases "q = 0")
    case False
    then obtain ys where "pkt (heap s') q cs ys" "length ys = len"
      using g(7) by auto
    then have "live s' m' F' q cs ys"
      using g(2,4) \<open>\<forall>b \<in> set cs. b \<le> 32 * m'\<close> by (simp add: live_def)
    then show ?thesis
      using False \<open>length ys = len\<close> \<open>set cs \<subseteq> set F \<union> chunk_cells m m'\<close> by auto
  qed (use g(7) in simp)
  then show ?thesis
    using g(1-3,6) \<open>set F' \<subseteq> set F \<union> chunk_cells m m'\<close> by blast
qed

text \<open>A packet that was live stays so when cells of the pool and the region are taken.\<close>

lemma live_keep:
  assumes L: "live s m F p bs xs" and "pool s' m' F'" "m \<le> m'" "set F' \<subseteq> set F \<union> chunk_cells m m'"
    and "\<forall>b. b \<notin> set F \<and> b \<le> 32 * m \<longrightarrow> heap s' b = heap s b"
  shows "live s' m' F' p bs xs"
proof -
  have bs: "\<forall>b \<in> set bs. b \<notin> set F \<and> b \<le> 32 * m"
    using L by (auto simp: live_def)
  then have "pkt (heap s') p bs xs = pkt (heap s) p bs xs"
    using assms(5) by (intro pkt_cong) auto
  moreover have "set bs \<inter> (set F \<union> chunk_cells m m') = {}"
    using bs by (auto simp: chunk_cells_def)
  then have "set bs \<inter> set F' = {}"
    using assms(4) by blast
  moreover have "\<forall>b \<in> set bs. b \<le> 32 * m'"
    using bs assms(3) by fastforce
  ultimately show ?thesis
    using L assms(2) by (simp add: live_def)
qed

lemma live_disjoint_keep:
  assumes "live s m F p bs xs" "set cs \<subseteq> set F \<union> chunk_cells m m'"
  shows "set bs \<inter> set cs = {}"
proof -
  have "set bs \<inter> (set F \<union> chunk_cells m m') = {}"
    using assms(1) by (auto simp: live_def chunk_cells_def)
  then show ?thesis
    using assms(2) by blast
qed

lemma duplicate_live:
  assumes L: "live s m F p bs xs" and off: "off < length xs" and n: "0 < len + lead"
    and nd: "n = min len (length xs - off)" "0 < n + lead"
  shows "\<exists>q s' m' F'. cbuf_duplicate_chain p off len lead s = Some (q, s') \<and> m \<le> m' \<and>
    pool s' m' F' \<and> set F' \<subseteq> set F \<union> chunk_cells m m' \<and>
    (\<forall>b. b \<notin> set F \<and> b \<le> 32 * m \<longrightarrow> heap s' b = heap s b) \<and>
    (if q = 0 then m' = 16 \<and> length F' * DAT_LEN < n + lead
     else \<exists>cs. live s' m' F' q cs (take len (drop off xs)) \<and> set cs \<subseteq> set F \<union> chunk_cells m m')"
proof -
  note P = pktD [OF live_pkt [OF L]]
  have pool: "pool s m F"
    using L by (simp add: live_def)
  obtain q s1 m' F' where g: "cbuf_get_chain (n + lead) s = Some (q, s1)" "pool s1 m' F'" "m \<le> m'"
      "set F' \<subseteq> set F \<union> chunk_cells m m'"
      "\<forall>b. b \<notin> set F \<and> b \<le> 32 * m \<longrightarrow> heap s1 b = heap s b"
      "if q = 0 then m' = 16 \<and> length F' * DAT_LEN < n + lead
       else \<exists>cs ys. live s1 m' F' q cs ys \<and> length ys = n + lead \<and> set cs \<subseteq> set F \<union> chunk_cells m m'"
    using get_chain_live [OF pool nd(2)] by blast
  have dup: "cbuf_duplicate_chain p off len lead s = (if q = 0 then Some (0, s1) else do {
      s2 \<leftarrow> (if lead > 0 then map_option snd (cbuf_truncate_head q lead False s1) else Some s1);
      r \<leftarrow> find_start (heap s2) p off;
      case r of
        Inl e \<Rightarrow> do { s3 \<leftarrow> cbuf_free_chain q s2; Some (0, s3) }
      | Inr (buf, buf_offset) \<Rightarrow> do {
          (done, h) \<leftarrow> dup_loop buf buf_offset q 0 n (heap s2);
          if done then Some (q, s2\<lparr>heap := h\<rparr>)
          else do { s3 \<leftarrow> cbuf_free_chain q (s2\<lparr>heap := h\<rparr>); Some (0, s3) }
        }
    })"
    using P(1,4) off g(1) nd(1) by (simp add: cbuf_duplicate_chain_def)
  show ?thesis
  proof (cases "q = 0")
    case True
    then show ?thesis
      using dup g by auto
  next
    case False
    then obtain cs ys where q: "live s1 m' F' q cs ys" "length ys = n + lead"
        "set cs \<subseteq> set F \<union> chunk_cells m m'"
      using g(6) by auto
    obtain h2 where h2: "(if lead > 0 then map_option snd (cbuf_truncate_head q lead False s1) else Some s1) =
          Some (s1\<lparr>heap := h2\<rparr>)" "live (s1\<lparr>heap := h2\<rparr>) m' F' q cs (drop lead ys)"
        "\<forall>b. b \<notin> set cs \<longrightarrow> h2 b = heap s1 b"
    proof (cases "lead > 0")
      case True
      then show ?thesis
        using truncate_head_live [OF q(1), of lead] that by auto
    next
      case no: False
      then show ?thesis
        using that [of "heap s1"] q(1) by simp
    qed
    let ?s2 = "s1\<lparr>heap := h2\<rparr>"
    have Lp: "live s1 m' F' p bs xs"
      by (rule live_keep [OF L g(2-5)])
    have dj: "set bs \<inter> set cs = {}"
      by (rule live_disjoint_keep [OF L q(3)])
    have "pkt h2 p bs xs = pkt (heap s1) p bs xs"
      using h2(3) dj by (intro pkt_cong) auto
    then have P2: "pkt h2 p bs xs"
      using live_pkt [OF Lp] by simp
    note P2' = pktD [OF P2] and Q2 = pktD [OF live_pkt [OF h2(2)], simplified]
    obtain us vs b bo where f: "find_start h2 p off = Some (Inr (b, bo))" "bs = us @ vs" "cells h2 b vs"
        "off = length (content h2 us) + bo" "bo = 0 \<or> vs \<noteq> [] \<and> bo < c_len (h2 b)"
      using find_start_cells [OF P2'(2), of off] off P2'(3) by auto
    have len: "bo + n \<le> length (content h2 vs)" "drop bo (content h2 vs) = drop off xs"
      using f(2,4) P2'(3) nd(1) off by auto
    have len2: "0 + n \<le> length (content h2 cs)"
      using Q2(3) q(2) by simp
    have dj2: "set vs \<inter> set cs = {}"
      using dj f(2) by auto
    obtain h3 where h3: "dup_loop b bo q 0 n h2 = Some (True, h3)" "same_shape (set cs) h2 h3"
        "content h3 cs = take n (drop off xs) @ drop n (content h2 cs)"
      using dup_loop_cells [OF f(3,5) Q2(2) _ dj2 len(1) len2] len(2) by auto
    have "take n (drop off xs) = take len (drop off xs)"
      unfolding nd(1) by (cases "len \<le> length xs - off") simp_all
    then have "content h3 cs = take len (drop off xs)"
      using h3(3) Q2(3) q(2) by simp
    then have pq: "pkt h3 q cs (take len (drop off xs))"
      using pkt_same_shape [OF live_pkt [OF h2(2)], of "set cs" h3] h3(2) by simp
    have "live (?s2\<lparr>heap := h3\<rparr>) m' F' q cs (take len (drop off xs))"
      using h3(2) h2(2) by (intro live_heap [OF h2(2) pq]) (auto simp: same_shape_def live_def pool_def)
    then have Lq: "live (s1\<lparr>heap := h3\<rparr>) m' F' q cs (take len (drop off xs))"
      by simp
    moreover have "heap (s1\<lparr>heap := h3\<rparr>) b = heap s b" if "b \<notin> set F" "b \<le> 32 * m" for b
    proof -
      have "b \<notin> set cs"
        using q(3) that by (auto simp: chunk_cells_def)
      then show ?thesis
        using h3(2) h2(3) g(5) that by (simp add: same_shape_def)
    qed
    moreover have "cbuf_duplicate_chain p off len lead s = Some (q, s1\<lparr>heap := h3\<rparr>)"
      using dup False h2(1) f(1) h3(1) by simp
    ultimately show ?thesis
      using False g(3,4) q(3) by (intro exI [of _ q] exI [of _ "s1\<lparr>heap := h3\<rparr>"] exI [of _ m'] exI [of _ F'])
        (auto simp: live_def)
  qed
qed

text \<open>Cutting the head with \<open>free_unused\<close>: the emptied cells go back to the pool.\<close>

lemma truncate_head_free_live:
  assumes L: "live s m F p bs xs"
  shows "\<exists>q s' us vs. cbuf_truncate_head p n True s = Some (q, s') \<and> bs = us @ vs \<and>
    pool s' m (us @ F) \<and> (\<forall>b. b \<notin> set bs \<longrightarrow> heap s' b = heap s b) \<and>
    (if vs = [] then q = 0 \<and> length xs \<le> n else live s' m (us @ F) q vs (drop n xs))"
proof -
  note P = pktD [OF live_pkt [OF L]]
  obtain h' t us vs where T: "trunc_head_loop True p p n 0 (heap s) = Some (t, h')"
    and C: "cells h' p bs" "content h' bs = drop n xs"
    and TL: "total_len (h' p) = length xs - min n (length xs)"
    and Fr: "\<forall>b. c_next (h' b) = c_next (heap s b) \<and> c_flags (h' b) = c_flags (heap s b) \<and>
       packet_next (h' b) = packet_next (heap s b) \<and> c_dat (h' b) = c_dat (heap s b) \<and>
       (b \<notin> set bs \<longrightarrow> c_len (h' b) = c_len (heap s b) \<and> c_data (h' b) = c_data (heap s b)) \<and>
       (b \<noteq> p \<longrightarrow> total_len (h' b) = total_len (heap s b))"
    and U: "bs = us @ vs" "content h' us = []" "t = last (0 # us)"
    using trunc_head_loop_cells [OF P(2), of True p n 0] P(3,4) by auto
  have pb: "p \<in> set bs"
    using P(6,7) hd_in_set by metis
  have dist: "distinct bs"
    by (rule cells_distinct [OF P(2)])
  have eq: "h' b = heap s b" if "b \<notin> set bs" for b
    using Fr that pb by (metis (full_types) cbuf.equality old.unit.exhaust)
  have dat: "length (c_dat (h' b)) = DAT_LEN" for b
    using Fr L by (simp add: live_def pool_def)
  have pool: "pool s m F" and dF: "set bs \<inter> set F = {}" and rng: "\<forall>b \<in> set bs. b \<le> 32 * m"
    using L by (simp_all add: live_def)
  have fo: "flags_ok h' bs"
    using P(5) Fr by (simp add: flags_ok_def)
  show ?thesis
  proof (cases "us = []")
    case True
    then have "t = 0" "vs = bs"
      using U by simp_all
    have "pkt h' p bs (drop n xs)"
      using P(1) C TL fo by (simp add: pkt_def)
    then have l: "live (s\<lparr>heap := h'\<rparr>) m F p bs (drop n xs)"
      using eq dat by (intro live_heap [OF L]) auto
    then have "pool (s\<lparr>heap := h'\<rparr>) m F"
      by (simp add: live_def)
    moreover have "cbuf_truncate_head p n True s = Some (p, s\<lparr>heap := h'\<rparr>)"
      using T \<open>t = 0\<close> P(1) by (simp add: cbuf_truncate_head_def)
    ultimately have "cbuf_truncate_head p n True s = Some (p, s\<lparr>heap := h'\<rparr>) \<and> bs = [] @ bs \<and>
        pool (s\<lparr>heap := h'\<rparr>) m ([] @ F) \<and> (\<forall>b. b \<notin> set bs \<longrightarrow> heap (s\<lparr>heap := h'\<rparr>) b = heap s b) \<and>
        (if bs = [] then p = 0 \<and> length xs \<le> n else live (s\<lparr>heap := h'\<rparr>) m ([] @ F) p bs (drop n xs))"
      using eq P(6) l by simp
    then show ?thesis
      by blast
  next
    case False
    then obtain ts where us: "us = ts @ [t]"
      using U(3) by (metis append_butlast_last_id last_ConsR)
    have t: "t \<in> set bs" "t \<noteq> 0" "t \<notin> set vs" "t \<notin> set ts"
      using us U(1) dist cells_nonnull [OF C(1)] by auto
    obtain r where "seg (nexts h') p us r" "chain (nexts h') r vs"
      using C(1) U(1) by (auto simp: cells_def seg_append)
    then have r: "seg (nexts h') p us r" "chain (nexts h') r vs" "c_next (h' t) = r"
      unfolding us by (simp_all add: seg_snoc)
    define h1 where "h1 = h'(t := (h' t)\<lparr>c_next := 0, c_flags := c_flags (h' t) OR CBUF_FLAG_CHAIN_TAIL\<rparr>)"
    define h2 where "h2 = (if r \<noteq> 0 then
        h1(r := (h1 r)\<lparr>total_len := total_len (h1 p), c_flags := c_flags (h1 r) OR CBUF_FLAG_CHAIN_HEAD,
             packet_next := packet_next (h1 p)\<rparr>) else h1)"
    have rv: "r \<noteq> 0 \<Longrightarrow> vs \<noteq> [] \<and> r = hd vs \<and> r \<in> set vs"
      using r(2) by (cases vs) auto
    have n2: "nexts h2 = (nexts h')(t := 0)"
      by (auto simp: h2_def h1_def fun_eq_iff)
    have h2d: "length (c_dat (h2 b)) = DAT_LEN" for b
      using dat by (simp add: h2_def h1_def)
    have h2o: "h2 b = h' b" if "b \<noteq> t" "b \<noteq> r" for b
      using that by (simp add: h2_def h1_def)
    have h2e: "h2 b = heap s b" if "b \<notin> set bs" for b
      using that eq h2o t(1) rv U(1) by (cases "r = 0") (auto simp: h2_def h1_def)
    have c2: "chain (nexts h2) p us"
      unfolding n2 us by (rule seg_redirect) (use r(1) us t(4) in auto)
    have P2: "pool (s\<lparr>heap := h2\<rparr>) m F"
      by (rule pool_heap [OF pool]) (use h2e h2d dF in auto)
    have "set us \<inter> set F = {}" "\<forall>b \<in> set us. b \<le> 32 * m"
      using U(1) dF rng by auto
    then obtain s' where s': "cbuf_free_chain p (s\<lparr>heap := h2\<rparr>) = Some s'" "pool s' m (us @ F)"
        "\<forall>b. b \<notin> set us \<longrightarrow> heap s' b = h2 b"
      using free_chain_pool [OF P2 _ P(1), of us] c2 by auto
    have "cbuf_truncate_head p n True s = do { s1 \<leftarrow> cbuf_free_chain p (s\<lparr>heap := h2\<rparr>); Some (r, s1) }"
      using T t(2) P(1) unfolding cbuf_truncate_head_def h2_def h1_def r(3) [symmetric]
      by (simp add: Let_def)
    then have res: "cbuf_truncate_head p n True s = Some (r, s')"
      using s'(1) by simp
    have frame: "\<forall>b. b \<notin> set bs \<longrightarrow> heap s' b = heap s b"
      using s'(3) h2e U(1) by simp
    have cv: "content h' vs = drop n xs"
      using C(2) U(1,2) by simp
    show ?thesis
    proof (cases "vs = []")
      case True
      then have "r = 0" "length xs \<le> n"
        using r(2) cv by auto
      then show ?thesis
        using res s'(2) frame True U(1)
        by (intro exI [of _ r] exI [of _ s'] exI [of _ us] exI [of _ vs]) simp
    next
      case nv: False
      then have rn: "r \<noteq> 0" "r \<in> set vs" "hd vs = r"
        using r(2) by (cases vs; auto)+
      have hv: "c_next (h2 b) = c_next (h' b) \<and> c_len (h2 b) = c_len (h' b) \<and> c_data (h2 b) = c_data (h' b) \<and>
          c_dat (h2 b) = c_dat (h' b)" if "b \<in> set vs" for b
        using that t(3) by (auto simp: h2_def h1_def)
      have "cells h2 r vs" "content h2 vs = drop n xs"
        using cells_frame(1) [of vs h2 h' r] cells_frame(2) [of vs h2 h'] hv r(2) C(1) U(1) cv by (auto simp: cells_def)
      moreover have "total_len (h2 r) = length (drop n xs)"
        using rn TL t(3) by (auto simp: h2_def h1_def)
      moreover have "flags_ok h2 vs"
      proof -
        have dv: "distinct vs"
          using dist U(1) by simp
        have tl: "r \<notin> set (tl vs)"
          using dv rn(3) nv by (cases vs) auto
        have "set (tl vs) \<subseteq> set vs"
          using nv by (auto dest: list.set_sel(2))
        then have bl: "set (butlast vs) \<subseteq> set (butlast bs)" "set (tl vs) \<subseteq> set (tl bs)" "last vs = last bs"
          using U(1) nv False by (auto simp: butlast_append)
        have ft: "c_flags (h2 b) AND CBUF_FLAG_CHAIN_TAIL = c_flags (h' b) AND CBUF_FLAG_CHAIN_TAIL"
          if "b \<in> set vs" for b
          using that t(3) by (auto simp: h2_def h1_def)
        have fh: "c_flags (h2 b) = c_flags (h' b)" if "b \<in> set vs" "b \<noteq> r" for b
          using that t(3) by (auto simp: h2_def h1_def)
        have "c_flags (h2 (hd vs)) AND CBUF_FLAG_CHAIN_HEAD \<noteq> 0"
          using rn t(3) by (auto simp: h2_def h1_def)
        moreover have "c_flags (h2 b) AND CBUF_FLAG_CHAIN_HEAD = 0" if "b \<in> set (tl vs)" for b
        proof -
          have "b \<noteq> r" "b \<in> set vs"
            using that tl list.set_sel(2) [OF nv that] by auto
          moreover have "c_flags (h' b) AND CBUF_FLAG_CHAIN_HEAD = 0"
            using that bl(2) fo unfolding flags_ok_def by blast
          ultimately show ?thesis
            using fh by simp
        qed
        moreover have "c_flags (h2 b) AND CBUF_FLAG_CHAIN_TAIL = 0" if "b \<in> set (butlast vs)" for b
          using ft [OF in_set_butlastD [OF that]] that bl(1) fo unfolding flags_ok_def by auto
        moreover have "c_flags (h2 (last vs)) AND CBUF_FLAG_CHAIN_TAIL \<noteq> 0"
          using ft [OF last_in_set [OF nv]] bl(3) fo unfolding flags_ok_def by auto
        ultimately show ?thesis
          unfolding flags_ok_def by blast
      qed
      ultimately have "pkt h2 r vs (drop n xs)"
        using rn(1) by (simp add: pkt_def)
      moreover have "pkt (heap s') r vs (drop n xs) = pkt h2 r vs (drop n xs)"
        using s'(3) U(1) dist by (intro pkt_cong) auto
      ultimately have "live s' m (us @ F) r vs (drop n xs)"
        using s'(2) U(1) dist dF rng by (auto simp: live_def)
      then show ?thesis
        using res s'(2) frame nv U(1)
        by (intro exI [of _ r] exI [of _ s'] exI [of _ us] exI [of _ vs]) simp
    qed
  qed
qed

section \<open>The abstract packet store\<close>

text \<open>\<open>store s M\<close>: the live packets are the finite map \<open>M\<close> from chain heads to byte strings; their
  cells and those of the free list are pairwise disjoint.\<close>

definition store :: "cbuf_state \<Rightarrow> (ptr \<Rightarrow> packet option) \<Rightarrow> bool" where
  "store s M \<longleftrightarrow> (\<exists>m F cs. pool s m F \<and>
     (\<forall>p xs. M p = Some xs \<longrightarrow> live s m F p (cs p) xs) \<and>
     (\<forall>p \<in> dom M. \<forall>q \<in> dom M. p \<noteq> q \<longrightarrow> set (cs p) \<inter> set (cs q) = {}))"

lemma storeE:
  assumes "store s M" "M p = Some xs"
  obtains m F cs where "pool s m F" "live s m F p (cs p) xs"
    "\<And>q ys. M q = Some ys \<Longrightarrow> live s m F q (cs q) ys"
    "\<And>q ys. M q = Some ys \<Longrightarrow> q \<noteq> p \<Longrightarrow> set (cs p) \<inter> set (cs q) = {}"
    "\<forall>p \<in> dom M. \<forall>q \<in> dom M. p \<noteq> q \<longrightarrow> set (cs p) \<inter> set (cs q) = {}"
  using assms unfolding store_def by (metis domI)

text \<open>An operation that replaces one packet, returning cells to the pool and touching no others.\<close>

lemma live_other:
  assumes "live s m F q ds ys" "pool s' m' F'" "m \<le> m'" "set ds \<inter> set F' = {}"
    and "\<And>b. b \<in> set ds \<Longrightarrow> heap s' b = heap s b"
  shows "live s' m' F' q ds ys"
proof -
  have "pkt (heap s') q ds ys = pkt (heap s) q ds ys"
    by (rule pkt_cong) (rule assms(5))
  moreover have "\<forall>b \<in> set ds. b \<le> 32 * m'"
    using assms(1,3) by (fastforce simp: live_def)
  ultimately show ?thesis
    using assms(1,2,4) by (simp add: live_def)
qed

lemma store_update:
  assumes S: "\<And>q ys. M q = Some ys \<Longrightarrow> live s m F q (cs q) ys"
    and D: "\<forall>p \<in> dom M. \<forall>q \<in> dom M. p \<noteq> q \<longrightarrow> set (cs p) \<inter> set (cs q) = {}"
    and P: "pool s' m' F'" "m \<le> m'"
    and O: "\<And>q ys. M' q = Some ys \<Longrightarrow> q \<noteq> r \<Longrightarrow> M q = Some ys \<and> set (cs q) \<inter> set F' = {} \<and>
      set (cs q) \<inter> set ds = {} \<and> (\<forall>b \<in> set (cs q). heap s' b = heap s b)"
    and R: "\<And>xs. M' r = Some xs \<Longrightarrow> live s' m' F' r ds xs"
  shows "store s' M'"
proof -
  let ?cs = "cs(r := ds)"
  have "live s' m' F' q (?cs q) ys" if "M' q = Some ys" for q ys
  proof (cases "q = r")
    case False
    then show ?thesis
      using O [OF that False] live_other [OF S P(1,2)] by simp
  qed (use R that in simp)
  moreover have "set (?cs p) \<inter> set (?cs q) = {}" if pq: "p \<in> dom M'" "q \<in> dom M'" "p \<noteq> q" for p q
  proof -
    obtain xs ys where M': "M' p = Some xs" "M' q = Some ys"
      using pq by auto
    consider "p = r" "q \<noteq> r" | "q = r" "p \<noteq> r" | "p \<noteq> r" "q \<noteq> r"
      using pq(3) by blast
    then show ?thesis
    proof cases
      case 1
      then show ?thesis using O [OF M'(2)] by auto
    next
      case 2
      then show ?thesis using O [OF M'(1)] by auto
    next
      case 3
      then show ?thesis
        using O [OF M'(1)] O [OF M'(2)] D pq(3) by (simp add: domI)
    qed
  qed
  ultimately show ?thesis
    unfolding store_def using P(1) by (intro exI [of _ m'] exI [of _ F'] exI [of _ ?cs]) blast
qed

lemma live_disj: "live s m F p bs xs \<Longrightarrow> set bs \<inter> set F = {}"
  by (simp add: live_def)

lemma live_range: "live s m F p bs xs \<Longrightarrow> \<forall>b \<in> set bs. b \<le> 32 * m \<and> b \<notin> set F"
  by (auto simp: live_def)

lemma taken_disj: "live s m F q ds ys \<Longrightarrow> set F' \<subseteq> set F \<union> chunk_cells m m' \<Longrightarrow> set ds \<inter> set F' = {}"
  using live_disjoint_keep [of s m F q ds ys F' m'] by simp

lemma store_get:
  assumes S: "store s M" and n: "0 < n"
  shows "\<exists>q s'. cbuf_get_chain n s = Some (q, s') \<and>
    (if q = 0 then store s' M else M q = None \<and> (\<exists>ys. length ys = n \<and> store s' (M(q \<mapsto> ys))))"
proof -
  obtain m F cs where m: "pool s m F" "\<And>q ys. M q = Some ys \<Longrightarrow> live s m F q (cs q) ys"
      "\<forall>p \<in> dom M. \<forall>q \<in> dom M. p \<noteq> q \<longrightarrow> set (cs p) \<inter> set (cs q) = {}"
    using S unfolding store_def by blast
  obtain q s' m' F' where g: "cbuf_get_chain n s = Some (q, s')" "pool s' m' F'" "m \<le> m'"
    "set F' \<subseteq> set F \<union> chunk_cells m m'"
    "\<forall>b. b \<notin> set F \<and> b \<le> 32 * m \<longrightarrow> heap s' b = heap s b"
    "if q = 0 then m' = 16 \<and> length F' * DAT_LEN < n
     else \<exists>ds ys. live s' m' F' q ds ys \<and> length ys = n \<and> set ds \<subseteq> set F \<union> chunk_cells m m'"
    using get_chain_live [OF m(1) n] by blast
  have keep: "set (cs p) \<inter> set F' = {} \<and> (\<forall>b \<in> set (cs p). heap s' b = heap s b)" if "M p = Some xs" for p xs
    using taken_disj [OF m(2) [OF that] g(4)] live_range [OF m(2) [OF that]] g(5) by blast
  show ?thesis
  proof (cases "q = 0")
    case True
    have "M 0 = None"
      using m(2) [of 0] pktD(1) [OF live_pkt] by (metis not_None_eq)
    have "store s' M"
      by (rule store_update [OF m(2,3) g(2,3), of M 0 "[]"]) (use keep \<open>M 0 = None\<close> in auto)
    then show ?thesis
      using g(1) True by auto
  next
    case False
    then obtain ds ys where d: "live s' m' F' q ds ys" "length ys = n" "set ds \<subseteq> set F \<union> chunk_cells m m'"
      using g(6) by auto
    have "q \<in> set ds"
      using pktD(6,7) [OF live_pkt [OF d(1)]] hd_in_set by metis
    have dj: "set (cs p) \<inter> set ds = {}" if "M p = Some xs" for p xs
      by (rule live_disjoint_keep [OF m(2) [OF that] d(3)])
    have "M q = None"
    proof (rule ccontr)
      assume "M q \<noteq> None"
      then obtain xs where "M q = Some xs" by blast
      moreover from this have "q \<in> set (cs q)"
        using pktD(6,7) [OF live_pkt [OF m(2)]] hd_in_set by metis
      ultimately show False
        using dj \<open>q \<in> set ds\<close> by blast
    qed
    moreover have "store s' (M(q \<mapsto> ys))"
      by (rule store_update [OF m(2,3) g(2,3), of "M(q \<mapsto> ys)" q ds]) (use keep dj d(1) in \<open>auto split: if_splits\<close>)
    ultimately show ?thesis
      using g(1) False d(2) by auto
  qed
qed

lemma store_free:
  assumes S: "store s M" and p: "M p = Some xs"
  shows "\<exists>s'. cbuf_free_chain p s = Some s' \<and> store s' (M(p := None))"
proof -
  obtain m F cs where m: "pool s m F" "live s m F p (cs p) xs"
      "\<And>q ys. M q = Some ys \<Longrightarrow> live s m F q (cs q) ys"
      "\<And>q ys. M q = Some ys \<Longrightarrow> q \<noteq> p \<Longrightarrow> set (cs p) \<inter> set (cs q) = {}"
      "\<forall>p \<in> dom M. \<forall>q \<in> dom M. p \<noteq> q \<longrightarrow> set (cs p) \<inter> set (cs q) = {}"
    by (rule storeE [OF S p]) blast
  obtain s' where s': "cbuf_free_chain p s = Some s'" "pool s' m (cs p @ F)"
      "\<forall>b. b \<notin> set (cs p) \<longrightarrow> heap s' b = heap s b"
    using free_live [OF m(2)] by blast
  have "store s' (M(p := None))"
  proof (rule store_update [OF m(3,5) s'(2) order_refl, of "M(p := None)" p "[]"])
    fix q ys
    assume q: "(M(p := None)) q = Some ys" "q \<noteq> p"
    then have "M q = Some ys" by simp
    then show "M q = Some ys \<and> set (cs q) \<inter> set (cs p @ F) = {} \<and> set (cs q) \<inter> set [] = {} \<and>
        (\<forall>b \<in> set (cs q). heap s' b = heap s b)"
      using m(4) [of q ys] live_disj [OF m(3), of q ys] s'(3) q(2) by auto
  next
    show "(M(p := None)) p = Some ys \<Longrightarrow> live s' m (cs p @ F) p [] ys" for ys
      by (simp only: fun_upd_same option.distinct)
  qed
  with s'(1) show ?thesis
    by blast
qed

lemma store_in_place:
  assumes S: "store s M" and p: "M p = Some xs"
    and step: "\<And>m F bs. live s m F p bs xs \<Longrightarrow>
      \<exists>h'. P (s\<lparr>heap := h'\<rparr>) \<and> live (s\<lparr>heap := h'\<rparr>) m F p bs ys \<and> (\<forall>b. b \<notin> set bs \<longrightarrow> h' b = heap s b)"
  shows "\<exists>h'. P (s\<lparr>heap := h'\<rparr>) \<and> store (s\<lparr>heap := h'\<rparr>) (M(p \<mapsto> ys))"
proof -
  obtain m F cs where m: "pool s m F" "live s m F p (cs p) xs"
      "\<And>q ys. M q = Some ys \<Longrightarrow> live s m F q (cs q) ys"
      "\<And>q ys. M q = Some ys \<Longrightarrow> q \<noteq> p \<Longrightarrow> set (cs p) \<inter> set (cs q) = {}"
      "\<forall>p \<in> dom M. \<forall>q \<in> dom M. p \<noteq> q \<longrightarrow> set (cs p) \<inter> set (cs q) = {}"
    by (rule storeE [OF S p]) blast
  obtain h' where h': "P (s\<lparr>heap := h'\<rparr>)" "live (s\<lparr>heap := h'\<rparr>) m F p (cs p) ys"
      "\<forall>b. b \<notin> set (cs p) \<longrightarrow> h' b = heap s b"
    using step [OF m(2)] by blast
  have P': "pool (s\<lparr>heap := h'\<rparr>) m F"
    using h'(2) by (simp add: live_def)
  have "store (s\<lparr>heap := h'\<rparr>) (M(p \<mapsto> ys))"
  proof (rule store_update [OF m(3,5) P' order_refl, of "M(p \<mapsto> ys)" p "cs p"])
    fix q zs
    assume q: "(M(p \<mapsto> ys)) q = Some zs" "q \<noteq> p"
    then have "M q = Some zs" by simp
    then show "M q = Some zs \<and> set (cs q) \<inter> set F = {} \<and> set (cs q) \<inter> set (cs p) = {} \<and>
        (\<forall>b \<in> set (cs q). heap (s\<lparr>heap := h'\<rparr>) b = heap s b)"
      using m(4) [of q zs] live_disj [OF m(3), of q zs] h'(3) q(2) by auto
  qed (use h'(2) in auto)
  with h'(1) show ?thesis
    by blast
qed

lemma live_dat: "live s m F p bs xs \<Longrightarrow> length (c_dat (heap s b)) = DAT_LEN"
  by (simp add: live_def pool_def)

lemma store_write_heap:
  assumes "store s M" "M p = Some xs" "off + length src \<le> length xs" "length xs < 2 ^ 32"
  shows "\<exists>h'. cbuf_memcpy_to_chain p off src (heap s) = Some (NO_ERROR, h') \<and>
    store (s\<lparr>heap := h'\<rparr>) (M(p \<mapsto> take off xs @ src @ drop (off + length src) xs))"
proof (rule store_in_place [OF assms(1,2), where P = "\<lambda>s'. cbuf_memcpy_to_chain p off src (heap s) =
    Some (NO_ERROR, heap s')", simplified])
  fix m F bs
  assume L: "live s m F p bs xs"
  obtain h' where h': "cbuf_memcpy_to_chain p off src (heap s) = Some (NO_ERROR, h')"
      "same_shape (set bs) (heap s) h'" "pkt h' p bs (take off xs @ src @ drop (off + length src) xs)"
    using memcpy_to_pkt [OF live_pkt [OF L] assms(3,4)] by blast
  have "live (s\<lparr>heap := h'\<rparr>) m F p bs (take off xs @ src @ drop (off + length src) xs)"
    using h'(2) live_dat [OF L] by (intro live_heap [OF L h'(3)]) (auto simp: same_shape_def)
  then show "\<exists>h'. cbuf_memcpy_to_chain p off src (heap s) = Some (NO_ERROR, h') \<and>
      live (s\<lparr>heap := h'\<rparr>) m F p bs (take off xs @ src @ drop (off + length src) xs) \<and>
      (\<forall>b. b \<notin> set bs \<longrightarrow> h' b = heap s b)"
    using h'(1,2) by (auto simp: same_shape_def)
qed

lemma store_pkt:
  assumes "store s M" "M p = Some xs"
  shows "\<exists>bs. pkt (heap s) p bs xs"
  by (rule storeE [OF assms]) (use live_pkt in blast)

lemma store_read:
  assumes "store s M" "M p = Some xs" "off + n \<le> length xs" "length xs < 2 ^ 32"
  shows "cbuf_memcpy_from_chain p off n (heap s) = Some (NO_ERROR, take n (drop off xs))"
  using store_pkt [OF assms(1,2)] memcpy_from_pkt assms(3,4) by blast

lemma store_len:
  assumes "store s M" "M p = Some xs"
  shows "cbuf_get_len p (heap s) = Some (length xs)"
proof -
  obtain bs where "pkt (heap s) p bs xs"
    using store_pkt [OF assms] by blast
  note P = pktD [OF this]
  have "c_flags (heap s p) AND CBUF_FLAG_CHAIN_HEAD \<noteq> 0"
    using P(5,7) by (simp add: flags_ok_def)
  then show ?thesis
    using P(1,4) by (simp add: cbuf_get_len_def)
qed

lemma store_cksum:
  assumes "store s M" "M p = Some xs" "n \<le> length xs" "xs \<noteq> []"
  shows "cbuf_ones_cksum16 (heap s) p 0 n = Some (cksum16 (take n xs))"
  using store_pkt [OF assms(1,2)] cbuf_cksum16_pkt assms(3,4) by blast

lemma live_head_in: "live s m F p bs xs \<Longrightarrow> p \<in> set bs \<and> p \<noteq> 0"
  using pktD(1,6,7) [OF live_pkt] hd_in_set by metis

lemma store_dup:
  assumes S: "store s M" and p: "M p = Some xs" and off: "off < length xs" and n: "0 < n"
  shows "\<exists>q s'. cbuf_duplicate_chain p off n lead s = Some (q, s') \<and>
    (if q = 0 then store s' M else M q = None \<and> store s' (M(q \<mapsto> take n (drop off xs))))"
proof -
  obtain m F cs where m: "pool s m F" "live s m F p (cs p) xs"
      "\<And>q ys. M q = Some ys \<Longrightarrow> live s m F q (cs q) ys"
      "\<And>q ys. M q = Some ys \<Longrightarrow> q \<noteq> p \<Longrightarrow> set (cs p) \<inter> set (cs q) = {}"
      "\<forall>p \<in> dom M. \<forall>q \<in> dom M. p \<noteq> q \<longrightarrow> set (cs p) \<inter> set (cs q) = {}"
    by (rule storeE [OF S p]) blast
  have z: "0 < n + lead" "0 < min n (length xs - off) + lead"
    using n off by auto
  obtain q s' m' F' where g: "cbuf_duplicate_chain p off n lead s = Some (q, s')" "m \<le> m'"
    "pool s' m' F'" "set F' \<subseteq> set F \<union> chunk_cells m m'"
    "\<forall>b. b \<notin> set F \<and> b \<le> 32 * m \<longrightarrow> heap s' b = heap s b"
    "if q = 0 then m' = 16 \<and> length F' * DAT_LEN < min n (length xs - off) + lead
     else \<exists>cs. live s' m' F' q cs (take n (drop off xs)) \<and> set cs \<subseteq> set F \<union> chunk_cells m m'"
    using duplicate_live [OF m(2) off z(1) refl z(2)] by blast
  have keep: "set (cs p) \<inter> set F' = {} \<and> (\<forall>b \<in> set (cs p). heap s' b = heap s b)" if "M p = Some xs" for p xs
    using taken_disj [OF m(3) [OF that] g(4)] live_range [OF m(3) [OF that]] g(5) by blast
  show ?thesis
  proof (cases "q = 0")
    case True
    have "M 0 = None"
      using m(3) [of 0] live_head_in by (metis not_None_eq)
    have "store s' M"
      by (rule store_update [OF m(3,5) g(3,2), of M 0 "[]"]) (use keep \<open>M 0 = None\<close> in auto)
    then show ?thesis
      using g(1) True by auto
  next
    case False
    then obtain ds where d: "live s' m' F' q ds (take n (drop off xs))" "set ds \<subseteq> set F \<union> chunk_cells m m'"
      using g(6) by auto
    have dj: "set (cs p) \<inter> set ds = {}" if "M p = Some xs" for p xs
      by (rule live_disjoint_keep [OF m(3) [OF that] d(2)])
    have "M q = None"
    proof (rule ccontr)
      assume "M q \<noteq> None"
      then obtain xs where "M q = Some xs" by blast
      then show False
        using dj live_head_in [OF m(3)] live_head_in [OF d(1)] by blast
    qed
    moreover have "store s' (M(q \<mapsto> take n (drop off xs)))"
      by (rule store_update [OF m(3,5) g(3,2), of "M(q \<mapsto> take n (drop off xs))" q ds])
        (use keep dj d(1) in \<open>auto split: if_splits\<close>)
    ultimately show ?thesis
      using g(1) False by auto
  qed
qed

lemma store_truncate_head:
  assumes S: "store s M" and p: "M p = Some xs" and n: "n < length xs"
  shows "\<exists>q s'. cbuf_truncate_head p n True s = Some (q, s') \<and> (M(p := None)) q = None \<and> q \<noteq> 0 \<and>
    store s' (M(p := None, q \<mapsto> drop n xs))"
proof -
  obtain m F cs where m: "pool s m F" "live s m F p (cs p) xs"
      "\<And>q ys. M q = Some ys \<Longrightarrow> live s m F q (cs q) ys"
      "\<And>q ys. M q = Some ys \<Longrightarrow> q \<noteq> p \<Longrightarrow> set (cs p) \<inter> set (cs q) = {}"
      "\<forall>p \<in> dom M. \<forall>q \<in> dom M. p \<noteq> q \<longrightarrow> set (cs p) \<inter> set (cs q) = {}"
    by (rule storeE [OF S p]) blast
  obtain q s' us vs where t: "cbuf_truncate_head p n True s = Some (q, s')" "cs p = us @ vs"
    "pool s' m (us @ F)" "\<forall>b. b \<notin> set (cs p) \<longrightarrow> heap s' b = heap s b"
    "live s' m (us @ F) q vs (drop n xs)"
    using truncate_head_free_live [OF m(2), of n] n by (metis linorder_not_less)
  have q: "q \<in> set (cs p)" "q \<noteq> 0"
    using live_head_in [OF t(5)] t(2) by auto
  have none: "(M(p := None)) q = None"
  proof (rule ccontr)
    assume "(M(p := None)) q \<noteq> None"
    then obtain ys where "M q = Some ys" "q \<noteq> p"
      by (auto split: if_splits)
    then show False
      using m(4) live_head_in [OF m(3)] q(1) by blast
  qed
  have O: "M r = Some ys \<and> set (cs r) \<inter> set (us @ F) = {} \<and> set (cs r) \<inter> set vs = {} \<and>
      (\<forall>b \<in> set (cs r). heap s' b = heap s b)"
    if r: "(M(p := None, q \<mapsto> drop n xs)) r = Some ys" "r \<noteq> q" for r ys
  proof -
    have r': "M r = Some ys" "r \<noteq> p"
      using r by (auto split: if_splits)
    then show ?thesis
      using m(4) [OF r'] live_disj [OF m(3) [OF r'(1)]] t(2,4) by auto
  qed
  have "store s' (M(p := None, q \<mapsto> drop n xs))"
    by (rule store_update [OF m(3,5) t(3) order_refl O]) (use t(5) in auto)
  then show ?thesis
    using t(1) none q(2) by blast
qed

lemma store_merge:
  assumes S: "store s M" and p: "M p = Some xs" and q: "M q = Some ys" and pq: "p \<noteq> q"
  shows "\<exists>h'. cbuf_merge_chains p q (heap s) = Some (p, h') \<and>
    store (s\<lparr>heap := h'\<rparr>) (M(q := None, p \<mapsto> xs @ ys))"
proof -
  obtain m F cs where m: "pool s m F" "live s m F p (cs p) xs"
      "\<And>q ys. M q = Some ys \<Longrightarrow> live s m F q (cs q) ys"
      "\<And>q ys. M q = Some ys \<Longrightarrow> q \<noteq> p \<Longrightarrow> set (cs p) \<inter> set (cs q) = {}"
      "\<forall>p \<in> dom M. \<forall>q \<in> dom M. p \<noteq> q \<longrightarrow> set (cs p) \<inter> set (cs q) = {}"
    by (rule storeE [OF S p]) blast
  have d: "set (cs p) \<inter> set (cs q) = {}"
    using m(4) [OF q] pq by simp
  obtain h' where h': "cbuf_merge_chains p q (heap s) = Some (p, h')" "pkt h' p (cs p @ cs q) (xs @ ys)"
      "\<forall>b. b \<notin> set (cs p) \<union> set (cs q) \<longrightarrow> h' b = heap s b"
    using merge_chains_pkt [OF live_pkt [OF m(2)] live_pkt [OF m(3) [OF q]] d] by blast
  have dat: "length (c_dat (h' b)) = DAT_LEN" for b
  proof (cases "b \<in> set (cs p @ cs q)")
    case True
    then show ?thesis
      using pktD(2) [OF h'(2)] by (simp add: cells_def wf_cell_def)
  next
    case False
    then show ?thesis
      using h'(3) live_dat [OF m(2)] by simp
  qed
  have F: "h' b = heap s b" if "b \<in> set F" for b
    using that h'(3) live_disj [OF m(2)] live_disj [OF m(3) [OF q]] by blast
  have P': "pool (s\<lparr>heap := h'\<rparr>) m F"
    by (rule pool_heap [OF m(1) F dat])
  have L': "live (s\<lparr>heap := h'\<rparr>) m F p (cs p @ cs q) (xs @ ys)"
    using P' h'(2) live_range [OF m(2)] live_range [OF m(3) [OF q]] by (auto simp: live_def)
  have O: "M r = Some zs \<and> set (cs r) \<inter> set F = {} \<and> set (cs r) \<inter> set (cs p @ cs q) = {} \<and>
      (\<forall>b \<in> set (cs r). heap (s\<lparr>heap := h'\<rparr>) b = heap s b)"
    if r: "(M(q := None, p \<mapsto> xs @ ys)) r = Some zs" "r \<noteq> p" for r zs
  proof -
    have r': "M r = Some zs" "r \<noteq> q"
      using r by (auto split: if_splits)
    have "set (cs r) \<inter> set (cs p) = {}" "set (cs r) \<inter> set (cs q) = {}"
      using m(5) r' r(2) p q by (blast intro: domI)+
    then show ?thesis
      using r' live_disj [OF m(3) [OF r'(1)]] h'(3) by auto
  qed
  have "store (s\<lparr>heap := h'\<rparr>) (M(q := None, p \<mapsto> xs @ ys))"
    by (rule store_update [OF m(3,5) P' order_refl O]) (use L' in auto)
  then show ?thesis
    using h'(1) by blast
qed

end
