(* ===== verification/Cbuf_Props.thy ===== *)
theory Cbuf_Props
  imports Cbuf_Pool
begin

text \<open>
  The interface of the packet buffers as the protocols use it, its interpretation on the model of
  \<^verbatim>\<open>SkyCore/Net/cbuf.c\<close>, truncation and extension at the tail, initialisation, and the properties
  of the buffers.
\<close>

section \<open>The interface\<close>

text \<open>A packet store: live packets are a finite map from handles to byte strings, and every
  operation is its list counterpart on one packet, leaving the others alone.  NULL is the out-of-memory
  result.\<close>

locale packet_buffers =
  fixes rep :: "'s \<Rightarrow> (ptr \<Rightarrow> packet option) \<Rightarrow> bool"
    and get :: "nat \<Rightarrow> 's \<Rightarrow> (ptr \<times> 's) option"
    and dup :: "ptr \<Rightarrow> nat \<Rightarrow> nat \<Rightarrow> nat \<Rightarrow> 's \<Rightarrow> (ptr \<times> 's) option"
    and behead :: "ptr \<Rightarrow> nat \<Rightarrow> 's \<Rightarrow> (ptr \<times> 's) option"
    and free :: "ptr \<Rightarrow> 's \<Rightarrow> 's option"
    and put_bytes :: "ptr \<Rightarrow> nat \<Rightarrow> byte list \<Rightarrow> 's \<Rightarrow> (int \<times> 's) option"
    and get_bytes :: "ptr \<Rightarrow> nat \<Rightarrow> nat \<Rightarrow> 's \<Rightarrow> (int \<times> byte list) option"
    and plen :: "ptr \<Rightarrow> 's \<Rightarrow> nat option"
    and merge :: "ptr \<Rightarrow> ptr \<Rightarrow> 's \<Rightarrow> (ptr \<times> 's) option"
  assumes get_law: "rep s M \<Longrightarrow> 0 < n \<Longrightarrow> \<exists>q s'. get n s = Some (q, s') \<and>
      (if q = 0 then rep s' M else M q = None \<and> (\<exists>ys. length ys = n \<and> rep s' (M(q \<mapsto> ys))))"
    and dup_law: "rep s M \<Longrightarrow> M p = Some xs \<Longrightarrow> off < length xs \<Longrightarrow> 0 < n \<Longrightarrow>
      \<exists>q s'. dup p off n lead s = Some (q, s') \<and>
      (if q = 0 then rep s' M else M q = None \<and> rep s' (M(q \<mapsto> take n (drop off xs))))"
    and behead_law: "rep s M \<Longrightarrow> M p = Some xs \<Longrightarrow> n < length xs \<Longrightarrow>
      \<exists>q s'. behead p n s = Some (q, s') \<and> (M(p := None)) q = None \<and> q \<noteq> 0 \<and>
      rep s' (M(p := None, q \<mapsto> drop n xs))"
    and free_law: "rep s M \<Longrightarrow> M p = Some xs \<Longrightarrow> \<exists>s'. free p s = Some s' \<and> rep s' (M(p := None))"
    and write_law: "rep s M \<Longrightarrow> M p = Some xs \<Longrightarrow> off + length src \<le> length xs \<Longrightarrow> length xs < 2 ^ 32 \<Longrightarrow>
      \<exists>s'. put_bytes p off src s = Some (NO_ERROR, s') \<and>
      rep s' (M(p \<mapsto> take off xs @ src @ drop (off + length src) xs))"
    and read_law: "rep s M \<Longrightarrow> M p = Some xs \<Longrightarrow> off + n \<le> length xs \<Longrightarrow> length xs < 2 ^ 32 \<Longrightarrow>
      get_bytes p off n s = Some (NO_ERROR, take n (drop off xs))"
    and plen_law: "rep s M \<Longrightarrow> M p = Some xs \<Longrightarrow> plen p s = Some (length xs)"
    and merge_law: "rep s M \<Longrightarrow> M p = Some xs \<Longrightarrow> M q = Some ys \<Longrightarrow> p \<noteq> q \<Longrightarrow>
      \<exists>s'. merge p q s = Some (p, s') \<and> rep s' (M(q := None, p \<mapsto> xs @ ys))"
begin

lemma write_read:
  assumes "rep s M" "M p = Some xs" "off + length src \<le> length xs" "length xs < 2 ^ 32"
  shows "\<exists>s'. put_bytes p off src s = Some (NO_ERROR, s') \<and> get_bytes p off (length src) s' = Some (NO_ERROR, src)"
proof -
  obtain s' where s': "put_bytes p off src s = Some (NO_ERROR, s')"
      "rep s' (M(p \<mapsto> take off xs @ src @ drop (off + length src) xs))"
    using write_law [OF assms] by blast
  have "get_bytes p off (length src) s' = Some (NO_ERROR, src)"
    using read_law [OF s'(2), of p _ off "length src"] assms(3,4) by simp
  with s'(1) show ?thesis
    by blast
qed

lemma write_others:
  assumes "rep s M" "M p = Some xs" "M q = Some ys" "p \<noteq> q"
    and "off + length src \<le> length xs" "length xs < 2 ^ 32" "k + n \<le> length ys" "length ys < 2 ^ 32"
  shows "\<exists>s'. put_bytes p off src s = Some (NO_ERROR, s') \<and> get_bytes q k n s' = Some (NO_ERROR, take n (drop k ys))"
proof -
  obtain s' where s': "put_bytes p off src s = Some (NO_ERROR, s')"
      "rep s' (M(p \<mapsto> take off xs @ src @ drop (off + length src) xs))"
    using write_law [OF assms(1,2,5,6)] by blast
  then show ?thesis
    using read_law [OF s'(2), of q ys k n] assms(3,4,7,8) by auto
qed

text \<open>Prepending a header: the pattern of every protocol's output routine.\<close>

lemma prepend_header:
  assumes "rep s M" "M p = Some xs" "hdr \<noteq> []" "length hdr < 2 ^ 32"
  shows "\<exists>q s1. get (length hdr) s = Some (q, s1) \<and>
    (q \<noteq> 0 \<longrightarrow> (\<exists>s2 s3. put_bytes q 0 hdr s1 = Some (NO_ERROR, s2) \<and> merge q p s2 = Some (q, s3) \<and>
       rep s3 (M(p := None, q \<mapsto> hdr @ xs)) \<and> plen q s3 = Some (length hdr + length xs)))"
proof -
  obtain q s1 where g: "get (length hdr) s = Some (q, s1)"
      "if q = 0 then rep s1 M else M q = None \<and> (\<exists>ys. length ys = length hdr \<and> rep s1 (M(q \<mapsto> ys)))"
    using get_law [OF assms(1), of "length hdr"] assms(3) by auto
  have "\<exists>s2 s3. put_bytes q 0 hdr s1 = Some (NO_ERROR, s2) \<and> merge q p s2 = Some (q, s3) \<and>
       rep s3 (M(p := None, q \<mapsto> hdr @ xs)) \<and> plen q s3 = Some (length hdr + length xs)" if nz: "q \<noteq> 0"
  proof -
    obtain ys where ys: "length ys = length hdr" "rep s1 (M(q \<mapsto> ys))" "M q = None"
      using g(2) nz by auto
    obtain s2 where s2: "put_bytes q 0 hdr s1 = Some (NO_ERROR, s2)" "rep s2 (M(q \<mapsto> hdr))"
      using write_law [OF ys(2), of q ys 0 hdr] ys(1) assms(4) by auto
    have pq: "q \<noteq> p"
      using ys(3) assms(2) by auto
    then obtain s3 where s3: "merge q p s2 = Some (q, s3)"
        "rep s3 (M(q \<mapsto> hdr, p := None, q \<mapsto> hdr @ xs))"
      using merge_law [OF s2(2), of q hdr p xs] assms(2) by auto
    have eq: "M(q \<mapsto> hdr, p := None, q \<mapsto> hdr @ xs) = M(p := None, q \<mapsto> hdr @ xs)"
      by (auto simp: fun_eq_iff)
    show ?thesis
      using s2(1) s3 plen_law [OF s3(2), of q] unfolding eq by auto
  qed
  with g(1) show ?thesis
    by blast
qed

end

interpretation cb: packet_buffers store cbuf_get_chain cbuf_duplicate_chain
    "\<lambda>p n s. cbuf_truncate_head p n True s" cbuf_free_chain
    "\<lambda>p off src s. map_option (\<lambda>(e, h). (e, s\<lparr>heap := h\<rparr>)) (cbuf_memcpy_to_chain p off src (heap s))"
    "\<lambda>p off n s. cbuf_memcpy_from_chain p off n (heap s)"
    "\<lambda>p s. cbuf_get_len p (heap s)"
    "\<lambda>p q s. map_option (\<lambda>(r, h). (r, s\<lparr>heap := h\<rparr>)) (cbuf_merge_chains p q (heap s))"
proof unfold_locales
  fix s M p xs off and src :: "byte list"
  assume a: "store s M" "M p = Some xs" "off + length src \<le> length xs" "length xs < 2 ^ 32"
  obtain h' where "cbuf_memcpy_to_chain p off src (heap s) = Some (NO_ERROR, h')"
      "store (s\<lparr>heap := h'\<rparr>) (M(p \<mapsto> take off xs @ src @ drop (off + length src) xs))"
    using store_write_heap [OF a] by blast
  then show "\<exists>s'. map_option (\<lambda>(e, h). (e, s\<lparr>heap := h\<rparr>)) (cbuf_memcpy_to_chain p off src (heap s)) =
      Some (NO_ERROR, s') \<and> store s' (M(p \<mapsto> take off xs @ src @ drop (off + length src) xs))"
    by simp
next
  fix s M p xs q ys
  assume a: "store s M" "M p = Some xs" "M q = Some ys" "p \<noteq> q"
  obtain h' where "cbuf_merge_chains p q (heap s) = Some (p, h')"
      "store (s\<lparr>heap := h'\<rparr>) (M(q := None, p \<mapsto> xs @ ys))"
    using store_merge [OF a] by blast
  then show "\<exists>s'. map_option (\<lambda>(r, h). (r, s\<lparr>heap := h\<rparr>)) (cbuf_merge_chains p q (heap s)) = Some (p, s') \<and>
      store s' (M(q := None, p \<mapsto> xs @ ys))"
    by simp
qed (rule store_get store_dup store_truncate_head store_free store_read store_len; assumption)+

section \<open>Initialisation\<close>

lemma init_pool:
  assumes "0 \<le> err" "0 \<le> region" "\<And>b. length (c_dat (heap s b)) = DAT_LEN"
  shows "\<exists>s'. cbuf_init err region s = Some (NO_ERROR, s') \<and> pool s' 1 [1..<33]"
proof -
  define s1 where "s1 = s\<lparr>cbuf_free_list := 0, cbuf_free_noblock_list := 0,
    cbuf_bitmap := replicate (CBUF_BITMAP_SIZE div 8) 0\<rparr>"
  have bm: "cbuf_bitmap s1 = prefix_bitmap 0"
    by (simp add: s1_def prefix_bitmap_def CBUF_BITMAP_SIZE_def)
  obtain h' where h': "allocate_cbuf_mem ALLOCATE_CHUNK s1 =
        Some (1, s1\<lparr>cbuf_bitmap := prefix_bitmap 1, heap := h'\<rparr>)"
      "chain (nexts h') 1 [1..<33]" "\<forall>x. c_dat (h' x) = c_dat (heap s1 x)"
    using allocate_chunk [OF _ bm] by auto
  define s2 where "s2 = s1\<lparr>cbuf_bitmap := prefix_bitmap 1, heap := h'\<rparr>"
  have P: "pool s2 1 []"
    using h'(3) assms(3) by (simp add: pool_def s2_def s1_def)
  have "chain (nexts (heap s2)) 1 [1..<33]" "(1::ptr) \<noteq> 0" "set [1..<33] \<inter> set [] = {}"
      "\<forall>b \<in> set [1..<33]. b \<le> 32 * 1"
    using h'(2) by (auto simp: s2_def)
  from free_chain_pool [OF P this] obtain s3 where "cbuf_free_chain 1 s2 = Some s3" "pool s3 1 [1..<33]"
    by auto
  then show ?thesis
    using assms(1,2) h'(1) unfolding s2_def by (simp add: cbuf_init_def s1_def [symmetric] Let_def)
qed

lemma pool_store: "pool s m F \<Longrightarrow> store s Map.empty"
  unfolding store_def by auto

section \<open>The tail\<close>

lemma trunc_find_last:
  assumes "cells h p (us @ [l])" "us = [] \<or> length (content h us) < off"
    and "off \<le> length (content h (us @ [l]))"
  shows "trunc_find h p off = Some (l, off - length (content h us))"
  using assms
proof (induction us arbitrary: p off)
  case Nil
  then show ?case
    by (subst trunc_find.simps) auto
next
  case (Cons u us)
  have u: "p = u" "u \<noteq> 0" "wf_cell (h u)" "cells h (c_next (h u)) (us @ [l])"
    using Cons.prems(1) by auto
  have lt: "\<not> off \<le> c_len (h u)"
    using Cons.prems(2) u(3) by auto
  have "trunc_find h (c_next (h u)) (off - c_len (h u)) = Some (l, off - c_len (h u) - length (content h us))"
    by (rule Cons.IH [OF u(4)]) (use Cons.prems u(3) lt in auto)
  then show ?case
    using u lt by (subst trunc_find.simps) simp
qed

lemma truncate_tail_last:
  assumes L: "live s m F p (us @ [l]) xs" and n: "n \<le> length xs"
    and cut: "us = [] \<or> length (content (heap s) us) < length xs - n"
  shows "\<exists>h'. cbuf_truncate_tail p n fu s = Some (NO_ERROR, s\<lparr>heap := h'\<rparr>) \<and>
    live (s\<lparr>heap := h'\<rparr>) m F p (us @ [l]) (take (length xs - n) xs) \<and>
    (\<forall>b. b \<notin> set (us @ [l]) \<longrightarrow> h' b = heap s b)"
proof -
  let ?h = "heap s" and ?off = "length xs - n - length (content (heap s) us)"
  note P = pktD [OF live_pkt [OF L]]
  have dist: "distinct (us @ [l])"
    by (rule cells_distinct [OF P(2)])
  have l: "l \<noteq> 0" "wf_cell (?h l)" "c_next (?h l) = 0"
    using P(2) by (auto simp: cells_def seg_append)
  have xs: "xs = content ?h us @ cell_bytes (?h l)"
    using P(3) by simp
  have off: "?off \<le> c_len (?h l)"
    using xs l(2) by simp
  have find: "trunc_find ?h p (length xs - n) = Some (l, ?off)"
    by (rule trunc_find_last [OF P(2) cut]) (use P(3) in simp)
  have pin: "p \<in> set (us @ [l])"
    using P(6,7) hd_in_set by metis
  define h1 where "h1 = ?h(p := (?h p)\<lparr>total_len := total_len (?h p) - (c_len (?h l) - ?off)\<rparr>)"
  define h2 where "h2 = h1(l := (h1 l)\<lparr>c_len := ?off\<rparr>)"
  define h3 where "h3 = (if fu then
      h2(l := (h2 l)\<lparr>c_flags := c_flags (h2 l) OR CBUF_FLAG_CHAIN_TAIL\<rparr>) else h2)"
  have f3: "c_next (h3 b) = c_next (?h b)" "c_data (h3 b) = c_data (?h b)" "c_dat (h3 b) = c_dat (?h b)"
    "c_len (h3 b) = (if b = l then ?off else c_len (?h b))"
    "total_len (h3 b) = (if b = p then length xs - (c_len (?h l) - ?off) else total_len (?h b))"
    "c_flags (h3 b) = (if b = l \<and> fu then c_flags (?h b) OR CBUF_FLAG_CHAIN_TAIL else c_flags (?h b))"
    for b
    using P(4) by (auto simp: h3_def h2_def h1_def)
  have other: "h3 b = ?h b" if "b \<notin> set (us @ [l])" for b
    using that pin by (auto simp: h3_def h2_def h1_def)
  have "trunc_tail_loop fu p (c_next (h3 l)) 0 h3 = Some (0, h3)"
    using l(3) f3(1) by (subst trunc_tail_loop.simps) simp
  moreover have "cbuf_truncate_tail p n fu s = do {
      (free_chain, h4) \<leftarrow> trunc_tail_loop fu p (c_next (h3 l)) 0 h3;
      s' \<leftarrow> (if free_chain \<noteq> 0 then cbuf_free_chain free_chain (s\<lparr>heap := h4\<rparr>)
                 else Some (s\<lparr>heap := h4\<rparr>));
      Some (NO_ERROR, s') }"
    using P(1,4) n find l(1) unfolding cbuf_truncate_tail_def h3_def h2_def h1_def
    by (simp add: Let_def)
  ultimately have res: "cbuf_truncate_tail p n fu s = Some (NO_ERROR, s\<lparr>heap := h3\<rparr>)"
    by simp
  have "nexts h3 = nexts ?h"
    by (simp add: f3 fun_eq_iff)
  then have cells: "cells h3 p (us @ [l])"
    using P(2) off by (auto simp: cells_def wf_cell_def f3)
  have "content h3 us = content ?h us"
    by (rule cells_frame(2)) (use dist in \<open>auto simp: f3\<close>)
  moreover have "cell_bytes (h3 l) = take ?off (cell_bytes (?h l))"
    using off by (simp add: cell_bytes_def f3 min_def)
  moreover have "take (length xs - n) xs = content ?h us @ take ?off (cell_bytes (?h l))"
  proof -
    have "take k xs = take k (content ?h us) @ take (k - length (content ?h us)) (cell_bytes (?h l))" for k
      unfolding xs by simp
    moreover have "take (length xs - n) (content ?h us) = content ?h us"
      using cut by auto
    ultimately show ?thesis
      by simp
  qed
  ultimately have c3: "content h3 (us @ [l]) = take (length xs - n) xs"
    by simp
  have "flags_ok h3 (us @ [l])"
    using P(5) dist unfolding flags_ok_def by (auto simp: f3 split: if_splits)
  moreover have "total_len (h3 p) = length (take (length xs - n) xs)"
  proof -
    have "length xs = length (content ?h us) + c_len (?h l)" "length (content ?h us) \<le> length xs - n"
      using xs l(2) cut by auto
    then show ?thesis
      using n f3(5) [of p] by simp
  qed
  ultimately have "pkt h3 p (us @ [l]) (take (length xs - n) xs)"
    using P(1) cells c3 by (simp add: pkt_def)
  then have "live (s\<lparr>heap := h3\<rparr>) m F p (us @ [l]) (take (length xs - n) xs)"
    using other live_dat [OF L] by (intro live_heap [OF L]) (auto simp: f3)
  then show ?thesis
    using res other by blast
qed

lemma truncate_tail_two:
  assumes L: "live s m F p [p, q] xs" and cut: "length xs - n \<le> c_len (heap s p)" and n: "n \<le> length xs"
  shows "\<exists>s'. cbuf_truncate_tail p n True s = Some (NO_ERROR, s') \<and>
    c_next (heap s' p) = q \<and> cbuf_free_list s' = q"
proof -
  let ?h = "heap s"
  note P = pktD [OF live_pkt [OF L]]
  have c: "p \<noteq> 0" "q \<noteq> 0" "c_next (?h p) = q" "c_next (?h q) = 0" "p \<noteq> q"
    using P(2) cells_distinct [OF P(2)] by auto
  have find: "trunc_find ?h p (length xs - n) = Some (p, length xs - n)"
    using cut c(1) by (subst trunc_find.simps) simp
  define h3 where "h3 = ?h(p := (?h p)\<lparr>total_len := length xs - (c_len (?h p) - (length xs - n)),
      c_len := length xs - n, c_flags := c_flags (?h p) OR CBUF_FLAG_CHAIN_TAIL\<rparr>)"
  have t: "cbuf_truncate_tail p n True s = do {
      (free_chain, h4) \<leftarrow> trunc_tail_loop True p (c_next (h3 p)) 0 h3;
      s' \<leftarrow> (if free_chain \<noteq> 0 then cbuf_free_chain free_chain (s\<lparr>heap := h4\<rparr>)
                 else Some (s\<lparr>heap := h4\<rparr>));
      Some (NO_ERROR, s') }"
    using P(1,4) n find unfolding cbuf_truncate_tail_def h3_def by (simp add: Let_def)
  have n3: "c_next (h3 p) = q" "c_next (h3 q) = 0"
    using c by (simp_all add: h3_def)
  define h4 where "h4 = h3(p := (h3 p)\<lparr>total_len := total_len (h3 p) - c_len (h3 q)\<rparr>)"
  define h5 where "h5 = h4(q := (h4 q)\<lparr>c_next := 0\<rparr>)"
  have "trunc_tail_loop True p q 0 h3 = trunc_tail_loop True p 0 q h5"
    using c n3 unfolding h5_def h4_def by (subst trunc_tail_loop.simps) (simp add: Let_def)
  then have loop: "trunc_tail_loop True p q 0 h3 = Some (q, h5)"
    by (simp add: trunc_tail_loop.simps)
  have n5: "c_next (h5 q) = 0" "c_next (h5 p) = q"
    using c n3 by (simp_all add: h5_def h4_def)
  have "clear_chain q 0 h5 = Some (q, h5(q := initialize_cbuf (h5 q)))"
    using c(2) n5(1) by (subst clear_chain.simps) (simp add: clear_chain.simps Let_def initialize_cbuf_def)
  then show ?thesis
    using t loop n3(1) c n5(2) by (simp add: cbuf_free_chain_def)
qed

section \<open>A concrete store\<close>

text \<open>Two cells in the first chunk: the packet 1, 2, 3, 4, 5 cut after three bytes.\<close>

definition demo_cell :: "ptr \<Rightarrow> byte list \<Rightarrow> nat \<Rightarrow> u32 \<Rightarrow> cbuf" where
  "demo_cell nx bs tot fl = \<lparr>c_next = nx, c_len = length bs, total_len = tot, c_data = 0,
     c_flags = fl, packet_next = 0, c_dat = bs @ replicate (DAT_LEN - length bs) 0\<rparr>"

definition demo_cbufs :: cbuf_state where
  "demo_cbufs = \<lparr>heap = (\<lambda>b. demo_cell 0 [] 0 0)(1 := demo_cell 2 [1, 2, 3] 5 1, 2 := demo_cell 0 [4, 5] 0 2),
     cbuf_free_list = 0, cbuf_free_noblock_list = 0, cbuf_bitmap = prefix_bitmap 1\<rparr>"

lemma demo_live: "live demo_cbufs 1 [] 1 [1, 2] [1, 2, 3, 4, 5]"
  by (simp add: live_def pool_def demo_cbufs_def pkt_def demo_cell_def wf_cell_def cell_bytes_def
      flags_ok_def CBUF_FLAG_CHAIN_HEAD_def CBUF_FLAG_CHAIN_TAIL_def DAT_LEN_def)

lemma demo_store: "store demo_cbufs [1 \<mapsto> [1, 2, 3, 4, 5]]"
  unfolding store_def
  by (intro exI [of _ 1] exI [of _ "[]"] exI [of _ "\<lambda>_. [1, 2]"])
    (use demo_live in \<open>auto simp: live_def split: if_splits\<close>)

section \<open>Properties\<close>

text \<open>initialisation maps the region's first chunk into the pool: 32 initialised cells on the
  free list, no live packet, the allocation bitmap marking exactly these cells.\<close>
theorem cbuf_init_pool:
  assumes "0 \<le> err" "0 \<le> region" "\<And>b. length (c_dat (heap s b)) = DAT_LEN"
  shows "\<exists>s'. cbuf_init err region s = Some (NO_ERROR, s') \<and> pool s' 1 [1..<33] \<and> store s' Map.empty"
  using init_pool [OF assms] pool_store by blast

theorem cbuf_init_pool_witness: "\<exists>s'. cbuf_init 0 0 demo_cbufs = Some (NO_ERROR, s') \<and> pool s' 1 [1..<33]"
  using cbuf_init_pool [of 0 0 demo_cbufs] live_dat [OF demo_live] by auto

text \<open>bytes written into a packet are read back, wherever the cell boundaries fall.\<close>
theorem cbuf_write_read:
  assumes "store s M" "M p = Some xs" "off + length src \<le> length xs" "length xs < 2 ^ 32"
  shows "\<exists>h'. cbuf_memcpy_to_chain p off src (heap s) = Some (NO_ERROR, h') \<and>
    cbuf_memcpy_from_chain p off (length src) h' = Some (NO_ERROR, src)"
  using cb.write_read [OF assms] by auto

theorem cbuf_write_read_witness:
  "\<exists>h'. cbuf_memcpy_to_chain 1 2 [7, 8] (heap demo_cbufs) = Some (NO_ERROR, h') \<and>
    cbuf_memcpy_from_chain 1 2 (length [7::byte, 8]) h' = Some (NO_ERROR, [7, 8])"
  using cbuf_write_read [OF demo_store, of 1 _ 2 "[7, 8]"] by simp



text \<open>cutting \<open>n\<close> bytes off the front of a longer packet leaves the rest, returns the new
  head, and gives the emptied cells back; the other packets keep their bytes.\<close>
theorem cbuf_truncate_head_drops:
  assumes "store s M" "M p = Some xs" "n < length xs"
  shows "\<exists>q s'. cbuf_truncate_head p n True s = Some (q, s') \<and> q \<noteq> 0 \<and>
    store s' (M(p := None, q \<mapsto> drop n xs))"
  using store_truncate_head [OF assms] by blast

theorem cbuf_truncate_head_drops_witness:
  "\<exists>q s'. cbuf_truncate_head 1 4 True demo_cbufs = Some (q, s') \<and> q \<noteq> 0 \<and> store s' [q \<mapsto> [5]]"
  using cbuf_truncate_head_drops [OF demo_store, of 1 _ 4] by (simp add: numeral_eq_Suc)

text \<open>the checksum of a chain, computed cell by cell with the byte swaps at odd boundaries, is
  the checksum of its bytes.\<close>
theorem cbuf_cksum_chain:
  assumes "store s M" "M p = Some xs" "n \<le> length xs" "xs \<noteq> []"
  shows "cbuf_ones_cksum16 (heap s) p 0 n = Some (cksum16 (take n xs))"
  by (rule store_cksum [OF assms])

theorem cbuf_cksum_chain_witness:
  "cbuf_ones_cksum16 (heap demo_cbufs) 1 0 5 = Some (cksum16 [1, 2, 3, 4, 5])"
  using cbuf_cksum_chain [OF demo_store, of 1 _ 5] by simp

text \<open>prepending a header (allocate, fill, merge), as every output routine does, yields one
  packet with the header in front of the payload.\<close>
theorem cbuf_prepend:
  assumes "store s M" "M p = Some xs" "hdr \<noteq> []" "length hdr < 2 ^ 32"
  shows "\<exists>q s1. cbuf_get_chain (length hdr) s = Some (q, s1) \<and>
    (q \<noteq> 0 \<longrightarrow> (\<exists>h2 h3. cbuf_memcpy_to_chain q 0 hdr (heap s1) = Some (NO_ERROR, h2) \<and>
       cbuf_merge_chains q p h2 = Some (q, h3) \<and>
       store (s1\<lparr>heap := h3\<rparr>) (M(p := None, q \<mapsto> hdr @ xs)) \<and>
       cbuf_get_len q h3 = Some (length hdr + length xs)))"
proof -
  obtain q s1 where *: "cbuf_get_chain (length hdr) s = Some (q, s1)"
    "q \<noteq> 0 \<longrightarrow> (\<exists>s2 s3. map_option (\<lambda>(e, h). (e, s1\<lparr>heap := h\<rparr>)) (cbuf_memcpy_to_chain q 0 hdr (heap s1)) =
        Some (NO_ERROR, s2) \<and>
      map_option (\<lambda>(r, h). (r, s2\<lparr>heap := h\<rparr>)) (cbuf_merge_chains q p (heap s2)) = Some (q, s3) \<and>
       store s3 (M(p := None, q \<mapsto> hdr @ xs)) \<and> cbuf_get_len q (heap s3) = Some (length hdr + length xs))"
    using cb.prepend_header [OF assms] by blast
  then show ?thesis
    by (fastforce simp: split_beta)
qed

theorem cbuf_prepend_witness:
  "\<exists>q s1. cbuf_get_chain (length [8 :: byte, 9]) demo_cbufs = Some (q, s1) \<and>
    (q \<noteq> 0 \<longrightarrow> (\<exists>h2 h3. cbuf_memcpy_to_chain q 0 [8, 9] (heap s1) = Some (NO_ERROR, h2) \<and>
       cbuf_merge_chains q 1 h2 = Some (q, h3) \<and>
       store (s1\<lparr>heap := h3\<rparr>) ([1 \<mapsto> [1, 2, 3, 4, 5]](1 := None, q \<mapsto> [8, 9] @ [1, 2, 3, 4, 5])) \<and>
       cbuf_get_len q h3 = Some (length [8 :: byte, 9] + length [1 :: byte, 2, 3, 4, 5])))"
  by (rule cbuf_prepend [OF demo_store]) simp_all

text \<open>truncating within the last cell, the only use the stack makes of it, keeps the leading
  bytes of the packet.\<close>
theorem cbuf_truncate_tail_takes:
  assumes "live s m F p (us @ [l]) xs" "n \<le> length xs"
    and "us = [] \<or> length (content (heap s) us) < length xs - n"
  shows "\<exists>h'. cbuf_truncate_tail p n fu s = Some (NO_ERROR, s\<lparr>heap := h'\<rparr>) \<and>
    live (s\<lparr>heap := h'\<rparr>) m F p (us @ [l]) (take (length xs - n) xs)"
  using truncate_tail_last [OF assms] by blast

theorem cbuf_truncate_tail_takes_witness:
  "\<exists>h'. cbuf_truncate_tail 1 1 True demo_cbufs = Some (NO_ERROR, demo_cbufs\<lparr>heap := h'\<rparr>) \<and>
    live (demo_cbufs\<lparr>heap := h'\<rparr>) 1 [] 1 [1, 2] [1, 2, 3, 4]"
  using cbuf_truncate_tail_takes [of demo_cbufs 1 "[]" 1 "[1]" 2 "[1, 2, 3, 4, 5]" 1] demo_live
  by (simp add: demo_cbufs_def demo_cell_def cell_bytes_def)

text \<open>when the cut falls into the first of two cells, \<open>cbuf_truncate_tail\<close> with
  \<open>free_unused\<close> frees the second cell but leaves the first pointing at it: the packet runs into the
  free list.\<close>
theorem cbuf_truncate_tail_dangles:
  assumes "live s m F p [p, q] xs" "length xs - n \<le> c_len (heap s p)" "n \<le> length xs"
  shows "\<exists>s'. cbuf_truncate_tail p n True s = Some (NO_ERROR, s') \<and>
    c_next (heap s' p) = q \<and> cbuf_free_list s' = q"
  using truncate_tail_two [OF assms] .

theorem cbuf_truncate_tail_dangles_witness:
  "\<exists>s'. cbuf_truncate_tail 1 3 True demo_cbufs = Some (NO_ERROR, s') \<and>
    c_next (heap s' 1) = 2 \<and> cbuf_free_list s' = 2"
  by (rule cbuf_truncate_tail_dangles [OF demo_live]) (simp_all add: demo_cbufs_def demo_cell_def)

text \<open>the region scan skips nine bits after a full bitmap byte and does not end the run there:
  with cells 6 and 7 free, 8 to 15 taken and 16 on free, a request for three cells is answered with
  the three cells from 6, the last of which is in use, and marks cell 17 instead.\<close>
theorem cbuf_alloc_overlap:
  "cbuf_alloc (3 * CBUF_LEN) ([0x3f, 0xff, 0] @ replicate 61 0) =
     (6 + 1, 3 * CBUF_LEN, [0xff, 0xff, 2] @ replicate 61 0)"
  by (simp add: cbuf_alloc_def CBUF_LEN_def)
    (subst alloc_scan.simps, simp add: CBUF_BITMAP_SIZE_def CBUF_LEN_def)+

end
