(* ===== verification/Net_State.thy ===== *)
theory Net_State
  imports Net_Checksum Net_Timer Khash "HOL-Library.Monad_Syntax"
begin

text \<open>
  The state and the services every protocol of \<^verbatim>\<open>SkyCore/Net\<close> uses, at the level of the contracts
  proved in the theories below it.  A \<open>cbuf *\<close> is a byte list or NULL (\<open>packet option\<close>): the buffer
  operations are the list operations that the interface of \<^verbatim>\<open>Cbuf_Props\<close> proves of
  \<^verbatim>\<open>cbuf.c\<close>, with a count of the chains in existence.  A hash table is the list of its elements,
  last inserted first, which meets the contract proved of \<^verbatim>\<open>khash.c\<close>; the timer queue is the ordered
  list of armed timers, which meets the one proved of \<^verbatim>\<open>net_timer.c\<close>.  \<open>None\<close> is a fault (a NULL
  dereference, an overrun, a \<open>panic\<close>).
\<close>

section \<open>Addresses\<close>

record netaddr =
  na_len :: byte
  na_type :: byte
  na_addr :: packet

abbreviation (input) ADDR_TYPE_NULL :: byte where "ADDR_TYPE_NULL \<equiv> 0"
abbreviation (input) ADDR_TYPE_ETHERNET :: byte where "ADDR_TYPE_ETHERNET \<equiv> 1"
abbreviation (input) ADDR_TYPE_IP :: byte where "ADDR_TYPE_IP \<equiv> 2"

definition NETADDR_TO_IPV4 :: "netaddr \<Rightarrow> ipv4_addr" where
  "NETADDR_TO_IPV4 a = get32 (na_addr a) 0"

text \<open>An address whose first four bytes are set by \<open>NETADDR_TO_IPV4(a) = x\<close>.\<close>

definition ip_netaddr :: "ipv4_addr \<Rightarrow> netaddr" where
  "ip_netaddr x = \<lparr>na_len = 4, na_type = ADDR_TYPE_IP, na_addr = raw32 x @ replicate 8 0\<rparr>"

definition ether_netaddr :: "packet \<Rightarrow> netaddr" where
  "ether_netaddr bs = \<lparr>na_len = 6, na_type = ADDR_TYPE_ETHERNET, na_addr = bs @ replicate 6 0\<rparr>"

lemma netaddr_ip [simp]: "NETADDR_TO_IPV4 (ip_netaddr x) = x"
  using get32_at [of 0 "[]" x "replicate 8 0"] by (simp add: NETADDR_TO_IPV4_def ip_netaddr_def)

fun memcmp :: "byte list \<Rightarrow> byte list \<Rightarrow> int" where
  "memcmp (a # as) (b # bs) = (if a < b then -1 else if b < a then 1 else memcmp as bs)"
| "memcmp _ _ = 0"

definition cmp_netaddr :: "netaddr \<Rightarrow> netaddr \<Rightarrow> int" where
  "cmp_netaddr addr1 addr2 =
     (if na_type addr1 \<noteq> na_type addr2 then -1
      else memcmp (take (unat (na_len addr1)) (na_addr addr1)) (take (unat (na_len addr1)) (na_addr addr2)))"

lemma memcmp_zero: "length as = length bs \<Longrightarrow> memcmp as bs = 0 \<longleftrightarrow> as = bs"
proof (induction as bs rule: memcmp.induct)
  case (1 a as b bs)
  then show ?case
    by (cases a b rule: linorder_cases) auto
qed auto

section \<open>The common state\<close>

text \<open>What the timers of the stack are keyed by: the event structures and their owners.\<close>

datatype timer_key =
    Frag_killer_event
  | Ack_delay_timer ptr
  | Retransmit_timer ptr
  | Persist_timer ptr
  | Fin_retransmit_timer ptr
  | Time_wait_timer ptr

datatype effect =
    Sem_release int int
  | Thread_resume int
  | Thread_kill int
  | Sys_close int
  | Sys_write int packet

text \<open>\<open>alloc_ok n\<close> says whether the \<open>n\<close>-th request for memory (\<open>kmalloc\<close> or a cbuf chain) is served;
  \<open>junk\<close> is what uninitialised memory holds, also behind the end of a packet; \<open>chains\<close> counts the
  cbuf chains allocated and not freed; \<open>tail_room\<close> is the space left in a chain's last cell.  \<open>sys_time\<close> is what \<open>system_time()\<close> returns.\<close>

record net_base =
  sys_time :: int
  alloc_ok :: "nat \<Rightarrow> bool"
  allocs :: nat
  junk :: "nat \<Rightarrow> byte"
  tail_room :: "packet \<Rightarrow> nat"
  chains :: int
  timer_q :: "(timer_key \<times> int) list"
  effects :: "effect list"

definition emit :: "effect \<Rightarrow> 'a net_base_scheme \<Rightarrow> 'a net_base_scheme" where
  "emit e s = s\<lparr>effects := effects s @ [e]\<rparr>"

text \<open>Memory: addresses are never reused, NULL when the request is refused.\<close>

definition kmalloc :: "'a net_base_scheme \<Rightarrow> ptr \<times> 'a net_base_scheme" where
  "kmalloc s = (if alloc_ok s (allocs s) then Suc (allocs s) else 0, s\<lparr>allocs := Suc (allocs s)\<rparr>)"

text \<open>C division truncates towards zero.\<close>

definition cdiv :: "int \<Rightarrow> int \<Rightarrow> int" where
  "cdiv a b = (if a < 0 then - ((- a) div b) else a div b)"

section \<open>Packets\<close>

type_synonym cbuf_chain = "packet option"

definition chain_len :: "cbuf_chain \<Rightarrow> nat" where
  "chain_len b = (case b of None \<Rightarrow> 0 | Some p \<Rightarrow> length p)"

definition get_chain :: "nat \<Rightarrow> 'a net_base_scheme \<Rightarrow> (cbuf_chain \<times> 'a net_base_scheme) option" where
  "get_chain n s =
     (if n = 0 then None
      else let (p, s1) = kmalloc s
           in if p = 0 then Some (None, s1)
              else Some (Some (map (junk s1) [0..<n]), s1\<lparr>chains := chains s1 + 1\<rparr>))"

definition free_chain :: "cbuf_chain \<Rightarrow> 'a net_base_scheme \<Rightarrow> 'a net_base_scheme" where
  "free_chain b s = (case b of None \<Rightarrow> s | Some p \<Rightarrow> s\<lparr>chains := chains s - 1\<rparr>)"

definition dup_chain :: "cbuf_chain \<Rightarrow> nat \<Rightarrow> nat \<Rightarrow> 'a net_base_scheme \<Rightarrow> (cbuf_chain \<times> 'a net_base_scheme) option" where
  "dup_chain b off len s =
     (case b of
        None \<Rightarrow> Some (None, s)
      | Some p \<Rightarrow>
          if length p \<le> off then Some (None, s)
          else do {
            (q, s1) \<leftarrow> get_chain (min len (length p - off)) s;
            Some (map_option (\<lambda>_. take len (drop off p)) q, s1)
          })"

definition merge_chains :: "cbuf_chain \<Rightarrow> cbuf_chain \<Rightarrow> 'a net_base_scheme \<Rightarrow> cbuf_chain \<times> 'a net_base_scheme" where
  "merge_chains a b s =
     (case a of
        None \<Rightarrow> (b, s)
      | Some p \<Rightarrow> (case b of None \<Rightarrow> (a, s) | Some q \<Rightarrow> (Some (p @ q), s\<lparr>chains := chains s - 1\<rparr>)))"

text \<open>With \<open>free_unused\<close>, a chain that loses all its bytes is freed and NULL is returned.\<close>

definition behead_chain :: "cbuf_chain \<Rightarrow> nat \<Rightarrow> bool \<Rightarrow> 'a net_base_scheme \<Rightarrow> cbuf_chain \<times> 'a net_base_scheme" where
  "behead_chain b n free_unused s =
     (case b of
        None \<Rightarrow> (None, s)
      | Some p \<Rightarrow>
          if n = 0 then (b, s)
          else if free_unused \<and> length p \<le> n then (None, free_chain b s)
          else (Some (drop n p), s))"

definition untail_chain :: "cbuf_chain \<Rightarrow> nat \<Rightarrow> cbuf_chain option" where
  "untail_chain b n = map_option (\<lambda>p. Some (take (length p - n) p)) b"

text \<open>Extending at the tail fills the last cell first and then asks for more; when that is refused, the
  part already taken stays.\<close>

definition extend_chain :: "cbuf_chain \<Rightarrow> nat \<Rightarrow> 'a net_base_scheme \<Rightarrow> int \<times> cbuf_chain \<times> 'a net_base_scheme" where
  "extend_chain b n s =
     (case b of
        None \<Rightarrow> (ERR_INVALID_ARGS, None, s)
      | Some p \<Rightarrow>
          let room = tail_room s p
          in if n \<le> room then (NO_ERROR, Some (p @ map (junk s) [0..<n]), s)
             else
               let (q, s1) = kmalloc s
               in if q = 0 then (ERR_NO_MEMORY, Some (p @ map (junk s) [0..<room]), s1)
                  else (NO_ERROR, Some (p @ map (junk s) [0..<n]), s1))"

definition chain_cksum :: "cbuf_chain \<Rightarrow> nat \<Rightarrow> nat \<Rightarrow> u16" where
  "chain_cksum b off len =
     NOT (case b of None \<Rightarrow> 0 | Some p \<Rightarrow> ones_sum16 0 (take len (drop off p)))"

definition chain_cksum_2 :: "cbuf_chain \<Rightarrow> nat \<Rightarrow> nat \<Rightarrow> packet \<Rightarrow> u16" where
  "chain_cksum_2 b off len buf =
     NOT (case b of None \<Rightarrow> ones_sum16 0 buf
          | Some p \<Rightarrow> ones_sum16 (ucast (ones_sum16 0 buf)) (take len (drop off p)))"

text \<open>Field access through a pointer to the first byte.  A read behind the packet's end stays inside
  the 2 KB cell and finds what happens to be there.\<close>

definition peek8 :: "packet \<Rightarrow> nat \<Rightarrow> 'a net_base_scheme \<Rightarrow> byte" where
  "peek8 p i s = (if i < length p then p ! i else junk s i)"

definition peek16 :: "packet \<Rightarrow> nat \<Rightarrow> 'a net_base_scheme \<Rightarrow> u16" where
  "peek16 p i s = le16 (peek8 p i s) (peek8 p (Suc i) s)"

definition peek32 :: "packet \<Rightarrow> nat \<Rightarrow> 'a net_base_scheme \<Rightarrow> u32" where
  "peek32 p i s = ucast (peek16 p i s) OR push_bit 16 (ucast (peek16 p (i + 2) s))"

definition peek_bytes :: "packet \<Rightarrow> nat \<Rightarrow> nat \<Rightarrow> 'a net_base_scheme \<Rightarrow> packet" where
  "peek_bytes p i n s = map (\<lambda>k. peek8 p k s) [i..<i + n]"

definition put8 :: "packet \<Rightarrow> nat \<Rightarrow> byte \<Rightarrow> packet" where
  "put8 p i v = p[i := v]"

definition put32 :: "packet \<Rightarrow> nat \<Rightarrow> u32 \<Rightarrow> packet" where
  "put32 p i v = put16 (put16 p i (ucast v)) (i + 2) (ucast (drop_bit 16 v))"

definition put_bytes :: "packet \<Rightarrow> nat \<Rightarrow> packet \<Rightarrow> packet" where
  "put_bytes p i bs = take i p @ take (length p - i) bs @ drop (i + length bs) p"

text \<open>Copies between a chain and user memory.  \<open>fault\<close> is the number of bytes copied before the user
  address faults (\<open>None\<close>: it does not); the code then answers 1, not a negative error.\<close>

definition user_from_chain :: "nat option \<Rightarrow> cbuf_chain \<Rightarrow> nat \<Rightarrow> nat \<Rightarrow> (int \<times> packet) option" where
  "user_from_chain fault b off len =
     (case b of
        None \<Rightarrow> None
      | Some p \<Rightarrow>
          if (len + off) mod 2 ^ 32 > length p then Some (ERR_INVALID_ARGS, [])
          else case fault of
            Some k \<Rightarrow> if k < len then Some (1, take k (drop off p)) else Some (NO_ERROR, take len (drop off p))
          | None \<Rightarrow> Some (NO_ERROR, take len (drop off p)))"

definition user_to_chain :: "nat option \<Rightarrow> cbuf_chain \<Rightarrow> nat \<Rightarrow> packet \<Rightarrow> (int \<times> cbuf_chain) option" where
  "user_to_chain fault b off src =
     (case b of
        None \<Rightarrow> None
      | Some p \<Rightarrow>
          if (length src + off) mod 2 ^ 32 > length p then Some (ERR_INVALID_ARGS, b)
          else case fault of
            Some k \<Rightarrow> if k < length src then Some (1, Some (put_bytes p off (take k src)))
                      else Some (NO_ERROR, Some (put_bytes p off src))
          | None \<Rightarrow> Some (NO_ERROR, Some (put_bytes p off src)))"

lemma length_put8 [simp]: "length (put8 p i v) = length p"
  by (simp add: put8_def)

lemma length_put32 [simp]: "length (put32 p i v) = length p"
  by (simp add: put32_def)

lemma length_put_bytes [simp]: "length (put_bytes p i bs) = length p"
  by (simp add: put_bytes_def)

lemma peek8_in [simp]: "i < length p \<Longrightarrow> peek8 p i s = p ! i"
  by (simp add: peek8_def)

lemma peek16_in [simp]: "Suc i < length p \<Longrightarrow> peek16 p i s = get16 p i"
  by (simp add: peek16_def get16_def)

lemma peek32_in [simp]: "i + 3 < length p \<Longrightarrow> peek32 p i s = get32 p i"
  by (simp add: peek32_def get32_def)

lemma peek_bytes_in: "i + n \<le> length p \<Longrightarrow> peek_bytes p i n s = take n (drop i p)"
  by (auto simp: peek_bytes_def intro!: nth_equalityI)

lemma length_peek_bytes [simp]: "length (peek_bytes p i n s) = n"
  by (simp add: peek_bytes_def)

section \<open>Timers\<close>

text \<open>The queue is ordered by expiry; an event goes behind those that expire no later.\<close>

fun timer_insert :: "'k \<times> int \<Rightarrow> ('k \<times> int) list \<Rightarrow> ('k \<times> int) list" where
  "timer_insert e [] = [e]"
| "timer_insert e (x # xs) = (if snd x > snd e then e # x # xs else x # timer_insert e xs)"

definition timer_pending :: "timer_key \<Rightarrow> 'a net_base_scheme \<Rightarrow> bool" where
  "timer_pending k s \<longleftrightarrow> k \<in> fst ` set (timer_q s)"

definition cancel_timer :: "timer_key \<Rightarrow> 'a net_base_scheme \<Rightarrow> int \<times> 'a net_base_scheme" where
  "cancel_timer k s =
     (if \<not> timer_pending k s then (ERR_GENERAL, s)
      else (NO_ERROR, s\<lparr>timer_q := filter (\<lambda>e. fst e \<noteq> k) (timer_q s)\<rparr>))"

definition set_timer :: "timer_key \<Rightarrow> u32 \<Rightarrow> u32 \<Rightarrow> 'a net_base_scheme \<Rightarrow> int \<times> 'a net_base_scheme" where
  "set_timer k delay_ms flags s =
     (if timer_pending k s \<and> flags AND NET_TIMER_PENDING_IGNORE \<noteq> 0 then (ERR_GENERAL, s)
      else
        let s1 = snd (cancel_timer k s)
        in (NO_ERROR, s1\<lparr>timer_q := timer_insert (k, sys_time s1 + uint (delay_ms * 1000)) (timer_q s1)\<rparr>))"

lemma set_timer_insert [simp]: "set (timer_insert e xs) = insert e (set xs)"
  by (induction xs) auto

lemma sorted_timer_insert:
  "sorted (map snd xs) \<Longrightarrow> sorted (map snd (timer_insert e xs))"
  by (induction xs) auto

lemma cancel_timer_pending [simp]:
  "timer_pending x (snd (cancel_timer k s)) \<longleftrightarrow> x \<noteq> k \<and> timer_pending x s"
  by (auto simp: cancel_timer_def timer_pending_def)

lemma set_timer_pending [simp]:
  "timer_pending x (snd (set_timer k d f s)) \<longleftrightarrow> x = k \<or> timer_pending x s"
  by (auto simp: set_timer_def timer_pending_def Let_def cancel_timer_def)

lemma cancel_timer_ok:
  assumes "sorted (map snd (timer_q s))"
  shows "sorted (map snd (timer_q (snd (cancel_timer k s))))"
    and "fst (cancel_timer k s) = (if timer_pending k s then NO_ERROR else ERR_GENERAL)"
  using assms by (simp_all add: cancel_timer_def sorted_filter)

lemma set_timer_ok:
  assumes "sorted (map snd (timer_q s))"
  shows "sorted (map snd (timer_q (snd (set_timer k d f s))))"
    and "fst (set_timer k d 0 s) = NO_ERROR"
  using assms cancel_timer_ok(1) [OF assms, of k]
  by (simp_all add: set_timer_def Let_def sorted_timer_insert)

interpretation nts: timer_service "\<lambda>s k. timer_pending k s" "\<lambda>s. sorted (map snd (timer_q s))"
    "\<lambda>k s. Some (set_timer k d 0 s)" cancel_timer "\<lambda>_. True"
  for d :: u32
proof unfold_locales
  fix q :: "'a net_base_scheme" and e
  assume q: "sorted (map snd (timer_q q))"
  then show "\<exists>q'. Some (set_timer e d 0 q) = Some (NO_ERROR, q') \<and> sorted (map snd (timer_q q')) \<and>
      (\<forall>x. True \<longrightarrow> timer_pending x q' = (x = e \<or> timer_pending x q))"
    using set_timer_ok [of q e d]
    by (intro exI [of _ "snd (set_timer e d 0 q)"]) (simp add: prod_eq_iff)
next
  fix q :: "'a net_base_scheme" and e
  assume "sorted (map snd (timer_q q))" "timer_pending e q"
  then show "\<exists>q'. cancel_timer e q = (NO_ERROR, q') \<and> sorted (map snd (timer_q q')) \<and>
      (\<forall>x. True \<longrightarrow> timer_pending x q' = (x \<noteq> e \<and> timer_pending x q))"
    using cancel_timer_ok [of q e]
    by (intro exI [of _ "snd (cancel_timer e q)"]) (simp add: prod_eq_iff)
qed (simp add: cancel_timer_def)

section \<open>Tables\<close>

definition tab_find :: "(ptr \<Rightarrow> bool) \<Rightarrow> ptr list \<Rightarrow> ptr" where
  "tab_find m t = (case List.find m t of None \<Rightarrow> 0 | Some e \<Rightarrow> e)"

definition tab_insert :: "ptr \<Rightarrow> ptr list \<Rightarrow> ptr list" where
  "tab_insert e t = e # t"

definition tab_remove :: "ptr \<Rightarrow> ptr list \<Rightarrow> int \<times> ptr list" where
  "tab_remove e t = (if e \<in> set t then (NO_ERROR, remove1 e t) else (ERR_GENERAL, t))"

lemma tab_find_hit: "e \<in> set t \<Longrightarrow> m e \<Longrightarrow> tab_find m t \<in> set t \<and> m (tab_find m t)"
  by (induction t) (auto simp: tab_find_def)

lemma tab_find_miss: "\<forall>e \<in> set t. \<not> m e \<Longrightarrow> tab_find m t = 0"
  by (induction t) (auto simp: tab_find_def)

interpretation lt: element_table "\<lambda>t E. 0 \<notin> set t \<and> distinct t \<and> set t = E" "\<lambda>t e. tab_insert e t"
    "\<lambda>t e. Some (tab_remove e t)" "\<lambda>t k. Some (tab_find (\<lambda>e. m e k) t)" "\<lambda>t. m"
  for m :: "ptr \<Rightarrow> 'k \<Rightarrow> bool"
proof unfold_locales
  fix t E e k
  assume "0 \<notin> set t \<and> distinct t \<and> set t = E" "e \<in> E" "m e k"
  then show "\<exists>x \<in> E. Some (tab_find (\<lambda>e. m e k) t) = Some x \<and> m x k"
    using tab_find_hit [of e t "\<lambda>e. m e k"] by simp
next
  fix t E k
  assume "0 \<notin> set t \<and> distinct t \<and> set t = E" "\<forall>e \<in> E. \<not> m e k"
  then show "Some (tab_find (\<lambda>e. m e k) t) = Some 0"
    by (simp add: tab_find_miss)
qed (auto simp: tab_insert_def tab_remove_def)

text \<open>The order in which an iterator over the table visits the elements: bucket by bucket, the last
  inserted first.\<close>

definition tab_iter :: "(ptr \<Rightarrow> nat) \<Rightarrow> nat \<Rightarrow> ptr list \<Rightarrow> ptr list" where
  "tab_iter hf n t = concat (map (\<lambda>b. filter (\<lambda>e. hf e mod n = b) t) [0..<n])"

lemma set_tab_iter: "0 < n \<Longrightarrow> set (tab_iter hf n t) = set t"
  by (auto simp: tab_iter_def)

end
