(* ===== verification/Net_If.thy ===== *)
theory Net_If
  imports Net_State
begin

text \<open>
  \<^verbatim>\<open>SkyCore/Net/if.c\<close>: the network interfaces, their registration, and the steps of their
  transmit and receive threads.  Interface structures live in a heap indexed by address; the hash
  table \<open>ifhash\<close> is the list of its elements.  The services of the kernel that are not part of
  the repository's C code (device calls, threads, semaphore creation, the \<open>fixed_queue\<close> routines that
  \<^verbatim>\<open>queue2.h\<close> only declares) are the fields of a record that the definitions take as an argument.
\<close>

section \<open>Structures\<close>

abbreviation (input) IF_TYPE_NULL :: nat where "IF_TYPE_NULL \<equiv> 0"
abbreviation (input) IF_TYPE_LOOPBACK :: nat where "IF_TYPE_LOOPBACK \<equiv> 1"
abbreviation (input) IF_TYPE_ETHERNET :: nat where "IF_TYPE_ETHERNET \<equiv> 2"

abbreviation (input) PROT_TYPE_IPV4 :: u16 where "PROT_TYPE_IPV4 \<equiv> 0x0800"
abbreviation (input) PROT_TYPE_ARP :: u16 where "PROT_TYPE_ARP \<equiv> 0x0806"

definition ETHERNET_HEADER_SIZE :: nat where "ETHERNET_HEADER_SIZE = 6 + 6 + 2"
definition ETHERNET_MAX_SIZE :: nat where "ETHERNET_MAX_SIZE = ETHERNET_HEADER_SIZE + 1500"
definition TX_QUEUE_SIZE :: nat where "TX_QUEUE_SIZE = 64"

record ifaddr =
  ia_addr :: netaddr
  ia_netmask :: netaddr
  ia_broadcast :: netaddr

record fixed_queue =
  fq_table :: "packet option list"
  fq_head :: int
  fq_tail :: int
  fq_count :: int
  fq_size :: int

text \<open>The pair of link-layer function pointers of an interface.\<close>

datatype link_layer = Loopback_link | Ethernet_link

record ifnet =
  if_id :: int
  if_path :: string
  if_type :: nat
  if_fd :: int
  rx_thread :: int
  tx_thread :: int
  addr_list :: "ifaddr list"
  link_addr :: "ifaddr option"
  mtu :: u32
  link_fns :: link_layer
  tx_queue_sem :: int
  tx_queue :: fixed_queue

record if_state = net_base +
  ifs :: "ptr \<Rightarrow> ifnet"
  ifhash :: "ptr list"
  next_id :: int

record kernel =
  k_open :: "string \<Rightarrow> int"
  k_if_type :: "int \<Rightarrow> int \<times> nat"
  k_if_addr :: "int \<Rightarrow> int \<times> packet"
  k_thread :: "string \<Rightarrow> int"
  k_sem :: "string \<Rightarrow> int"
  k_queue_init :: "nat \<Rightarrow> fixed_queue"
  k_enqueue :: "fixed_queue \<Rightarrow> packet \<Rightarrow> int \<times> fixed_queue"
  k_dequeue :: "fixed_queue \<Rightarrow> packet option \<times> fixed_queue"

definition upd_if :: "ptr \<Rightarrow> (ifnet \<Rightarrow> ifnet) \<Rightarrow> 'a if_state_scheme \<Rightarrow> 'a if_state_scheme" where
  "upd_if i f s = s\<lparr>ifs := (ifs s)(i := f (ifs s i))\<rparr>"

section \<open>Lookup\<close>

definition if_compare_func :: "ifnet \<Rightarrow> int \<Rightarrow> int" where
  "if_compare_func i key = (if if_id i = key then 0 else 1)"

definition if_hash_func :: "ifnet option \<Rightarrow> int \<Rightarrow> nat \<Rightarrow> nat" where
  "if_hash_func i key n =
     (case i of Some i \<Rightarrow> unat (word_of_int (if_id i) :: u32) mod n
      | None \<Rightarrow> unat (word_of_int key :: u32) mod n)"

definition if_id_to_ifnet :: "int \<Rightarrow> 'a if_state_scheme \<Rightarrow> ptr" where
  "if_id_to_ifnet k s = tab_find (\<lambda>i. if_compare_func (ifs s i) k = 0) (ifhash s)"

definition if_path_to_ifnet :: "string \<Rightarrow> 'a if_state_scheme \<Rightarrow> ptr" where
  "if_path_to_ifnet path s =
     tab_find (\<lambda>i. path = if_path (ifs s i)) (tab_iter (\<lambda>i. if_hash_func (Some (ifs s i)) 0 16) 16 (ifhash s))"

section \<open>Registration\<close>

definition if_bind_address :: "ptr \<Rightarrow> ifaddr \<Rightarrow> 'a if_state_scheme \<Rightarrow> 'a if_state_scheme" where
  "if_bind_address i a = upd_if i (\<lambda>n. n\<lparr>addr_list := a # addr_list n\<rparr>)"

definition if_bind_link_address :: "ptr \<Rightarrow> ifaddr \<Rightarrow> 'a if_state_scheme \<Rightarrow> 'a if_state_scheme" where
  "if_bind_link_address i a = upd_if i (\<lambda>n. n\<lparr>link_addr := Some a\<rparr>)"

definition if_boot_interface :: "kernel \<Rightarrow> ptr \<Rightarrow> 'a if_state_scheme \<Rightarrow> int \<times> 'a if_state_scheme" where
  "if_boot_interface K i s =
     (let rx = k_thread K ''net_rx_thread'';
          s1 = upd_if i (\<lambda>n. n\<lparr>rx_thread := rx\<rparr>) s
      in if rx < 0 then (rx, s1)
         else
           let tx = k_thread K ''net_tx_thread'';
               s2 = upd_if i (\<lambda>n. n\<lparr>tx_thread := tx\<rparr>) s1
           in if tx < 0 then (tx, emit (Thread_kill rx) s2)
              else (NO_ERROR, emit (Thread_resume tx) (emit (Thread_resume rx) s2)))"

text \<open>Opening the device: \<open>Inl\<close> the error and whether the descriptor was closed, \<open>Inr\<close> its
  descriptor and type.\<close>

definition open_device :: "kernel \<Rightarrow> string \<Rightarrow> (int \<times> int option) + (int \<times> nat)" where
  "open_device K path =
     (if path = ''loopback'' then Inr (-1, IF_TYPE_LOOPBACK)
      else
        let fd = k_open K path
        in if fd < 0 then Inl (fd, None)
           else
             let (err, type) = k_if_type K fd
             in if err < 0 then Inl (err, Some fd) else Inr (fd, type))"

definition zeroed_ifnet :: ifnet where
  "zeroed_ifnet = \<lparr>if_id = 0, if_path = [], if_type = 0, if_fd = 0, rx_thread = 0, tx_thread = 0,
     addr_list = [], link_addr = None, mtu = 0, link_fns = Loopback_link, tx_queue_sem = 0,
     tx_queue = \<lparr>fq_table = [], fq_head = 0, fq_tail = 0, fq_count = 0, fq_size = 0\<rparr>\<rparr>"

text \<open>The switch over the device type: \<open>Inl\<close> an error, with the descriptor if it is closed.  The
  address block of an Ethernet device is written through the unchecked result of \<open>kmalloc\<close>.\<close>

definition attach_link ::
  "kernel \<Rightarrow> ptr \<Rightarrow> int \<Rightarrow> nat \<Rightarrow> 'a if_state_scheme \<Rightarrow> (((int \<times> int option) + unit) \<times> 'a if_state_scheme) option" where
  "attach_link K i fd type s =
     (if type = IF_TYPE_LOOPBACK then
        Some (Inr (), upd_if i (\<lambda>n. n\<lparr>link_fns := Loopback_link, mtu := 65535\<rparr>) s)
      else if type = IF_TYPE_ETHERNET then
        let s1 = upd_if i (\<lambda>n. n\<lparr>link_fns := Ethernet_link,
                    mtu := of_nat (ETHERNET_MAX_SIZE - ETHERNET_HEADER_SIZE)\<rparr>) s;
            (address, s2) = kmalloc s1
        in if address = 0 then None
           else
             let (err, hw) = k_if_addr K fd
             in if err < 0 then Some (Inl (err, Some fd), s2)
                else Some (Inr (), if_bind_link_address i
                  \<lparr>ia_addr = ether_netaddr hw, ia_netmask = ip_netaddr 0\<lparr>na_type := ADDR_TYPE_NULL\<rparr>,
                   ia_broadcast = ether_netaddr (replicate 6 0xff)\<rparr> s2)
      else Some (Inl (ERR_NET_GENERAL, None), s))"

definition if_register_interface ::
  "kernel \<Rightarrow> string \<Rightarrow> 'a if_state_scheme \<Rightarrow> (int \<times> ptr \<times> 'a if_state_scheme) option" where
  "if_register_interface K path s =
     (let (i, s1) = kmalloc s;
          close = (\<lambda>fd s. case fd of Some fd \<Rightarrow> emit (Sys_close fd) s | None \<Rightarrow> s)
      in if i = 0 then Some (ERR_NO_MEMORY, 0, s1)
         else case open_device K path of
           Inl (err, fd) \<Rightarrow> Some (err, 0, close fd s1)
         | Inr (fd, type) \<Rightarrow> do {
             (r, s2) \<leftarrow> attach_link K i fd type (upd_if i (\<lambda>_. zeroed_ifnet\<lparr>if_fd := fd\<rparr>) s1);
             case r of
               Inl (err, fd) \<Rightarrow> Some (err, 0, close fd s2)
             | Inr _ \<Rightarrow>
                 if length path \<ge> 256 then None
                 else do {
                   let s3 = upd_if i (\<lambda>n. n\<lparr>if_id := next_id s2, if_path := path, if_type := type,
                              rx_thread := -1, tx_thread := -1, tx_queue_sem := k_sem K ''tx_queue_sem'',
                              tx_queue := k_queue_init K TX_QUEUE_SIZE\<rparr>) s2;
                   let s4 = s3\<lparr>next_id := next_id s3 + 1, ifhash := tab_insert i (ifhash s3)\<rparr>;
                   let (err, s5) = if_boot_interface K i s4;
                   if err < 0 then Some (err, 0, emit (Sys_close fd) s5)
                   else Some (NO_ERROR, i, s5)
                 }
           })"

section \<open>Transmission and reception\<close>

definition if_output :: "kernel \<Rightarrow> cbuf_chain \<Rightarrow> ptr \<Rightarrow> 'a if_state_scheme \<Rightarrow> (int \<times> 'a if_state_scheme) option" where
  "if_output K b i s =
     (case b of
        None \<Rightarrow> None
      | Some p \<Rightarrow>
          let (r, q) = k_enqueue K (tx_queue (ifs s i)) p;
              enqueue_failed = r < 0;
              s1 = upd_if i (\<lambda>n. n\<lparr>tx_queue := q\<rparr>) s;
              release_sem = fq_count (tx_queue (ifs s1 i)) = 1
          in if enqueue_failed then Some (ERR_NO_MEMORY, free_chain b s1)
             else Some (NO_ERROR, if release_sem then emit (Sem_release (tx_queue_sem (ifs s1 i)) 1) s1 else s1))"

text \<open>One wake-up of the transmit thread: it drains the queue into the device.  The packet must fit
  the 2048-byte \<open>tx_buf\<close>.\<close>

partial_function (option) if_tx_drain :: "kernel \<Rightarrow> ptr \<Rightarrow> 'a if_state_scheme \<Rightarrow> 'a if_state_scheme option" where
  "if_tx_drain K i s =
     (let (buf, q) = k_dequeue K (tx_queue (ifs s i));
          s1 = upd_if i (\<lambda>n. n\<lparr>tx_queue := q\<rparr>) s
      in case buf of
           None \<Rightarrow> Some s1
         | Some p \<Rightarrow>
             if length p > 2048 then None
             else if_tx_drain K i (emit (Sys_write (if_fd (ifs s1 i)) p) (free_chain buf s1)))"

text \<open>What the receive thread does with one result of \<open>sys_read\<close>: a negative length (an error), or
  the bytes read.  \<open>link_input\<close> is the interface's function pointer.\<close>

definition if_rx_step ::
  "(cbuf_chain \<Rightarrow> ptr \<Rightarrow> 'a if_state_scheme \<Rightarrow> (int \<times> 'a if_state_scheme) option) \<Rightarrow>
   ptr \<Rightarrow> int + packet \<Rightarrow> 'a if_state_scheme \<Rightarrow> 'a if_state_scheme option" where
  "if_rx_step link_input i rx s =
     (case rx of
        Inl err \<Rightarrow> Some s
      | Inr data \<Rightarrow>
          if data = [] then Some s
          else if link_addr (ifs s i) = None then Some s
          else do {
            (b, s1) \<leftarrow> get_chain (length data) s;
            case b of
              None \<Rightarrow> Some s1
            | Some _ \<Rightarrow> map_option snd (link_input (Some data) i s1)
          })"

definition if_init :: "int \<Rightarrow> 'a if_state_scheme \<Rightarrow> int \<times> 'a if_state_scheme" where
  "if_init mutex_err s = (if mutex_err < 0 then mutex_err else NO_ERROR, s\<lparr>next_id := 0, ifhash := []\<rparr>)"

end
