(* ===== verification/Arp.thy ===== *)
theory Arp
  imports Net_If
begin

text \<open>
  \<^verbatim>\<open>SkyCore/Net/arp.c\<close>: the cache of link addresses, the packets waiting for one, the ARP packets, and
  the passes of the two ARP threads.  The interface's \<open>link_output\<close> pointer and the callback of a
  waiting request (in this program always \<open>ipv4_arp_callback\<close>) are function arguments; the
  callback's \<open>args\<close> is the packet that waits.
\<close>

section \<open>Structures\<close>

definition MIN_ARP_SIZE :: nat where "MIN_ARP_SIZE = 28"

abbreviation (input) ARP_OP_REQUEST :: u16 where "ARP_OP_REQUEST \<equiv> 1"
abbreviation (input) ARP_OP_REPLY :: u16 where "ARP_OP_REPLY \<equiv> 2"
abbreviation (input) ARP_HARD_TYPE_ETHERNET :: u16 where "ARP_HARD_TYPE_ETHERNET \<equiv> 1"
abbreviation (input) ARP_CALLBACK_CODE_OK :: int where "ARP_CALLBACK_CODE_OK \<equiv> 0"
abbreviation (input) ARP_CALLBACK_CODE_FAILED :: int where "ARP_CALLBACK_CODE_FAILED \<equiv> 1"

text \<open>\<open>struct arp_packet\<close> carries no packing attribute and the project builds it both with one-byte and
  with the default member alignment; \<open>packed\<close> selects the layout.\<close>

definition arp_sizeof :: "bool \<Rightarrow> nat" where "arp_sizeof packed = (if packed then 28 else 32)"
definition arp_sender_ipv4 :: "bool \<Rightarrow> nat" where "arp_sender_ipv4 packed = (if packed then 14 else 16)"
definition arp_target_ethernet :: "bool \<Rightarrow> nat" where "arp_target_ethernet packed = (if packed then 18 else 20)"
definition arp_target_ipv4 :: "bool \<Rightarrow> nat" where "arp_target_ipv4 packed = (if packed then 24 else 28)"

record arp_cache_entry =
  ae_ip_addr :: ipv4_addr
  ae_link_addr :: netaddr
  ae_last_used :: int

record arp_wait_request =
  aw_sender :: ipv4_addr
  aw_ip_addr :: ipv4_addr
  aw_last_attempt :: int
  aw_attempts :: nat
  aw_args :: cbuf_chain
  aw_if :: ptr

record arp_state = if_state +
  arp_entry :: "ptr \<Rightarrow> arp_cache_entry"
  arp_table :: "ptr list"
  arp_cache_entries :: "ptr list"
  arp_waiters :: "arp_wait_request list"
  arp_wait_sem :: int

type_synonym 's link_output = "cbuf_chain \<Rightarrow> ptr \<Rightarrow> netaddr \<Rightarrow> u16 \<Rightarrow> 's \<Rightarrow> (int \<times> 's) option"
type_synonym 's arp_callback = "int \<Rightarrow> cbuf_chain \<Rightarrow> ptr \<Rightarrow> netaddr option \<Rightarrow> 's \<Rightarrow> 's option"

definition arp_cache_compare :: "arp_cache_entry \<Rightarrow> ipv4_addr \<Rightarrow> int" where
  "arp_cache_compare e a = (if ae_ip_addr e = a then 0 else 1)"

definition arp_cache_hash :: "arp_cache_entry option \<Rightarrow> ipv4_addr \<Rightarrow> nat \<Rightarrow> nat" where
  "arp_cache_hash e key n =
     (let a = (case e of Some e \<Rightarrow> ae_ip_addr e | None \<Rightarrow> key)
      in unat (a XOR drop_bit 8 a XOR drop_bit 16 a XOR drop_bit 24 a) mod n)"

section \<open>Requests and lookup\<close>

definition arp_send_request ::
  "bool \<Rightarrow> 'a arp_state_scheme link_output \<Rightarrow> ptr \<Rightarrow> ipv4_addr \<Rightarrow> ipv4_addr \<Rightarrow> 'a arp_state_scheme \<Rightarrow>
   (int \<times> 'a arp_state_scheme) option" where
  "arp_send_request packed link_output i sender_ipaddr ip_addr s =
     do {
       (buf, s1) \<leftarrow> get_chain (arp_sizeof packed) s;
       case buf of
         None \<Rightarrow> Some (ERR_NO_MEMORY, s1)
       | Some p0 \<Rightarrow> do {
           link \<leftarrow> link_addr (ifs s1 i);
           let p1 = put16 p0 0 (htons ARP_HARD_TYPE_ETHERNET);
           let p2 = put16 p1 2 (htons PROT_TYPE_IPV4);
           let p3 = put8 (put8 p2 4 6) 5 4;
           let p4 = put16 p3 6 (ntohs ARP_OP_REQUEST);
           let p5 = put_bytes p4 8 (take 6 (na_addr (ia_addr link)));
           let p6 = put32 p5 (arp_sender_ipv4 packed) (htonl sender_ipaddr);
           let p7 = put_bytes p6 (arp_target_ethernet packed) (replicate 6 0);
           let p8 = put32 p7 (arp_target_ipv4 packed) (htonl ip_addr);
           link_output (Some p8) i (ia_broadcast link) PROT_TYPE_ARP s1
         }
     }"

text \<open>The result is the error code and the link address copied out, if any; \<open>has_callback\<close> says whether
  the callback pointer is non-NULL.\<close>

definition arp_lookup ::
  "bool \<Rightarrow> 'a arp_state_scheme link_output \<Rightarrow> ptr \<Rightarrow> ipv4_addr \<Rightarrow> ipv4_addr \<Rightarrow> bool \<Rightarrow> cbuf_chain \<Rightarrow> 'a arp_state_scheme \<Rightarrow>
   (int \<times> netaddr option \<times> 'a arp_state_scheme) option" where
  "arp_lookup packed link_output i sender_ipaddr ip_addr has_callback callback_args s =
     (if if_type (ifs s i) = IF_TYPE_LOOPBACK then Some (NO_ERROR, None, s)
      else
        let e = tab_find (\<lambda>e. arp_cache_compare (arp_entry s e) ip_addr = 0) (arp_table s)
        in if e \<noteq> 0 then
             Some (NO_ERROR, Some (ae_link_addr (arp_entry s e)),
               s\<lparr>arp_entry := (arp_entry s)(e := (arp_entry s e)\<lparr>ae_last_used := sys_time s\<rparr>)\<rparr>)
           else if \<not> has_callback then Some (ERR_NET_FAILED_ARP, None, s)
           else
             let (w, s1) = kmalloc s
             in if w = 0 then Some (ERR_NO_MEMORY, None, s1)
                else
                  let wait = \<lparr>aw_sender = sender_ipaddr, aw_ip_addr = ip_addr, aw_last_attempt = sys_time s1,
                              aw_attempts = 0, aw_args = callback_args, aw_if = i\<rparr>;
                      wakeup = arp_waiters s1 = [];
                      s2 = s1\<lparr>arp_waiters := wait # arp_waiters s1\<rparr>;
                      s3 = (if wakeup then emit (Sem_release (arp_wait_sem s2) 1) s2 else s2)
                  in do {
                    (err, s4) \<leftarrow> arp_send_request packed link_output i sender_ipaddr ip_addr s3;
                    Some (ERR_NET_ARP_QUEUED, None, s4)
                  })"

section \<open>Insertion\<close>

text \<open>The walk that unlinks waiters: those kept, in order, and those removed, pushed one by one.\<close>

fun take_waiters :: "('w \<Rightarrow> bool) \<Rightarrow> 'w list \<Rightarrow> 'w list \<Rightarrow> 'w list \<times> 'w list" where
  "take_waiters P [] removed = ([], removed)"
| "take_waiters P (w # ws) removed =
     (if P w then take_waiters P ws (w # removed)
      else let (kept, r) = take_waiters P ws removed in (w # kept, r))"

fun run_callbacks ::
  "'s arp_callback \<Rightarrow> int \<Rightarrow> netaddr option \<Rightarrow> arp_wait_request list \<Rightarrow> 's \<Rightarrow> 's option" where
  "run_callbacks callback code la [] s = Some s"
| "run_callbacks callback code la (w # ws) s =
     do { s1 \<leftarrow> callback code (aw_args w) (aw_if w) la s; run_callbacks callback code la ws s1 }"

definition arp_insert ::
  "'a arp_state_scheme arp_callback \<Rightarrow> ipv4_addr \<Rightarrow> netaddr \<Rightarrow> 'a arp_state_scheme \<Rightarrow>
   (int \<times> 'a arp_state_scheme) option" where
  "arp_insert callback ip_addr la s =
     (let e0 = tab_find (\<lambda>e. arp_cache_compare (arp_entry s e) ip_addr = 0) (arp_table s);
          replace = e0 \<noteq> 0 \<and> na_type (ae_link_addr (arp_entry s e0)) = na_type la \<and>
                    cmp_netaddr (ae_link_addr (arp_entry s e0)) la \<noteq> 0
      in if e0 \<noteq> 0 \<and> \<not> replace then Some (0, s)
         else
           let (e, s1) = (if replace then (e0, s\<lparr>arp_table := snd (tab_remove e0 (arp_table s))\<rparr>)
                          else kmalloc s)
           in if e = 0 then Some (ERR_NO_MEMORY, s1)
              else
                let s2 = s1\<lparr>arp_entry := (arp_entry s1)(e :=
                           \<lparr>ae_ip_addr = ip_addr, ae_link_addr = la, ae_last_used = sys_time s1\<rparr>),
                           arp_table := tab_insert e (arp_table s1)\<rparr>;
                    (kept, removed) = take_waiters (\<lambda>w. aw_ip_addr w = ip_addr) (arp_waiters s2) []
                in do {
                  s3 \<leftarrow> run_callbacks callback ARP_CALLBACK_CODE_OK (Some la) removed
                         (s2\<lparr>arp_waiters := kept\<rparr>);
                  Some (0, s3)
                })"

section \<open>Input\<close>

text \<open>The interface address an ARP request asks for: the last one on the list that matches.\<close>

fun match_addr :: "ipv4_addr \<Rightarrow> ifaddr option \<Rightarrow> ifaddr list \<Rightarrow> ifaddr option" where
  "match_addr a found [] = found"
| "match_addr a found (x # xs) =
     match_addr a (if na_type (ia_addr x) = ADDR_TYPE_IP \<and> NETADDR_TO_IPV4 (ia_addr x) = a then Some x else found) xs"

definition arp_input ::
  "bool \<Rightarrow> 'a arp_state_scheme link_output \<Rightarrow> 'a arp_state_scheme arp_callback \<Rightarrow> cbuf_chain \<Rightarrow> ptr \<Rightarrow>
   'a arp_state_scheme \<Rightarrow> (int \<times> 'a arp_state_scheme) option" where
  "arp_input packed link_output callback buf i s =
     (case buf of
        None \<Rightarrow> Some (-1, s)
      | Some p \<Rightarrow>
          if chain_len buf < MIN_ARP_SIZE then Some (-1, s)
          else if ntohs (peek16 p 2 s) \<noteq> PROT_TYPE_IPV4 \<or> ntohs (peek16 p 0 s) \<noteq> ARP_HARD_TYPE_ETHERNET
          then Some (0, free_chain buf s)
          else
            let op = ntohs (peek16 p 6 s);
                eth = ether_netaddr (peek_bytes p 8 6 s);
                sender = ntohl (peek32 p (arp_sender_ipv4 packed) s)
            in if op = ARP_OP_REPLY then do {
                 (err, s1) \<leftarrow> arp_insert callback sender eth s;
                 Some (0, free_chain buf s1)
               }
               else if op = ARP_OP_REQUEST then do {
                 (err, s1) \<leftarrow> arp_insert callback sender eth s;
                 case match_addr (ntohl (peek32 p (arp_target_ipv4 packed) s1)) None (addr_list (ifs s1 i)) of
                   None \<Rightarrow> Some (0, free_chain buf s1)
                 | Some iaddr \<Rightarrow> do {
                     link \<leftarrow> link_addr (ifs s1 i);
                     let p1 = put_bytes p (arp_target_ethernet packed) (peek_bytes p 8 6 s1);
                     let p2 = put32 p1 (arp_target_ipv4 packed) (peek32 p1 (arp_sender_ipv4 packed) s1);
                     let p3 = put_bytes p2 8 (take 6 (na_addr (ia_addr link)));
                     let p4 = put32 p3 (arp_sender_ipv4 packed) (htonl (NETADDR_TO_IPV4 (ia_addr iaddr)));
                     let p5 = put16 p4 6 (htons ARP_OP_REPLY);
                     (err, s2) \<leftarrow> link_output (Some p5) i
                       (ether_netaddr (peek_bytes p5 (arp_target_ethernet packed) 6 s1)) PROT_TYPE_ARP s1;
                     Some (0, s2)
                   }
               }
               else Some (0, free_chain buf s))"

section \<open>The threads\<close>

text \<open>One pass of the retransmit thread over the waiting list, the list lock held.\<close>

fun retransmit_walk ::
  "bool \<Rightarrow> 'a arp_state_scheme link_output \<Rightarrow> arp_wait_request list \<Rightarrow> arp_wait_request list \<Rightarrow>
   'a arp_state_scheme \<Rightarrow> (arp_wait_request list \<times> arp_wait_request list \<times> 'a arp_state_scheme) option" where
  "retransmit_walk packed lo [] removed s = Some ([], removed, s)"
| "retransmit_walk packed lo (w # ws) removed s =
     (if sys_time s - aw_last_attempt w > 1000000 then
        let w1 = w\<lparr>aw_attempts := Suc (aw_attempts w)\<rparr>
        in if aw_attempts w1 > 5 then retransmit_walk packed lo ws (w1 # removed) s
           else do {
             (err, s1) \<leftarrow> arp_send_request packed lo (aw_if w1) (aw_sender w1) (aw_ip_addr w1) s;
             (kept, r, s2) \<leftarrow> retransmit_walk packed lo ws removed s1;
             Some (w1\<lparr>aw_last_attempt := sys_time s\<rparr> # kept, r, s2)
           }
      else do {
        (kept, r, s2) \<leftarrow> retransmit_walk packed lo ws removed s;
        Some (w # kept, r, s2)
      })"

text \<open>The first component says whether the thread goes on polling (the queue was not empty).\<close>

definition arp_retransmit_pass ::
  "bool \<Rightarrow> 'a arp_state_scheme link_output \<Rightarrow> 'a arp_state_scheme arp_callback \<Rightarrow> 'a arp_state_scheme \<Rightarrow>
   (bool \<times> 'a arp_state_scheme) option" where
  "arp_retransmit_pass packed link_output callback s =
     (if arp_waiters s = [] then Some (False, s)
      else do {
        (kept, removed, s1) \<leftarrow> retransmit_walk packed link_output (arp_waiters s) [] s;
        s2 \<leftarrow> run_callbacks callback ARP_CALLBACK_CODE_FAILED None removed (s1\<lparr>arp_waiters := kept\<rparr>);
        Some (True, s2)
      })"

text \<open>One pass of the cleanup thread: expired entries leave \<open>arp_cache_entries\<close> and are freed; the
  hash table is not touched.\<close>

definition arp_cleanup_pass :: "'a arp_state_scheme \<Rightarrow> ptr list \<times> 'a arp_state_scheme" where
  "arp_cleanup_pass s =
     (let (kept, freed) = take_waiters (\<lambda>e. sys_time s - ae_last_used (arp_entry s e) > 1000000 * 60 * 5)
                            (arp_cache_entries s) []
      in (freed, s\<lparr>arp_cache_entries := kept\<rparr>))"

definition arp_init :: "kernel \<Rightarrow> 'a arp_state_scheme \<Rightarrow> int \<times> 'a arp_state_scheme" where
  "arp_init K s =
     (let s1 = s\<lparr>arp_wait_sem := k_sem K ''arp_wait_sem'', arp_waiters := [], arp_cache_entries := []\<rparr>;
          (t, s2) = kmalloc s1
      in if t = 0 then (-1, s2)
         else (0, emit (Thread_resume (k_thread K ''arp retransmit thread''))
                   (emit (Thread_resume (k_thread K ''arp cache cleaner'')) (s2\<lparr>arp_table := []\<rparr>))))"

end
