(* ===== verification/Ipv4.thy ===== *)
theory Ipv4
  imports Arp
begin

text \<open>
  \<^verbatim>\<open>SkyCore/Net/ipv4.c\<close>, except its input routine (\<^verbatim>\<open>Ipv4_Input\<close>): the routing table, output with
  fragmentation, and the reassembly of fragments.  The routing table is the list its \<open>next\<close>
  pointers form; the fragment table is a list of fragment chains, each the list its \<open>frag_next\<close>
  pointers form, last inserted first.
\<close>

section \<open>Structures\<close>

definition ROUNDOWN :: "int \<Rightarrow> int \<Rightarrow> int" where
  "ROUNDOWN a b = cdiv a b * b"

definition IPV4_FLAG_MORE_FRAGS :: u16 where "IPV4_FLAG_MORE_FRAGS = 0x2000"
definition IPV4_FRAG_OFFSET_MASK :: u16 where "IPV4_FRAG_OFFSET_MASK = 0x1fff"
definition ROUTE_FLAGS_GW :: u32 where "ROUTE_FLAGS_GW = 1"
definition FRAG_KILLER_QUANTUM :: u32 where "FRAG_KILLER_QUANTUM = 5000"
definition MAX_FRAG_AGE :: int where "MAX_FRAG_AGE = 60000000"

abbreviation (input) IP_PROT_ICMP :: byte where "IP_PROT_ICMP \<equiv> 1"
abbreviation (input) IP_PROT_TCP :: byte where "IP_PROT_TCP \<equiv> 6"
abbreviation (input) IP_PROT_UDP :: byte where "IP_PROT_UDP \<equiv> 17"

definition sizeof_ipv4_header :: nat where "sizeof_ipv4_header = 20"

record ipv4_routing_entry =
  re_network_addr :: ipv4_addr
  re_netmask :: ipv4_addr
  re_gw_addr :: ipv4_addr
  re_if_addr :: ipv4_addr
  re_interface_id :: int
  re_flags :: u32

record ipv4_fragment_key =
  fk_src :: ipv4_addr
  fk_dest :: ipv4_addr
  fk_identification :: u16
  fk_protocol :: byte

record ipv4_fragment =
  fr_buf :: cbuf_chain
  fr_offset :: u16
  fr_len :: u16
  fr_entry_time :: int
  fr_total_len :: u16
  fr_key :: ipv4_fragment_key

record ipv4_state = arp_state +
  route_table :: "ipv4_routing_entry list"
  frag_table :: "ipv4_fragment list list"
  curr_identification :: u32

definition frag_compare_func :: "ipv4_fragment \<Rightarrow> ipv4_fragment_key \<Rightarrow> int" where
  "frag_compare_func frag key =
     (if fk_src (fr_key frag) = fk_src key \<and> fk_dest (fr_key frag) = fk_dest key \<and>
         fk_identification (fr_key frag) = fk_identification key \<and> fk_protocol (fr_key frag) = fk_protocol key
      then 0 else -1)"

definition frag_hash_func :: "ipv4_fragment option \<Rightarrow> ipv4_fragment_key \<Rightarrow> nat \<Rightarrow> nat" where
  "frag_hash_func frag key n =
     (let k = (case frag of Some f \<Rightarrow> fr_key f | None \<Rightarrow> key)
      in unat (fk_src k XOR fk_dest k XOR ucast (fk_protocol k) XOR ucast (fk_identification k)) mod n)"

section \<open>Routes\<close>

text \<open>The insertion loop, with the code's test: it compares the new mask with the new entry \<open>e\<close>.\<close>

fun route_insert :: "ipv4_addr \<Rightarrow> ipv4_routing_entry \<Rightarrow> ipv4_routing_entry list \<Rightarrow> ipv4_routing_entry list" where
  "route_insert netmask e [] = [e]"
| "route_insert netmask e (t # ts) =
     (if netmask OR re_netmask e = re_netmask e then e # t # ts else t # route_insert netmask e ts)"

definition ipv4_route_add_etc ::
  "ipv4_addr \<Rightarrow> ipv4_addr \<Rightarrow> ipv4_addr \<Rightarrow> int \<Rightarrow> u32 \<Rightarrow> ipv4_addr \<Rightarrow> 'a ipv4_state_scheme \<Rightarrow> int \<times> 'a ipv4_state_scheme" where
  "ipv4_route_add_etc network_addr netmask if_addr interface_num flags gw_addr s =
     (if netmask OR (netmask - 1) \<noteq> 0xffffffff then (ERR_INVALID_ARGS, s)
      else
        let (p, s1) = kmalloc s
        in if p = 0 then (ERR_NO_MEMORY, s1)
           else
             let e = \<lparr>re_network_addr = network_addr, re_netmask = netmask, re_gw_addr = gw_addr,
                      re_if_addr = if_addr, re_interface_id = interface_num, re_flags = flags\<rparr>
             in (NO_ERROR, s1\<lparr>route_table := route_insert netmask e (route_table s1)\<rparr>))"

definition ipv4_route_add ::
  "ipv4_addr \<Rightarrow> ipv4_addr \<Rightarrow> ipv4_addr \<Rightarrow> int \<Rightarrow> 'a ipv4_state_scheme \<Rightarrow> int \<times> 'a ipv4_state_scheme" where
  "ipv4_route_add network_addr netmask if_addr interface_num =
     ipv4_route_add_etc network_addr netmask if_addr interface_num 0 0"

definition ipv4_route_add_gateway ::
  "ipv4_addr \<Rightarrow> ipv4_addr \<Rightarrow> ipv4_addr \<Rightarrow> int \<Rightarrow> ipv4_addr \<Rightarrow> 'a ipv4_state_scheme \<Rightarrow> int \<times> 'a ipv4_state_scheme" where
  "ipv4_route_add_gateway network_addr netmask if_addr interface_num gw_addr =
     ipv4_route_add_etc network_addr netmask if_addr interface_num ROUTE_FLAGS_GW gw_addr"

fun route_walk :: "ipv4_addr \<Rightarrow> ipv4_routing_entry option \<Rightarrow> ipv4_routing_entry list \<Rightarrow> ipv4_routing_entry option" where
  "route_walk ip_addr last_e [] = last_e"
| "route_walk ip_addr last_e (e # es) =
     route_walk ip_addr (if ip_addr AND re_netmask e = re_network_addr e then Some e else last_e) es"

text \<open>The result is \<open>(err, *interface_num, *target_addr, *if_addr)\<close>.\<close>

definition ipv4_route_match :: "ipv4_addr \<Rightarrow> 'a ipv4_state_scheme \<Rightarrow> int \<times> int \<times> ipv4_addr \<times> ipv4_addr" where
  "ipv4_route_match ip_addr s =
     (case route_walk ip_addr None (route_table s) of
        Some e \<Rightarrow> (NO_ERROR, re_interface_id e,
                   if re_flags e AND ROUTE_FLAGS_GW \<noteq> 0 then re_gw_addr e else ip_addr, re_if_addr e)
      | None \<Rightarrow> (ERR_NET_NO_ROUTE, -1, 0, 0))"

definition ipv4_lookup_srcaddr_for_dest :: "ipv4_addr \<Rightarrow> 'a ipv4_state_scheme \<Rightarrow> int \<times> ipv4_addr" where
  "ipv4_lookup_srcaddr_for_dest dest_addr s =
     (let (err, id, target_addr, src_addr) = ipv4_route_match dest_addr s in (err, src_addr))"

text \<open>\<open>*mss\<close> is written on success only.\<close>

definition ipv4_get_mss_for_dest :: "ipv4_addr \<Rightarrow> 'a ipv4_state_scheme \<Rightarrow> int \<times> u32 option" where
  "ipv4_get_mss_for_dest dest_addr s =
     (let (err, id, target_addr, src_addr) = ipv4_route_match dest_addr s
      in if err < 0 then (err, None)
         else
           let i = if_id_to_ifnet id s
           in if i = 0 then (ERR_NET_NO_ROUTE, None)
              else (NO_ERROR, Some (mtu (ifs s i) - of_nat sizeof_ipv4_header)))"

section \<open>Output\<close>

definition ipv4_arp_callback :: "'a ipv4_state_scheme link_output \<Rightarrow> 'a ipv4_state_scheme arp_callback" where
  "ipv4_arp_callback link_output arp_code arg i la s =
     (if arp_code = ARP_CALLBACK_CODE_OK then do {
        a \<leftarrow> la;
        (err, s1) \<leftarrow> link_output arg i a PROT_TYPE_IPV4 s;
        Some s1
      }
      else if arp_code = ARP_CALLBACK_CODE_FAILED then Some (free_chain arg s)
      else Some s)"

text \<open>The header of one packet, the stores in the code's order into an uninitialised buffer \<open>h\<close>.\<close>

definition ipv4_fill_header ::
  "packet \<Rightarrow> u16 \<Rightarrow> u16 \<Rightarrow> u16 \<Rightarrow> bool \<Rightarrow> byte \<Rightarrow> ipv4_addr \<Rightarrow> ipv4_addr \<Rightarrow> packet" where
  "ipv4_fill_header h packet_len identification curr_offset more_frags protocol if_addr target_addr =
     (let h1 = put8 (put8 h 0 (push_bit 4 0x4 OR 5)) 1 0;
          h2 = put16 h1 2 (htons packet_len);
          h3 = put16 h2 4 identification;
          h4 = put16 h3 6 (htons (curr_offset div 8 AND IPV4_FRAG_OFFSET_MASK));
          h5 = (if more_frags then put16 h4 6 (get16 h4 6 OR htons IPV4_FLAG_MORE_FRAGS) else h4);
          h6 = put16 (put8 (put8 h5 8 255) 9 protocol) 10 0;
          h7 = put32 (put32 h6 12 (htonl if_addr)) 16 (htonl target_addr)
      in put16 h7 10 (cksum16 (take (unat (h7 ! 0 AND 0xf) * 4) h7)))"

text \<open>\<open>packet_len\<close> of one round: the MTU or what is left, rounded down to whole 8-byte units when it
  equals the MTU.\<close>

definition ipv4_packet_len :: "u32 \<Rightarrow> u16 \<Rightarrow> u16" where
  "ipv4_packet_len if_mtu len =
     (let packet_len = ucast (min if_mtu (of_nat (unat len + sizeof_ipv4_header))) :: u16
      in if unat packet_len = unat if_mtu
         then word_of_int (ROUNDOWN (uint packet_len - int sizeof_ipv4_header) 8 + int sizeof_ipv4_header)
         else packet_len)"

text \<open>The send loop.  \<open>buf\<close> is the datagram; without \<open>must_frag\<close> the loop hands it over, so a second
  round finds it \<open>gone\<close>, which is a fault.\<close>

partial_function (option) ipv4_output_loop ::
  "bool \<Rightarrow> 'a ipv4_state_scheme link_output \<Rightarrow> bool \<Rightarrow> cbuf_chain \<Rightarrow> bool \<Rightarrow> ptr \<Rightarrow> ipv4_addr \<Rightarrow> ipv4_addr \<Rightarrow> ipv4_addr \<Rightarrow>
   byte \<Rightarrow> u16 \<Rightarrow> u16 \<Rightarrow> u16 \<Rightarrow> int \<Rightarrow> 'a ipv4_state_scheme \<Rightarrow> (int \<times> bool \<times> 'a ipv4_state_scheme) option" where
  "ipv4_output_loop packed link_output must_frag buf gone i if_addr transmit_addr target_addr
      protocol identification curr_offset len err s =
     (if len = 0 then Some (err, True, s)
      else do {
        (header_buf, s1) \<leftarrow> get_chain sizeof_ipv4_header s;
        case header_buf of
          None \<Rightarrow> Some (ERR_NO_MEMORY, False, free_chain buf s1)
        | Some h \<Rightarrow> do {
            let packet_len = ipv4_packet_len (mtu (ifs s1 i)) len;
            let more_frags = unat packet_len \<noteq> unat len + sizeof_ipv4_header;
            let data_len = packet_len - of_nat sizeof_ipv4_header;
            let header = ipv4_fill_header h packet_len identification curr_offset more_frags protocol if_addr target_addr;
            (send_buf, s2) \<leftarrow>
              (if must_frag then dup_chain buf (unat curr_offset) (unat data_len) s1
               else if gone then None else Some (buf, s1));
            if must_frag \<and> send_buf = None
            then Some (ERR_NO_MEMORY, False, free_chain buf (free_chain (Some header) s2))
            else do {
              let (send_buf, s3) = merge_chains (Some header) send_buf s2;
              (err, la, s4) \<leftarrow> arp_lookup packed link_output i if_addr transmit_addr True send_buf s3;
              s5 \<leftarrow> (if err = ERR_NET_ARP_QUEUED then Some s4
                     else if err < 0 then Some (free_chain send_buf s4)
                     else map_option snd (link_output send_buf i
                            (case la of Some a \<Rightarrow> a | None \<Rightarrow> ether_netaddr (map (junk s4) [0..<6])) PROT_TYPE_IPV4 s4));
              ipv4_output_loop packed link_output must_frag buf True i if_addr transmit_addr target_addr
                protocol identification (curr_offset + data_len) (len - data_len) err s5
            }
          }
      })"

definition ipv4_output ::
  "bool \<Rightarrow> 'a ipv4_state_scheme link_output \<Rightarrow> cbuf_chain \<Rightarrow> ipv4_addr \<Rightarrow> byte \<Rightarrow> 'a ipv4_state_scheme \<Rightarrow>
   (int \<times> 'a ipv4_state_scheme) option" where
  "ipv4_output packed link_output buf target_addr protocol s =
     (let (err, iid, transmit_addr, if_addr) = ipv4_route_match target_addr s
      in if err < 0 then Some (ERR_NO_MEMORY, free_chain buf s)
         else
           let i = if_id_to_ifnet iid s
           in if i = 0 then Some (ERR_NO_MEMORY, free_chain buf s)
              else do {
                let len = of_nat (chain_len buf);
                let must_frag = unat len + sizeof_ipv4_header > unat (mtu (ifs s i));
                let identification = htons (ucast (curr_identification s));
                (err, finished, s1) \<leftarrow> ipv4_output_loop packed link_output must_frag buf False i if_addr transmit_addr
                  target_addr protocol identification 0 len err
                  (s\<lparr>curr_identification := curr_identification s + 1\<rparr>);
                Some (err, if finished \<and> must_frag then free_chain buf s1 else s1)
              })"

section \<open>Reassembly\<close>

definition ipv4_create_frag_struct ::
  "ipv4_fragment_key \<Rightarrow> cbuf_chain \<Rightarrow> u16 \<Rightarrow> u16 \<Rightarrow> bool \<Rightarrow> 'a ipv4_state_scheme \<Rightarrow>
   ipv4_fragment option \<times> 'a ipv4_state_scheme" where
  "ipv4_create_frag_struct key buf offset len last_frag s =
     (let (p, s1) = kmalloc s
      in if p = 0 then (None, s1)
         else (Some \<lparr>fr_buf = buf, fr_offset = offset, fr_len = len, fr_entry_time = sys_time s1,
                     fr_total_len = (if last_frag then offset + len else 0), fr_key = key\<rparr>, s1))"

text \<open>The end of a fragment and of the new one: the sums are C ints, they do not wrap.\<close>

definition fr_end :: "ipv4_fragment \<Rightarrow> nat" where
  "fr_end f = unat (fr_offset f) + unat (fr_len f)"

text \<open>The search for the new fragment's place.  \<open>pre\<close> are the fragments passed (\<open>last\<close> is its last
  element, NULL when it is empty) and \<open>post\<close> those ahead (\<open>temp\<close> is its head).  \<open>None\<close> is a bad
  fragment.  Finding the spot does not end the loop.\<close>

fun frag_search ::
  "u16 \<Rightarrow> u16 \<Rightarrow> ipv4_fragment list \<Rightarrow> ipv4_fragment list \<Rightarrow> bool \<Rightarrow>
   (ipv4_fragment list \<times> ipv4_fragment list \<times> bool) option" where
  "frag_search offset len pre [] found_spot = Some (pre, [], found_spot)"
| "frag_search offset len pre (temp # post) found_spot =
     (if found_spot then frag_search offset len (pre @ [temp]) post found_spot
      else if pre \<noteq> [] \<and> unat offset < fr_end (last pre) then None
      else if fr_offset temp > offset \<and> unat offset + unat len > unat (fr_offset temp) then None
      else frag_search offset len (pre @ [temp]) post
             (pre \<noteq> [] \<and> offset > fr_offset (last pre) \<and> offset < fr_offset temp \<or> offset < fr_offset temp))"

definition upd_last :: "('f \<Rightarrow> 'f) \<Rightarrow> 'f list \<Rightarrow> 'f list" where
  "upd_last g xs = butlast xs @ [g (last xs)]"

text \<open>\<open>header->total_length = htons(ntohs(header->total_length) + n)\<close> on the packet's first bytes.\<close>

definition grow_header :: "cbuf_chain \<Rightarrow> u16 \<Rightarrow> 'a ipv4_state_scheme \<Rightarrow> cbuf_chain option" where
  "grow_header b n s = map_option (\<lambda>p. Some (put16 p 2 (htons (ntohs (peek16 p 2 s) + n)))) b"

definition ip_header_len :: "packet \<Rightarrow> 'a ipv4_state_scheme \<Rightarrow> nat" where
  "ip_header_len p s = unat (peek8 p 0 s AND 0xf) * 4"

text \<open>Merging with the fragment before, with the fragment after, and of these two.  The state carried
  along is \<open>(pre, post, inbuf, len)\<close>.\<close>

definition merge_with_last ::
  "u16 \<Rightarrow> packet \<Rightarrow> ipv4_fragment list \<times> ipv4_fragment list \<times> cbuf_chain \<times> u16 \<Rightarrow> 'a ipv4_state_scheme \<Rightarrow>
   ((ipv4_fragment list \<times> ipv4_fragment list \<times> cbuf_chain \<times> u16) \<times> 'a ipv4_state_scheme) option" where
  "merge_with_last offset p = (\<lambda>(pre, post, inbuf, len) s.
     (if pre \<noteq> [] \<and> fr_end (last pre) = unat offset then do {
        let (b1, s1) = behead_chain inbuf (ip_header_len p s) False s;
        let (b2, s2) = merge_chains (fr_buf (last pre)) b1 s1;
        b3 \<leftarrow> grow_header b2 len s2;
        Some ((upd_last (\<lambda>f. f\<lparr>fr_buf := b3, fr_len := fr_len f + len\<rparr>) pre, post, b3, 0), s2)
      }
      else Some ((pre, post, inbuf, len), s)))"

definition merge_with_next ::
  "u16 \<Rightarrow> ipv4_fragment list \<times> ipv4_fragment list \<times> cbuf_chain \<times> u16 \<Rightarrow> 'a ipv4_state_scheme \<Rightarrow>
   ((ipv4_fragment list \<times> ipv4_fragment list \<times> cbuf_chain \<times> u16) \<times> 'a ipv4_state_scheme) option" where
  "merge_with_next offset = (\<lambda>(pre, post, inbuf, len) s.
     (case post of
        [] \<Rightarrow> Some ((pre, post, inbuf, len), s)
      | temp # rest \<Rightarrow>
          if len > 0 \<and> unat offset + unat len = unat (fr_offset temp) then do {
            np \<leftarrow> fr_buf temp;
            let (b1, s1) = behead_chain (fr_buf temp) (ip_header_len np s) False s;
            let (b2, s2) = merge_chains inbuf b1 s1;
            b3 \<leftarrow> grow_header b2 (fr_len temp) s2;
            Some ((pre, temp\<lparr>fr_buf := b3, fr_len := fr_len temp + len, fr_offset := offset\<rparr> # rest, b3, 0), s2)
          }
          else Some ((pre, post, inbuf, len), s)))"

definition merge_neighbours ::
  "ipv4_fragment list \<times> ipv4_fragment list \<times> cbuf_chain \<times> u16 \<Rightarrow> 'a ipv4_state_scheme \<Rightarrow>
   ((ipv4_fragment list \<times> ipv4_fragment list \<times> cbuf_chain \<times> u16) \<times> 'a ipv4_state_scheme) option" where
  "merge_neighbours = (\<lambda>(pre, post, inbuf, len) s.
     (case post of
        [] \<Rightarrow> Some ((pre, post, inbuf, len), s)
      | temp # rest \<Rightarrow>
          if pre \<noteq> [] \<and> unat (fr_offset (last pre)) + unat len = unat (fr_offset temp) then do {
            np \<leftarrow> fr_buf temp;
            let (b1, s1) = behead_chain (fr_buf temp) (ip_header_len np s) True s;
            let (b2, s2) = merge_chains (fr_buf (last pre)) b1 s1;
            b3 \<leftarrow> grow_header b2 (fr_len temp) s2;
            Some ((upd_last (\<lambda>f. f\<lparr>fr_buf := b3, fr_len := fr_len f + fr_len temp\<rparr>) pre, rest, b3, len), s2)
          }
          else Some ((pre, post, inbuf, len), s)))"

text \<open>Replacing the chain of a key in the table, or taking it out.\<close>

definition set_frag_chain :: "ipv4_fragment_key \<Rightarrow> ipv4_fragment list \<Rightarrow> ipv4_fragment list list \<Rightarrow> ipv4_fragment list list" where
  "set_frag_chain key c t = map (\<lambda>d. if frag_compare_func (hd d) key = 0 then c else d) t"

definition del_frag_chain :: "ipv4_fragment_key \<Rightarrow> ipv4_fragment list list \<Rightarrow> ipv4_fragment list list" where
  "del_frag_chain key t = filter (\<lambda>d. frag_compare_func (hd d) key \<noteq> 0) t"

text \<open>What follows a good search: merging, then storing what floats free, or delivering a complete
  datagram.  The result is \<open>(err, *outbuf)\<close>; the test of the unchanged \<open>frag\<close> instead of \<open>newfrag\<close> lets a
  failed allocation through to a NULL dereference.\<close>

definition frag_place ::
  "ipv4_fragment_key \<Rightarrow> packet \<Rightarrow> u16 \<Rightarrow> u16 \<Rightarrow> bool \<Rightarrow> ipv4_fragment list \<Rightarrow> ipv4_fragment list \<Rightarrow> 'a ipv4_state_scheme \<Rightarrow>
   (int \<times> cbuf_chain \<times> 'a ipv4_state_scheme) option" where
  "frag_place key p offset len last_frag pre post s =
     do {
       (a, s1) \<leftarrow> merge_with_last offset p (pre, post, Some p, len) s;
       (b, s2) \<leftarrow> merge_with_next offset a s1;
       ((pre, post, inbuf, len), s3) \<leftarrow> merge_neighbours b s2;
       if len > 0 then
         let (newfrag, s4) = ipv4_create_frag_struct key inbuf offset len last_frag s3
         in case newfrag of
              None \<Rightarrow> None
            | Some f \<Rightarrow>
                if pre = [] then
                  Some (NO_ERROR, None, s4\<lparr>frag_table :=
                    (f\<lparr>fr_total_len := fr_total_len (hd post)\<rparr> # post) # del_frag_chain key (frag_table s4)\<rparr>)
                else Some (NO_ERROR, None, s4\<lparr>frag_table := set_frag_chain key (pre @ f # post) (frag_table s4)\<rparr>)
       else
         let frag = hd (pre @ post)
         in if fr_offset frag = 0 \<and> fr_total_len frag = fr_len frag then
              Some (NO_ERROR, fr_buf frag, s3\<lparr>frag_table := del_frag_chain key (frag_table s3)\<rparr>)
            else Some (NO_ERROR, None, s3\<lparr>frag_table := set_frag_chain key (pre @ post) (frag_table s3)\<rparr>)
     }"

text \<open>The test at the end of the list when no spot was found: \<open>None\<close> is a bad fragment, otherwise the
  chain with its total length possibly learnt.\<close>

definition frag_tack_on ::
  "u16 \<Rightarrow> u16 \<Rightarrow> bool \<Rightarrow> ipv4_fragment list \<Rightarrow> ipv4_fragment list option" where
  "frag_tack_on offset len last_frag pre =
     (if unat offset < fr_end (last pre) then None
      else if fr_total_len (hd pre) > 0 then
        if unat offset + unat len > unat (fr_total_len (hd pre)) then None else Some pre
      else if last_frag then Some ((hd pre)\<lparr>fr_total_len := offset + len\<rparr> # tl pre)
      else Some pre)"

definition ipv4_process_frag ::
  "cbuf_chain \<Rightarrow> 'a ipv4_state_scheme \<Rightarrow> (int \<times> cbuf_chain \<times> 'a ipv4_state_scheme) option" where
  "ipv4_process_frag inbuf s =
     do {
       p \<leftarrow> (if inbuf = Some [] then None else inbuf);
       let offset = (ntohs (peek16 p 6 s) AND IPV4_FRAG_OFFSET_MASK) * 8;
       let len = ntohs (peek16 p 2 s) - of_nat (ip_header_len p s);
       let last_frag = (ntohs (peek16 p 6 s) AND IPV4_FLAG_MORE_FRAGS = 0);
       let key = \<lparr>fk_src = ntohl (peek32 p 12 s), fk_dest = ntohl (peek32 p 16 s),
                  fk_identification = ntohs (peek16 p 4 s), fk_protocol = peek8 p 9 s\<rparr>;
       case List.find (\<lambda>c. frag_compare_func (hd c) key = 0) (frag_table s) of
         Some c \<Rightarrow>
           (case (case frag_search offset len [] c False of
                    None \<Rightarrow> None
                  | Some (pre, post, found_spot) \<Rightarrow>
                      if found_spot then Some (pre, post)
                      else map_option (\<lambda>pre. (pre, post)) (frag_tack_on offset len last_frag pre)) of
              None \<Rightarrow> Some (ERR_NET_BAD_PACKET, None, free_chain inbuf s)
            | Some (pre, post) \<Rightarrow> frag_place key p offset len last_frag pre post s)
       | None \<Rightarrow>
           let (frag, s1) = ipv4_create_frag_struct key inbuf offset len last_frag s
           in case frag of
                None \<Rightarrow> Some (ERR_NO_MEMORY, None, free_chain inbuf s1)
              | Some f \<Rightarrow> Some (NO_ERROR, None, s1\<lparr>frag_table := [f] # frag_table s1\<rparr>)
     }"

definition ipv4_frag_killer :: "'a ipv4_state_scheme \<Rightarrow> 'a ipv4_state_scheme" where
  "ipv4_frag_killer s =
     (let s1 = snd (set_timer Frag_killer_event FRAG_KILLER_QUANTUM 0 s);
          old = (\<lambda>c. sys_time s1 - fr_entry_time (hd c) > MAX_FRAG_AGE)
      in fold (\<lambda>c s. fold (\<lambda>f. free_chain (fr_buf f)) c s) (filter old (frag_table s1))
           (s1\<lparr>frag_table := filter (\<lambda>c. \<not> old c) (frag_table s1)\<rparr>))"

definition ipv4_init :: "'a ipv4_state_scheme \<Rightarrow> int \<times> 'a ipv4_state_scheme" where
  "ipv4_init s =
     (let s1 = s\<lparr>route_table := [], curr_identification := word_of_int (sys_time s)\<rparr>;
          s2 = (snd (kmalloc s1))\<lparr>frag_table := []\<rparr>
      in (0, snd (set_timer Frag_killer_event FRAG_KILLER_QUANTUM 0 s2)))"

end
