(* ===== verification/Icmp.thy ===== *)
theory Icmp
  imports Ipv4
begin

text \<open>\<^verbatim>\<open>SkyCore/Net/icmp.c\<close>: echo requests are answered, everything else is dropped.\<close>

definition icmp_input ::
  "bool \<Rightarrow> 'a ipv4_state_scheme link_output \<Rightarrow> cbuf_chain \<Rightarrow> ipv4_addr \<Rightarrow> 'a ipv4_state_scheme \<Rightarrow>
   (int \<times> 'a ipv4_state_scheme) option" where
  "icmp_input packed link_output buf source_ipaddr s =
     (if chain_cksum buf 0 0xffff \<noteq> 0 then Some (ERR_NET_BAD_PACKET, free_chain buf s)
      else do {
        p \<leftarrow> buf;
        if peek8 p 0 s = 8 then do {
          let p1 = put16 (put8 p 0 0) 2 0;
          let p2 = put16 p1 2 (chain_cksum (Some p1) 0 0xffff);
          ipv4_output packed link_output (Some p2) source_ipaddr IP_PROT_ICMP s
        }
        else Some (NO_ERROR, free_chain buf s)
      })"

end
