(* ===== verification/Udp.thy ===== *)
theory Udp
  imports Ipv4
begin

text \<open>
  \<^verbatim>\<open>SkyCore/Net/udp.c\<close>: endpoints, their packet queues, and the datagram operations of a socket.
  The sentinel ring \<open>udp_queue\<close> is the list of its elements with the \<open>count\<close> field.
\<close>

section \<open>Structures\<close>

definition sizeof_udp_header :: nat where "sizeof_udp_header = 8"
definition SOCK_FLAG_TIMEOUT :: u32 where "SOCK_FLAG_TIMEOUT = 1"

record udp_queue_elem =
  qe_src_address :: ipv4_addr
  qe_target_address :: ipv4_addr
  qe_src_port :: u16
  qe_target_port :: u16
  qe_len :: int
  qe_buf :: cbuf_chain

record udp_queue =
  uq_elems :: "udp_queue_elem list"
  uq_count :: int

record udp_endpoint =
  ue_port :: u16
  ue_q :: udp_queue
  ue_ref_count :: int

record udp_state = ipv4_state +
  udp_ep :: "ptr \<Rightarrow> udp_endpoint"
  udp_endpoints :: "ptr list"
  udp_next_ephemeral_port :: int

record sockaddr =
  sa_addr :: netaddr
  sa_port :: int

definition upd_ep :: "ptr \<Rightarrow> (udp_endpoint \<Rightarrow> udp_endpoint) \<Rightarrow> 'a udp_state_scheme \<Rightarrow> 'a udp_state_scheme" where
  "upd_ep e f s = s\<lparr>udp_ep := (udp_ep s)(e := f (udp_ep s e))\<rparr>"

definition udp_endpoint_compare_func :: "udp_endpoint \<Rightarrow> u16 \<Rightarrow> int" where
  "udp_endpoint_compare_func e port = (if ue_port e = port then 0 else 1)"

definition udp_endpoint_hash_func :: "udp_endpoint option \<Rightarrow> u16 \<Rightarrow> nat \<Rightarrow> nat" where
  "udp_endpoint_hash_func e port n =
     (case e of Some e \<Rightarrow> unat (ue_port e) mod n | None \<Rightarrow> unat port mod n)"

text \<open>\<open>udp_pseudo_header\<close>: addresses and length as they lie in memory.\<close>

definition udp_pseudo_header :: "ipv4_addr \<Rightarrow> ipv4_addr \<Rightarrow> u16 \<Rightarrow> packet" where
  "udp_pseudo_header source_addr dest_addr udp_length =
     raw32 source_addr @ raw32 dest_addr @ [0, IP_PROT_UDP] @ raw16 udp_length"

section \<open>Queues and references\<close>

definition udp_init_queue :: udp_queue where
  "udp_init_queue = \<lparr>uq_elems = [], uq_count = 0\<rparr>"

definition udp_queue_pop :: "udp_queue \<Rightarrow> udp_queue_elem option \<times> udp_queue" where
  "udp_queue_pop q =
     (case uq_elems q of
        e # es \<Rightarrow> (Some e, q\<lparr>uq_elems := es, uq_count := uq_count q - 1\<rparr>)
      | [] \<Rightarrow> (None, q))"

definition udp_queue_push :: "udp_queue \<Rightarrow> udp_queue_elem \<Rightarrow> udp_queue" where
  "udp_queue_push q e = q\<lparr>uq_elems := uq_elems q @ [e], uq_count := uq_count q + 1\<rparr>"

definition udp_endpoint_acquire_ref :: "ptr \<Rightarrow> 'a udp_state_scheme \<Rightarrow> 'a udp_state_scheme" where
  "udp_endpoint_acquire_ref e = upd_ep e (\<lambda>x. x\<lparr>ue_ref_count := ue_ref_count x + 1\<rparr>)"

text \<open>The last reference empties the queue; the endpoint itself is not freed.\<close>

definition udp_endpoint_release_ref :: "ptr \<Rightarrow> 'a udp_state_scheme \<Rightarrow> 'a udp_state_scheme" where
  "udp_endpoint_release_ref e s =
     (let old = ue_ref_count (udp_ep s e);
          s1 = upd_ep e (\<lambda>x. x\<lparr>ue_ref_count := old - 1\<rparr>) s
      in if old = 1 then
           let q = ue_q (udp_ep s1 e)
           in fold (\<lambda>qe. free_chain (qe_buf qe)) (uq_elems q)
                (upd_ep e (\<lambda>x. x\<lparr>ue_q := q\<lparr>uq_elems := [], uq_count := uq_count q - int (length (uq_elems q))\<rparr>\<rparr>) s1)
         else s1)"

definition udp_allocate_ephemeral_port :: "'a udp_state_scheme \<Rightarrow> int \<times> 'a udp_state_scheme" where
  "udp_allocate_ephemeral_port s =
     (udp_next_ephemeral_port s mod 0x10000, s\<lparr>udp_next_ephemeral_port := udp_next_ephemeral_port s + 1\<rparr>)"

section \<open>Input\<close>

definition udp_input ::
  "cbuf_chain \<Rightarrow> ipv4_addr \<Rightarrow> ipv4_addr \<Rightarrow> 'a udp_state_scheme \<Rightarrow> (int \<times> 'a udp_state_scheme) option" where
  "udp_input buf source_address target_address s =
     do {
       p \<leftarrow> buf;
       let len = ntohs (peek16 p 4 s);
       let cksum = chain_cksum_2 buf 0 (unat len)
                     (udp_pseudo_header (htonl source_address) (htonl target_address) (peek16 p 4 s));
       if len > of_nat (chain_len buf) then Some (ERR_NET_BAD_PACKET, free_chain buf s)
       else if peek16 p 6 s \<noteq> 0 \<and> cksum \<noteq> 0 then Some (ERR_NET_BAD_PACKET, free_chain buf s)
       else
         let port = ntohs (peek16 p 2 s);
             e = tab_find (\<lambda>e. udp_endpoint_compare_func (udp_ep s e) port = 0) (udp_endpoints s)
         in if e = 0 then Some (NO_ERROR, free_chain buf s)
            else
              let s1 = udp_endpoint_acquire_ref e s;
                  (qe, s2) = kmalloc s1
              in if qe = 0 then Some (ERR_NO_MEMORY, free_chain buf (udp_endpoint_release_ref e s2))
                 else
                   let (buf1, s3) = behead_chain buf sizeof_udp_header True s2;
                       elem = \<lparr>qe_src_address = source_address, qe_target_address = target_address,
                               qe_src_port = ntohs (peek16 p 0 s), qe_target_port = port,
                               qe_len = uint len - int sizeof_udp_header, qe_buf = buf1\<rparr>;
                       s4 = upd_ep e (\<lambda>x. x\<lparr>ue_q := udp_queue_push (ue_q x) elem\<rparr>) s3
                   in Some (NO_ERROR, udp_endpoint_release_ref e s4)
     }"

section \<open>Socket operations\<close>

definition udp_open :: "'a udp_state_scheme \<Rightarrow> int \<times> ptr \<times> 'a udp_state_scheme" where
  "udp_open s =
     (let (e, s1) = kmalloc s
      in if e = 0 then (ERR_NO_MEMORY, 0, s1)
         else (0, e, (upd_ep e (\<lambda>_. \<lparr>ue_port = 0, ue_q = udp_init_queue, ue_ref_count = 1\<rparr>) s1)
                      \<lparr>udp_endpoints := tab_insert e (udp_endpoints s1)\<rparr>))"

definition bind_endpoint :: "ptr \<Rightarrow> int \<Rightarrow> 'a udp_state_scheme \<Rightarrow> int \<times> 'a udp_state_scheme" where
  "bind_endpoint e port s =
     (if ue_port (udp_ep s e) = 0 then
        let (port1, s1) = (if port = 0 then udp_allocate_ephemeral_port s else (port, s));
            s2 = (if port1 \<noteq> uint (ue_port (udp_ep s1 e)) then
                    let t = snd (tab_remove e (udp_endpoints s1));
                        s' = upd_ep e (\<lambda>x. x\<lparr>ue_port := word_of_int port1\<rparr>) s1
                    in s'\<lparr>udp_endpoints := tab_insert e t\<rparr>
                  else s1)
        in (NO_ERROR, s2)
      else (ERR_NET_SOCKET_ALREADY_BOUND, s))"

definition udp_bind :: "ptr \<Rightarrow> sockaddr \<Rightarrow> 'a udp_state_scheme \<Rightarrow> int \<times> 'a udp_state_scheme" where
  "udp_bind e a = bind_endpoint e (sa_port a)"

definition udp_connect :: "ptr \<Rightarrow> sockaddr \<Rightarrow> int" where "udp_connect e a = ERR_NOT_ALLOWED"
definition udp_listen :: "ptr \<Rightarrow> int" where "udp_listen e = ERR_NOT_ALLOWED"
definition udp_accept :: "ptr \<Rightarrow> int" where "udp_accept e = ERR_NOT_ALLOWED"

definition udp_close :: "ptr \<Rightarrow> 'a udp_state_scheme \<Rightarrow> int \<times> 'a udp_state_scheme" where
  "udp_close e s =
     (0, udp_endpoint_release_ref e (s\<lparr>udp_endpoints := snd (tab_remove e (udp_endpoints s))\<rparr>))"

text \<open>One round of \<open>udp_recvfrom\<close>.  \<open>err0\<close> is the uninitialised \<open>err\<close> that the test after the (commented
  out) semaphore wait reads; the inner \<open>None\<close> is an empty queue, where the code loops.  The result is
  the return value, the bytes stored at \<open>buf\<close> and the sender's address.\<close>

definition udp_recvfrom ::
  "int \<Rightarrow> nat option \<Rightarrow> ptr \<Rightarrow> int \<Rightarrow> 'a udp_state_scheme \<Rightarrow>
   ((int \<times> packet \<times> sockaddr option) option \<times> 'a udp_state_scheme) option" where
  "udp_recvfrom err0 fault e len s =
     (if err0 < 0 then Some (Some (err0, [], None), s)
      else
        let (qe, q) = udp_queue_pop (ue_q (udp_ep s e));
            s1 = upd_ep e (\<lambda>x. x\<lparr>ue_q := q\<rparr>) s
        in case qe of
             None \<Rightarrow> Some (None, s1)
           | Some m \<Rightarrow> do {
               (err, data) \<leftarrow> user_from_chain fault (qe_buf m) 0 (nat (min (qe_len m) len mod 2 ^ 32));
               if err < 0 then Some (Some (err, data, None), free_chain (qe_buf m) s1)
               else Some (Some (qe_len m, data,
                      Some \<lparr>sa_addr = ip_netaddr (qe_src_address m), sa_port = uint (qe_src_port m)\<rparr>),
                    free_chain (qe_buf m) s1)
             })"

definition udp_fill_header :: "packet \<Rightarrow> u16 \<Rightarrow> u16 \<Rightarrow> nat \<Rightarrow> packet \<Rightarrow> packet" where
  "udp_fill_header p source_port dest_port total_len pheader =
     (let p1 = put16 p 0 (htons source_port);
          p2 = put16 p1 2 (htons dest_port);
          p3 = put16 p2 4 (htons (of_nat total_len));
          p4 = put16 p3 6 0;
          c = chain_cksum_2 (Some p4) 0 total_len pheader
      in put16 p4 6 (if c = 0 then 0xffff else c))"

text \<open>\<open>data\<close> is the user memory at \<open>inbuf\<close>, of which \<open>len\<close> bytes are sent.\<close>

definition udp_sendto ::
  "bool \<Rightarrow> 'a udp_state_scheme link_output \<Rightarrow> nat option \<Rightarrow> ptr \<Rightarrow> packet \<Rightarrow> int \<Rightarrow> sockaddr \<Rightarrow> 'a udp_state_scheme \<Rightarrow>
   (int \<times> 'a udp_state_scheme) option" where
  "udp_sendto packed link_output fault e data len toaddr s =
     (if len < 0 \<or> len + int sizeof_udp_header > 0xffff then Some (ERR_INVALID_ARGS, s)
      else if sa_port toaddr < 0 \<or> sa_port toaddr > 0xffff then Some (ERR_INVALID_ARGS, s)
      else do {
        let s1 = (if ue_port (udp_ep s e) = 0 then snd (bind_endpoint e 0 s) else s);
        let total_len = nat len + sizeof_udp_header;
        (buf, s2) \<leftarrow> get_chain total_len s1;
        if buf = None then Some (ERR_NO_MEMORY, s2)
        else do {
          (err, buf1) \<leftarrow> user_to_chain fault buf sizeof_udp_header (take (nat len) data);
          if err < 0 then Some (ERR_VM_BAD_USER_MEMORY, free_chain buf1 s2)
          else
            let dest = NETADDR_TO_IPV4 (sa_addr toaddr);
                (err, srcaddr) = ipv4_lookup_srcaddr_for_dest dest s2
            in if err < 0 then Some (ERR_NET_NO_ROUTE, free_chain buf1 s2)
               else do {
                 p \<leftarrow> buf1;
                 let pheader = udp_pseudo_header (htonl srcaddr) (htonl dest) (htons (of_nat total_len));
                 let p1 = udp_fill_header p (ue_port (udp_ep s2 e)) (word_of_int (sa_port toaddr)) total_len pheader;
                 (err, s3) \<leftarrow> ipv4_output packed link_output (Some p1) dest IP_PROT_UDP s2;
                 Some (if err = ERR_NET_ARP_QUEUED then 0 else err, s3)
               }
        }
      })"

definition udp_init :: "int \<Rightarrow> 'a udp_state_scheme \<Rightarrow> int \<times> 'a udp_state_scheme" where
  "udp_init rnd s =
     (let (t, s1) = kmalloc (s\<lparr>udp_next_ephemeral_port := rnd mod 32000 + 1024\<rparr>)
      in if t = 0 then (ERR_NO_MEMORY, s1) else (0, s1\<lparr>udp_endpoints := []\<rparr>))"

end
