(* ===== verification/Tcp.thy ===== *)
theory Tcp
  imports Udp
begin

text \<open>
  \<^verbatim>\<open>SkyCore/Net/tcp.c\<close>: sockets, the state machine of \<open>tcp_input\<close>, acknowledgement and
  retransmission, reassembly of the received stream, and the operations of a stream socket.  Sockets
  live in a heap; \<open>tcp_freed\<close> records those destroyed.  The semaphore waits are commented out in the
  source, so a loop that would wait is one round with the answer \<open>None\<close>: the code goes round again.
\<close>

section \<open>Structures\<close>

datatype tcp_conn_state =
    STATE_CLOSED | STATE_LISTEN | STATE_SYN_SENT | STATE_SYN_RCVD | STATE_ESTABLISHED
  | STATE_CLOSE_WAIT | STATE_LAST_ACK | STATE_CLOSING | STATE_FIN_WAIT_1 | STATE_FIN_WAIT_2
  | STATE_TIME_WAIT

abbreviation (input) PKT_FIN :: u16 where "PKT_FIN \<equiv> 1"
abbreviation (input) PKT_SYN :: u16 where "PKT_SYN \<equiv> 2"
abbreviation (input) PKT_RST :: u16 where "PKT_RST \<equiv> 4"
abbreviation (input) PKT_PSH :: u16 where "PKT_PSH \<equiv> 8"
abbreviation (input) PKT_ACK :: u16 where "PKT_ACK \<equiv> 16"

definition sizeof_tcp_header :: nat where "sizeof_tcp_header = 20"
definition MAX_RETRANSMIT_TIMEOUT :: int where "MAX_RETRANSMIT_TIMEOUT = 90000000"
definition FIN_RETRANSMIT_TIMEOUT :: u32 where "FIN_RETRANSMIT_TIMEOUT = 5000"
definition PERSIST_TIMEOUT :: u32 where "PERSIST_TIMEOUT = 500"
definition ACK_DELAY :: u32 where "ACK_DELAY = 200"
definition DEFAULT_RX_WINDOW_SIZE :: u32 where "DEFAULT_RX_WINDOW_SIZE = 32 * 1024"
definition DEFAULT_TX_WRITE_BUF_SIZE :: int where "DEFAULT_TX_WRITE_BUF_SIZE = 128 * 1024"
definition DEFAULT_MAX_SEGMENT_SIZE :: u32 where "DEFAULT_MAX_SEGMENT_SIZE = 536"
definition MSL :: u32 where "MSL = 30000"

definition SEQUENCE_GTE :: "u32 \<Rightarrow> u32 \<Rightarrow> bool" where "SEQUENCE_GTE a b \<longleftrightarrow> sint (a - b) \<ge> 0"
definition SEQUENCE_LTE :: "u32 \<Rightarrow> u32 \<Rightarrow> bool" where "SEQUENCE_LTE a b \<longleftrightarrow> sint (a - b) \<le> 0"
definition SEQUENCE_GT :: "u32 \<Rightarrow> u32 \<Rightarrow> bool" where "SEQUENCE_GT a b \<longleftrightarrow> sint (a - b) > 0"
definition SEQUENCE_LT :: "u32 \<Rightarrow> u32 \<Rightarrow> bool" where "SEQUENCE_LT a b \<longleftrightarrow> sint (a - b) < 0"

record tcp_socket =
  ts_state :: tcp_conn_state
  ts_ref_count :: int
  last_error :: int
  local_addr :: ipv4_addr
  remote_addr :: ipv4_addr
  local_port :: u16
  remote_port :: u16
  mss :: u32
  rx_win_size :: u32
  rx_win_low :: u32
  rx_win_high :: u32
  reassembly_q :: "packet list"
  read_buffer :: cbuf_chain
  writers_waiting :: bool
  tx_win_low :: u32
  tx_win_high :: u32
  retransmit_tx_seq :: u32
  retransmit_timeout :: int
  tx_write_buf_size :: int
  unacked_data_len :: u32
  duplicate_ack_count :: int
  write_buffer :: cbuf_chain
  cwnd :: u32
  ssthresh :: u32
  tracking_rtt :: bool
  rtt_seq :: u32
  rtt_seq_timestamp :: int
  smoothed_rtt :: int
  smoothed_deviation :: int
  rto :: int
  accept_queue :: "ptr list"

record tcp_socket_key =
  tk_local_addr :: ipv4_addr
  tk_remote_addr :: ipv4_addr
  tk_local_port :: u16
  tk_remote_port :: u16

record tcp_state = udp_state +
  tcp_sock :: "ptr \<Rightarrow> tcp_socket"
  socket_table :: "ptr list"
  tcp_freed :: "ptr list"
  tcp_next_ephemeral_port :: int
  rand_seq :: "nat \<Rightarrow> u32"

text \<open>The queue routines of \<^verbatim>\<open>queue2.h\<close>, which the repository only declares.\<close>

record queue_fns =
  queue_enqueue :: "ptr list \<Rightarrow> ptr \<Rightarrow> ptr list"
  queue_dequeue :: "ptr list \<Rightarrow> ptr \<times> ptr list"

definition upd_ts :: "ptr \<Rightarrow> (tcp_socket \<Rightarrow> tcp_socket) \<Rightarrow> 'a tcp_state_scheme \<Rightarrow> 'a tcp_state_scheme" where
  "upd_ts p f s = s\<lparr>tcp_sock := (tcp_sock s)(p := f (tcp_sock s p))\<rparr>"

definition tcp_socket_compare_func :: "tcp_socket \<Rightarrow> tcp_socket_key \<Rightarrow> int" where
  "tcp_socket_compare_func s key =
     (if local_addr s = tk_local_addr key \<and> remote_addr s = tk_remote_addr key \<and>
         local_port s = tk_local_port key \<and> remote_port s = tk_remote_port key then 0 else 1)"

definition tcp_socket_hash_func :: "tcp_socket option \<Rightarrow> tcp_socket_key \<Rightarrow> nat \<Rightarrow> nat" where
  "tcp_socket_hash_func s key n =
     (case s of
        Some s \<Rightarrow> unat (local_addr s XOR remote_addr s XOR ucast (local_port s) XOR ucast (remote_port s)) mod n
      | None \<Rightarrow> unat (tk_local_addr key XOR tk_remote_addr key XOR ucast (tk_local_port key) XOR
                    ucast (tk_remote_port key)) mod n)"

section \<open>References and lookup\<close>

definition destroy_tcp_socket :: "ptr \<Rightarrow> 'a tcp_state_scheme \<Rightarrow> 'a tcp_state_scheme" where
  "destroy_tcp_socket p s = s\<lparr>tcp_freed := p # tcp_freed s\<rparr>"

text \<open>A reference taken on a socket without any is a \<open>panic\<close>.\<close>

definition inc_socket_ref :: "ptr \<Rightarrow> 'a tcp_state_scheme \<Rightarrow> 'a tcp_state_scheme option" where
  "inc_socket_ref p s =
     (if ts_ref_count (tcp_sock s p) \<le> 0 then None
      else Some (upd_ts p (\<lambda>t. t\<lparr>ts_ref_count := ts_ref_count t + 1\<rparr>) s))"

definition dec_socket_ref :: "ptr \<Rightarrow> 'a tcp_state_scheme \<Rightarrow> 'a tcp_state_scheme" where
  "dec_socket_ref p s =
     (let old = ts_ref_count (tcp_sock s p);
          s1 = upd_ts p (\<lambda>t. t\<lparr>ts_ref_count := old - 1\<rparr>) s
      in if old = 1 then destroy_tcp_socket p (s1\<lparr>socket_table := snd (tab_remove p (socket_table s1))\<rparr>)
         else s1)"

definition find_socket :: "tcp_socket_key \<Rightarrow> 'a tcp_state_scheme \<Rightarrow> ptr" where
  "find_socket key s = tab_find (\<lambda>p. tcp_socket_compare_func (tcp_sock s p) key = 0) (socket_table s)"

definition lookup_socket ::
  "ipv4_addr \<Rightarrow> ipv4_addr \<Rightarrow> u16 \<Rightarrow> u16 \<Rightarrow> 'a tcp_state_scheme \<Rightarrow> (ptr \<times> 'a tcp_state_scheme) option" where
  "lookup_socket src_addr dest_addr src_port dest_port s =
     (let key = \<lparr>tk_local_addr = dest_addr, tk_remote_addr = src_addr, tk_local_port = dest_port,
                tk_remote_port = src_port\<rparr>;
          p1 = find_socket key s;
          key2 = key\<lparr>tk_remote_addr := 0, tk_remote_port := 0\<rparr>;
          p2 = (if p1 \<noteq> 0 then p1 else find_socket key2 s);
          p3 = (if p2 \<noteq> 0 then p2 else find_socket (key2\<lparr>tk_local_addr := 0\<rparr>) s)
      in if p3 = 0 then Some (0, s) else map_option (Pair p3) (inc_socket_ref p3 s))"

definition new_tcp_socket :: "u32 \<Rightarrow> tcp_socket" where
  "new_tcp_socket seq =
     \<lparr>ts_state = STATE_CLOSED, ts_ref_count = 1, last_error = 0, local_addr = 0, remote_addr = 0,
      local_port = 0, remote_port = 0, mss = DEFAULT_MAX_SEGMENT_SIZE, rx_win_size = DEFAULT_RX_WINDOW_SIZE,
      rx_win_low = 0, rx_win_high = 0, reassembly_q = [], read_buffer = None, writers_waiting = False,
      tx_win_low = seq, tx_win_high = seq, retransmit_tx_seq = seq, retransmit_timeout = 0,
      tx_write_buf_size = DEFAULT_TX_WRITE_BUF_SIZE, unacked_data_len = 0, duplicate_ack_count = 0,
      write_buffer = None, cwnd = DEFAULT_MAX_SEGMENT_SIZE, ssthresh = 0x10000, tracking_rtt = False,
      rtt_seq = 0, rtt_seq_timestamp = 0, smoothed_rtt = 500, smoothed_deviation = 0, rto = 500,
      accept_queue = []\<rparr>"

definition create_tcp_socket :: "'a tcp_state_scheme \<Rightarrow> ptr \<times> 'a tcp_state_scheme" where
  "create_tcp_socket s =
     (let (p, s1) = kmalloc s
      in if p = 0 then (0, s1)
         else (p, upd_ts p (\<lambda>_. new_tcp_socket (rand_seq s1 (allocs s1))) s1))"

definition bind_local_address :: "ptr \<Rightarrow> netaddr \<Rightarrow> 'a tcp_state_scheme \<Rightarrow> int \<times> 'a tcp_state_scheme" where
  "bind_local_address p remote s =
     (let (err, s1) = (if local_addr (tcp_sock s p) = 0 then
                         let (e, a) = ipv4_lookup_srcaddr_for_dest (NETADDR_TO_IPV4 remote) s
                         in (e, upd_ts p (\<lambda>t. t\<lparr>local_addr := a\<rparr>) s)
                       else (0, s))
      in if err < 0 then (err, s1)
         else if local_port (tcp_sock s1 p) = 0 then
           (err, (upd_ts p (\<lambda>t. t\<lparr>local_port := word_of_int (tcp_next_ephemeral_port s1 mod 0x10000)\<rparr>) s1)
                   \<lparr>tcp_next_ephemeral_port := tcp_next_ephemeral_port s1 + 1\<rparr>)
         else (err, s1))"

text \<open>Timers hold a reference to their socket while they are armed.\<close>

definition arm_timer :: "timer_key \<Rightarrow> u32 \<Rightarrow> u32 \<Rightarrow> ptr \<Rightarrow> 'a tcp_state_scheme \<Rightarrow> 'a tcp_state_scheme option" where
  "arm_timer k delay flags p s =
     (let (r, s1) = set_timer k delay flags s in if r \<ge> 0 then inc_socket_ref p s1 else Some s1)"

definition disarm_timer :: "timer_key \<Rightarrow> ptr \<Rightarrow> 'a tcp_state_scheme \<Rightarrow> 'a tcp_state_scheme" where
  "disarm_timer k p s =
     (let (r, s1) = cancel_timer k s in if r \<ge> 0 then dec_socket_ref p s1 else s1)"

section \<open>Sending\<close>

definition tcp_pseudo_header :: "ipv4_addr \<Rightarrow> ipv4_addr \<Rightarrow> u16 \<Rightarrow> packet" where
  "tcp_pseudo_header source_addr dest_addr tcp_length =
     raw32 source_addr @ raw32 dest_addr @ [0, IP_PROT_TCP] @ raw16 tcp_length"

definition tcp_fill_header ::
  "packet \<Rightarrow> u16 \<Rightarrow> u16 \<Rightarrow> u16 \<Rightarrow> u32 \<Rightarrow> u32 \<Rightarrow> u16 \<Rightarrow> packet \<Rightarrow> packet" where
  "tcp_fill_header h dest_port source_port flags ack sequence window_size options =
     (let h1 = put32 h 8 (htonl ack);
          h2 = put16 h1 2 (htons dest_port);
          h3 = put16 h2 12 (htons (push_bit 12 (of_nat ((sizeof_tcp_header + length options) div 4)) OR flags));
          h4 = put32 h3 4 (htonl sequence);
          h5 = put16 h4 0 (htons source_port);
          h6 = put16 h5 18 0;
          h7 = put_bytes h6 sizeof_tcp_header options
      in put16 h7 14 (htons window_size))"

definition tcp_send ::
  "bool \<Rightarrow> 'a tcp_state_scheme link_output \<Rightarrow> ipv4_addr \<Rightarrow> u16 \<Rightarrow> ipv4_addr \<Rightarrow> u16 \<Rightarrow> cbuf_chain \<Rightarrow> u16 \<Rightarrow> u32 \<Rightarrow>
   packet \<Rightarrow> u32 \<Rightarrow> u16 \<Rightarrow> 'a tcp_state_scheme \<Rightarrow> 'a tcp_state_scheme option" where
  "tcp_send packed lo dest_addr dest_port src_addr source_port buf flags ack options sequence window_size s =
     do {
       (header_buf, s1) \<leftarrow> get_chain (sizeof_tcp_header + length options) s;
       case header_buf of
         None \<Rightarrow> Some (free_chain buf s1)
       | Some h \<Rightarrow> do {
           let h1 = tcp_fill_header h dest_port source_port flags ack sequence window_size options;
           let (m, s2) = merge_chains (Some h1) buf s1;
           q \<leftarrow> m;
           let pheader = tcp_pseudo_header (htonl src_addr) (htonl dest_addr) (htons (of_nat (length q)));
           let q1 = put16 q 16 0;
           let q2 = put16 q1 16 (chain_cksum_2 (Some q1) 0 (length q1) pheader);
           (err, s3) \<leftarrow> ipv4_output packed lo (Some q2) dest_addr IP_PROT_TCP s2;
           Some s3
         }
     }"

definition tcp_socket_send ::
  "bool \<Rightarrow> 'a tcp_state_scheme link_output \<Rightarrow> ptr \<Rightarrow> cbuf_chain \<Rightarrow> u16 \<Rightarrow> packet \<Rightarrow> u32 \<Rightarrow> 'a tcp_state_scheme \<Rightarrow>
   'a tcp_state_scheme option" where
  "tcp_socket_send packed lo p data flags options sequence s =
     (let t = tcp_sock s p;
          high = rx_win_low t + rx_win_size t - of_nat (chain_len (read_buffer t)) - 1;
          (win_size, s1) =
            (if SEQUENCE_GTE high (rx_win_high t)
             then (ucast (high - rx_win_low t), upd_ts p (\<lambda>t. t\<lparr>rx_win_high := high\<rparr>) s)
             else (ucast (rx_win_high t - rx_win_low t), s));
          s2 = (if flags AND PKT_ACK \<noteq> 0 then disarm_timer (Ack_delay_timer p) p s1 else s1);
          t2 = tcp_sock s2 p
      in tcp_send packed lo (remote_addr t2) (remote_port t2) (local_addr t2) (local_port t2) data flags
           (rx_win_low t2) options sequence win_size s2)"

text \<open>\<open>tcp_flush_pending_data\<close>, with the bytes flushed so far.\<close>

partial_function (option) flush_loop ::
  "bool \<Rightarrow> 'a tcp_state_scheme link_output \<Rightarrow> ptr \<Rightarrow> int \<Rightarrow> 'a tcp_state_scheme \<Rightarrow> (int \<times> 'a tcp_state_scheme) option" where
  "flush_loop packed lo p data_flushed s =
     (let t = tcp_sock s p; blen = chain_len (write_buffer t)
      in if write_buffer t \<noteq> None \<and> unat (unacked_data_len t) < blen \<and> unacked_data_len t < cwnd t \<and>
            ts_state t = STATE_ESTABLISHED then
           let send_len0 = min (min (mss t) (tx_win_high t - tx_win_low t)) (cwnd t - unacked_data_len t)
           in if send_len0 = 0 then
                if unacked_data_len t = 0 then
                  map_option (Pair data_flushed)
                    (arm_timer (Persist_timer p) PERSIST_TIMEOUT NET_TIMER_PENDING_IGNORE p s)
                else Some (data_flushed, s)
              else do {
                let s1 = disarm_timer (Persist_timer p) p s;
                let send_len = min send_len0 (of_nat blen - unacked_data_len t);
                (packet, s2) \<leftarrow> dup_chain (write_buffer t) (unat (unacked_data_len t)) (unat send_len) s1;
                if packet = None then Some (data_flushed, s2)
                else do {
                  let s3 = upd_ts p (\<lambda>t. t\<lparr>unacked_data_len := unacked_data_len t + send_len,
                                           tx_win_low := tx_win_low t + send_len\<rparr>) s2;
                  let seq = tx_win_low (tcp_sock s3 p) - send_len;
                  let s4 = (if \<not> tracking_rtt (tcp_sock s3 p)
                            then upd_ts p (\<lambda>t. t\<lparr>tracking_rtt := True, rtt_seq := seq,
                                                 rtt_seq_timestamp := sys_time s3\<rparr>) s3
                            else s3);
                  s5 \<leftarrow> tcp_socket_send packed lo p packet PKT_ACK [] seq s4;
                  let s6 = upd_ts p (\<lambda>t. t\<lparr>retransmit_timeout := rto t\<rparr>) s5;
                  let s7 = disarm_timer (Retransmit_timer p) p s6;
                  s8 \<leftarrow> arm_timer (Retransmit_timer p) (word_of_int (retransmit_timeout (tcp_sock s7 p))) 0 p s7;
                  flush_loop packed lo p (data_flushed + uint send_len) s8
                }
              }
         else Some (data_flushed, s))"

definition tcp_flush_pending_data ::
  "bool \<Rightarrow> 'a tcp_state_scheme link_output \<Rightarrow> ptr \<Rightarrow> 'a tcp_state_scheme \<Rightarrow> (int \<times> 'a tcp_state_scheme) option" where
  "tcp_flush_pending_data packed lo p = flush_loop packed lo p 0"

definition send_ack ::
  "bool \<Rightarrow> 'a tcp_state_scheme link_output \<Rightarrow> ptr \<Rightarrow> 'a tcp_state_scheme \<Rightarrow> 'a tcp_state_scheme option" where
  "send_ack packed lo p s =
     (let s1 = disarm_timer (Ack_delay_timer p) p s
      in if ts_state (tcp_sock s1 p) \<noteq> STATE_ESTABLISHED \<and> ts_state (tcp_sock s1 p) \<noteq> STATE_CLOSE_WAIT then Some s1
         else do {
           (n, s2) \<leftarrow> tcp_flush_pending_data packed lo p s1;
           if n = 0 then tcp_socket_send packed lo p None PKT_ACK [] (tx_win_low (tcp_sock s2 p)) s2
           else Some s2
         })"

definition tcp_retransmit ::
  "bool \<Rightarrow> 'a tcp_state_scheme link_output \<Rightarrow> ptr \<Rightarrow> 'a tcp_state_scheme \<Rightarrow> 'a tcp_state_scheme option" where
  "tcp_retransmit packed lo p s =
     (let t = tcp_sock s p
      in if ts_state t \<noteq> STATE_ESTABLISHED \<and> ts_state t \<noteq> STATE_FIN_WAIT_1 \<or> unacked_data_len t = 0 then Some s
         else do {
           let retransmit_len = min (unacked_data_len t) (mss t);
           (data, s1) \<leftarrow> dup_chain (write_buffer t) 0 (unat retransmit_len) s;
           s2 \<leftarrow> tcp_socket_send packed lo p data (PKT_PSH OR PKT_ACK) [] (retransmit_tx_seq t) s1;
           let t2 = tcp_sock s2 p;
           Some (if tracking_rtt t2 \<and> SEQUENCE_LTE (retransmit_tx_seq t2) (rtt_seq t2) \<and>
                    SEQUENCE_GTE (retransmit_tx_seq t2 + retransmit_len) (rtt_seq t2)
                 then upd_ts p (\<lambda>t. t\<lparr>tracking_rtt := False\<rparr>) s2 else s2)
         })"

end
