(* ===== verification/Tcp_Input.thy ===== *)
theory Tcp_Input
  imports Tcp
begin

text \<open>
  The receiving side of \<^verbatim>\<open>SkyCore/Net/tcp.c\<close>: acknowledgements, data and its reassembly, the timer
  handlers, and \<open>tcp_input\<close> with the state machine.
\<close>

section \<open>Acknowledgements\<close>

text \<open>The round-trip estimate of a tracked segment (times in milliseconds).\<close>

definition update_rtt :: "int \<Rightarrow> tcp_socket \<Rightarrow> tcp_socket" where
  "update_rtt now t =
     (let Err = cdiv (now - rtt_seq_timestamp t) 1000 - smoothed_rtt t;
          rtt = smoothed_rtt t + cdiv Err 8;
          dev = smoothed_deviation t + cdiv ((if Err < 0 then - Err else Err) - smoothed_deviation t) 4
      in t\<lparr>smoothed_rtt := rtt, smoothed_deviation := dev, rto := rtt + 4 * dev, tracking_rtt := False\<rparr>)"

definition open_cwnd :: "tcp_socket \<Rightarrow> tcp_socket" where
  "open_cwnd t =
     (let w = (if cwnd t \<le> ssthresh t then cwnd t + mss t else cwnd t + mss t * mss t div cwnd t)
      in t\<lparr>cwnd := if w > 0xffff then 0xffff else w\<rparr>)"

text \<open>The removal of acknowledged data from the write buffer: the part of \<open>handle_ack\<close> that runs when
  \<open>sequence\<close> is beyond \<open>retransmit_tx_seq\<close>.  The result carries \<open>ack_len\<close>.\<close>

definition ack_data :: "ptr \<Rightarrow> u32 \<Rightarrow> 'a tcp_state_scheme \<Rightarrow> (u32 \<times> 'a tcp_state_scheme) option" where
  "ack_data p sequence s =
     (let t = tcp_sock s p;
          ack_len = min (sequence - retransmit_tx_seq t) (unacked_data_len t)
      in if write_buffer t = None then Some (0, s)
         else do {
           let (wb, s1) = behead_chain (write_buffer t) (unat ack_len) True s;
           let s2 = upd_ts p (\<lambda>t. t\<lparr>write_buffer := wb, unacked_data_len := unacked_data_len t - ack_len,
                                   retransmit_tx_seq := sequence\<rparr>) s1;
           let s3 = disarm_timer (Retransmit_timer p) p s2;
           s4 \<leftarrow> (if unacked_data_len (tcp_sock s3 p) > 0 then
                   let s' = upd_ts p (\<lambda>t. t\<lparr>retransmit_timeout := rto t\<rparr>) s3
                   in inc_socket_ref p (snd (set_timer (Retransmit_timer p)
                        (word_of_int (retransmit_timeout (tcp_sock s' p))) 0 s'))
                 else Some s3);
           let t4 = tcp_sock s4 p;
           let wake = writers_waiting t4 \<and> (write_buffer t4 = None \<or>
                 of_nat (chain_len (write_buffer t4)) < word_of_int (tx_write_buf_size t4) - mss t4);
           let s5 = (if wake then upd_ts p (\<lambda>t. t\<lparr>writers_waiting := False\<rparr>) s4 else s4);
           Some (ack_len, upd_ts p open_cwnd s5)
         })"

definition handle_ack ::
  "bool \<Rightarrow> 'a tcp_state_scheme link_output \<Rightarrow> ptr \<Rightarrow> u32 \<Rightarrow> u32 \<Rightarrow> bool \<Rightarrow> 'a tcp_state_scheme \<Rightarrow>
   'a tcp_state_scheme option" where
  "handle_ack packed lo p sequence window_size with_data s =
     (let t = tcp_sock s p;
          dup = sequence = retransmit_tx_seq t \<and> sequence + window_size = tx_win_high t \<and> \<not> with_data
      in if dup \<and> duplicate_ack_count t + 1 = 3 then do {
           let s1 = upd_ts p (\<lambda>t. t\<lparr>duplicate_ack_count := 3, retransmit_timeout := rto t\<rparr>) s;
           s2 \<leftarrow> arm_timer (Retransmit_timer p) (word_of_int (retransmit_timeout (tcp_sock s1 p))) 0 p s1;
           s3 \<leftarrow> tcp_retransmit packed lo p s2;
           Some (upd_ts p (\<lambda>t. t\<lparr>duplicate_ack_count := 0, ssthresh := min (mss t * 2) (cwnd t div 2)\<rparr>) s3)
         }
         else do {
           let s1 = upd_ts p (\<lambda>t. t\<lparr>duplicate_ack_count := 0\<rparr>) s;
           let s2 = (if SEQUENCE_GTE sequence (retransmit_tx_seq t) \<and> tracking_rtt t \<and> SEQUENCE_GTE sequence (rtt_seq t)
                     then upd_ts p (update_rtt (sys_time s1)) s1 else s1);
           (ack_len, s3) \<leftarrow> (if SEQUENCE_GT sequence (retransmit_tx_seq t) then ack_data p sequence s2
                             else Some (0, s2));
           (n, s4) \<leftarrow> tcp_flush_pending_data packed lo p
                       (upd_ts p (\<lambda>t. t\<lparr>tx_win_high := tx_win_high t + ack_len\<rparr>) s3);
           Some s4
         })"

section \<open>Data\<close>

text \<open>Segments wait with their headers in host order.  \<open>% 0xf\<close> is the code's.\<close>

definition seg_seq :: "packet \<Rightarrow> 'a tcp_state_scheme \<Rightarrow> u32" where
  "seg_seq q s = peek32 q 4 s"

definition seg_header_len :: "packet \<Rightarrow> 'a tcp_state_scheme \<Rightarrow> u32" where
  "seg_header_len q s = ucast (drop_bit 12 (peek16 q 12 s) mod 0xf) * 4"

text \<open>The loop over the reassembly queue: \<open>(queue, rx_win_low, read_buffer)\<close> and the state.\<close>

fun reassemble ::
  "packet list \<Rightarrow> u32 \<Rightarrow> cbuf_chain \<Rightarrow> 'a tcp_state_scheme \<Rightarrow> (packet list \<times> u32 \<times> cbuf_chain) \<times> 'a tcp_state_scheme" where
  "reassemble [] low rb s = (([], low, rb), s)"
| "reassemble (q # qs) low rb s =
     (let packet_low = seg_seq q s;
          packet_high = packet_low + of_nat (length q) - seg_header_len q s
      in if SEQUENCE_LT packet_high low then reassemble qs low rb (free_chain (Some q) s)
         else if SEQUENCE_LTE packet_low low then
           let (tmp, s1) = behead_chain (Some q) (unat (seg_header_len q s + (low - packet_low))) True s;
               (rb', s2) = merge_chains rb tmp s1
           in reassemble qs (low + of_nat (chain_len tmp)) rb' s2
         else ((q # qs, low, rb), s))"

text \<open>The place of an out-of-order segment: before the first one with a greater sequence number.\<close>

fun insert_segment :: "packet \<Rightarrow> packet list \<Rightarrow> 'a tcp_state_scheme \<Rightarrow> packet list" where
  "insert_segment b [] s = [b]"
| "insert_segment b (q # qs) s =
     (if SEQUENCE_GT (seg_seq q s) (seg_seq b s) then b # q # qs else q # insert_segment b qs s)"

definition handle_data ::
  "bool \<Rightarrow> 'a tcp_state_scheme link_output \<Rightarrow> ptr \<Rightarrow> packet \<Rightarrow> 'a tcp_state_scheme \<Rightarrow> 'a tcp_state_scheme option" where
  "handle_data packed lo p b s =
     (let t = tcp_sock s p;
          header_length = seg_header_len b s;
          seq_low = seg_seq b s;
          seq_high = seq_low + of_nat (length b) - header_length - 1
      in if SEQUENCE_LTE seq_low (rx_win_low t) \<and> SEQUENCE_GTE seq_high (rx_win_low t) then
           let (tmp, s1) = behead_chain (Some b) (unat (header_length + (rx_win_low t - seq_low))) True s;
               (rb, s2) = merge_chains (read_buffer t) tmp s1;
               ((q, low, rb'), s3) = reassemble (reassembly_q t) (rx_win_low t + of_nat (chain_len tmp)) rb s2;
               s4 = upd_ts p (\<lambda>t. t\<lparr>reassembly_q := q, rx_win_low := low, read_buffer := rb'\<rparr>) s3;
               t4 = tcp_sock s4 p
           in if sint (rx_win_low t4 + rx_win_size t4 - rx_win_high t4) > cdiv (sint (rx_win_size t4)) 2
              then send_ack packed lo p s4
              else arm_timer (Ack_delay_timer p) ACK_DELAY NET_TIMER_PENDING_IGNORE p s4
         else send_ack packed lo p
                (upd_ts p (\<lambda>t. t\<lparr>reassembly_q := insert_segment b (reassembly_q t) s\<rparr>) s))"

section \<open>Closing and timers\<close>

definition tcp_remote_close :: "ptr \<Rightarrow> 'a tcp_state_scheme \<Rightarrow> 'a tcp_state_scheme option" where
  "tcp_remote_close p s =
     (if ts_state (tcp_sock s p) = STATE_CLOSED then Some s
      else do {
        s1 \<leftarrow> inc_socket_ref p s;
        let s2 = s1\<lparr>socket_table := snd (tab_remove p (socket_table s1))\<rparr>;
        Some (dec_socket_ref p (upd_ts p (\<lambda>t. t\<lparr>last_error := ERR_NET_REMOTE_CLOSE, ts_state := STATE_CLOSED\<rparr>) s2))
      })"

definition handle_ack_delay_timeout ::
  "bool \<Rightarrow> 'a tcp_state_scheme link_output \<Rightarrow> ptr \<Rightarrow> 'a tcp_state_scheme \<Rightarrow> 'a tcp_state_scheme option" where
  "handle_ack_delay_timeout packed lo p s = map_option (dec_socket_ref p) (send_ack packed lo p s)"

definition handle_persist_timeout ::
  "bool \<Rightarrow> 'a tcp_state_scheme link_output \<Rightarrow> ptr \<Rightarrow> 'a tcp_state_scheme \<Rightarrow> 'a tcp_state_scheme option" where
  "handle_persist_timeout packed lo p s =
     (let t = tcp_sock s p
      in if write_buffer t \<noteq> None \<and> unat (unacked_data_len t) < chain_len (write_buffer t) \<and>
            ts_state t = STATE_ESTABLISHED then do {
           s1 \<leftarrow> arm_timer (Persist_timer p) PERSIST_TIMEOUT 0 p s;
           (n, s2) \<leftarrow> tcp_flush_pending_data packed lo p s1;
           if n = 0 then do {
             let t2 = tcp_sock s2 p;
             (data, s3) \<leftarrow> dup_chain (write_buffer t2) (unat (unacked_data_len t2)) 1 s2;
             if data = None then Some (dec_socket_ref p s3)
             else do {
               s4 \<leftarrow> tcp_socket_send packed lo p data (PKT_PSH OR PKT_ACK) [] (tx_win_low (tcp_sock s3 p)) s3;
               Some (dec_socket_ref p s4)
             }
           }
           else Some (dec_socket_ref p s2)
         }
         else Some (dec_socket_ref p s))"

definition handle_retransmit_timeout ::
  "bool \<Rightarrow> 'a tcp_state_scheme link_output \<Rightarrow> ptr \<Rightarrow> 'a tcp_state_scheme \<Rightarrow> 'a tcp_state_scheme option" where
  "handle_retransmit_timeout packed lo p s =
     do {
       s1 \<leftarrow> tcp_retransmit packed lo p s;
       let s2 = upd_ts p (\<lambda>t. t\<lparr>ssthresh := max (mss t * 2) (cwnd t div 2), cwnd := mss t,
                               retransmit_timeout := min (retransmit_timeout t * 2) MAX_RETRANSMIT_TIMEOUT\<rparr>) s1;
       s3 \<leftarrow> arm_timer (Retransmit_timer p) (word_of_int (retransmit_timeout (tcp_sock s2 p)))
              NET_TIMER_PENDING_IGNORE p s2;
       Some (dec_socket_ref p s3)
     }"

definition handle_fin_retransmit ::
  "bool \<Rightarrow> 'a tcp_state_scheme link_output \<Rightarrow> ptr \<Rightarrow> 'a tcp_state_scheme \<Rightarrow> 'a tcp_state_scheme option" where
  "handle_fin_retransmit packed lo p s =
     (if ts_state (tcp_sock s p) \<notin> {STATE_LAST_ACK, STATE_FIN_WAIT_1, STATE_CLOSING} then Some (dec_socket_ref p s)
      else do {
        s1 \<leftarrow> arm_timer (Fin_retransmit_timer p) FIN_RETRANSMIT_TIMEOUT NET_TIMER_PENDING_IGNORE p s;
        s2 \<leftarrow> tcp_socket_send packed lo p None (PKT_FIN OR PKT_ACK) [] (tx_win_low (tcp_sock s1 p)) s1;
        Some (dec_socket_ref p s2)
      })"

definition handle_time_wait_timeout :: "ptr \<Rightarrow> 'a tcp_state_scheme \<Rightarrow> 'a tcp_state_scheme" where
  "handle_time_wait_timeout p s = dec_socket_ref p (upd_ts p (\<lambda>t. t\<lparr>ts_state := STATE_CLOSED\<rparr>) s)"

section \<open>Input\<close>

text \<open>The header fields, converted to host order in place.\<close>

record tcp_header =
  th_source_port :: u16
  th_dest_port :: u16
  th_seq_num :: u32
  th_ack_num :: u32
  th_length_flags :: u16
  th_win_size :: u16

definition host_header :: "packet \<Rightarrow> 'a tcp_state_scheme \<Rightarrow> packet" where
  "host_header p s =
     (let p1 = put16 p 0 (ntohs (peek16 p 0 s));
          p2 = put16 p1 2 (ntohs (peek16 p1 2 s));
          p3 = put32 p2 4 (ntohl (peek32 p2 4 s));
          p4 = put32 p3 8 (ntohl (peek32 p3 8 s));
          p5 = put16 p4 12 (ntohs (peek16 p4 12 s));
          p6 = put16 p5 14 (ntohs (peek16 p5 14 s))
      in put16 p6 18 (ntohs (peek16 p6 18 s)))"

definition read_header :: "packet \<Rightarrow> 'a tcp_state_scheme \<Rightarrow> tcp_header" where
  "read_header p s =
     \<lparr>th_source_port = ntohs (peek16 p 0 s), th_dest_port = ntohs (peek16 p 2 s),
      th_seq_num = ntohl (peek32 p 4 s), th_ack_num = ntohl (peek32 p 8 s),
      th_length_flags = ntohs (peek16 p 12 s), th_win_size = ntohs (peek16 p 14 s)\<rparr>"

text \<open>How a case of the switch ends: \<open>break\<close>, or one of the two \<open>goto\<close>s.\<close>

datatype tcp_action = Break | Send_reset | Ditch_packet

text \<open>Entering TIME_WAIT: the last ACK and the 2 MSL timer.\<close>

definition enter_time_wait ::
  "bool \<Rightarrow> 'a tcp_state_scheme link_output \<Rightarrow> ptr \<Rightarrow> 'a tcp_state_scheme \<Rightarrow> 'a tcp_state_scheme option" where
  "enter_time_wait packed lo p s =
     do {
       let s1 = upd_ts p (\<lambda>t. t\<lparr>ts_state := STATE_TIME_WAIT\<rparr>) s;
       s2 \<leftarrow> tcp_socket_send packed lo p None PKT_ACK [] (tx_win_low (tcp_sock s1 p)) s1;
       arm_timer (Time_wait_timer p) (2 * MSL) 0 p s2
     }"

definition input_syn_sent ::
  "bool \<Rightarrow> 'a tcp_state_scheme link_output \<Rightarrow> ptr \<Rightarrow> tcp_header \<Rightarrow> 'a tcp_state_scheme \<Rightarrow>
   (tcp_action \<times> 'a tcp_state_scheme) option" where
  "input_syn_sent packed lo p h s =
     (let s1 = upd_ts p (\<lambda>t. t\<lparr>tx_win_low := tx_win_low t + 1, retransmit_tx_seq := tx_win_low t + 1,
                             tx_win_high := tx_win_low t + 1 + ucast (th_win_size h)\<rparr>) s
      in if th_length_flags h AND PKT_SYN \<noteq> 0 then
           let s2 = upd_ts p (\<lambda>t. t\<lparr>rx_win_low := th_seq_num h + 1,
                                  rx_win_high := th_seq_num h + 1 + rx_win_size t - 1\<rparr>) s1
           in if th_length_flags h AND PKT_ACK \<noteq> 0 then
                if th_ack_num h \<noteq> tx_win_low (tcp_sock s2 p) then Some (Send_reset, s2)
                else do {
                  s3 \<leftarrow> tcp_socket_send packed lo p None PKT_ACK [] (tx_win_low (tcp_sock s2 p)) s2;
                  Some (Break, upd_ts p (\<lambda>t. t\<lparr>ts_state := STATE_ESTABLISHED\<rparr>) s3)
                }
              else Some (Send_reset, s2)
         else Some (Ditch_packet, upd_ts p (\<lambda>t. t\<lparr>ts_state := STATE_CLOSED\<rparr>) s1))"

definition input_established ::
  "bool \<Rightarrow> 'a tcp_state_scheme link_output \<Rightarrow> ptr \<Rightarrow> tcp_header \<Rightarrow> u16 \<Rightarrow> u32 \<Rightarrow> packet \<Rightarrow> 'a tcp_state_scheme \<Rightarrow>
   (cbuf_chain \<times> 'a tcp_state_scheme) option" where
  "input_established packed lo p h data_len highest_sequence b s =
     do {
       s1 \<leftarrow> (if th_length_flags h AND PKT_ACK \<noteq> 0
              then handle_ack packed lo p (th_ack_num h) (ucast (th_win_size h)) (data_len > 0) s else Some s);
       s2 \<leftarrow> (if data_len > 0 then handle_data packed lo p b s1 else Some s1);
       s3 \<leftarrow> (if th_length_flags h AND PKT_FIN \<noteq> 0 \<and> SEQUENCE_GT (rx_win_low (tcp_sock s2 p)) highest_sequence
              then do {
                s' \<leftarrow> send_ack packed lo p (upd_ts p (\<lambda>t. t\<lparr>rx_win_low := rx_win_low t + 1\<rparr>) s2);
                Some (upd_ts p (\<lambda>t. t\<lparr>ts_state := STATE_CLOSE_WAIT\<rparr>) s')
              }
              else Some s2);
       Some (if data_len > 0 then None else Some b, s3)
     }"

definition input_fin_wait_1 ::
  "bool \<Rightarrow> 'a tcp_state_scheme link_output \<Rightarrow> ptr \<Rightarrow> tcp_header \<Rightarrow> u16 \<Rightarrow> 'a tcp_state_scheme \<Rightarrow>
   'a tcp_state_scheme option" where
  "input_fin_wait_1 packed lo p h data_len s =
     (let fl = th_length_flags h; acked = th_ack_num h = tx_win_low (tcp_sock s p) + 1
      in if fl AND (PKT_ACK OR PKT_FIN) = PKT_ACK OR PKT_FIN \<and> acked then
           enter_time_wait packed lo p
             (upd_ts p (\<lambda>t. t\<lparr>rx_win_low := rx_win_low t + 1, tx_win_low := tx_win_low t + 1\<rparr>) s)
         else if fl AND PKT_ACK \<noteq> 0 \<and> acked then
           Some (upd_ts p (\<lambda>t. t\<lparr>tx_win_low := tx_win_low t + 1, ts_state := STATE_FIN_WAIT_2\<rparr>) s)
         else if fl AND PKT_FIN \<noteq> 0 then
           let s1 = upd_ts p (\<lambda>t. t\<lparr>rx_win_low := rx_win_low t + 1, tx_win_low := tx_win_low t + 1,
                                  ts_state := STATE_CLOSING\<rparr>) s
           in tcp_socket_send packed lo p None PKT_ACK [] (tx_win_low (tcp_sock s1 p)) s1
         else if fl AND PKT_ACK \<noteq> 0 then
           handle_ack packed lo p (th_ack_num h) (ucast (th_win_size h)) (data_len > 0) s
         else Some s)"

text \<open>A SYN on a listening socket \<open>p\<close>.  The MSS found for the peer is stored in the listener, as in the
  code.\<close>

definition input_listen ::
  "bool \<Rightarrow> queue_fns \<Rightarrow> 'a tcp_state_scheme link_output \<Rightarrow> ptr \<Rightarrow> tcp_header \<Rightarrow> ipv4_addr \<Rightarrow> 'a tcp_state_scheme \<Rightarrow>
   (tcp_action \<times> 'a tcp_state_scheme) option" where
  "input_listen packed Q lo p h source_address s =
     (if th_length_flags h AND PKT_SYN = 0 then Some (Send_reset, s)
      else
        let (a, s1) = create_tcp_socket s
        in if a = 0 then Some (Break, s1)
           else do {
             let (err, local) = ipv4_lookup_srcaddr_for_dest source_address s1;
             let s2 = upd_ts a (\<lambda>t. t\<lparr>local_addr := local, local_port := local_port (tcp_sock s1 p),
                        remote_addr := source_address, remote_port := th_source_port h,
                        ts_state := STATE_SYN_RCVD\<rparr>) s1;
             let s3 = s2\<lparr>socket_table := tab_insert a (socket_table s2)\<rparr>;
             let s4 = upd_ts p (\<lambda>t. t\<lparr>accept_queue := queue_enqueue Q (accept_queue t) a\<rparr>) s3;
             let s5 = upd_ts a (\<lambda>t. t\<lparr>rx_win_low := th_seq_num h + 1,
                        rx_win_high := th_seq_num h + 1 + rx_win_size t - 1\<rparr>) s4;
             let (err, m) = ipv4_get_mss_for_dest (remote_addr (tcp_sock s5 a)) s5;
             let s6 = (case m of Some m \<Rightarrow> upd_ts p (\<lambda>t. t\<lparr>mss := m\<rparr>) s5 | None \<Rightarrow> s5);
             let s7 = (if err < 0 then upd_ts a (\<lambda>t. t\<lparr>mss := DEFAULT_MAX_SEGMENT_SIZE\<rparr>) s6 else s6);
             let s8 = upd_ts a (\<lambda>t. t\<lparr>mss := mss t - of_nat sizeof_tcp_header,
                        cwnd := mss t - of_nat sizeof_tcp_header\<rparr>) s7;
             s9 \<leftarrow> inc_socket_ref a s8;
             s10 \<leftarrow> tcp_socket_send packed lo a None (PKT_ACK OR PKT_SYN)
               ([2, 4] @ raw16 (htons (ucast (mss (tcp_sock s8 p))))) (tx_win_low (tcp_sock s8 a)) s9;
             Some (Break, dec_socket_ref a s10)
           })"

definition input_syn_rcvd ::
  "ptr \<Rightarrow> tcp_header \<Rightarrow> 'a tcp_state_scheme \<Rightarrow> tcp_action \<times> 'a tcp_state_scheme" where
  "input_syn_rcvd p h s =
     (if th_length_flags h AND PKT_SYN \<noteq> 0 then (Send_reset, s)
      else if th_length_flags h AND PKT_ACK \<noteq> 0 then
        if th_ack_num h \<noteq> tx_win_low (tcp_sock s p) + 1 then (Send_reset, s)
        else (Break, upd_ts p (\<lambda>t. t\<lparr>tx_win_low := tx_win_low t + 1, retransmit_tx_seq := tx_win_low t + 1,
                       tx_win_high := tx_win_low t + 1 + ucast (th_win_size h), ts_state := STATE_ESTABLISHED\<rparr>) s)
      else (Send_reset, s))"

text \<open>The switch over the socket's state.  The middle component is \<open>buf\<close> afterwards.\<close>

definition tcp_input_state ::
  "bool \<Rightarrow> queue_fns \<Rightarrow> 'a tcp_state_scheme link_output \<Rightarrow> ptr \<Rightarrow> tcp_header \<Rightarrow> u16 \<Rightarrow> u32 \<Rightarrow> packet \<Rightarrow> ipv4_addr \<Rightarrow>
   'a tcp_state_scheme \<Rightarrow> (tcp_action \<times> cbuf_chain \<times> 'a tcp_state_scheme) option" where
  "tcp_input_state packed Q lo p h data_len highest_sequence b source_address s =
     (let fl = th_length_flags h; keep = map_option (\<lambda>(a, s). (a, Some b, s)); brk = map_option (\<lambda>s. (Break, Some b, s))
      in case ts_state (tcp_sock s p) of
           STATE_CLOSED \<Rightarrow> Some (Send_reset, Some b, s)
         | STATE_SYN_SENT \<Rightarrow> keep (input_syn_sent packed lo p h s)
         | STATE_ESTABLISHED \<Rightarrow>
             map_option (Pair Break) (input_established packed lo p h data_len highest_sequence b s)
         | STATE_CLOSE_WAIT \<Rightarrow> brk (if fl AND PKT_FIN \<noteq> 0 then send_ack packed lo p s else Some s)
         | STATE_LAST_ACK \<Rightarrow> brk (if fl AND PKT_ACK \<noteq> 0 then tcp_remote_close p s else Some s)
         | STATE_FIN_WAIT_1 \<Rightarrow> brk (input_fin_wait_1 packed lo p h data_len s)
         | STATE_FIN_WAIT_2 \<Rightarrow>
             brk (if fl AND PKT_FIN \<noteq> 0
                  then enter_time_wait packed lo p (upd_ts p (\<lambda>t. t\<lparr>rx_win_low := rx_win_low t + 1\<rparr>) s) else Some s)
         | STATE_CLOSING \<Rightarrow> brk (if fl AND PKT_ACK \<noteq> 0 then enter_time_wait packed lo p s else Some s)
         | STATE_LISTEN \<Rightarrow> keep (input_listen packed Q lo p h source_address s)
         | STATE_SYN_RCVD \<Rightarrow> keep (Some (input_syn_rcvd p h s))
         | STATE_TIME_WAIT \<Rightarrow> Some (Ditch_packet, Some b, s))"

text \<open>Between the lookup and the switch: resets and packets outside the window.\<close>

definition tcp_input_socket ::
  "bool \<Rightarrow> queue_fns \<Rightarrow> 'a tcp_state_scheme link_output \<Rightarrow> ptr \<Rightarrow> tcp_header \<Rightarrow> u16 \<Rightarrow> u32 \<Rightarrow> packet \<Rightarrow> ipv4_addr \<Rightarrow>
   'a tcp_state_scheme \<Rightarrow> (tcp_action \<times> cbuf_chain \<times> 'a tcp_state_scheme) option" where
  "tcp_input_socket packed Q lo p h data_len highest_sequence b source_address s =
     (let t = tcp_sock s p; fl = th_length_flags h; seq = th_seq_num h
      in if fl AND PKT_RST \<noteq> 0 then
           map_option (\<lambda>s. (Ditch_packet, Some b, s))
             (if ts_state t \<noteq> STATE_CLOSED \<and> ts_state t \<noteq> STATE_LISTEN then tcp_remote_close p s else Some s)
         else if fl AND PKT_SYN = 0 \<and>
                 (SEQUENCE_LT seq (rx_win_low t) \<or>
                  SEQUENCE_GT seq (rx_win_high t) \<and> \<not> (data_len = 0 \<and> seq \<noteq> rx_win_high t + 1)) then
           map_option (\<lambda>s. (Ditch_packet, Some b, s)) (send_ack packed lo p s)
         else tcp_input_state packed Q lo p h data_len highest_sequence b source_address s)"

text \<open>\<open>highest_sequence\<close> as the expression parses: the conditional takes the whole sum as its
  condition.\<close>

definition highest_sequence :: "u32 \<Rightarrow> u16 \<Rightarrow> u32" where
  "highest_sequence seq data_len =
     (if seq + (if data_len > 0 then 1 else 0) \<noteq> 0 then ucast data_len - 1 else 0)"

definition tcp_input ::
  "bool \<Rightarrow> queue_fns \<Rightarrow> 'a tcp_state_scheme link_output \<Rightarrow> cbuf_chain \<Rightarrow> ipv4_addr \<Rightarrow> ipv4_addr \<Rightarrow>
   'a tcp_state_scheme \<Rightarrow> (int \<times> 'a tcp_state_scheme) option" where
  "tcp_input packed Q lo buf source_address target_address s =
     do {
       b \<leftarrow> buf;
       let header_len = unat (drop_bit 12 (ntohs (peek16 b 12 s)) AND 0x0f) * 4;
       let pheader = tcp_pseudo_header (htonl source_address) (htonl target_address) (htons (of_nat (length b)));
       if header_len > length b then Some (NO_ERROR, free_chain buf s)
       else if chain_cksum_2 buf 0 (length b) pheader \<noteq> 0 then Some (ERR_NET_BAD_PACKET, free_chain buf s)
       else do {
         let h = read_header b s;
         let data_len = of_nat (length b - header_len);
         (p, s1) \<leftarrow> lookup_socket source_address target_address (th_source_port h) (th_dest_port h) s;
         (action, buf1, s2) \<leftarrow>
           (if p = 0 then Some (Send_reset, buf, s1)
            else tcp_input_socket packed Q lo p h data_len (highest_sequence (th_seq_num h) data_len)
                   (host_header b s) source_address s1);
         s3 \<leftarrow> (if action = Send_reset \<and> th_length_flags h AND PKT_RST = 0
                then tcp_send packed lo source_address (th_source_port h) target_address (th_dest_port h) None
                       (PKT_RST OR PKT_ACK) (th_seq_num h + 1) [] (th_ack_num h) 0 s2
                else Some s2);
         let s4 = free_chain buf1 s3;
         Some (NO_ERROR, if p \<noteq> 0 then dec_socket_ref p s4 else s4)
       }
     }"

end
