(* ===== verification/Tcp_Socket.thy ===== *)
theory Tcp_Socket
  imports Tcp_Input
begin

text \<open>The operations \<^verbatim>\<open>SkyCore/Net/tcp.c\<close> offers to the socket layer, and its initialisation.\<close>

section \<open>Opening, binding, connecting\<close>

definition tcp_open :: "'a tcp_state_scheme \<Rightarrow> int \<times> ptr \<times> 'a tcp_state_scheme" where
  "tcp_open s = (let (p, s1) = create_tcp_socket s in (if p = 0 then ERR_NO_MEMORY else NO_ERROR, p, s1))"

text \<open>The result is 0 whatever \<open>err\<close> is.\<close>

definition tcp_bind :: "ptr \<Rightarrow> sockaddr \<Rightarrow> 'a tcp_state_scheme \<Rightarrow> (int \<times> 'a tcp_state_scheme) option" where
  "tcp_bind p a s =
     do {
       s1 \<leftarrow> inc_socket_ref p s;
       let t = tcp_sock s1 p;
       let s2 = (if local_port t \<noteq> 0 \<or> local_addr t \<noteq> 0 then s1
                 else
                   let tab = snd (tab_remove p (socket_table s1));
                       s' = upd_ts p (\<lambda>t. t\<lparr>local_port := word_of_int (sa_port a),
                              local_addr := NETADDR_TO_IPV4 (sa_addr a)\<rparr>) s1
                   in s'\<lparr>socket_table := tab_insert p tab\<rparr>);
       Some (0, dec_socket_ref p s2)
     }"

text \<open>The SYN loop: its wait is commented out, so the three attempts follow one another.\<close>

fun connect_loop ::
  "bool \<Rightarrow> 'a tcp_state_scheme link_output \<Rightarrow> ptr \<Rightarrow> packet \<Rightarrow> nat \<Rightarrow> 'a tcp_state_scheme \<Rightarrow> 'a tcp_state_scheme option" where
  "connect_loop packed lo p options 0 s = Some s"
| "connect_loop packed lo p options (Suc n) s =
     (if ts_state (tcp_sock s p) = STATE_ESTABLISHED \<or> ts_state (tcp_sock s p) = STATE_CLOSED then Some s
      else do {
        s1 \<leftarrow> (if ts_state (tcp_sock s p) = STATE_SYN_SENT
               then tcp_socket_send packed lo p None PKT_SYN options (tx_win_low (tcp_sock s p)) s else Some s);
        connect_loop packed lo p options n s1
      })"

definition tcp_connect ::
  "bool \<Rightarrow> 'a tcp_state_scheme link_output \<Rightarrow> ptr \<Rightarrow> sockaddr \<Rightarrow> 'a tcp_state_scheme \<Rightarrow>
   (int \<times> 'a tcp_state_scheme) option" where
  "tcp_connect packed lo p a s =
     do {
       s1 \<leftarrow> inc_socket_ref p s;
       if ts_state (tcp_sock s1 p) \<noteq> STATE_CLOSED then Some (ERR_NET_ALREADY_CONNECTED, dec_socket_ref p s1)
       else
         let s2 = s1\<lparr>socket_table := snd (tab_remove p (socket_table s1))\<rparr>;
             (err, s3) = (if local_port (tcp_sock s2 p) = 0 \<or> local_addr (tcp_sock s2 p) = 0
                          then bind_local_address p (sa_addr a) s2 else (0, s2))
         in if err < 0 then Some (err, dec_socket_ref p s3)
            else do {
              let s4 = upd_ts p (\<lambda>t. t\<lparr>remote_addr := NETADDR_TO_IPV4 (sa_addr a),
                                      remote_port := word_of_int (sa_port a)\<rparr>) s3;
              let s5 = s4\<lparr>socket_table := tab_insert p (socket_table s4)\<rparr>;
              let (err, m) = ipv4_get_mss_for_dest (remote_addr (tcp_sock s5 p)) s5;
              let m1 = (if err < 0 then DEFAULT_MAX_SEGMENT_SIZE
                        else case m of Some m \<Rightarrow> m | None \<Rightarrow> mss (tcp_sock s5 p));
              let m2 = m1 - of_nat sizeof_tcp_header;
              let s6 = upd_ts p (\<lambda>t. t\<lparr>mss := m2, cwnd := m2, ts_state := STATE_SYN_SENT\<rparr>) s5;
              s7 \<leftarrow> connect_loop packed lo p ([2, 4] @ raw16 (htons (ucast m2))) 3 s6;
              Some (if ts_state (tcp_sock s7 p) = STATE_CLOSED then ERR_NET_CONNECTION_REFUSED else NO_ERROR,
                    dec_socket_ref p s7)
            }
     }"

definition tcp_listen :: "ptr \<Rightarrow> 'a tcp_state_scheme \<Rightarrow> (int \<times> 'a tcp_state_scheme) option" where
  "tcp_listen p s =
     do {
       s1 \<leftarrow> inc_socket_ref p s;
       if ts_state (tcp_sock s1 p) \<noteq> STATE_CLOSED then Some (ERR_NET_ALREADY_CONNECTED, dec_socket_ref p s1)
       else Some (NO_ERROR, dec_socket_ref p (upd_ts p (\<lambda>t. t\<lparr>ts_state := STATE_LISTEN\<rparr>) s1))
     }"

section \<open>Accepting\<close>

text \<open>The retry loop: sockets of the queue that are not established are dropped.  An empty queue is a
  NULL dereference, since nothing waits for the semaphore.\<close>

partial_function (option) accept_loop ::
  "queue_fns \<Rightarrow> ptr \<Rightarrow> 'a tcp_state_scheme \<Rightarrow> (int \<times> ptr \<times> 'a tcp_state_scheme) option" where
  "accept_loop Q p s =
     (if ts_state (tcp_sock s p) \<noteq> STATE_LISTEN then Some (ERR_NET_NOT_LISTENING, 0, s)
      else
        let (n, q) = queue_dequeue Q (accept_queue (tcp_sock s p));
            s1 = upd_ts p (\<lambda>t. t\<lparr>accept_queue := q\<rparr>) s
        in if n = 0 then None
           else if ts_state (tcp_sock s1 n) \<noteq> STATE_ESTABLISHED then accept_loop Q p s1
           else Some (NO_ERROR, n, s1))"

text \<open>The address reported is the listener's remote address, as the code reads \<open>s\<close>.\<close>

definition tcp_accept ::
  "queue_fns \<Rightarrow> ptr \<Rightarrow> 'a tcp_state_scheme \<Rightarrow> (int \<times> ptr \<times> sockaddr option \<times> 'a tcp_state_scheme) option" where
  "tcp_accept Q p s =
     do {
       s1 \<leftarrow> inc_socket_ref p s;
       (err, n, s2) \<leftarrow> accept_loop Q p s1;
       Some (err, n,
         if n = 0 then None
         else Some \<lparr>sa_addr = ip_netaddr (remote_addr (tcp_sock s2 p)), sa_port = uint (remote_port (tcp_sock s2 p))\<rparr>,
         dec_socket_ref p s2)
     }"

section \<open>Closing\<close>

definition tcp_close ::
  "bool \<Rightarrow> 'a tcp_state_scheme link_output \<Rightarrow> ptr \<Rightarrow> 'a tcp_state_scheme \<Rightarrow> (int \<times> 'a tcp_state_scheme) option" where
  "tcp_close packed lo p s =
     (let fin = (\<lambda>next. do {
            s1 \<leftarrow> tcp_socket_send packed lo p None (PKT_FIN OR PKT_ACK) [] (tx_win_low (tcp_sock s p)) s;
            s2 \<leftarrow> arm_timer (Fin_retransmit_timer p) FIN_RETRANSMIT_TIMEOUT 0 p s1;
            Some (upd_ts p (\<lambda>t. t\<lparr>ts_state := next\<rparr>) s2)
          });
          done = (\<lambda>s. (NO_ERROR, dec_socket_ref p (upd_ts p (\<lambda>t. t\<lparr>writers_waiting := False\<rparr>) s)))
      in case ts_state (tcp_sock s p) of
           STATE_ESTABLISHED \<Rightarrow> map_option done (fin STATE_FIN_WAIT_1)
         | STATE_CLOSE_WAIT \<Rightarrow> map_option done (fin STATE_LAST_ACK)
         | STATE_SYN_SENT \<Rightarrow> Some (done (upd_ts p (\<lambda>t. t\<lparr>ts_state := STATE_CLOSED\<rparr>) s))
         | STATE_LISTEN \<Rightarrow> Some (done (upd_ts p (\<lambda>t. t\<lparr>ts_state := STATE_CLOSED\<rparr>) s))
         | _ \<Rightarrow> map_option (\<lambda>s. (ERR_NET_NOT_CONNECTED, dec_socket_ref p s)) (inc_socket_ref p s))"

section \<open>Receiving and sending\<close>

text \<open>\<open>err0\<close> is the uninitialised \<open>err\<close> the wait loop tests; the inner \<open>None\<close> is that loop going
  round.  The result is the return value and the bytes stored at \<open>buf\<close>.\<close>

definition tcp_recvfrom ::
  "bool \<Rightarrow> 'a tcp_state_scheme link_output \<Rightarrow> int \<Rightarrow> nat option \<Rightarrow> ptr \<Rightarrow> int \<Rightarrow> 'a tcp_state_scheme \<Rightarrow>
   ((int \<times> packet) option \<times> 'a tcp_state_scheme) option" where
  "tcp_recvfrom packed lo err0 fault p len s =
     do {
       s1 \<leftarrow> inc_socket_ref p s;
       let t = tcp_sock s1 p;
       let ret = (\<lambda>n data s. Some (Some (n, data), dec_socket_ref p s));
       if ts_state t \<noteq> STATE_ESTABLISHED then ret 0 [] s1
       else if read_buffer t = None then
         if err0 < 0 then ret (if last_error t < 0 then last_error t else err0) [] s1
         else Some (None, dec_socket_ref p s1)
       else do {
         let to_copy = min (int (chain_len (read_buffer t))) len;
         (err, data) \<leftarrow> user_from_chain fault (read_buffer t) 0 (nat (to_copy mod 2 ^ 32));
         if err < 0 then ret err data s1
         else do {
           let (rb, s2) = behead_chain (read_buffer t) (nat to_copy) True s1;
           let s3 = (if chain_len rb = 0 then upd_ts p (\<lambda>t. t\<lparr>read_buffer := None\<rparr>) (free_chain rb s2)
                     else upd_ts p (\<lambda>t. t\<lparr>read_buffer := rb\<rparr>) s2);
           let t3 = tcp_sock s3 p;
           let new_rx_win_size = rx_win_size t3 - of_nat (chain_len (read_buffer t3));
           s4 \<leftarrow> (if new_rx_win_size \<ge> mss t3 \<and> rx_win_high t3 - rx_win_low t3 < mss t3
                  then send_ack packed lo p s3 else Some s3);
           ret to_copy data s4
         }
       }
     }"

text \<open>The send loop over the bytes of \<open>inbuf\<close> not yet queued; a full write buffer ends the round with
  the inner \<open>None\<close> (the code goes round until a writer is released).\<close>

partial_function (option) sendto_loop ::
  "bool \<Rightarrow> 'a tcp_state_scheme link_output \<Rightarrow> nat option \<Rightarrow> ptr \<Rightarrow> packet \<Rightarrow> int \<Rightarrow> 'a tcp_state_scheme \<Rightarrow>
   (int option \<times> 'a tcp_state_scheme) option" where
  "sendto_loop packed lo fault p data sent s =
     (let t = tcp_sock s p
      in if data = [] then Some (Some sent, s)
         else if ts_state t \<noteq> STATE_ESTABLISHED \<and> ts_state t \<noteq> STATE_CLOSE_WAIT then Some (Some (last_error t), s)
         else
           let buf_size = chain_len (write_buffer t);
               chunk_size = min (int (length data)) (tx_write_buf_size t - int buf_size)
           in if chunk_size = 0 then Some (None, upd_ts p (\<lambda>t. t\<lparr>writers_waiting := True\<rparr>) s)
              else if chunk_size < 0 then None
              else
                let n = nat chunk_size
                in do {
                  (err, s1) \<leftarrow>
                    (if write_buffer t \<noteq> None then
                       let (err, wb, s') = extend_chain (write_buffer t) n s;
                           s1 = upd_ts p (\<lambda>t. t\<lparr>write_buffer := wb\<rparr>) s'
                       in if err < 0 then Some (err, s1)
                          else do {
                            (err, wb1) \<leftarrow> user_to_chain fault wb buf_size (take n data);
                            if err < 0 then do {
                              wb2 \<leftarrow> untail_chain wb1 n;
                              Some (err, upd_ts p (\<lambda>t. t\<lparr>write_buffer := wb2\<rparr>) s1)
                            }
                            else Some (err, upd_ts p (\<lambda>t. t\<lparr>write_buffer := wb1\<rparr>) s1)
                          }
                     else do {
                       (wb, s') \<leftarrow> get_chain n s;
                       if wb = None then Some (ERR_NO_MEMORY, s')
                       else do {
                         (err, wb1) \<leftarrow> user_to_chain fault wb 0 (take n data);
                         if err < 0 then Some (err, upd_ts p (\<lambda>t. t\<lparr>write_buffer := None\<rparr>) (free_chain wb1 s'))
                         else Some (err, upd_ts p (\<lambda>t. t\<lparr>write_buffer := wb1\<rparr>) s')
                       }
                     });
                  if err < 0 then Some (Some err, s1)
                  else do {
                    (k, s2) \<leftarrow> tcp_flush_pending_data packed lo p s1;
                    sendto_loop packed lo (map_option (\<lambda>f. f - n) fault) p (drop n data) (sent + int n) s2
                  }
                })"

definition tcp_sendto ::
  "bool \<Rightarrow> 'a tcp_state_scheme link_output \<Rightarrow> nat option \<Rightarrow> ptr \<Rightarrow> packet \<Rightarrow> 'a tcp_state_scheme \<Rightarrow>
   (int option \<times> 'a tcp_state_scheme) option" where
  "tcp_sendto packed lo fault p data s =
     do {
       s1 \<leftarrow> inc_socket_ref p s;
       (r, s2) \<leftarrow> (if ts_state (tcp_sock s1 p) \<noteq> STATE_ESTABLISHED \<and> ts_state (tcp_sock s1 p) \<noteq> STATE_CLOSE_WAIT
                   then Some (Some 0, s1) else sendto_loop packed lo fault p data 0 s1);
       Some (r, dec_socket_ref p s2)
     }"

definition tcp_init :: "int \<Rightarrow> 'a tcp_state_scheme \<Rightarrow> int \<times> 'a tcp_state_scheme" where
  "tcp_init rnd s =
     (let (t, s1) = kmalloc s
      in if t = 0 then (ERR_NO_MEMORY, s1)
         else (0, s1\<lparr>socket_table := [], tcp_next_ephemeral_port := rnd mod 32000 + 1024\<rparr>))"

end
