(* ===== verification/Ipv4_Input.thy ===== *)
theory Ipv4_Input
  imports Icmp Tcp_Socket
begin

text \<open>
  \<open>ipv4_input\<close> of \<^verbatim>\<open>SkyCore/Net/ipv4.c\<close>: validation of a packet, reassembly, and its delivery to
  ICMP, TCP or UDP.
\<close>

text \<open>Is the packet for one of the interface's addresses, or its broadcast address?\<close>

fun addressed_to :: "ipv4_addr \<Rightarrow> ifaddr list \<Rightarrow> bool" where
  "addressed_to dest [] = False"
| "addressed_to dest (a # as) =
     (na_type (ia_addr a) = ADDR_TYPE_IP \<and>
        (dest = NETADDR_TO_IPV4 (ia_addr a) \<or> dest = NETADDR_TO_IPV4 (ia_broadcast a)) \<or>
      addressed_to dest as)"

text \<open>The checks before reassembly: \<open>Inl\<close> the error with which the packet is dropped, \<open>Inr\<close> the chain
  without padding.\<close>

definition ipv4_check :: "cbuf_chain \<Rightarrow> ptr \<Rightarrow> 'a if_state_scheme \<Rightarrow> int + packet" where
  "ipv4_check buf i s =
     (case buf of
        None \<Rightarrow> Inl ERR_NET_BAD_PACKET
      | Some p \<Rightarrow>
          if length p < 4 then Inl ERR_NET_BAD_PACKET
          else if drop_bit 4 (peek8 p 0 s) AND 0xf \<noteq> 4 then Inl ERR_NET_BAD_PACKET
          else if length p < sizeof_ipv4_header then Inl ERR_NET_BAD_PACKET
          else if cksum16 (peek_bytes p 0 (unat (peek8 p 0 s AND 0xf) * 4) s) \<noteq> 0 then Inl ERR_NET_BAD_PACKET
          else if ntohl (peek32 p 16 s) \<noteq> 0xffffffff \<and>
                  \<not> addressed_to (ntohl (peek32 p 16 s)) (addr_list (ifs s i)) then Inl NO_ERROR
          else if length p < unat (ntohs (peek16 p 2 s)) then Inl ERR_NET_BAD_PACKET
          else Inr (take (unat (ntohs (peek16 p 2 s))) p))"

text \<open>Stripping the header and handing over to the protocol.  \<open>hdr\<close> is the memory the header pointer
  refers to.\<close>

definition ipv4_deliver ::
  "bool \<Rightarrow> queue_fns \<Rightarrow> 'a tcp_state_scheme link_output \<Rightarrow> packet \<Rightarrow> cbuf_chain \<Rightarrow> 'a tcp_state_scheme \<Rightarrow>
   (int \<times> 'a tcp_state_scheme) option" where
  "ipv4_deliver packed Q lo hdr buf s =
     (let protocol = peek8 hdr 9 s;
          src = ntohl (peek32 hdr 12 s);
          dest = ntohl (peek32 hdr 16 s);
          (b, s1) = behead_chain buf (ip_header_len hdr s) True s
      in if protocol = IP_PROT_ICMP then icmp_input packed lo b src s1
         else if protocol = IP_PROT_TCP then tcp_input packed Q lo b src dest s1
         else if protocol = IP_PROT_UDP then udp_input b src dest s1
         else Some (ERR_NET_BAD_PACKET, free_chain b s1))"

definition ipv4_input ::
  "bool \<Rightarrow> queue_fns \<Rightarrow> 'a tcp_state_scheme link_output \<Rightarrow> cbuf_chain \<Rightarrow> ptr \<Rightarrow> 'a tcp_state_scheme \<Rightarrow>
   (int \<times> 'a tcp_state_scheme) option" where
  "ipv4_input packed Q lo buf i s =
     (case ipv4_check buf i s of
        Inl err \<Rightarrow> Some (err, free_chain buf s)
      | Inr p \<Rightarrow> do {
          hdr \<leftarrow> buf;
          if ntohs (peek16 hdr 6 s) AND IPV4_FLAG_MORE_FRAGS \<noteq> 0 \<or>
             ntohs (peek16 hdr 6 s) AND IPV4_FRAG_OFFSET_MASK \<noteq> 0 then do {
            (err, new_buf, s1) \<leftarrow> ipv4_process_frag (Some p) s;
            if err < 0 then Some (err, free_chain (Some p) s1)
            else case new_buf of
              None \<Rightarrow> Some (NO_ERROR, s1)
            | Some q \<Rightarrow> if q = [] then None else ipv4_deliver packed Q lo q (Some q) s1
          }
          else ipv4_deliver packed Q lo hdr (Some p) s
        })"

end
