(* ===== verification/Net_Link.thy ===== *)
theory Net_Link
  imports Ipv4_Input
begin

text \<open>
  The link layers \<^verbatim>\<open>SkyCore/Net/ethernet.c\<close> and \<^verbatim>\<open>SkyCore/Net/loopback.c\<close>, and the function pointers
  of an interface.  A packet sent on the loopback interface re-enters \<open>ipv4_input\<close> before
  \<open>link_output\<close> returns, which may send again: \<open>link_output_n n\<close> is the pointer with at most \<open>n\<close> such
  calls in progress, and running out of them is a fault.
\<close>

section \<open>Ethernet\<close>

definition MIN_ETHERNET2_LEN :: nat where "MIN_ETHERNET2_LEN = 46"
definition sizeof_ethernet2_header :: nat where "sizeof_ethernet2_header = 14"

text \<open>Short frames and unknown types are not freed.\<close>

definition ethernet_input ::
  "bool \<Rightarrow> queue_fns \<Rightarrow> 'a tcp_state_scheme link_output \<Rightarrow> cbuf_chain \<Rightarrow> ptr \<Rightarrow> 'a tcp_state_scheme \<Rightarrow>
   (int \<times> 'a tcp_state_scheme) option" where
  "ethernet_input packed Q lo buf i s =
     (case buf of
        None \<Rightarrow> Some (-1, s)
      | Some p \<Rightarrow>
          if length p < MIN_ETHERNET2_LEN then Some (-1, s)
          else
            let type = ntohs (peek16 p 12 s);
                (b, s1) = behead_chain buf sizeof_ethernet2_header True s
            in if type = PROT_TYPE_IPV4 then ipv4_input packed Q lo b i s1
               else if type = PROT_TYPE_ARP then arp_input packed lo (ipv4_arp_callback lo) b i s1
               else Some (-1, s1))"

definition ethernet_output ::
  "kernel \<Rightarrow> cbuf_chain \<Rightarrow> ptr \<Rightarrow> netaddr \<Rightarrow> u16 \<Rightarrow> 'a if_state_scheme \<Rightarrow> (int \<times> 'a if_state_scheme) option" where
  "ethernet_output K buf i target protocol_type s =
     (if na_type target \<noteq> ADDR_TYPE_ETHERNET then Some (ERR_INVALID_ARGS, free_chain buf s)
      else do {
        (eh, s1) \<leftarrow> get_chain sizeof_ethernet2_header s;
        case eh of
          None \<Rightarrow> Some (ERR_NO_MEMORY, free_chain buf s1)
        | Some h \<Rightarrow> do {
            link \<leftarrow> link_addr (ifs s1 i);
            let h1 = put_bytes h 0 (take 6 (na_addr target));
            let h2 = put_bytes h1 6 (take 6 (na_addr (ia_addr link)));
            let h3 = put16 h2 12 (htons protocol_type);
            let (b, s2) = merge_chains (Some h3) buf s1;
            if_output K b i s2
          }
      })"

definition ethernet_init :: int where "ethernet_init = 0"

section \<open>Loopback\<close>

definition loopback_dispatch ::
  "bool \<Rightarrow> queue_fns \<Rightarrow> 'a tcp_state_scheme link_output \<Rightarrow> cbuf_chain \<Rightarrow> ptr \<Rightarrow> u16 \<Rightarrow> 'a tcp_state_scheme \<Rightarrow>
   (int \<times> 'a tcp_state_scheme) option" where
  "loopback_dispatch packed Q lo buf i protocol_type s =
     (if protocol_type = PROT_TYPE_IPV4 then ipv4_input packed Q lo buf i s
      else if protocol_type = PROT_TYPE_ARP then arp_input packed lo (ipv4_arp_callback lo) buf i s
      else Some (-1, s))"

definition loopback_input :: "cbuf_chain \<Rightarrow> ptr \<Rightarrow> 'a net_base_scheme \<Rightarrow> int \<times> 'a net_base_scheme" where
  "loopback_input buf i s = (NO_ERROR, free_chain buf s)"

definition loopback_output ::
  "bool \<Rightarrow> queue_fns \<Rightarrow> 'a tcp_state_scheme link_output \<Rightarrow> cbuf_chain \<Rightarrow> ptr \<Rightarrow> netaddr \<Rightarrow> u16 \<Rightarrow> 'a tcp_state_scheme \<Rightarrow>
   (int \<times> 'a tcp_state_scheme) option" where
  "loopback_output packed Q lo buf i target protocol_type s =
     map_option (\<lambda>(err, s1). (NO_ERROR, s1)) (loopback_dispatch packed Q lo buf i protocol_type s)"

section \<open>The function pointers\<close>

fun link_output_n :: "bool \<Rightarrow> kernel \<Rightarrow> queue_fns \<Rightarrow> nat \<Rightarrow> 'a tcp_state_scheme link_output" where
  "link_output_n packed K Q 0 b i target prot s = None"
| "link_output_n packed K Q (Suc n) b i target prot s =
     (case link_fns (ifs s i) of
        Ethernet_link \<Rightarrow> ethernet_output K b i target prot s
      | Loopback_link \<Rightarrow> loopback_output packed Q (link_output_n packed K Q n) b i target prot s)"

definition link_input_n ::
  "bool \<Rightarrow> kernel \<Rightarrow> queue_fns \<Rightarrow> nat \<Rightarrow> cbuf_chain \<Rightarrow> ptr \<Rightarrow> 'a tcp_state_scheme \<Rightarrow> (int \<times> 'a tcp_state_scheme) option" where
  "link_input_n packed K Q n b i s =
     (case link_fns (ifs s i) of
        Ethernet_link \<Rightarrow> ethernet_input packed Q (link_output_n packed K Q n) b i s
      | Loopback_link \<Rightarrow> Some (loopback_input b i s))"

text \<open>Bringing the loopback interface up: its link address, 127.0.0.1/8, and its route.\<close>

definition loopback_init :: "kernel \<Rightarrow> 'a ipv4_state_scheme \<Rightarrow> (int \<times> 'a ipv4_state_scheme) option" where
  "loopback_init K s =
     do {
       (err, i, s1) \<leftarrow> if_register_interface K ''loopback'' s;
       if err < 0 then Some (err, s1)
       else
         let (a1, s2) = kmalloc s1
         in if a1 = 0 then None
            else
              let null_addr = \<lparr>na_len = junk s2 0, na_type = ADDR_TYPE_NULL, na_addr = map (junk s2) [0..<12]\<rparr>;
                  s3 = if_bind_link_address i \<lparr>ia_addr = null_addr, ia_netmask = null_addr, ia_broadcast = null_addr\<rparr> s2;
                  (a2, s4) = kmalloc s3
              in if a2 = 0 then None
                 else
                   let s5 = if_bind_address i \<lparr>ia_addr = ip_netaddr 0x7f000001, ia_netmask = ip_netaddr 0xff000000,
                              ia_broadcast = ip_netaddr 0x7fffffff\<rparr> s4;
                       (err, s6) = ipv4_route_add 0x7f000000 0xff000000 0x7f000001 (if_id (ifs s5 i)) s5
                   in Some (0, s6)
     }"

end
