(* ===== verification/Socket.thy ===== *)
theory Socket
  imports Net_Link
begin

text \<open>
  \<^verbatim>\<open>SkyCore/Net/socket.c\<close>: the table of sockets and the dispatch of each call on the socket's type;
  and \<^verbatim>\<open>SkyCore/Net/socket_dev.c\<close>: the device through which user programs make these calls.  The
  operations of both protocols end in a call of the link layer \<open>lo\<close>.
\<close>

section \<open>Sockets\<close>

abbreviation (input) SOCK_PROTO_UDP :: int where "SOCK_PROTO_UDP \<equiv> 1"
abbreviation (input) SOCK_PROTO_TCP :: int where "SOCK_PROTO_TCP \<equiv> 2"

record netsocket =
  ns_id :: int
  ns_type :: int
  ns_prot_data :: ptr

record sock_state = tcp_state +
  netsock :: "ptr \<Rightarrow> netsocket"
  sock_table :: "ptr list"
  next_sock_id :: int

definition sock_compare_func :: "netsocket \<Rightarrow> int \<Rightarrow> int" where
  "sock_compare_func s sid = (if ns_id s = sid then 0 else 1)"

definition sock_hash_func :: "netsocket option \<Rightarrow> int \<Rightarrow> nat \<Rightarrow> nat" where
  "sock_hash_func s sid n =
     (case s of Some s \<Rightarrow> unat (word_of_int (ns_id s) :: u32) mod n | None \<Rightarrow> unat (word_of_int sid :: u32) mod n)"

definition lookup_netsocket :: "int \<Rightarrow> 'a sock_state_scheme \<Rightarrow> ptr" where
  "lookup_netsocket sid s = tab_find (\<lambda>p. sock_compare_func (netsock s p) sid = 0) (sock_table s)"

definition create_netsocket :: "int \<Rightarrow> ptr \<Rightarrow> 'a sock_state_scheme \<Rightarrow> ptr \<times> 'a sock_state_scheme" where
  "create_netsocket type prot_data s =
     (let (p, s1) = kmalloc s
      in if p = 0 then (0, s1)
         else (p, s1\<lparr>netsock := (netsock s1)(p :=
                      \<lparr>ns_id = next_sock_id s1, ns_type = type, ns_prot_data = prot_data\<rparr>),
                    next_sock_id := next_sock_id s1 + 1, sock_table := tab_insert p (sock_table s1)\<rparr>))"

definition destroy_netsocket :: "ptr \<Rightarrow> 'a sock_state_scheme \<Rightarrow> int \<times> 'a sock_state_scheme" where
  "destroy_netsocket p s = (0, s\<lparr>sock_table := snd (tab_remove p (sock_table s))\<rparr>)"

section \<open>Calls\<close>

definition socket_create ::
  "bool \<Rightarrow> 'a sock_state_scheme link_output \<Rightarrow> int \<Rightarrow> 'a sock_state_scheme \<Rightarrow> (int \<times> 'a sock_state_scheme) option" where
  "socket_create packed lo type s =
     (let (err, prot_data, s1) =
        (if type = SOCK_PROTO_UDP then udp_open s
         else if type = SOCK_PROTO_TCP then tcp_open s
         else (ERR_INVALID_ARGS, 0, s))
      in if err < 0 then Some (err, s1)
         else
           let (p, s2) = create_netsocket type prot_data s1
           in if p \<noteq> 0 then Some (ns_id (netsock s2 p), s2)
              else map_option (\<lambda>(e, s). (ERR_NO_MEMORY, s))
                     (if type = SOCK_PROTO_UDP then Some (udp_close prot_data s2)
                      else tcp_close packed lo prot_data s2))"

definition socket_bind :: "int \<Rightarrow> sockaddr \<Rightarrow> 'a sock_state_scheme \<Rightarrow> (int \<times> 'a sock_state_scheme) option" where
  "socket_bind sid a s =
     (let p = lookup_netsocket sid s; n = netsock s p
      in if p = 0 then Some (ERR_INVALID_HANDLE, s)
         else if ns_type n = SOCK_PROTO_UDP then Some (udp_bind (ns_prot_data n) a s)
         else if ns_type n = SOCK_PROTO_TCP then tcp_bind (ns_prot_data n) a s
         else Some (ERR_INVALID_ARGS, s))"

definition socket_connect ::
  "bool \<Rightarrow> 'a sock_state_scheme link_output \<Rightarrow> int \<Rightarrow> sockaddr \<Rightarrow> 'a sock_state_scheme \<Rightarrow> (int \<times> 'a sock_state_scheme) option" where
  "socket_connect packed lo sid a s =
     (let p = lookup_netsocket sid s; n = netsock s p
      in if p = 0 then Some (ERR_INVALID_HANDLE, s)
         else if ns_type n = SOCK_PROTO_UDP then Some (udp_connect (ns_prot_data n) a, s)
         else if ns_type n = SOCK_PROTO_TCP then tcp_connect packed lo (ns_prot_data n) a s
         else Some (ERR_INVALID_ARGS, s))"

definition socket_listen :: "int \<Rightarrow> 'a sock_state_scheme \<Rightarrow> (int \<times> 'a sock_state_scheme) option" where
  "socket_listen sid s =
     (let p = lookup_netsocket sid s; n = netsock s p
      in if p = 0 then Some (ERR_INVALID_HANDLE, s)
         else if ns_type n = SOCK_PROTO_UDP then Some (udp_listen (ns_prot_data n), s)
         else if ns_type n = SOCK_PROTO_TCP then tcp_listen (ns_prot_data n) s
         else Some (ERR_INVALID_ARGS, s))"

definition socket_accept ::
  "queue_fns \<Rightarrow> int \<Rightarrow> 'a sock_state_scheme \<Rightarrow> (int \<times> sockaddr option \<times> 'a sock_state_scheme) option" where
  "socket_accept Q sid s =
     (let p = lookup_netsocket sid s; n = netsock s p
      in if p = 0 then Some (ERR_INVALID_HANDLE, None, s)
         else do {
           (err, new_prot, saddr, s1) \<leftarrow>
             (if ns_type n = SOCK_PROTO_UDP then Some (udp_accept (ns_prot_data n), 0, None, s)
              else if ns_type n = SOCK_PROTO_TCP then tcp_accept Q (ns_prot_data n) s
              else Some (ERR_INVALID_ARGS, 0, None, s));
           if err < 0 then Some (err, None, s1)
           else
             let (q, s2) = create_netsocket (ns_type n) new_prot s1
             in Some (if q = 0 then ERR_NO_MEMORY else ns_id (netsock s2 q), saddr, s2)
         })"

text \<open>A round that the protocol would repeat is passed on as the inner \<open>None\<close>.\<close>

definition socket_recvfrom_etc ::
  "bool \<Rightarrow> 'a sock_state_scheme link_output \<Rightarrow> int \<Rightarrow> nat option \<Rightarrow> int \<Rightarrow> int \<Rightarrow> 'a sock_state_scheme \<Rightarrow>
   ((int \<times> packet \<times> sockaddr option) option \<times> 'a sock_state_scheme) option" where
  "socket_recvfrom_etc packed lo err0 fault sid len s =
     (let p = lookup_netsocket sid s; n = netsock s p
      in if p = 0 then Some (Some (ERR_INVALID_HANDLE, [], None), s)
         else if ns_type n = SOCK_PROTO_UDP then udp_recvfrom err0 fault (ns_prot_data n) len s
         else if ns_type n = SOCK_PROTO_TCP then
           map_option (\<lambda>(r, s). (map_option (\<lambda>(k, data). (k, data, None)) r, s))
             (tcp_recvfrom packed lo err0 fault (ns_prot_data n) len s)
         else Some (Some (ERR_INVALID_ARGS, [], None), s))"

text \<open>\<open>addr\<close> is NULL for \<open>socket_write\<close>; UDP dereferences it.\<close>

definition socket_sendto ::
  "bool \<Rightarrow> 'a sock_state_scheme link_output \<Rightarrow> nat option \<Rightarrow> int \<Rightarrow> packet \<Rightarrow> sockaddr option \<Rightarrow> 'a sock_state_scheme \<Rightarrow>
   (int option \<times> 'a sock_state_scheme) option" where
  "socket_sendto packed lo fault sid data addr s =
     (let p = lookup_netsocket sid s; n = netsock s p
      in if p = 0 then Some (Some ERR_INVALID_HANDLE, s)
         else if ns_type n = SOCK_PROTO_UDP then do {
           a \<leftarrow> addr;
           (err, s1) \<leftarrow> udp_sendto packed lo fault (ns_prot_data n) data (int (length data)) a s;
           Some (Some err, s1)
         }
         else if ns_type n = SOCK_PROTO_TCP then tcp_sendto packed lo fault (ns_prot_data n) data s
         else Some (Some ERR_INVALID_ARGS, s))"

definition socket_recvfrom ::
  "bool \<Rightarrow> 'a sock_state_scheme link_output \<Rightarrow> int \<Rightarrow> nat option \<Rightarrow> int \<Rightarrow> int \<Rightarrow> 'a sock_state_scheme \<Rightarrow>
   ((int \<times> packet \<times> sockaddr option) option \<times> 'a sock_state_scheme) option" where
  "socket_recvfrom = socket_recvfrom_etc"

definition socket_read ::
  "bool \<Rightarrow> 'a sock_state_scheme link_output \<Rightarrow> int \<Rightarrow> nat option \<Rightarrow> int \<Rightarrow> int \<Rightarrow> 'a sock_state_scheme \<Rightarrow>
   ((int \<times> packet \<times> sockaddr option) option \<times> 'a sock_state_scheme) option" where
  "socket_read = socket_recvfrom_etc"

definition socket_write ::
  "bool \<Rightarrow> 'a sock_state_scheme link_output \<Rightarrow> nat option \<Rightarrow> int \<Rightarrow> packet \<Rightarrow> 'a sock_state_scheme \<Rightarrow>
   (int option \<times> 'a sock_state_scheme) option" where
  "socket_write packed lo fault sid data = socket_sendto packed lo fault sid data None"

definition socket_close ::
  "bool \<Rightarrow> 'a sock_state_scheme link_output \<Rightarrow> int \<Rightarrow> 'a sock_state_scheme \<Rightarrow> (int \<times> 'a sock_state_scheme) option" where
  "socket_close packed lo sid s =
     (let p = lookup_netsocket sid s; n = netsock s p
      in if p = 0 then Some (ERR_INVALID_HANDLE, s)
         else do {
           (err, s1) \<leftarrow>
             (if ns_type n = SOCK_PROTO_UDP then Some (udp_close (ns_prot_data n) s)
              else if ns_type n = SOCK_PROTO_TCP then tcp_close packed lo (ns_prot_data n) s
              else Some (ERR_INVALID_ARGS, s));
           Some (err, if err \<ge> 0 then snd (destroy_netsocket p s1) else s1)
         })"

definition socket_init :: "'a sock_state_scheme \<Rightarrow> int \<times> 'a sock_state_scheme" where
  "socket_init s =
     (let (t, s1) = kmalloc (s\<lparr>next_sock_id := 0\<rparr>)
      in if t = 0 then (ERR_NO_MEMORY, s1) else (0, s1\<lparr>sock_table := []\<rparr>))"

section \<open>The socket device\<close>

text \<open>The cookie of an open device is the socket it stands for, \<open>-1\<close> for none.  The arguments are the
  union of \<^verbatim>\<open>socket_api.h\<close>, already copied in; a failed copy is the error \<open>Inl\<close>.\<close>

datatype socket_api =
    Api_create int
  | Api_associate int
  | Api_bind sockaddr
  | Api_connect sockaddr
  | Api_listen
  | Api_accept
  | Api_recvfrom int
  | Api_recvfrom_etc int
  | Api_sendto packet "sockaddr option"
  | Api_other

definition socket_dev_open :: "'a net_base_scheme \<Rightarrow> int \<times> int option \<times> 'a net_base_scheme" where
  "socket_dev_open s = (let (p, s1) = kmalloc s in if p = 0 then (ERR_NO_MEMORY, None, s1) else (0, Some (-1), s1))"

definition socket_dev_close ::
  "bool \<Rightarrow> 'a sock_state_scheme link_output \<Rightarrow> int \<Rightarrow> 'a sock_state_scheme \<Rightarrow> (int \<times> 'a sock_state_scheme) option" where
  "socket_dev_close packed lo cookie s = (if cookie \<ge> 0 then socket_close packed lo cookie s else Some (0, s))"

definition socket_dev_seek :: int where "socket_dev_seek = ERR_NOT_ALLOWED"

text \<open>\<open>vfs_open\<close> and \<open>vfs_ioctl\<close> are services: the descriptor opened, and what associating it answers.  The
  result is \<open>err\<close> (\<open>None\<close>: the protocol would wait), the cookie and the data received.\<close>

record vfs_fns =
  vfs_open :: int
  vfs_associate :: "int \<Rightarrow> int \<Rightarrow> int"

definition socket_dev_ioctl ::
  "bool \<Rightarrow> queue_fns \<Rightarrow> vfs_fns \<Rightarrow> 'a sock_state_scheme link_output \<Rightarrow> int \<Rightarrow> nat option \<Rightarrow> int \<Rightarrow> int + socket_api \<Rightarrow>
   'a sock_state_scheme \<Rightarrow> (int option \<times> int \<times> packet \<times> 'a sock_state_scheme) option" where
  "socket_dev_ioctl packed Q V lo err0 fault cookie req s =
     (let ret = map_option (\<lambda>(err, s). (Some err, cookie, [], s));
          recv = map_option (\<lambda>(r, s). (map_option fst r, cookie, case r of None \<Rightarrow> [] | Some (k, d, a) \<Rightarrow> d, s))
      in case req of
           Inl err \<Rightarrow> ret (Some (err, s))
         | Inr op \<Rightarrow>
             if cookie < 0 then
               (case op of
                  Api_create type \<Rightarrow> map_option (\<lambda>(sid, s). (Some sid, sid, [], s)) (socket_create packed lo type s)
                | Api_associate sid \<Rightarrow> Some (Some NO_ERROR, sid, [], s)
                | _ \<Rightarrow> ret (Some (ERR_INVALID_ARGS, s)))
             else
               (case op of
                  Api_bind a \<Rightarrow> ret (socket_bind cookie a s)
                | Api_connect a \<Rightarrow> ret (socket_connect packed lo cookie a s)
                | Api_listen \<Rightarrow> ret (socket_listen cookie s)
                | Api_accept \<Rightarrow> do {
                    (sid, saddr, s1) \<leftarrow> socket_accept Q cookie s;
                    if sid < 0 then Some (Some sid, cookie, [], s1)
                    else
                      let fd = vfs_open V;
                          err = (if fd < 0 then fd else vfs_associate V fd sid)
                      in if err < 0 then do {
                           (e, s2) \<leftarrow> socket_close packed lo sid s1;
                           Some (Some err, cookie, [], s2)
                         }
                         else Some (Some fd, cookie, [], s1)
                  }
                | Api_recvfrom len \<Rightarrow> recv (socket_recvfrom packed lo err0 fault cookie len s)
                | Api_recvfrom_etc len \<Rightarrow> recv (socket_recvfrom_etc packed lo err0 fault cookie len s)
                | Api_sendto data a \<Rightarrow>
                    map_option (\<lambda>(r, s). (r, cookie, [], s)) (socket_sendto packed lo fault cookie data a s)
                | _ \<Rightarrow> ret (Some (ERR_INVALID_ARGS, s))))"

definition socket_dev_read ::
  "bool \<Rightarrow> 'a sock_state_scheme link_output \<Rightarrow> int \<Rightarrow> nat option \<Rightarrow> int \<Rightarrow> int \<Rightarrow> 'a sock_state_scheme \<Rightarrow>
   ((int \<times> packet \<times> sockaddr option) option \<times> 'a sock_state_scheme) option" where
  "socket_dev_read packed lo err0 fault cookie len s =
     (if cookie \<ge> 0 then socket_read packed lo err0 fault cookie len s
      else Some (Some (ERR_NET_NOT_CONNECTED, [], None), s))"

definition socket_dev_write ::
  "bool \<Rightarrow> 'a sock_state_scheme link_output \<Rightarrow> nat option \<Rightarrow> int \<Rightarrow> packet \<Rightarrow> 'a sock_state_scheme \<Rightarrow>
   (int option \<times> 'a sock_state_scheme) option" where
  "socket_dev_write packed lo fault cookie data s =
     (if cookie \<ge> 0 then socket_write packed lo fault cookie data s
      else Some (Some ERR_NET_NOT_CONNECTED, s))"

end
