(* ===== verification/Net_Control.thy ===== *)
theory Net_Control
  imports Socket
begin

text \<open>
  \<^verbatim>\<open>SkyCore/Net/net_control.c\<close>: the control device that creates interfaces and adds addresses and
  routes; and \<^verbatim>\<open>SkyCore/Net/net.c\<close>: bringing the stack up.
\<close>

section \<open>The control device\<close>

record if_control =
  ic_if_name :: string
  ic_if_addr :: netaddr
  ic_mask_addr :: netaddr
  ic_broadcast_addr :: netaddr

record route_control =
  rc_net_addr :: netaddr
  rc_mask_addr :: netaddr
  rc_if_addr :: netaddr
  rc_if_name :: string

datatype net_control_op =
    IF_CREATE if_control
  | IF_DELETE if_control
  | IF_ADDADDR if_control
  | IF_RMADDR if_control
  | IF_LIST
  | ROUTE_ADD route_control
  | ROUTE_DELETE route_control
  | ROUTE_LIST
  | OTHER_OP

text \<open>Does the operation copy arguments in?  \<open>copy_err\<close> is what \<open>user_memcpy\<close> answers then.\<close>

fun copies_args :: "net_control_op \<Rightarrow> bool" where
  "copies_args IF_LIST = False"
| "copies_args ROUTE_LIST = False"
| "copies_args OTHER_OP = False"
| "copies_args _ = True"

definition net_control_dev_ioctl ::
  "kernel \<Rightarrow> int \<Rightarrow> net_control_op \<Rightarrow> 'a ipv4_state_scheme \<Rightarrow> (int \<times> 'a ipv4_state_scheme) option" where
  "net_control_dev_ioctl K copy_err op s =
     (if copies_args op \<and> copy_err < 0 then Some (copy_err, s)
      else case op of
        IF_CREATE c \<Rightarrow> map_option (\<lambda>(err, i, s). (if err < 0 then err else NO_ERROR, s))
                         (if_register_interface K (ic_if_name c) s)
      | IF_DELETE c \<Rightarrow> Some (ERR_UNIMPLEMENTED, s)
      | IF_ADDADDR c \<Rightarrow>
          let i = if_path_to_ifnet (ic_if_name c) s
          in if i = 0 then Some (ERR_NOT_FOUND, s)
             else
               let (a, s1) = kmalloc s
               in if a = 0 then Some (ERR_NO_MEMORY, s1)
                  else Some (NO_ERROR, if_bind_address i \<lparr>ia_addr = ic_if_addr c, ia_netmask = ic_mask_addr c,
                               ia_broadcast = ic_broadcast_addr c\<rparr> s1)
      | IF_RMADDR c \<Rightarrow> Some (ERR_UNIMPLEMENTED, s)
      | IF_LIST \<Rightarrow> Some (ERR_UNIMPLEMENTED, s)
      | ROUTE_ADD r \<Rightarrow>
          if na_type (rc_net_addr r) = ADDR_TYPE_IP then
            let i = if_path_to_ifnet (rc_if_name r) s
            in if i = 0 then Some (ERR_NET_BAD_ADDRESS, s)
               else if NETADDR_TO_IPV4 (rc_mask_addr r) = 0 then
                 Some (NO_ERROR, snd (ipv4_route_add_gateway 0 0 (NETADDR_TO_IPV4 (rc_if_addr r)) (if_id (ifs s i))
                         (NETADDR_TO_IPV4 (rc_net_addr r)) s))
               else Some (NO_ERROR, snd (ipv4_route_add (NETADDR_TO_IPV4 (rc_net_addr r))
                         (NETADDR_TO_IPV4 (rc_mask_addr r)) (NETADDR_TO_IPV4 (rc_if_addr r)) (if_id (ifs s i)) s))
          else Some (ERR_UNIMPLEMENTED, s)
      | ROUTE_DELETE r \<Rightarrow> Some (ERR_UNIMPLEMENTED, s)
      | ROUTE_LIST \<Rightarrow> Some (ERR_UNIMPLEMENTED, s)
      | OTHER_OP \<Rightarrow> Some (ERR_INVALID_ARGS, s))"

definition net_control_dev_open :: "int \<times> ptr" where "net_control_dev_open = (0, 0)"
definition net_control_dev_close :: int where "net_control_dev_close = 0"
definition net_control_dev_seek :: int where "net_control_dev_seek = ERR_NOT_ALLOWED"
definition net_control_dev_read :: int where "net_control_dev_read = ERR_NOT_ALLOWED"
definition net_control_dev_write :: int where "net_control_dev_write = ERR_NOT_ALLOWED"

section \<open>Bringing the stack up\<close>

text \<open>The results of the components' initialisation are ignored.  \<open>rnd1\<close> and \<open>rnd2\<close> are the answers of
  \<open>rand()\<close>, \<open>mutex_err\<close> that of \<open>mutex_init\<close>.\<close>

definition net_init :: "kernel \<Rightarrow> int \<Rightarrow> int \<Rightarrow> int \<Rightarrow> 'a sock_state_scheme \<Rightarrow> (int \<times> 'a sock_state_scheme) option" where
  "net_init K mutex_err rnd1 rnd2 s =
     do {
       let s1 = s\<lparr>timer_q := []\<rparr>;
       let s2 = snd (if_init mutex_err (snd (kmalloc s1)));
       let s3 = snd (arp_init K s2);
       let s4 = snd (ipv4_init s3);
       (err, s5) \<leftarrow> loopback_init K s4;
       let s6 = snd (udp_init rnd1 s5);
       let s7 = snd (tcp_init rnd2 s6);
       let s8 = snd (socket_init s7);
       Some (0, s8)
     }"

end
