(* ===== verification/Sem.thy ===== *)
theory Sem
  imports Net_Prelude "HOL-Library.Monad_Syntax"
begin

text \<open>
  \<^verbatim>\<open>SkyCore/Net/sem.c\<close>: counting semaphores with a queue of blocked threads.  The table is an array
  indexed by slot; a thread is known by a number and its structure carries the fields the semaphores
  use.  The thread-queue routines, which \<^verbatim>\<open>thread2.h\<close> only declares, are the fields of a record.
  Interrupts are off and the spinlocks held throughout an operation, so each is one atomic step; a call
  that blocks is split into the part before \<open>thread_resched\<close> and the part after.
\<close>

section \<open>Structures\<close>

type_synonym tid = nat

definition MAX_SEMS :: nat where "MAX_SEMS = 4096"
definition SYS_MAX_OS_NAME_LEN :: nat where "SYS_MAX_OS_NAME_LEN = 32"
definition SEM_FLAG_NO_RESCHED :: u32 where "SEM_FLAG_NO_RESCHED = 1"
definition SEM_FLAG_TIMEOUT :: u32 where "SEM_FLAG_TIMEOUT = 2"
definition SEM_FLAG_INTERRUPTABLE :: u32 where "SEM_FLAG_INTERRUPTABLE = 4"

datatype thread_state = THREAD_READY | THREAD_RUNNING | THREAD_WAITING

record sem_thread =
  th_state :: thread_state
  th_next_state :: thread_state
  sem_flags :: u32
  sem_blocking :: u32
  sem_acquire_count :: int
  sem_count :: int
  sem_deleted_retcode :: int
  sem_errcode :: int

record sem_entry =
  se_id :: u32
  se_count :: int
  se_q :: "tid list"
  se_name :: "string option"
  se_owner :: int

record sem_table =
  sems :: "nat \<Rightarrow> sem_entry"
  sems_active :: bool
  next_sem :: u32
  sthread :: "tid \<Rightarrow> sem_thread"
  run_q :: "tid list"
  sem_timers :: "(tid \<times> u32 \<times> int) list"

record thread_queue_fns =
  thread_enqueue :: "tid \<Rightarrow> tid list \<Rightarrow> tid list"
  thread_dequeue :: "tid list \<Rightarrow> tid option \<times> tid list"
  thread_lookat :: "tid list \<Rightarrow> tid option"
  thread_unlink :: "tid \<Rightarrow> tid list \<Rightarrow> tid list"

text \<open>The documented behaviour of the queue routines: first in, first out.\<close>

definition fifo :: "thread_queue_fns \<Rightarrow> bool" where
  "fifo T \<longleftrightarrow> (\<forall>t q. thread_enqueue T t q = q @ [t]) \<and> thread_dequeue T [] = (None, []) \<and>
     (\<forall>t q. thread_dequeue T (t # q) = (Some t, q)) \<and> thread_lookat T [] = None \<and>
     (\<forall>t q. thread_lookat T (t # q) = Some t) \<and> (\<forall>t q. thread_unlink T t q = remove1 t q)"

definition upd_sem :: "nat \<Rightarrow> (sem_entry \<Rightarrow> sem_entry) \<Rightarrow> sem_table \<Rightarrow> sem_table" where
  "upd_sem i f s = s\<lparr>sems := (sems s)(i := f (sems s i))\<rparr>"

definition upd_thread :: "tid \<Rightarrow> (sem_thread \<Rightarrow> sem_thread) \<Rightarrow> sem_table \<Rightarrow> sem_table" where
  "upd_thread t f s = s\<lparr>sthread := (sthread s)(t := f (sthread s t))\<rparr>"

abbreviation (input) NO_SEM :: u32 where "NO_SEM \<equiv> -1"

definition sem_slot :: "u32 \<Rightarrow> nat" where "sem_slot i = unat i mod MAX_SEMS"

section \<open>Creation\<close>

definition sem_init :: "int \<Rightarrow> sem_table \<Rightarrow> (int \<times> sem_table) option" where
  "sem_init region s =
     (if region < 0 then None
      else Some (0, s\<lparr>sems := (\<lambda>i. \<lparr>se_id = NO_SEM, se_count = 0, se_q = [], se_name = None, se_owner = 0\<rparr>),
                     sems_active := True\<rparr>))"

function find_free :: "(nat \<Rightarrow> sem_entry) \<Rightarrow> nat \<Rightarrow> nat option" where
  "find_free f i = (if i < MAX_SEMS then if se_id (f i) = NO_SEM then Some i else find_free f (Suc i) else None)"
  by auto
termination by (relation "measure (\<lambda>(f, i). MAX_SEMS - i)") auto

declare find_free.simps [simp del]

text \<open>The identifier a slot gets: the next number that is congruent to the slot.\<close>

definition sem_new_id :: "nat \<Rightarrow> u32 \<Rightarrow> u32" where
  "sem_new_id i n =
     (if i \<ge> unat n mod MAX_SEMS then n + of_nat (i - unat n mod MAX_SEMS)
      else n + of_nat (MAX_SEMS - (unat n mod MAX_SEMS - i)))"

text \<open>\<open>name\<close> is copied with \<open>strcpy\<close> into a block of at most 32 bytes: a longer one overruns it.  Error
  codes come back as the unsigned identifier.\<close>

definition sem_create_etc ::
  "bool \<Rightarrow> int \<Rightarrow> string option \<Rightarrow> int \<Rightarrow> sem_table \<Rightarrow> (u32 \<times> sem_table) option" where
  "sem_create_etc malloc_ok cnt name owner s =
     (if \<not> sems_active s then Some (word_of_int ERR_SEM_NOT_ACTIVE, s)
      else
        let nm = (case name of None \<Rightarrow> ''unnamed sem'' | Some n \<Rightarrow> n);
            name_len = min (length nm + 1) SYS_MAX_OS_NAME_LEN
        in if \<not> malloc_ok then Some (word_of_int ERR_NO_MEMORY, s)
           else if length nm + 1 > name_len then None
           else case find_free (sems s) 0 of
             None \<Rightarrow> Some (word_of_int ERR_SEM_OUT_OF_SLOTS, s)
           | Some i \<Rightarrow>
               let sid = sem_new_id i (next_sem s)
               in Some (sid, (upd_sem i (\<lambda>_. \<lparr>se_id = sid, se_count = cnt, se_q = [], se_name = Some nm,
                                se_owner = owner\<rparr>) s)\<lparr>next_sem := sid + 1\<rparr>))"

definition sem_create :: "bool \<Rightarrow> int \<Rightarrow> string option \<Rightarrow> int \<Rightarrow> sem_table \<Rightarrow> (u32 \<times> sem_table) option" where
  "sem_create malloc_ok cnt name kernel_proc = sem_create_etc malloc_ok cnt name kernel_proc"

section \<open>Deletion\<close>

text \<open>\<open>id < 0\<close> is never true of an unsigned identifier, so that test has no branch below.\<close>

partial_function (option) delete_waiters ::
  "thread_queue_fns \<Rightarrow> nat \<Rightarrow> int \<Rightarrow> tid list \<Rightarrow> sem_table \<Rightarrow> (tid list \<times> sem_table) option" where
  "delete_waiters T i retcode released s =
     (let (t, q) = thread_dequeue T (se_q (sems s i));
          s1 = upd_sem i (\<lambda>e. e\<lparr>se_q := q\<rparr>) s
      in case t of
           None \<Rightarrow> Some (released, s1)
         | Some t \<Rightarrow> delete_waiters T i retcode (thread_enqueue T t released)
             (upd_thread t (\<lambda>x. x\<lparr>th_state := THREAD_READY, sem_errcode := ERR_SEM_DELETED,
                sem_deleted_retcode := retcode, sem_count := 0\<rparr>) s1))"

partial_function (option) run_released :: "thread_queue_fns \<Rightarrow> tid list \<Rightarrow> sem_table \<Rightarrow> sem_table option" where
  "run_released T q s =
     (let (t, q1) = thread_dequeue T q
      in case t of None \<Rightarrow> Some s | Some t \<Rightarrow> run_released T q1 (s\<lparr>run_q := run_q s @ [t]\<rparr>))"

definition sem_delete_etc :: "thread_queue_fns \<Rightarrow> u32 \<Rightarrow> int \<Rightarrow> sem_table \<Rightarrow> (int \<times> sem_table) option" where
  "sem_delete_etc T sid return_code s =
     (if \<not> sems_active s then Some (ERR_SEM_NOT_ACTIVE, s)
      else
        let i = sem_slot sid
        in if se_id (sems s i) \<noteq> sid then Some (ERR_INVALID_HANDLE, s)
           else do {
             (released, s1) \<leftarrow> delete_waiters T i return_code [] s;
             s2 \<leftarrow> run_released T released (upd_sem i (\<lambda>e. e\<lparr>se_id := NO_SEM, se_name := None\<rparr>) s1);
             Some (NO_ERROR, s2)
           })"

definition sem_delete :: "thread_queue_fns \<Rightarrow> u32 \<Rightarrow> sem_table \<Rightarrow> (int \<times> sem_table) option" where
  "sem_delete T sid = sem_delete_etc T sid 0"

section \<open>Removal of a thread\<close>

text \<open>The wake-up loop of \<open>remove_thread_from_sem\<close>.  It measures and decrements the cnt of \<open>t\<close>, the
  thread removed, not of \<open>t1\<close>, the head of the queue, until the first wake-up rebinds \<open>t\<close>.\<close>

partial_function (option) remove_loop ::
  "thread_queue_fns \<Rightarrow> nat \<Rightarrow> tid \<Rightarrow> tid list \<Rightarrow> sem_table \<Rightarrow> (tid list \<times> sem_table) option" where
  "remove_loop T i t queue s =
     (if se_count (sems s i) > 0 \<and> thread_lookat T (se_q (sems s i)) \<noteq> None then
        let delta = min (sem_count (sthread s t)) (se_count (sems s i));
            s1 = upd_thread t (\<lambda>x. x\<lparr>sem_count := sem_count x - delta\<rparr>) s
        in if sem_count (sthread s1 t) \<le> 0 then
             let (t', q) = thread_dequeue T (se_q (sems s1 i))
             in do {
               t2 \<leftarrow> t';
               let s2 = upd_thread t2 (\<lambda>x. x\<lparr>th_state := THREAD_READY\<rparr>) (upd_sem i (\<lambda>e. e\<lparr>se_q := q\<rparr>) s1);
               remove_loop T i t2 (thread_enqueue T t2 queue) (upd_sem i (\<lambda>e. e\<lparr>se_count := se_count e - delta\<rparr>) s2)
             }
           else remove_loop T i t queue (upd_sem i (\<lambda>e. e\<lparr>se_count := se_count e - delta\<rparr>) s1)
      else Some (queue, s))"

definition remove_thread_from_sem ::
  "thread_queue_fns \<Rightarrow> tid \<Rightarrow> nat \<Rightarrow> tid list \<Rightarrow> int \<Rightarrow> sem_table \<Rightarrow> (int \<times> tid list \<times> sem_table) option" where
  "remove_thread_from_sem T t i queue errcode s =
     (let s1 = upd_sem i (\<lambda>e. e\<lparr>se_q := thread_unlink T t (se_q e),
                 se_count := se_count e + sem_acquire_count (sthread s t)\<rparr>) s;
          s2 = upd_thread t (\<lambda>x. x\<lparr>th_state := THREAD_READY, sem_errcode := errcode\<rparr>) s1
      in map_option (\<lambda>(q, s). (NO_ERROR, q, s)) (remove_loop T i t (thread_enqueue T t queue) s2))"

text \<open>The timer handler; \<open>exists\<close> says whether the thread is still known.  A semaphore gone is a
  \<open>panic\<close>.  The result is whether to reschedule.\<close>

definition sem_timeout :: "thread_queue_fns \<Rightarrow> bool \<Rightarrow> tid \<Rightarrow> u32 \<Rightarrow> sem_table \<Rightarrow> (bool \<times> sem_table) option" where
  "sem_timeout T exists t sid s =
     (if \<not> exists then Some (False, s)
      else
        let i = sem_slot sid
        in if se_id (sems s i) \<noteq> sid then None
           else do {
             (e, q, s1) \<leftarrow> remove_thread_from_sem T t i [] ERR_SEM_TIMED_OUT s;
             s2 \<leftarrow> run_released T q s1;
             Some (True, s2)
           })"

definition sem_interrupt_thread :: "thread_queue_fns \<Rightarrow> tid \<Rightarrow> sem_table \<Rightarrow> (int \<times> sem_table) option" where
  "sem_interrupt_thread T t s =
     (let x = sthread s t
      in if th_state x \<noteq> THREAD_WAITING then Some (ERR_INVALID_ARGS, s)
         else if sem_flags x AND SEM_FLAG_INTERRUPTABLE = 0 then Some (ERR_SEM_NOT_INTERRUPTABLE, s)
         else
           let i = sem_slot (sem_blocking x)
           in if se_id (sems s i) \<noteq> sem_blocking x then None
              else do {
                (e, q, s1) \<leftarrow> remove_thread_from_sem T t i [] ERR_INTERRUPTED s;
                s2 \<leftarrow> run_released T q s1;
                Some (NO_ERROR, s2)
              })"

section \<open>Acquiring\<close>

text \<open>\<open>Inl err\<close>: the call returns; \<open>Inr ()\<close>: thread \<open>t\<close> has been queued and gives up the processor.\<close>

definition sem_acquire_start ::
  "thread_queue_fns \<Rightarrow> tid \<Rightarrow> u32 \<Rightarrow> int \<Rightarrow> u32 \<Rightarrow> int \<Rightarrow> sem_table \<Rightarrow> ((int + unit) \<times> sem_table) option" where
  "sem_acquire_start T t sid cnt flags timeout s =
     (let i = sem_slot sid
      in if \<not> sems_active s then Some (Inl ERR_SEM_NOT_ACTIVE, s)
         else if cnt \<le> 0 then Some (Inl ERR_INVALID_ARGS, s)
         else if se_id (sems s i) \<noteq> sid then Some (Inl ERR_INVALID_HANDLE, s)
         else if se_count (sems s i) - cnt < 0 \<and> flags AND SEM_FLAG_TIMEOUT \<noteq> 0 \<and> timeout \<le> 0
         then Some (Inl ERR_SEM_TIMED_OUT, s)
         else
           let s1 = upd_sem i (\<lambda>e. e\<lparr>se_count := se_count e - cnt\<rparr>) s
           in if se_count (sems s1 i) \<ge> 0 then Some (Inl 0, s1)
              else if flags AND SEM_FLAG_INTERRUPTABLE \<noteq> 0
              then Some (Inl ERR_INTERRUPTED, upd_sem i (\<lambda>e. e\<lparr>se_count := se_count e + cnt\<rparr>) s1)
              else
                let s2 = upd_thread t (\<lambda>x. x\<lparr>th_next_state := THREAD_WAITING, sem_flags := flags, sem_blocking := sid,
                           sem_acquire_count := cnt, sem_count := min (- se_count (sems s1 i)) cnt,
                           sem_deleted_retcode := 0, sem_errcode := NO_ERROR\<rparr>) s1;
                    s3 = upd_sem i (\<lambda>e. e\<lparr>se_q := thread_enqueue T t (se_q e)\<rparr>) s2;
                    s4 = (if flags AND SEM_FLAG_TIMEOUT \<noteq> 0
                          then s3\<lparr>sem_timers := (t, sid, timeout) # sem_timers s3\<rparr> else s3)
                in Some (Inr (), upd_thread t (\<lambda>x. x\<lparr>th_state := th_next_state x\<rparr>) s4))"

text \<open>After the thread runs again: the timer is cancelled unless it fired, and the result is
  \<open>sem_errcode\<close>, with what \<open>*deleted_retcode\<close> gets.\<close>

definition sem_acquire_finish :: "tid \<Rightarrow> sem_table \<Rightarrow> int \<times> int \<times> sem_table" where
  "sem_acquire_finish t s =
     (let x = sthread s t
      in (sem_errcode x, sem_deleted_retcode x,
          if sem_flags x AND SEM_FLAG_TIMEOUT \<noteq> 0 \<and> sem_errcode x \<noteq> ERR_SEM_TIMED_OUT
          then s\<lparr>sem_timers := filter (\<lambda>(t', r). t' \<noteq> t) (sem_timers s)\<rparr> else s))"

definition sem_acquire :: "thread_queue_fns \<Rightarrow> tid \<Rightarrow> u32 \<Rightarrow> int \<Rightarrow> sem_table \<Rightarrow> ((int + unit) \<times> sem_table) option" where
  "sem_acquire T t sid cnt = sem_acquire_start T t sid cnt 0 0"

section \<open>Releasing\<close>

partial_function (option) release_loop ::
  "thread_queue_fns \<Rightarrow> nat \<Rightarrow> int \<Rightarrow> tid list \<Rightarrow> sem_table \<Rightarrow> (tid list \<times> sem_table) option" where
  "release_loop T i cnt released s =
     (if cnt > 0 then
        if se_count (sems s i) < 0 then do {
          t \<leftarrow> thread_lookat T (se_q (sems s i));
          let delta = min cnt (sem_count (sthread s t));
          let s1 = upd_thread t (\<lambda>x. x\<lparr>sem_count := sem_count x - delta\<rparr>) s;
          if sem_count (sthread s1 t) \<le> 0 then
            let (t', q) = thread_dequeue T (se_q (sems s1 i))
            in do {
              t2 \<leftarrow> t';
              let s2 = upd_thread t2 (\<lambda>x. x\<lparr>th_state := THREAD_READY, sem_count := 0, sem_deleted_retcode := 0\<rparr>)
                         (upd_sem i (\<lambda>e. e\<lparr>se_q := q, se_count := se_count e + delta\<rparr>) s1);
              release_loop T i (cnt - delta) (thread_enqueue T t2 released) s2
            }
          else release_loop T i (cnt - delta) released (upd_sem i (\<lambda>e. e\<lparr>se_count := se_count e + delta\<rparr>) s1)
        }
        else release_loop T i 0 released (upd_sem i (\<lambda>e. e\<lparr>se_count := se_count e + cnt\<rparr>) s)
      else Some (released, s))"

definition sem_release_etc :: "thread_queue_fns \<Rightarrow> u32 \<Rightarrow> int \<Rightarrow> u32 \<Rightarrow> sem_table \<Rightarrow> (int \<times> sem_table) option" where
  "sem_release_etc T sid cnt flags s =
     (let i = sem_slot sid
      in if \<not> sems_active s then Some (ERR_SEM_NOT_ACTIVE, s)
         else if cnt \<le> 0 then Some (ERR_INVALID_ARGS, s)
         else if se_id (sems s i) \<noteq> sid then Some (ERR_INVALID_HANDLE, s)
         else do {
           (released, s1) \<leftarrow> release_loop T i cnt [] s;
           s2 \<leftarrow> run_released T released s1;
           Some (0, s2)
         })"

definition sem_release :: "thread_queue_fns \<Rightarrow> u32 \<Rightarrow> int \<Rightarrow> sem_table \<Rightarrow> (int \<times> sem_table) option" where
  "sem_release T sid cnt = sem_release_etc T sid cnt 0"

section \<open>Inspection and ownership\<close>

record sem_info =
  si_sem :: u32
  si_proc :: int
  si_name :: string
  si_count :: int
  si_latest_holder :: int

definition sem_get_count :: "u32 \<Rightarrow> bool \<Rightarrow> sem_table \<Rightarrow> int \<times> int option" where
  "sem_get_count sid dest s =
     (if \<not> sems_active s then (ERR_SEM_NOT_ACTIVE, None)
      else if \<not> dest then (ERR_INVALID_ARGS, None)
      else if se_id (sems s (sem_slot sid)) \<noteq> sid then (ERR_INVALID_HANDLE, None)
      else (NO_ERROR, Some (se_count (sems s (sem_slot sid)))))"

text \<open>\<open>strncpy\<close> of the name, at most 31 characters.\<close>

definition entry_info :: "sem_entry \<Rightarrow> sem_info" where
  "entry_info e = \<lparr>si_sem = se_id e, si_proc = se_owner e,
     si_name = take (SYS_MAX_OS_NAME_LEN - 1) (case se_name e of None \<Rightarrow> [] | Some n \<Rightarrow> n),
     si_count = se_count e, si_latest_holder = -1\<rparr>"

definition sem_get_sem_info :: "u32 \<Rightarrow> bool \<Rightarrow> sem_table \<Rightarrow> int \<times> sem_info option" where
  "sem_get_sem_info sid dest s =
     (if \<not> sems_active s then (ERR_SEM_NOT_ACTIVE, None)
      else if \<not> dest then (ERR_INVALID_ARGS, None)
      else if se_id (sems s (sem_slot sid)) \<noteq> sid then (ERR_INVALID_HANDLE, None)
      else (NO_ERROR, Some (entry_info (sems s (sem_slot sid)))))"

text \<open>The scan for the next semaphore of a process: the slot after the one found, and its data.\<close>

function find_owned :: "(nat \<Rightarrow> sem_entry) \<Rightarrow> int \<Rightarrow> nat \<Rightarrow> nat \<times> sem_info option" where
  "find_owned f proc slot =
     (if slot < MAX_SEMS then
        if se_id (f slot) \<noteq> NO_SEM \<and> se_owner (f slot) = proc then (Suc slot, Some (entry_info (f slot)))
        else find_owned f proc (Suc slot)
      else (slot, None))"
  by auto
termination by (relation "measure (\<lambda>(f, p, i). MAX_SEMS - i)") auto

declare find_owned.simps [simp del]

text \<open>A semaphore found in the very last slot is reported as not found: the cookie is MAX_SEMS then.\<close>

definition sem_get_next_sem_info ::
  "int \<Rightarrow> nat option \<Rightarrow> sem_table \<Rightarrow> int \<times> nat option \<times> sem_info option" where
  "sem_get_next_sem_info proc cookie s =
     (if \<not> sems_active s then (ERR_SEM_NOT_ACTIVE, cookie, None)
      else case cookie of
        None \<Rightarrow> (ERR_INVALID_ARGS, None, None)
      | Some c \<Rightarrow>
          if proc < 0 then (ERR_INVALID_ARGS, cookie, None)
          else if c \<ge> MAX_SEMS then (ERR_INVALID_HANDLE, cookie, None)
          else
            let (slot, info) = find_owned (sems s) proc c
            in if slot = MAX_SEMS then (ERR_SEM_NOT_FOUND, cookie, info)
               else (NO_ERROR, Some slot, info))"

definition set_sem_owner :: "u32 \<Rightarrow> int \<Rightarrow> sem_table \<Rightarrow> int \<times> sem_table" where
  "set_sem_owner sid proc s =
     (if \<not> sems_active s then (ERR_SEM_NOT_ACTIVE, s)
      else if proc < 0 then (ERR_INVALID_ARGS, s)
      else if se_id (sems s (sem_slot sid)) \<noteq> sid then (ERR_INVALID_HANDLE, s)
      else (NO_ERROR, upd_sem (sem_slot sid) (\<lambda>e. e\<lparr>se_owner := proc\<rparr>) s))"

text \<open>The loop of \<open>sem_delete_owned_sems\<close> from slot \<open>i\<close>; the locks are dropped around each deletion.\<close>

function delete_owned :: "thread_queue_fns \<Rightarrow> int \<Rightarrow> nat \<Rightarrow> int \<Rightarrow> sem_table \<Rightarrow> (int \<times> sem_table) option" where
  "delete_owned T owner i cnt s =
     (if i < MAX_SEMS then
        if se_id (sems s i) \<noteq> NO_SEM \<and> se_owner (sems s i) = owner then
          (case sem_delete_etc T (se_id (sems s i)) 0 s of
             None \<Rightarrow> None
           | Some (e, s1) \<Rightarrow> delete_owned T owner (Suc i) (cnt + 1) s1)
        else delete_owned T owner (Suc i) cnt s
      else Some (cnt, s))"
  by auto
termination by (relation "measure (\<lambda>(T, ow, i, c, s). MAX_SEMS - i)") auto

declare delete_owned.simps [simp del]

definition sem_delete_owned_sems :: "thread_queue_fns \<Rightarrow> int \<Rightarrow> sem_table \<Rightarrow> (int \<times> sem_table) option" where
  "sem_delete_owned_sems T owner s =
     (if owner < 0 then Some (ERR_INVALID_HANDLE, s) else delete_owned T owner 0 0 s)"

end
