(* ===== verification/Lock.thy ===== *)
theory Lock
  imports Sem
begin

text \<open>
  \<^verbatim>\<open>SkyCore/Net/lock.c\<close>: mutexes and recursive locks on top of the semaphores.  \<open>me\<close> is the calling
  thread; a lock is a value that each operation returns updated.  A call that blocks on the semaphore
  returns \<open>False\<close> and is completed by its \<open>_resume\<close> part when the thread runs again.  \<open>None\<close> is a
  \<open>panic\<close>.
\<close>

record mutex =
  m_holder :: int
  m_sem :: u32

record recursive_lock =
  rl_holder :: int
  rl_sem :: u32
  rl_recursion :: int

section \<open>Mutexes\<close>

text \<open>The identifier is unsigned, so \<open>m->sem < 0\<close> is never true and errors of \<open>sem_create\<close> are stored
  as the semaphore.\<close>

definition mutex_init :: "bool \<Rightarrow> string option \<Rightarrow> int \<Rightarrow> mutex option \<Rightarrow> sem_table \<Rightarrow> (int \<times> mutex option \<times> sem_table) option" where
  "mutex_init malloc_ok in_name kernel_proc m s =
     (case m of
        None \<Rightarrow> Some (ERR_INVALID_ARGS, None, s)
      | Some m \<Rightarrow> do {
          (sid, s1) \<leftarrow> sem_create malloc_ok 1 (Some (case in_name of None \<Rightarrow> ''mutex_sem'' | Some n \<Rightarrow> n)) kernel_proc s;
          Some (0, Some (m\<lparr>m_holder := -1, m_sem := sid\<rparr>), s1)
        })"

definition mutex_destroy :: "thread_queue_fns \<Rightarrow> mutex \<Rightarrow> sem_table \<Rightarrow> (mutex \<times> sem_table) option" where
  "mutex_destroy T m s =
     do {
       (err, s1) \<leftarrow> sem_delete T (m_sem m) s;
       Some (m\<lparr>m_sem := -1, m_holder := -1\<rparr>, s1)
     }"

definition mutex_lock :: "thread_queue_fns \<Rightarrow> tid \<Rightarrow> mutex \<Rightarrow> sem_table \<Rightarrow> (bool \<times> mutex \<times> sem_table) option" where
  "mutex_lock T me m s =
     (if int me = m_holder m then None
      else do {
        (r, s1) \<leftarrow> sem_acquire T me (m_sem m) 1 s;
        Some (case r of Inl err \<Rightarrow> (True, m\<lparr>m_holder := int me\<rparr>, s1) | Inr _ \<Rightarrow> (False, m, s1))
      })"

definition mutex_lock_resume :: "tid \<Rightarrow> mutex \<Rightarrow> sem_table \<Rightarrow> mutex \<times> sem_table" where
  "mutex_lock_resume me m s = (let (err, ret, s1) = sem_acquire_finish me s in (m\<lparr>m_holder := int me\<rparr>, s1))"

definition mutex_unlock :: "thread_queue_fns \<Rightarrow> tid \<Rightarrow> mutex \<Rightarrow> sem_table \<Rightarrow> (mutex \<times> sem_table) option" where
  "mutex_unlock T me m s =
     (if int me \<noteq> m_holder m then None
      else do {
        (err, s1) \<leftarrow> sem_release T (m_sem m) 1 s;
        Some (m\<lparr>m_holder := -1\<rparr>, s1)
      })"

section \<open>Recursive locks\<close>

definition recursive_lock_get_recursion :: "tid \<Rightarrow> recursive_lock \<Rightarrow> int" where
  "recursive_lock_get_recursion me l = (if rl_holder l = int me then rl_recursion l else -1)"

definition recursive_lock_create ::
  "bool \<Rightarrow> int \<Rightarrow> recursive_lock option \<Rightarrow> sem_table \<Rightarrow> (int \<times> recursive_lock option \<times> sem_table) option" where
  "recursive_lock_create malloc_ok kernel_proc l s =
     (case l of
        None \<Rightarrow> Some (ERR_INVALID_ARGS, None, s)
      | Some l \<Rightarrow> do {
          (sid, s1) \<leftarrow> sem_create malloc_ok 1 (Some ''recursive_lock_sem'') kernel_proc s;
          Some (NO_ERROR, Some (l\<lparr>rl_holder := -1, rl_recursion := 0, rl_sem := sid\<rparr>), s1)
        })"

definition recursive_lock_destroy ::
  "thread_queue_fns \<Rightarrow> recursive_lock option \<Rightarrow> sem_table \<Rightarrow> (recursive_lock option \<times> sem_table) option" where
  "recursive_lock_destroy T l s =
     (case l of
        None \<Rightarrow> Some (None, s)
      | Some l \<Rightarrow> do {
          s1 \<leftarrow> (if rl_sem l > 0 then map_option snd (sem_delete T (rl_sem l) s) else Some s);
          Some (Some (l\<lparr>rl_sem := -1\<rparr>), s1)
        })"

text \<open>The first component: \<open>None\<close> when the thread blocks, otherwise the result.\<close>

definition recursive_lock_lock ::
  "thread_queue_fns \<Rightarrow> tid \<Rightarrow> recursive_lock \<Rightarrow> sem_table \<Rightarrow> (bool option \<times> recursive_lock \<times> sem_table) option" where
  "recursive_lock_lock T me l s =
     (if int me \<noteq> rl_holder l then do {
        (r, s1) \<leftarrow> sem_acquire T me (rl_sem l) 1 s;
        Some (case r of
                Inl err \<Rightarrow> (Some True, l\<lparr>rl_holder := int me, rl_recursion := rl_recursion l + 1\<rparr>, s1)
              | Inr _ \<Rightarrow> (None, l, s1))
      }
      else Some (Some False, l\<lparr>rl_recursion := rl_recursion l + 1\<rparr>, s))"

definition recursive_lock_resume :: "tid \<Rightarrow> recursive_lock \<Rightarrow> sem_table \<Rightarrow> bool \<times> recursive_lock \<times> sem_table" where
  "recursive_lock_resume me l s =
     (let (err, ret, s1) = sem_acquire_finish me s
      in (True, l\<lparr>rl_holder := int me, rl_recursion := rl_recursion l + 1\<rparr>, s1))"

definition recursive_lock_unlock ::
  "thread_queue_fns \<Rightarrow> tid \<Rightarrow> recursive_lock \<Rightarrow> sem_table \<Rightarrow> (bool \<times> recursive_lock \<times> sem_table) option" where
  "recursive_lock_unlock T me l s =
     (if int me \<noteq> rl_holder l then None
      else
        let l1 = l\<lparr>rl_recursion := rl_recursion l - 1\<rparr>
        in if rl_recursion l1 = 0 then do {
             (err, s1) \<leftarrow> sem_release T (rl_sem l1) 1 s;
             Some (True, l1\<lparr>rl_holder := -1\<rparr>, s1)
           }
           else Some (False, l1, s))"

end
