(* ===== verification/Sem_Props.thy ===== *)
theory Sem_Props
  imports Sem
begin

text \<open>
  The invariant of the semaphore table and what the operations do to it: a negative count is the
  number of units the queued threads still wait for, and a slot's identifier is congruent to its index.
\<close>

section \<open>The invariant\<close>

definition waiting :: "(tid \<Rightarrow> sem_thread) \<Rightarrow> tid list \<Rightarrow> int \<Rightarrow> bool" where
  "waiting f q c \<longleftrightarrow> distinct q \<and> (\<forall>t \<in> set q. sem_count (f t) \<ge> 1) \<and>
     (if c < 0 then - c = sum_list (map (\<lambda>t. sem_count (f t)) q) else q = [])"

text \<open>A free slot has no waiters; its count is whatever the deleted semaphore left.\<close>

definition slot_ok :: "(tid \<Rightarrow> sem_thread) \<Rightarrow> sem_entry \<Rightarrow> bool" where
  "slot_ok f e \<longleftrightarrow> (if se_id e = NO_SEM then se_q e = [] else waiting f (se_q e) (se_count e))"

definition sem_inv :: "sem_table \<Rightarrow> bool" where
  "sem_inv s \<longleftrightarrow> (\<forall>i < MAX_SEMS. slot_ok (sthread s) (sems s i)) \<and>
     (\<forall>i < MAX_SEMS. \<forall>j < MAX_SEMS. i \<noteq> j \<longrightarrow> set (se_q (sems s i)) \<inter> set (se_q (sems s j)) = {}) \<and>
     (\<forall>i < MAX_SEMS. se_id (sems s i) \<noteq> NO_SEM \<longrightarrow> sem_slot (se_id (sems s i)) = i)"

text \<open>Is the thread queued anywhere?\<close>

definition blocked :: "tid \<Rightarrow> sem_table \<Rightarrow> bool" where
  "blocked t s \<longleftrightarrow> (\<exists>i < MAX_SEMS. t \<in> set (se_q (sems s i)))"

lemma sem_slot_less [simp]: "sem_slot x < MAX_SEMS"
  by (simp add: sem_slot_def MAX_SEMS_def)

lemma upd_sem_simps [simp]:
  "sems (upd_sem i f s) = (sems s)(i := f (sems s i))"
  "sthread (upd_sem i f s) = sthread s" "run_q (upd_sem i f s) = run_q s"
  "sems_active (upd_sem i f s) = sems_active s" "sem_timers (upd_sem i f s) = sem_timers s"
  "next_sem (upd_sem i f s) = next_sem s"
  by (simp_all add: upd_sem_def)

lemma upd_thread_simps [simp]:
  "sthread (upd_thread t f s) = (sthread s)(t := f (sthread s t))"
  "sems (upd_thread t f s) = sems s" "run_q (upd_thread t f s) = run_q s"
  "sems_active (upd_thread t f s) = sems_active s" "sem_timers (upd_thread t f s) = sem_timers s"
  "next_sem (upd_thread t f s) = next_sem s"
  by (simp_all add: upd_thread_def)

lemma fifo_simps:
  assumes "fifo T"
  shows "thread_enqueue T t q = q @ [t]" "thread_dequeue T [] = (None, [])"
    "thread_dequeue T (t # q) = (Some t, q)" "thread_lookat T [] = None" "thread_lookat T (t # q) = Some t"
    "thread_unlink T t q = remove1 t q"
  using assms by (simp_all add: fifo_def)

lemma waiting_cong:
  assumes "\<And>t. t \<in> set q \<Longrightarrow> sem_count (f t) = sem_count (g t)"
  shows "waiting f q c = waiting g q c"
proof -
  have "map (\<lambda>t. sem_count (f t)) q = map (\<lambda>t. sem_count (g t)) q"
    using assms by simp
  then show ?thesis
    using assms unfolding waiting_def by (simp del: map_eq_conv cong: ball_cong)
qed

lemma waiting_upd [simp]: "t \<notin> set q \<Longrightarrow> waiting (f(t := x)) q c = waiting f q c"
  by (rule waiting_cong) auto

lemma sum_waiting_nonneg: "(\<And>t. t \<in> set q \<Longrightarrow> g t \<ge> (1 :: int)) \<Longrightarrow> sum_list (map g q) \<ge> int (length q)"
  by (induction q) fastforce+

lemma waiting_neg: "waiting f q c \<Longrightarrow> c < 0 \<Longrightarrow> \<exists>t r. q = t # r"
  by (cases q) (auto simp: waiting_def)

lemma waiting_count_nonneg: "waiting f q c \<Longrightarrow> q = [] \<longleftrightarrow> 0 \<le> c"
  using sum_waiting_nonneg [of q "\<lambda>t. sem_count (f t)"] by (cases q) (auto simp: waiting_def split: if_splits)

section \<open>Releasing\<close>

text \<open>What the loop does on slot \<open>i\<close>: it takes a prefix off the queue, makes its threads ready and adds
  the units to the count.\<close>

definition woken_state :: "sem_table \<Rightarrow> nat \<Rightarrow> tid list \<Rightarrow> tid list \<Rightarrow> int \<Rightarrow> sem_table \<Rightarrow> bool" where
  "woken_state s i woken rest c s' \<longleftrightarrow> se_q (sems s i) = woken @ rest \<and>
     sems s' = (sems s)(i := (sems s i)\<lparr>se_q := rest, se_count := c\<rparr>) \<and>
     waiting (sthread s') rest c \<and> run_q s' = run_q s \<and> sems_active s' = sems_active s \<and> next_sem s' = next_sem s \<and>
     (\<forall>t. t \<notin> set (se_q (sems s i)) \<longrightarrow> sthread s' t = sthread s t) \<and>
     (\<forall>t \<in> set woken. th_state (sthread s' t) = THREAD_READY \<and> sem_count (sthread s' t) = 0 \<and>
        sem_errcode (sthread s' t) = sem_errcode (sthread s t))"

lemma release_loop_done: "release_loop T i 0 released s = Some (released, s)"
  by (subst release_loop.simps) simp

lemma release_loop_spec:
  assumes T: "fifo T"
  shows "waiting (sthread s) (se_q (sems s i)) (se_count (sems s i)) \<Longrightarrow> 0 \<le> cnt \<Longrightarrow>
    \<exists>woken rest s'. release_loop T i cnt released s = Some (released @ woken, s') \<and>
      woken_state s i woken rest (se_count (sems s i) + cnt) s'"
proof (induction "length (se_q (sems s i))" arbitrary: cnt released s)
  case 0
  then have q: "se_q (sems s i) = []" "0 \<le> se_count (sems s i)"
    using waiting_count_nonneg by auto
  show ?case
  proof (cases "cnt = 0")
    case True
    then show ?thesis
      using q by (auto simp: release_loop_done woken_state_def waiting_def)
  next
    case False
    then have "release_loop T i cnt released s = Some (released, upd_sem i (\<lambda>e. e\<lparr>se_count := se_count e + cnt\<rparr>) s)"
      using q 0 by (subst release_loop.simps) (simp add: release_loop_done)
    then show ?thesis
      using q 0 by (auto simp: woken_state_def waiting_def)
  qed
next
  case (Suc n)
  then obtain t r where q: "se_q (sems s i) = t # r" "length r = n"
    by (metis length_Suc_conv)
  have neg: "se_count (sems s i) < 0"
    using Suc.prems(1) q(1) waiting_count_nonneg by fastforce
  let ?m = "sem_count (sthread s t)"
  have w: "distinct (t # r)" "?m \<ge> 1" "\<forall>x \<in> set r. sem_count (sthread s x) \<ge> 1"
      "- se_count (sems s i) = ?m + sum_list (map (\<lambda>x. sem_count (sthread s x)) r)"
    using Suc.prems(1) q(1) neg by (auto simp: waiting_def)
  have rest: "waiting (sthread s) r (se_count (sems s i) + ?m)"
    using w sum_waiting_nonneg [of r "\<lambda>x. sem_count (sthread s x)"]
    by (cases "r = []") (auto simp: waiting_def neq_Nil_conv)
  consider "cnt = 0" | "0 < cnt" "cnt < ?m" | "0 < cnt" "?m \<le> cnt"
    using Suc.prems(2) by linarith
  then show ?case
  proof cases
    case 1
    then show ?thesis
      using Suc.prems(1) by (auto simp: release_loop_done woken_state_def intro!: exI [of _ "[]"])
  next
    case 2
    then have eq: "release_loop T i cnt released s = Some (released,
        upd_sem i (\<lambda>e. e\<lparr>se_count := se_count e + cnt\<rparr>) (upd_thread t (\<lambda>x. x\<lparr>sem_count := ?m - cnt\<rparr>) s))"
      using neg q(1) by (subst release_loop.simps) (simp add: release_loop_done fifo_simps [OF T] Let_def)
    have "waiting ((sthread s)(t := (sthread s t)\<lparr>sem_count := ?m - cnt\<rparr>)) (t # r) (se_count (sems s i) + cnt)"
    proof -
      have "map (\<lambda>x. sem_count (((sthread s)(t := (sthread s t)\<lparr>sem_count := ?m - cnt\<rparr>)) x)) r =
          map (\<lambda>x. sem_count (sthread s x)) r"
        using w(1) by auto
      then show ?thesis
        using w 2 sum_waiting_nonneg [of r "\<lambda>x. sem_count (sthread s x)"]
        unfolding waiting_def by (simp del: map_eq_conv)
    qed
    have wt: "waiting ((sthread s)(t := (sthread s t)\<lparr>sem_count := ?m - cnt\<rparr>)) (t # r) (se_count (sems s i) + cnt)"
      by fact
    have eqr: "(sems s i)\<lparr>se_q := t # r, se_count := c\<rparr> = (sems s i)\<lparr>se_count := c\<rparr>" for c
      using q(1) by (cases "sems s i") simp
    have w: "woken_state s i [] (t # r) (se_count (sems s i) + cnt)
        (upd_sem i (\<lambda>e. e\<lparr>se_count := se_count e + cnt\<rparr>) (upd_thread t (\<lambda>x. x\<lparr>sem_count := ?m - cnt\<rparr>) s))"
      using q wt by (simp add: woken_state_def eqr)
    show ?thesis
      by (rule exI [of _ "[]"], rule exI [of _ "t # r"], rule exI) (rule conjI [OF _ w], simp add: eq)
  next
    case 3
    let ?s = "upd_thread t (\<lambda>x. x\<lparr>th_state := THREAD_READY, sem_count := 0, sem_deleted_retcode := 0\<rparr>)
        (upd_sem i (\<lambda>e. e\<lparr>se_q := r, se_count := se_count e + ?m\<rparr>) (upd_thread t (\<lambda>x. x\<lparr>sem_count := sem_count x - ?m\<rparr>) s))"
    have step: "release_loop T i cnt released s = release_loop T i (cnt - ?m) (released @ [t]) ?s"
      using 3 neg q(1) by (subst release_loop.simps) (simp add: fifo_simps [OF T] Let_def)
    have "\<exists>woken rest s'. release_loop T i (cnt - ?m) (released @ [t]) ?s = Some ((released @ [t]) @ woken, s') \<and>
      woken_state ?s i woken rest (se_count (sems ?s i) + (cnt - ?m)) s'"
      using q w rest 3 by (intro Suc.hyps(1)) simp_all
    then obtain woken rest' s' where r: "release_loop T i (cnt - ?m) (released @ [t]) ?s = Some ((released @ [t]) @ woken, s')"
        "woken_state ?s i woken rest' (se_count (sems ?s i) + (cnt - ?m)) s'"
      by blast
    have "woken_state s i (t # woken) rest' (se_count (sems s i) + cnt) s'"
      using r(2) q w by (auto simp: woken_state_def)
    then show ?thesis
      using step r(1) by auto
  qed
qed

lemma run_released_spec:
  "fifo T \<Longrightarrow> run_released T q s = Some (s\<lparr>run_q := run_q s @ q\<rparr>)"
proof (induction q arbitrary: s)
  case Nil
  then show ?case
    by (subst run_released.simps) (simp add: fifo_simps)
next
  case (Cons t q)
  then show ?case
    by (subst run_released.simps) (simp add: fifo_simps)
qed


section \<open>The operations keep the invariant\<close>

lemma woken_inv:
  assumes inv: "sem_inv s" and i: "i < MAX_SEMS" and id: "se_id (sems s i) \<noteq> NO_SEM" and w: "woken_state s i woken rest c s'"
  shows "sem_inv s'"
proof -
  have q: "se_q (sems s i) = woken @ rest" "sems s' = (sems s)(i := (sems s i)\<lparr>se_q := rest, se_count := c\<rparr>)"
      "waiting (sthread s') rest c" "\<And>t. t \<notin> set (se_q (sems s i)) \<Longrightarrow> sthread s' t = sthread s t"
    using w by (auto simp: woken_state_def)
  have "slot_ok (sthread s') (sems s j)" if "j < MAX_SEMS" "j \<noteq> i" for j
  proof -
    have "slot_ok (sthread s) (sems s j)"
        "set (se_q (sems s i)) \<inter> set (se_q (sems s j)) = {}"
      using inv i that by (auto simp: sem_inv_def)
    moreover have "sthread s' t = sthread s t" if "t \<in> set (se_q (sems s j))" for t
      using calculation(2) q(4) that by blast
    ultimately show ?thesis
      using waiting_cong [of "se_q (sems s j)" "sthread s'" "sthread s"] by (simp add: slot_ok_def)
  qed
  then have a: "\<forall>j < MAX_SEMS. slot_ok (sthread s') (sems s' j)"
    using q inv id by (simp add: slot_ok_def)
  have "set (se_q (sems s' j)) \<subseteq> set (se_q (sems s j))" for j
    using q by simp
  then have b: "\<forall>j < MAX_SEMS. \<forall>k < MAX_SEMS. j \<noteq> k \<longrightarrow> set (se_q (sems s' j)) \<inter> set (se_q (sems s' k)) = {}"
    using inv unfolding sem_inv_def by blast
  have "\<forall>j < MAX_SEMS. se_id (sems s' j) \<noteq> NO_SEM \<longrightarrow> sem_slot (se_id (sems s' j)) = j"
    using inv q(2) by (auto simp: sem_inv_def)
  with a b show ?thesis
    unfolding sem_inv_def by blast
qed

lemma sem_inv_run_q [simp]: "sem_inv (s\<lparr>run_q := x\<rparr>) = sem_inv s"
  "sem_inv (s\<lparr>sem_timers := y\<rparr>) = sem_inv s" "sem_inv (s\<lparr>next_sem := z\<rparr>) = sem_inv s"
  by (simp_all add: sem_inv_def)

lemma sem_invD:
  "sem_inv s \<Longrightarrow> i < MAX_SEMS \<Longrightarrow> se_id (sems s i) \<noteq> NO_SEM \<Longrightarrow>
    waiting (sthread s) (se_q (sems s i)) (se_count (sems s i))"
  by (auto simp: sem_inv_def slot_ok_def)

lemma sem_release_spec:
  assumes T: "fifo T" and inv: "sem_inv s" and act: "sems_active s" and cnt: "0 < cnt"
    and id: "se_id (sems s (sem_slot sid)) = sid" "sid \<noteq> NO_SEM"
  shows "\<exists>woken rest s'. sem_release_etc T sid cnt flags s = Some (0, s'\<lparr>run_q := run_q s @ woken\<rparr>) \<and> sem_inv s' \<and>
    woken_state s (sem_slot sid) woken rest (se_count (sems s (sem_slot sid)) + cnt) s'"
proof -
  let ?i = "sem_slot sid"
  obtain woken rest s' where r: "release_loop T ?i cnt [] s = Some ([] @ woken, s')"
      "woken_state s ?i woken rest (se_count (sems s ?i) + cnt) s'"
    using release_loop_spec [OF T sem_invD [OF inv, of ?i], of cnt "[]"] cnt id by auto
  have "run_q s' = run_q s"
    using r(2) by (simp add: woken_state_def)
  then have "sem_release_etc T sid cnt flags s = Some (0, s'\<lparr>run_q := run_q s @ woken\<rparr>)"
    using r(1) act cnt id by (simp add: sem_release_etc_def Let_def run_released_spec [OF T])
  then show ?thesis
    using woken_inv [OF inv _ _ r(2)] r(2) id by auto
qed

text \<open>An acquire that has to wait puts the thread at the end of the queue, waiting for what is missing.\<close>

lemma queue_inv:
  assumes inv: "sem_inv s" and id: "se_id (sems s i) \<noteq> NO_SEM" and i: "i < MAX_SEMS" and free: "\<not> blocked t s"
    and short: "se_count (sems s i) < cnt" and cnt: "0 < cnt"
    and x: "sem_count x = min (cnt - se_count (sems s i)) cnt"
    and s': "sems s' = (sems s)(i := (sems s i)\<lparr>se_count := se_count (sems s i) - cnt, se_q := se_q (sems s i) @ [t]\<rparr>)"
      "sthread s' = (sthread s)(t := x)"
  shows "sem_inv s'"
proof -
  let ?q = "se_q (sems s i)"
  have oth: "slot_ok (sthread s) (sems s j)" "t \<notin> set (se_q (sems s j))" if "j < MAX_SEMS" for j
    using inv free that by (auto simp: blocked_def sem_inv_def)
  have w: "waiting (sthread s) ?q (se_count (sems s i))" and tq: "t \<notin> set ?q"
    using sem_invD [OF inv i id] oth(2) [OF i] by auto
  have "map (\<lambda>y. sem_count (((sthread s)(t := x)) y)) ?q = map (\<lambda>y. sem_count (sthread s y)) ?q"
    using tq by auto
  then have "waiting (sthread s') (?q @ [t]) (se_count (sems s i) - cnt)"
    using w short tq cnt x unfolding waiting_def s' by (auto simp del: map_eq_conv split: if_splits)
  moreover have "slot_ok (sthread s') (sems s j)" if "j < MAX_SEMS" for j
    using oth [OF that] by (simp add: slot_ok_def s')
  ultimately have a: "\<forall>j < MAX_SEMS. slot_ok (sthread s') (sems s' j)"
    using id by (simp add: slot_ok_def s')
  have "\<forall>j < MAX_SEMS. \<forall>k < MAX_SEMS. j \<noteq> k \<longrightarrow> set (se_q (sems s' j)) \<inter> set (se_q (sems s' k)) = {}"
    using inv oth(2) unfolding sem_inv_def s' by auto
  moreover have "\<forall>j < MAX_SEMS. se_id (sems s' j) \<noteq> NO_SEM \<longrightarrow> sem_slot (se_id (sems s' j)) = j"
    using inv by (auto simp: sem_inv_def s')
  ultimately show ?thesis
    using a unfolding sem_inv_def by blast
qed

lemma upd_sem_back: "upd_sem i (\<lambda>e. e\<lparr>se_count := se_count e + c\<rparr>) (upd_sem i (\<lambda>e. e\<lparr>se_count := se_count e - c\<rparr>) s) = s"
  by (simp add: upd_sem_def)

lemma take_inv:
  assumes inv: "sem_inv s" and id: "se_id (sems s i) \<noteq> NO_SEM" and i: "i < MAX_SEMS"
    and cnt: "0 < cnt" "cnt \<le> se_count (sems s i)"
  shows "sem_inv (upd_sem i (\<lambda>e. e\<lparr>se_count := se_count e - cnt\<rparr>) s)"
proof -
  have "se_q (sems s i) = []"
    using waiting_count_nonneg [OF sem_invD [OF inv i id]] cnt by simp
  then show ?thesis
    using cnt inv id by (auto simp: sem_inv_def slot_ok_def waiting_def)
qed

lemma sem_acquire_inv:
  assumes T: "fifo T" and inv: "sem_inv s" and free: "\<not> blocked t s" and id: "sid \<noteq> NO_SEM"
    and run: "sem_acquire_start T t sid cnt flags timeout s = Some (r, s')"
  shows "sem_inv s'"
proof -
  let ?i = "sem_slot sid"
  have id': "se_id (sems s ?i) = sid \<Longrightarrow> se_id (sems s ?i) \<noteq> NO_SEM"
    using id by simp
  show ?thesis
  proof (cases "sems_active s \<and> 0 < cnt \<and> se_id (sems s ?i) = sid \<and>
      \<not> (se_count (sems s ?i) - cnt < 0 \<and> flags AND SEM_FLAG_TIMEOUT \<noteq> 0 \<and> timeout \<le> 0)")
    case False
    then have "s' = s"
      using run by (auto simp: sem_acquire_start_def Let_def split: if_splits)
    then show ?thesis
      using inv by simp
  next
    case ok: True
    consider "cnt \<le> se_count (sems s ?i)" | "se_count (sems s ?i) < cnt" "flags AND SEM_FLAG_INTERRUPTABLE \<noteq> 0"
      | "se_count (sems s ?i) < cnt" "flags AND SEM_FLAG_INTERRUPTABLE = 0"
      by fastforce
    then show ?thesis
    proof cases
      case 1
      then have "s' = upd_sem ?i (\<lambda>e. e\<lparr>se_count := se_count e - cnt\<rparr>) s"
        using run ok by (auto simp: sem_acquire_start_def Let_def)
      then show ?thesis
        using take_inv [OF inv id', of cnt] ok 1 by simp
    next
      case 2
      then have "s' = s"
        using run ok by (auto simp: sem_acquire_start_def Let_def upd_sem_back)
      then show ?thesis
        using inv by simp
    next
      case 3
      let ?x = "(sthread s t)\<lparr>th_next_state := THREAD_WAITING, sem_flags := flags, sem_blocking := sid,
          sem_acquire_count := cnt, sem_count := min (cnt - se_count (sems s ?i)) cnt, sem_deleted_retcode := 0,
          sem_errcode := NO_ERROR, th_state := THREAD_WAITING\<rparr>"
      have "sems s' = (sems s)(?i := (sems s ?i)\<lparr>se_count := se_count (sems s ?i) - cnt, se_q := se_q (sems s ?i) @ [t]\<rparr>)"
        "sthread s' = (sthread s)(t := ?x)"
        using run ok 3 by (auto simp: sem_acquire_start_def Let_def fifo_simps [OF T])
      then show ?thesis
        using ok 3 id by (intro queue_inv [OF inv _ _ free, of ?i cnt ?x s']) simp_all
    qed
  qed
qed

section \<open>Creation and deletion\<close>

lemma sem_slot_add: "sem_slot (n + of_nat k) = (sem_slot n + k) mod MAX_SEMS"
proof -
  have "unat (n + of_nat k :: u32) = (unat n + k) mod 2 ^ 32"
    by (simp add: unat_word_ariths unat_of_nat mod_simps)
  then have "sem_slot (n + of_nat k) = (unat n + k) mod 2 ^ 32 mod 4096"
    by (simp add: sem_slot_def MAX_SEMS_def)
  also have "\<dots> = (unat n + k) mod 4096"
    by (rule mod_mod_cancel) simp
  finally show ?thesis
    by (simp add: sem_slot_def MAX_SEMS_def mod_simps)
qed

lemma sem_new_id_slot: "i < MAX_SEMS \<Longrightarrow> sem_slot (sem_new_id i n) = i"
proof -
  assume i: "i < MAX_SEMS"
  have n: "sem_slot n < MAX_SEMS" "unat n mod MAX_SEMS = sem_slot n"
    by (simp, simp add: sem_slot_def)
  show ?thesis
  proof (cases "sem_slot n \<le> i")
    case True
    then show ?thesis using i by (simp add: sem_new_id_def n(2) sem_slot_add del: of_nat_diff)
  next
    case False
    then have "sem_slot n + (MAX_SEMS - (sem_slot n - i)) = i + MAX_SEMS"
      using n(1) by linarith
    then show ?thesis
      using False i sem_slot_add [of n "MAX_SEMS - (sem_slot n - i)"] by (simp add: sem_new_id_def n(2) del: of_nat_diff)
  qed
qed

lemma find_free_Some: "find_free f i = Some j \<Longrightarrow> j < MAX_SEMS \<and> se_id (f j) = NO_SEM"
proof (induction f i rule: find_free.induct)
  case (1 f i)
  then show ?case
    by (cases "i < MAX_SEMS"; cases "se_id (f i) = NO_SEM") (simp_all add: find_free.simps [of f i])
qed

lemma fresh_inv:
  assumes inv: "sem_inv s" and i: "i < MAX_SEMS" and q: "se_q e = []" and e: "se_id e = NO_SEM \<or> 0 \<le> se_count e"
    and id: "se_id e \<noteq> NO_SEM \<longrightarrow> sem_slot (se_id e) = i"
    and s': "sems s' = (sems s)(i := e)" "\<And>t. t \<notin> set (se_q (sems s i)) \<Longrightarrow> sthread s' t = sthread s t"
  shows "sem_inv s'"
proof -
  have "slot_ok (sthread s') (sems s j)" if "j < MAX_SEMS" "j \<noteq> i" for j
  proof -
    have "slot_ok (sthread s) (sems s j)" "set (se_q (sems s i)) \<inter> set (se_q (sems s j)) = {}"
      using inv i that by (auto simp: sem_inv_def)
    then show ?thesis
      using waiting_cong [of "se_q (sems s j)" "sthread s'" "sthread s"] s'(2) by (force simp: slot_ok_def)
  qed
  moreover have "slot_ok (sthread s') e"
    using q e by (auto simp: slot_ok_def waiting_def)
  ultimately show ?thesis
    using inv q id unfolding sem_inv_def s'(1) by auto
qed

lemma sem_create_inv:
  assumes inv: "sem_inv s" and c: "0 \<le> c" and run: "sem_create_etc ok c name owner s = Some (r, s')"
  shows "sem_inv s'"
proof -
  show ?thesis
  proof (cases "find_free (sems s) 0")
    case None
    then have "s' = s"
      using run by (auto simp: sem_create_etc_def Let_def split: if_splits)
    then show ?thesis
      using inv by simp
  next
    case (Some i)
    have i: "i < MAX_SEMS"
      using find_free_Some [OF Some] by simp
    have new: "sem_inv (upd_sem i (\<lambda>_. \<lparr>se_id = sem_new_id i (next_sem s), se_count = c, se_q = [], se_name = nm,
        se_owner = owner\<rparr>) s)" for nm
      using c i sem_new_id_slot by (intro fresh_inv [OF inv i]) simp_all
    show ?thesis
      using run Some inv new by (auto simp: sem_create_etc_def Let_def split: if_splits)
  qed
qed

lemma delete_waiters_spec:
  assumes T: "fifo T"
  shows "\<exists>s'. delete_waiters T i rc released s = Some (released @ se_q (sems s i), s') \<and>
    sems s' = (sems s)(i := (sems s i)\<lparr>se_q := []\<rparr>) \<and> run_q s' = run_q s \<and> sems_active s' = sems_active s \<and>
    (\<forall>t. t \<notin> set (se_q (sems s i)) \<longrightarrow> sthread s' t = sthread s t) \<and>
    (\<forall>t \<in> set (se_q (sems s i)). th_state (sthread s' t) = THREAD_READY \<and>
       sem_errcode (sthread s' t) = ERR_SEM_DELETED \<and> sem_deleted_retcode (sthread s' t) = rc)"
proof (induction "se_q (sems s i)" arbitrary: released s)
  case Nil
  then show ?case
    by (subst delete_waiters.simps) (simp add: fifo_simps [OF T] upd_sem_def)
next
  case (Cons t q)
  let ?s = "upd_thread t (\<lambda>x. x\<lparr>th_state := THREAD_READY, sem_errcode := ERR_SEM_DELETED,
                sem_deleted_retcode := rc, sem_count := 0\<rparr>) (upd_sem i (\<lambda>e. e\<lparr>se_q := q\<rparr>) s)"
  have "delete_waiters T i rc released s = delete_waiters T i rc (released @ [t]) ?s"
    using Cons(2) [symmetric] by (subst delete_waiters.simps) (simp add: fifo_simps [OF T])
  moreover obtain s' where "delete_waiters T i rc (released @ [t]) ?s = Some ((released @ [t]) @ se_q (sems ?s i), s')"
      "sems s' = (sems ?s)(i := (sems ?s i)\<lparr>se_q := []\<rparr>)" "run_q s' = run_q ?s" "sems_active s' = sems_active ?s"
      "\<forall>u. u \<notin> set (se_q (sems ?s i)) \<longrightarrow> sthread s' u = sthread ?s u"
      "\<forall>u \<in> set (se_q (sems ?s i)). th_state (sthread s' u) = THREAD_READY \<and>
         sem_errcode (sthread s' u) = ERR_SEM_DELETED \<and> sem_deleted_retcode (sthread s' u) = rc"
    using Cons(1) [of ?s "released @ [t]"] by auto
  ultimately show ?case
    using Cons(2) [symmetric] by (intro exI [of _ s']) auto
qed

lemma sem_delete_inv:
  assumes T: "fifo T" and inv: "sem_inv s" and run: "sem_delete_etc T sid rc s = Some (r, s')"
  shows "sem_inv s'"
proof -
  let ?i = "sem_slot sid"
  obtain d where d: "delete_waiters T ?i rc [] s = Some ([] @ se_q (sems s ?i), d)"
      "sems d = (sems s)(?i := (sems s ?i)\<lparr>se_q := []\<rparr>)"
      "\<forall>t. t \<notin> set (se_q (sems s ?i)) \<longrightarrow> sthread d t = sthread s t"
    using delete_waiters_spec [OF T, of ?i rc "[]" s] by auto
  consider "s' = s" | q where "s' = (upd_sem ?i (\<lambda>e. e\<lparr>se_id := NO_SEM, se_name := None\<rparr>) d)\<lparr>run_q := q\<rparr>"
    using run d(1) by (auto simp: sem_delete_etc_def Let_def run_released_spec [OF T] split: if_splits)
  then show ?thesis
  proof cases
    case 1 then show ?thesis using inv by simp
  next
    case 2
    show ?thesis
      unfolding 2 sem_inv_run_q using d by (intro fresh_inv [OF inv]) auto
  qed
qed

lemma sem_release_inv:
  assumes T: "fifo T" and inv: "sem_inv s" and id: "sid \<noteq> NO_SEM" and run: "sem_release_etc T sid cnt flags s = Some (r, s')"
  shows "sem_inv s'"
proof (cases "sems_active s \<and> 0 < cnt \<and> se_id (sems s (sem_slot sid)) = sid")
  case True
  then show ?thesis
    using sem_release_spec [OF T inv, of cnt sid flags] id run by auto
next
  case False
  then have "s' = s"
    using run by (auto simp: sem_release_etc_def Let_def split: if_splits)
  then show ?thesis
    using inv by simp
qed

section \<open>Reachable tables\<close>

text \<open>The tables the kernel can reach through these operations.  A thread that acquires runs, so it is
  queued nowhere; a semaphore is created with a count that is not negative; handles are those of
  \<open>sem_create\<close>, never -1.\<close>

inductive sem_reach :: "thread_queue_fns \<Rightarrow> sem_table \<Rightarrow> bool" for T where
  init: "sem_init region s0 = Some (r, s) \<Longrightarrow> sem_reach T s"
| create: "sem_reach T s \<Longrightarrow> 0 \<le> cnt \<Longrightarrow> sem_create_etc ok cnt name owner s = Some (r, s') \<Longrightarrow> sem_reach T s'"
| delete: "sem_reach T s \<Longrightarrow> sem_delete_etc T sid rc s = Some (r, s') \<Longrightarrow> sem_reach T s'"
| acquire: "sem_reach T s \<Longrightarrow> \<not> blocked t s \<Longrightarrow> sid \<noteq> NO_SEM \<Longrightarrow>
    sem_acquire_start T t sid cnt flags timeout s = Some (res, s') \<Longrightarrow> sem_reach T s'"
| resume: "sem_reach T s \<Longrightarrow> sem_acquire_finish t s = (err, ret, s') \<Longrightarrow> sem_reach T s'"
| release: "sem_reach T s \<Longrightarrow> sid \<noteq> NO_SEM \<Longrightarrow> sem_release_etc T sid cnt flags s = Some (r, s') \<Longrightarrow> sem_reach T s'"
| dispatch: "sem_reach T s \<Longrightarrow> run_q s = t # q \<Longrightarrow> sem_reach T (s\<lparr>run_q := q\<rparr>)"
| owner: "sem_reach T s \<Longrightarrow> set_sem_owner sid proc s = (r, s') \<Longrightarrow> sem_reach T s'"

lemma same_inv:
  assumes "\<And>i. se_q (sems s' i) = se_q (sems s i)" "\<And>i. se_id (sems s' i) = se_id (sems s i)"
    "\<And>i. se_count (sems s' i) = se_count (sems s i)" "sthread s' = sthread s"
  shows "sem_inv s' = sem_inv s"
  using assms by (simp add: sem_inv_def slot_ok_def)

lemma sem_reach_inv:
  assumes "fifo T"
  shows "sem_reach T s \<Longrightarrow> sem_inv s"
proof (induction rule: sem_reach.induct)
  case (init region s0 r s)
  then show ?case
    by (auto simp: sem_init_def sem_inv_def slot_ok_def split: if_splits)
next
  case (create s cnt ok name owner r s')
  then show ?case using sem_create_inv by blast
next
  case (delete s sid rc r s')
  then show ?case using sem_delete_inv [OF assms] by blast
next
  case (acquire s t sid cnt flags timeout res s')
  then show ?case using sem_acquire_inv [OF assms] by blast
next
  case (resume s t err ret s')
  then show ?case by (auto simp: sem_acquire_finish_def Let_def split: if_splits)
next
  case (release s sid cnt flags r s')
  then show ?case using sem_release_inv [OF assms] by blast
next
  case (dispatch s t q)
  then show ?case by simp
next
  case (owner s sid proc r s')
  then show ?case
    by (auto simp: set_sem_owner_def same_inv [of "upd_sem (sem_slot sid) (se_owner_update (\<lambda>_. proc)) s" s] split: if_splits)
qed

lemma find_free_finds: "i < MAX_SEMS \<Longrightarrow> se_id (f i) = NO_SEM \<Longrightarrow> k \<le> i \<Longrightarrow> \<exists>j. find_free f k = Some j"
proof (induction f k rule: find_free.induct)
  case (1 f k)
  then show ?case
    by (cases "se_id (f k) = NO_SEM"; cases "k = i") (auto simp: find_free.simps [of f k] find_free.simps [of f i])
qed

section \<open>A concrete system\<close>

definition list_queue :: thread_queue_fns where
  "list_queue = \<lparr>thread_enqueue = \<lambda>t q. q @ [t],
     thread_dequeue = \<lambda>q. case q of [] \<Rightarrow> (None, []) | t # r \<Rightarrow> (Some t, r),
     thread_lookat = \<lambda>q. case q of [] \<Rightarrow> None | t # r \<Rightarrow> Some t, thread_unlink = remove1\<rparr>"

lemma fifo_list_queue [simp]: "fifo list_queue"
  by (simp add: fifo_def list_queue_def)

definition idle_thread :: sem_thread where
  "idle_thread = \<lparr>th_state = THREAD_RUNNING, th_next_state = THREAD_RUNNING, sem_flags = 0, sem_blocking = 0,
     sem_acquire_count = 0, sem_count = 0, sem_deleted_retcode = 0, sem_errcode = 0\<rparr>"

text \<open>A table with one semaphore, number 0, of count 0, and the same with thread 7 waiting for one unit.\<close>

definition free_entry :: sem_entry where
  "free_entry = \<lparr>se_id = NO_SEM, se_count = 0, se_q = [], se_name = None, se_owner = 0\<rparr>"

definition table0 :: sem_table where
  "table0 = \<lparr>sems = (\<lambda>i. free_entry), sems_active = True, next_sem = 0, sthread = (\<lambda>t. idle_thread),
     run_q = [], sem_timers = []\<rparr>"

definition table1 :: sem_table where
  "table1 = table0\<lparr>sems := (sems table0)(0 := \<lparr>se_id = 0, se_count = 0, se_q = [], se_name = Some ''unnamed sem'', se_owner = 1\<rparr>),
     next_sem := 1\<rparr>"

lemma table0_reach: "sem_reach T table0"
  by (rule sem_reach.init [of 0 "table0\<lparr>sems_active := False\<rparr>" 0]) (simp add: sem_init_def table0_def free_entry_def)

lemma table1_created: "sem_create_etc True 0 None 1 table0 = Some (0, table1)"
  by (simp add: sem_create_etc_def table1_def find_free.simps [of _ 0] MAX_SEMS_def table0_def free_entry_def Let_def
    SYS_MAX_OS_NAME_LEN_def sem_new_id_def upd_sem_def)

lemma table1_reach: "sem_reach T table1"
  by (rule sem_reach.create [OF table0_reach _ table1_created]) simp

definition table2 :: sem_table where
  "table2 = snd (the (sem_acquire_start list_queue 7 0 1 0 0 table1))"

lemmas tables = table0_def table1_def free_entry_def idle_thread_def

lemma sem_slot_0 [simp]: "sem_slot 0 = 0"
  by (simp add: sem_slot_def)

lemma table2_acquired: "sem_acquire_start list_queue 7 0 1 0 0 table1 = Some (Inr (), table2)"
  by (simp add: table2_def tables sem_acquire_start_def Let_def list_queue_def)

lemma table2_reach: "sem_reach list_queue table2"
  by (rule sem_reach.acquire [OF table1_reach _ _ table2_acquired]) (simp_all add: blocked_def tables)

lemma table2_simps [simp]:
  "sems_active table2" "se_id (sems table2 0) = 0" "se_q (sems table2 0) = [7]" "se_count (sems table2 0) = -1" "run_q table2 = []"
  by (simp_all add: table2_def tables sem_acquire_start_def Let_def list_queue_def)

section \<open>What the semaphores promise\<close>



text \<open>A release of \<open>cnt\<close> units adds them to the count, takes a prefix of the queue in arrival order and
  puts it, ready to run, at the end of the run queue; everybody is woken exactly when the count is no longer
  negative, and no other semaphore changes.\<close>

theorem sem_release_fifo:
  assumes "fifo T" "sem_reach T s" "sems_active s" "0 < cnt" "sid \<noteq> NO_SEM" "se_id (sems s (sem_slot sid)) = sid"
  shows "\<exists>woken rest s'. sem_release_etc T sid cnt flags s = Some (0, s') \<and>
    se_q (sems s (sem_slot sid)) = woken @ rest \<and>
    sems s' = (sems s)(sem_slot sid := (sems s (sem_slot sid))\<lparr>se_q := rest, se_count := se_count (sems s (sem_slot sid)) + cnt\<rparr>) \<and>
    run_q s' = run_q s @ woken \<and> (\<forall>t \<in> set woken. th_state (sthread s' t) = THREAD_READY) \<and>
    (rest = [] \<longleftrightarrow> 0 \<le> se_count (sems s (sem_slot sid)) + cnt)"
proof -
  obtain woken rest s' where r: "sem_release_etc T sid cnt flags s = Some (0, s'\<lparr>run_q := run_q s @ woken\<rparr>)"
      "woken_state s (sem_slot sid) woken rest (se_count (sems s (sem_slot sid)) + cnt) s'"
    using sem_release_spec [OF assms(1) sem_reach_inv [OF assms(1,2)] assms(3,4,6,5)] by blast
  have "rest = [] \<longleftrightarrow> 0 \<le> se_count (sems s (sem_slot sid)) + cnt"
    using waiting_count_nonneg r(2) by (auto simp: woken_state_def)
  with r show ?thesis
    by (intro exI [of _ woken] exI [of _ rest] exI [of _ "s'\<lparr>run_q := run_q s @ woken\<rparr>"]) (simp add: woken_state_def)
qed

theorem sem_release_fifo_witness:
  "\<exists>woken rest s'. sem_release_etc list_queue 0 1 0 table2 = Some (0, s') \<and> [7] = woken @ rest \<and>
    sems s' = (sems table2)(0 := (sems table2 0)\<lparr>se_q := rest, se_count := 0\<rparr>) \<and> run_q s' = woken \<and>
    (\<forall>t \<in> set woken. th_state (sthread s' t) = THREAD_READY) \<and> rest = []"
  using sem_release_fifo [OF fifo_list_queue table2_reach, of 1 0 0] by simp

text \<open>A semaphore can always be drained: releasing the outstanding number of units makes every waiting
  thread ready, in the order of arrival, and leaves the queue empty.\<close>

theorem sem_release_drains:
  assumes "fifo T" "sem_reach T s" "sems_active s" "sid \<noteq> NO_SEM" "se_id (sems s (sem_slot sid)) = sid"
    and "t \<in> set (se_q (sems s (sem_slot sid)))"
  shows "\<exists>s'. sem_release_etc T sid (- se_count (sems s (sem_slot sid))) flags s = Some (0, s') \<and>
    run_q s' = run_q s @ se_q (sems s (sem_slot sid)) \<and> th_state (sthread s' t) = THREAD_READY \<and>
    se_q (sems s' (sem_slot sid)) = []"
proof -
  have inv: "sem_inv s"
    by (rule sem_reach_inv [OF assms(1,2)])
  have "se_count (sems s (sem_slot sid)) < 0"
    using waiting_count_nonneg [OF sem_invD [OF inv sem_slot_less [of sid]]] assms(4-6) by (cases "se_q (sems s (sem_slot sid))") auto
  then obtain woken rest s' where r: "sem_release_etc T sid (- se_count (sems s (sem_slot sid))) flags s = Some (0, s'\<lparr>run_q := run_q s @ woken\<rparr>)"
      "woken_state s (sem_slot sid) woken rest 0 s'"
    using sem_release_spec [OF assms(1) inv assms(3) _ assms(5,4), of "- se_count (sems s (sem_slot sid))" flags] by auto
  moreover have "rest = []"
    using r(2) waiting_count_nonneg [of "sthread s'" rest 0] by (simp add: woken_state_def)
  ultimately show ?thesis
    using assms(6) by (intro exI [of _ "s'\<lparr>run_q := run_q s @ woken\<rparr>"]) (simp add: woken_state_def)
qed

theorem sem_release_drains_witness:
  "\<exists>s'. sem_release_etc list_queue 0 1 0 table2 = Some (0, s') \<and> run_q s' = [7] \<and>
    th_state (sthread s' 7) = THREAD_READY \<and> se_q (sems s' 0) = []"
  using sem_release_drains [OF fifo_list_queue table2_reach, of 0 7 0] by simp

text \<open>An acquire of \<open>cnt\<close> units without flags takes them from the count.  If the count was enough the
  call returns 0 at once and nobody is queued; otherwise the caller, and nobody else, is put behind the threads
  already waiting, in the waiting state, and the call has not returned.\<close>

theorem sem_acquire_takes_or_waits:
  assumes "fifo T" "sem_reach T s" "sems_active s" "0 < cnt" "sid \<noteq> NO_SEM" "se_id (sems s (sem_slot sid)) = sid"
    and "\<not> blocked t s"
  shows "\<exists>r s'. sem_acquire T t sid cnt s = Some (r, s') \<and>
    se_count (sems s' (sem_slot sid)) = se_count (sems s (sem_slot sid)) - cnt \<and>
    (if cnt \<le> se_count (sems s (sem_slot sid))
     then r = Inl 0 \<and> se_q (sems s' (sem_slot sid)) = [] \<and> sthread s' = sthread s
     else r = Inr () \<and> se_q (sems s' (sem_slot sid)) = se_q (sems s (sem_slot sid)) @ [t] \<and>
       th_state (sthread s' t) = THREAD_WAITING) \<and>
    (\<forall>i. i \<noteq> sem_slot sid \<longrightarrow> sems s' i = sems s i) \<and> (\<forall>u. u \<noteq> t \<longrightarrow> sthread s' u = sthread s u) \<and> run_q s' = run_q s"
proof (cases "cnt \<le> se_count (sems s (sem_slot sid))")
  case True
  then have "se_q (sems s (sem_slot sid)) = []"
    using waiting_count_nonneg [OF sem_invD [OF sem_reach_inv [OF assms(1,2)] sem_slot_less [of sid]]] assms(4-6) by simp
  then show ?thesis
    using True assms by (auto simp: sem_acquire_def sem_acquire_start_def Let_def)
next
  case False
  then show ?thesis
    using assms by (auto simp: sem_acquire_def sem_acquire_start_def Let_def fifo_simps)
qed

theorem sem_acquire_takes_or_waits_witness:
  "\<exists>r s'. sem_acquire list_queue 8 0 2 table2 = Some (r, s') \<and> se_count (sems s' 0) = -3 \<and>
    (r = Inr () \<and> se_q (sems s' 0) = [7, 8] \<and> th_state (sthread s' 8) = THREAD_WAITING) \<and>
    (\<forall>i. i \<noteq> 0 \<longrightarrow> sems s' i = sems table2 i) \<and> (\<forall>u. u \<noteq> 8 \<longrightarrow> sthread s' u = sthread table2 u) \<and> run_q s' = []"
proof -
  have "\<not> blocked 8 table2"
    by (auto simp: blocked_def table2_def tables sem_acquire_start_def Let_def list_queue_def split: if_splits)
  then show ?thesis
    using sem_acquire_takes_or_waits [OF fifo_list_queue table2_reach, of 2 0 8] by simp
qed

text \<open>A handle that \<open>sem_create\<close> hands out leads to the slot it was made for: while a slot is free and the
  name fits, the call takes a free slot, stores there an identifier congruent to the slot's index, with the
  given count and an empty queue, and leaves every other slot alone.\<close>

theorem sem_create_handle:
  assumes "sems_active s" "i < MAX_SEMS" "se_id (sems s i) = NO_SEM" "length n < SYS_MAX_OS_NAME_LEN"
  shows "\<exists>sid s'. sem_create_etc True cnt (Some n) owner s = Some (sid, s') \<and>
    se_id (sems s (sem_slot sid)) = NO_SEM \<and>
    sems s' = (sems s)(sem_slot sid := \<lparr>se_id = sid, se_count = cnt, se_q = [], se_name = Some n, se_owner = owner\<rparr>)"
proof -
  obtain j where j: "find_free (sems s) 0 = Some j"
    using find_free_finds [of i "sems s" 0] assms by auto
  then have "j < MAX_SEMS" "se_id (sems s j) = NO_SEM"
    using find_free_Some by auto
  then show ?thesis
    using assms j sem_new_id_slot [of j] by (auto simp: sem_create_etc_def Let_def)
qed

theorem sem_create_handle_witness:
  "\<exists>sid s'. sem_create_etc True 3 (Some ''net'') 1 table1 = Some (sid, s') \<and>
    se_id (sems table1 (sem_slot sid)) = NO_SEM \<and>
    sems s' = (sems table1)(sem_slot sid := \<lparr>se_id = sid, se_count = 3, se_q = [], se_name = Some ''net'', se_owner = 1\<rparr>)"
  by (rule sem_create_handle [of _ 1]) (simp_all add: tables MAX_SEMS_def SYS_MAX_OS_NAME_LEN_def)



end
