(* ===== verification/Lock_Props.thy ===== *)
theory Lock_Props
  imports Lock Sem_Props
begin

text \<open>
  Threads that share one mutex: a step relation over the operations of \<^verbatim>\<open>lock.c\<close>, its invariant by rule
  induction, mutual exclusion and the hand-over to the longest waiting thread.
\<close>

section \<open>The system\<close>

text \<open>\<open>mutex_reach T m s C\<close>: the mutex, the semaphores and the threads in the critical section, newest
  first.  A thread that calls \<open>mutex_lock\<close> runs: it neither waits nor is about to resume.\<close>

inductive mutex_reach :: "thread_queue_fns \<Rightarrow> mutex \<Rightarrow> sem_table \<Rightarrow> tid list \<Rightarrow> bool" for T where
  init: "sem_init region s0 = Some (r, s) \<Longrightarrow> run_q s0 = [] \<Longrightarrow> mutex_init True None p (Some m0) s = Some (e, Some m, s') \<Longrightarrow>
    mutex_reach T m s' []"
| enter: "mutex_reach T m s C \<Longrightarrow> \<not> blocked t s \<Longrightarrow> t \<notin> set (run_q s) \<Longrightarrow>
    mutex_lock T t m s = Some (True, m', s') \<Longrightarrow> mutex_reach T m' s' (t # C)"
| wait: "mutex_reach T m s C \<Longrightarrow> \<not> blocked t s \<Longrightarrow> t \<notin> set (run_q s) \<Longrightarrow>
    mutex_lock T t m s = Some (False, m', s') \<Longrightarrow> mutex_reach T m' s' C"
| resume: "mutex_reach T m s C \<Longrightarrow> run_q s = t # q \<Longrightarrow>
    mutex_lock_resume t m (s\<lparr>run_q := q\<rparr>) = (m', s') \<Longrightarrow> mutex_reach T m' s' (t # C)"
| leave: "mutex_reach T m s C \<Longrightarrow> t \<in> set C \<Longrightarrow>
    mutex_unlock T t m s = Some (m', s') \<Longrightarrow> mutex_reach T m' s' (remove1 t C)"

section \<open>The invariant\<close>

definition lock_ok :: "mutex \<Rightarrow> sem_table \<Rightarrow> tid list \<Rightarrow> bool" where
  "lock_ok m s C \<longleftrightarrow>
     (let e = sems s (sem_slot (m_sem m)); owners = C @ run_q s
      in sems_active s \<and> se_id e = m_sem m \<and> length owners \<le> 1 \<and>
         (se_q e \<noteq> [] \<longrightarrow> owners \<noteq> []) \<and> se_count e = 1 - int (length owners) - int (length (se_q e)) \<and>
         (\<forall>t \<in> set (se_q e). sem_count (sthread s t) = 1) \<and> distinct (owners @ se_q e) \<and>
         m_holder m = (case C of [] \<Rightarrow> -1 | t # _ \<Rightarrow> int t))"

lemma release_one:
  assumes T: "fifo T" and "sems_active s" "se_id (sems s (sem_slot sid)) = sid" "se_count (sems s (sem_slot sid)) < 0"
    and q: "se_q (sems s (sem_slot sid)) = t # r" "sem_count (sthread s t) = 1"
  shows "sem_release T sid 1 s = Some (0, (upd_thread t (\<lambda>x. x\<lparr>th_state := THREAD_READY, sem_count := 0, sem_deleted_retcode := 0\<rparr>)
     (upd_sem (sem_slot sid) (\<lambda>e. e\<lparr>se_q := r, se_count := se_count e + 1\<rparr>) s))\<lparr>run_q := run_q s @ [t]\<rparr>)"
proof -
  have "release_loop T (sem_slot sid) 1 [] s = Some ([t], upd_thread t (\<lambda>x. x\<lparr>th_state := THREAD_READY, sem_count := 0, sem_deleted_retcode := 0\<rparr>)
     (upd_sem (sem_slot sid) (\<lambda>e. e\<lparr>se_q := r, se_count := se_count e + 1\<rparr>) s))"
    using assms by (subst release_loop.simps) (simp add: fifo_simps Let_def release_loop_done upd_thread_def upd_sem_def)
  then show ?thesis
    using assms by (simp add: sem_release_def sem_release_etc_def Let_def run_released_spec)
qed

lemma release_none:
  assumes T: "fifo T" and "sems_active s" "se_id (sems s (sem_slot sid)) = sid" "0 \<le> se_count (sems s (sem_slot sid))"
  shows "sem_release T sid 1 s = Some (0, upd_sem (sem_slot sid) (\<lambda>e. e\<lparr>se_count := se_count e + 1\<rparr>) s)"
proof -
  have "release_loop T (sem_slot sid) 1 [] s = Some ([], upd_sem (sem_slot sid) (\<lambda>e. e\<lparr>se_count := se_count e + 1\<rparr>) s)"
    using assms by (subst release_loop.simps) (simp add: release_loop_done)
  then show ?thesis
    using assms by (simp add: sem_release_def sem_release_etc_def Let_def run_released_spec)
qed

lemma lock_ok_init:
  assumes "sem_init region s0 = Some (r, s)" "run_q s0 = []" "mutex_init True None p (Some m0) s = Some (e, Some m, s')"
  shows "lock_ok m s' []"
  using assms sem_new_id_slot [of 0 "next_sem s0"]
  by (auto simp: lock_ok_def Let_def mutex_init_def sem_init_def sem_create_def sem_create_etc_def find_free.simps [of _ 0]
    MAX_SEMS_def SYS_MAX_OS_NAME_LEN_def split: if_splits)

text \<open>The outcome of \<open>mutex_lock\<close> on a running thread: it enters exactly when nobody owns the mutex.\<close>

lemma mutex_lock_ok:
  assumes T: "fifo T" and ok: "lock_ok m s C" and t: "\<not> blocked t s" "t \<notin> set (run_q s)" "t \<notin> set C"
  shows "\<exists>m' s'. mutex_lock T t m s = Some (C @ run_q s = [], m', s') \<and> lock_ok m' s' (if C @ run_q s = [] then t # C else C) \<and>
    run_q s' = run_q s"
proof -
  let ?i = "sem_slot (m_sem m)"
  have nh: "m_holder m \<noteq> int t"
    using ok t(3) by (auto simp: lock_ok_def Let_def split: list.splits)
  have nq: "t \<notin> set (se_q (sems s ?i))"
    using t(1) by (auto simp: blocked_def)
  have h: "sems_active s" "se_id (sems s ?i) = m_sem m"
    using ok by (auto simp: lock_ok_def Let_def)
  show ?thesis
  proof (cases "C @ run_q s = []")
    case True
    then have c: "se_count (sems s ?i) = 1" "se_q (sems s ?i) = []"
      using ok by (auto simp: lock_ok_def Let_def)
    show ?thesis
      using h c True nh ok by (auto simp: mutex_lock_def sem_acquire_def sem_acquire_start_def Let_def lock_ok_def)
  next
    case False
    then have "length C + length (run_q s) = 1"
      using ok by (cases C; cases "run_q s") (auto simp: lock_ok_def Let_def)
    then have c: "se_count (sems s ?i) = - int (length (se_q (sems s ?i)))"
      using ok by (simp add: lock_ok_def Let_def)
    show ?thesis
      using h c False nh nq t ok
      by (auto simp: mutex_lock_def sem_acquire_def sem_acquire_start_def Let_def lock_ok_def fifo_simps [OF T])
  qed
qed

lemma mutex_unlock_ok:
  assumes T: "fifo T" and ok: "lock_ok m s C" and t: "t \<in> set C"
  shows "C = [t] \<and> run_q s = [] \<and> (\<exists>m' s'. mutex_unlock T t m s = Some (m', s') \<and> lock_ok m' s' [] \<and>
    run_q s' = take 1 (se_q (sems s (sem_slot (m_sem m)))) \<and>
    se_q (sems s' (sem_slot (m_sem m))) = drop 1 (se_q (sems s (sem_slot (m_sem m)))))"
proof -
  let ?i = "sem_slot (m_sem m)"
  have C: "C = [t]" "run_q s = []"
    using ok t by (cases C; auto simp: lock_ok_def Let_def)+
  have h: "sems_active s" "se_id (sems s ?i) = m_sem m" "m_holder m = int t"
      "se_count (sems s ?i) = - int (length (se_q (sems s ?i)))"
    using ok C by (auto simp: lock_ok_def Let_def)
  show ?thesis
  proof (cases "se_q (sems s ?i)")
    case Nil
    then show ?thesis
      using release_none [OF T h(1,2)] h C ok by (auto simp: mutex_unlock_def lock_ok_def Let_def)
  next
    case (Cons w r)
    then have "sem_count (sthread s w) = 1"
      using ok by (auto simp: lock_ok_def Let_def)
    then show ?thesis
      using release_one [OF T h(1,2) _ Cons] h C ok Cons by (auto simp: mutex_unlock_def lock_ok_def Let_def)
  qed
qed

lemma mutex_lock_not_held: "mutex_lock T t m s = Some x \<Longrightarrow> lock_ok m s C \<Longrightarrow> t \<notin> set C"
  by (cases C) (auto simp: mutex_lock_def lock_ok_def Let_def split: if_splits)

lemma mutex_reach_ok: 
  assumes T: "fifo T"
  shows "mutex_reach T m s C \<Longrightarrow> lock_ok m s C"
proof (induction rule: mutex_reach.induct)
  case (init region s0 r s p m0 e m s')
  then show ?case by (rule lock_ok_init)
next
  case (enter m s C t m' s')
  then show ?case
    using mutex_lock_ok [OF T enter.IH enter.hyps(2,3) mutex_lock_not_held [OF enter.hyps(4) enter.IH]] by auto
next
  case (wait m s C t m' s')
  then show ?case
    using mutex_lock_ok [OF T wait.IH wait.hyps(2,3) mutex_lock_not_held [OF wait.hyps(4) wait.IH]] by auto
next
  case (resume m s C t q m' s')
  then show ?case
    by (cases C) (auto simp: mutex_lock_resume_def sem_acquire_finish_def lock_ok_def Let_def split: if_splits)
next
  case (leave m s C t m' s')
  then show ?case
    using mutex_unlock_ok [OF T leave.IH leave.hyps(2)] by auto
qed

section \<open>What a mutex promises\<close>

text \<open>C7: Mutual exclusion: in every reachable state at most one thread is between \<open>mutex_lock\<close> and
  \<open>mutex_unlock\<close>, and the holder field names exactly that thread.\<close>

theorem mutex_exclusion:
  assumes "fifo T" "mutex_reach T m s C"
  shows "length C \<le> 1 \<and> (\<forall>t. t \<in> set C \<longleftrightarrow> m_holder m = int t)"
  using mutex_reach_ok [OF assms] by (auto simp: lock_ok_def Let_def split: list.splits)

definition mutex1 :: mutex where
  "mutex1 = \<lparr>m_holder = -1, m_sem = 0\<rparr>"

definition mutex_table :: sem_table where
  "mutex_table = table0\<lparr>sems := (sems table0)(0 := \<lparr>se_id = 0, se_count = 1, se_q = [], se_name = Some ''mutex_sem'', se_owner = 1\<rparr>),
      next_sem := 1\<rparr>"

text \<open>The mutex after thread 7 has locked it.\<close>

definition locked_table :: sem_table where
  "locked_table = upd_sem 0 (\<lambda>e. e\<lparr>se_count := 0\<rparr>) mutex_table"

lemma mutex1_init: "mutex_init True None 1 (Some mutex1) table0 = Some (0, Some mutex1, mutex_table)"
  by (simp add: mutex_init_def mutex1_def mutex_table_def sem_create_def sem_create_etc_def tables find_free.simps [of _ 0]
    MAX_SEMS_def SYS_MAX_OS_NAME_LEN_def Let_def sem_new_id_def upd_sem_def)

lemma locked_lock: "mutex_lock list_queue 7 mutex1 mutex_table = Some (True, mutex1\<lparr>m_holder := 7\<rparr>, locked_table)"
  by (simp add: locked_table_def mutex_table_def mutex_lock_def mutex1_def sem_acquire_def sem_acquire_start_def Let_def tables
    upd_sem_def)

lemma unlocked_reach: "mutex_reach T mutex1 mutex_table []"
  by (rule mutex_reach.init [OF _ _ mutex1_init, of 0 "table0\<lparr>sems_active := False\<rparr>" 0])
    (simp_all add: sem_init_def tables)

lemma locked_reach: "mutex_reach list_queue (mutex1\<lparr>m_holder := 7\<rparr>) locked_table [7]"
  by (rule mutex_reach.enter [OF unlocked_reach _ _ locked_lock]) (simp_all add: blocked_def mutex_table_def tables)

theorem mutex_exclusion_witness: "m_holder (mutex1\<lparr>m_holder := 7\<rparr>) = 7"
  using mutex_exclusion [OF fifo_list_queue locked_reach] by auto

text \<open>C27: No wake-up is lost and nobody is overtaken: the holder can always unlock; then the longest waiting
  thread, if there is one, becomes the only thread ready to enter, the others stay queued in order, and any
  running thread that now calls \<open>mutex_lock\<close> has to wait; with no waiter it gets in at once.\<close>

theorem mutex_handover:
  assumes "fifo T" "mutex_reach T m s C" "t \<in> set C" and q: "q = se_q (sems s (sem_slot (m_sem m)))"
  shows "\<exists>m' s'. mutex_unlock T t m s = Some (m', s') \<and> m_holder m' = -1 \<and>
    run_q s' = take 1 q \<and> se_q (sems s' (sem_slot (m_sem m))) = drop 1 q \<and>
    (\<forall>u. \<not> blocked u s' \<and> u \<notin> set (run_q s') \<longrightarrow> (\<exists>m2 s2. mutex_lock T u m' s' = Some (q = [], m2, s2)))"
proof -
  obtain m' s' where u: "mutex_unlock T t m s = Some (m', s')" "lock_ok m' s' []" "run_q s' = take 1 q"
      "se_q (sems s' (sem_slot (m_sem m))) = drop 1 q"
    using mutex_unlock_ok [OF assms(1) mutex_reach_ok [OF assms(1,2)] assms(3)] q by auto
  have "\<exists>m2 s2. mutex_lock T u m' s' = Some (q = [], m2, s2)" if "\<not> blocked u s'" "u \<notin> set (run_q s')" for u
    using mutex_lock_ok [OF assms(1) u(2) that] u(3) by (cases q) auto
  moreover have "m_holder m' = -1"
    using u(2) by (simp add: lock_ok_def Let_def)
  ultimately show ?thesis
    using u by blast
qed

theorem mutex_handover_witness:
  "\<exists>m' s'. mutex_unlock list_queue 7 (mutex1\<lparr>m_holder := 7\<rparr>) locked_table = Some (m', s') \<and> m_holder m' = -1 \<and>
    run_q s' = [] \<and> (\<exists>m2 s2. mutex_lock list_queue 9 m' s' = Some (True, m2, s2))"
proof -
  have "se_q (sems locked_table 0) = []"
    by (simp add: locked_table_def mutex_table_def)
  then obtain m' s' where u: "mutex_unlock list_queue 7 (mutex1\<lparr>m_holder := 7\<rparr>) locked_table = Some (m', s')" "m_holder m' = -1"
      "run_q s' = []" "\<not> blocked 9 s' \<longrightarrow> (\<exists>m2 s2. mutex_lock list_queue 9 m' s' = Some (True, m2, s2))"
    using mutex_handover [OF fifo_list_queue locked_reach, of 7 "[]"] by (auto simp: mutex1_def)
  moreover have "\<not> blocked 9 s'"
    using u(1) by (auto simp: mutex_unlock_def mutex1_def release_none locked_table_def mutex_table_def tables blocked_def
      split: if_splits)
  ultimately show ?thesis
    by blast
qed

end
