(* ===== verification/Net_Demo.thy ===== *)
theory Net_Demo
  imports Tcp
begin

text \<open>
  A small concrete system on which the theorems of the protocol theories are instantiated: the loopback
  interface with the address 127.0.0.1/8, memory always available, the route \<open>loopback_init\<close> adds, and
  nothing else.  The interface's MTU is a parameter.
\<close>

definition demo_ifnet :: "u32 \<Rightarrow> ifnet" where
  "demo_ifnet m = \<lparr>if_id = 0, if_path = ''loopback'', if_type = 1, if_fd = -1, rx_thread = 1, tx_thread = 2,
     addr_list = [\<lparr>ia_addr = ip_netaddr 0x7f000001, ia_netmask = ip_netaddr 0xff000000, ia_broadcast = ip_netaddr 0x7fffffff\<rparr>],
     link_addr = None, mtu = m, link_fns = Loopback_link, tx_queue_sem = 0,
     tx_queue = \<lparr>fq_table = [], fq_head = 0, fq_tail = 0, fq_count = 0, fq_size = 0\<rparr>\<rparr>"

definition demo_route :: ipv4_routing_entry where
  "demo_route = \<lparr>re_network_addr = 0x7f000000, re_netmask = 0xff000000, re_gw_addr = 0, re_if_addr = 0x7f000001,
     re_interface_id = 0, re_flags = 0\<rparr>"

definition demo :: "u32 \<Rightarrow> tcp_state" where
  "demo m = \<lparr>sys_time = 0, alloc_ok = (\<lambda>_. True), allocs = 10, junk = (\<lambda>_. 0), tail_room = (\<lambda>_. 0), chains = 0,
     timer_q = [], effects = [], ifs = (\<lambda>_. demo_ifnet m), ifhash = [1], next_id = 1,
     arp_entry = (\<lambda>_. \<lparr>ae_ip_addr = 0, ae_link_addr = ip_netaddr 0, ae_last_used = 0\<rparr>), arp_table = [],
     arp_cache_entries = [], arp_waiters = [], arp_wait_sem = 0,
     route_table = [demo_route], frag_table = [], curr_identification = 1,
     udp_ep = (\<lambda>_. \<lparr>ue_port = 0, ue_q = udp_init_queue, ue_ref_count = 1\<rparr>), udp_endpoints = [], udp_next_ephemeral_port = 1024,
     tcp_sock = (\<lambda>_. new_tcp_socket 0), socket_table = [], tcp_freed = [], tcp_next_ephemeral_port = 1024,
     rand_seq = (\<lambda>_. 0)\<rparr>"

text \<open>The wire: a packet sent is recorded and freed.\<close>

definition demo_wire :: "'a net_base_scheme link_output" where
  "demo_wire b i a prot s =
     (case b of None \<Rightarrow> None | Some p \<Rightarrow> Some (NO_ERROR, emit (Sys_write 0 p) (free_chain (Some p) s)))"

lemma demo_simps [simp]:
  "alloc_ok (demo m) n" "ifs (demo m) i = demo_ifnet m" "mtu (demo_ifnet m) = m" "if_type (demo_ifnet m) = 1"
  "route_table (demo m) = [demo_route]" "frag_table (demo m) = []" "effects (demo m) = []" "chains (demo m) = 0"
  "allocs (demo m) = 10" "sys_time (demo m) = 0" "curr_identification (demo m) = 1" "timer_q (demo m) = []"
  "arp_waiters (demo m) = []" "arp_table (demo m) = []" "udp_endpoints (demo m) = []" "socket_table (demo m) = []"
  "addr_list (demo_ifnet m) = [\<lparr>ia_addr = ip_netaddr 0x7f000001, ia_netmask = ip_netaddr 0xff000000, ia_broadcast = ip_netaddr 0x7fffffff\<rparr>]"
  by (simp_all add: demo_def demo_ifnet_def)

lemma demo_match [simp]: "ipv4_route_match 0x7f000001 (demo m) = (NO_ERROR, 0, 0x7f000001, 0x7f000001)"
  by (simp add: ipv4_route_match_def demo_route_def)

lemma demo_if [simp]: "if_id_to_ifnet 0 (demo m) = Suc 0"
  by (simp add: if_id_to_ifnet_def tab_find_def if_compare_func_def demo_def demo_ifnet_def)

end
