(* ===== verification/Ipv4_Props.thy ===== *)
theory Ipv4_Props
  imports Net_Demo
begin

text \<open>
  Routing and output: which masks are accepted, which route wins, and what \<open>ipv4_output\<close> puts on the
  wire for a datagram of any size.
\<close>

section \<open>Netmasks\<close>

text \<open>The code's test on a mask, on its complement: a number without a bit in common with its successor is
  one less than a power of two.\<close>

lemma and_succ_nat: "x AND Suc x = 0 \<longleftrightarrow> (\<exists>k. Suc x = 2 ^ k)"
proof (induction x rule: less_induct)
  case (less x)
  show ?case
  proof (cases "even x")
    case True
    then obtain y where y: "x = 2 * y" by (auto elim: evenE)
    have "x AND Suc x = 2 * (y AND y)"
      by (subst and_nat_rec) (simp add: y)
    moreover have "Suc x = 2 ^ k \<Longrightarrow> x = 0" for k
      using True by (cases k) (auto dest: arg_cong [of _ _ even])
    ultimately show ?thesis
      using y by (auto intro: exI [of _ 0])
  next
    case False
    then obtain y where y: "x = 2 * y + 1" by (auto elim: oddE)
    have e: "x AND Suc x = 2 * (y AND Suc y)"
      by (subst and_nat_rec) (simp add: y)
    have "(\<exists>k. Suc x = 2 ^ k) \<longleftrightarrow> (\<exists>k. Suc y = 2 ^ k)"
    proof
      assume "\<exists>k. Suc x = 2 ^ k"
      then obtain k where "2 * Suc y = 2 ^ k" by (auto simp: y)
      then have "k \<noteq> 0 \<Longrightarrow> Suc y = 2 ^ (k - 1)" by (cases k) simp_all
      moreover have "k \<noteq> 0" using \<open>2 * Suc y = 2 ^ k\<close> by (cases k) simp_all
      ultimately show "\<exists>k. Suc y = 2 ^ k" by blast
    next
      assume "\<exists>k. Suc y = 2 ^ k"
      then obtain k where "Suc y = 2 ^ k" by auto
      then have "Suc x = 2 ^ Suc k" using y by simp
      then show "\<exists>k. Suc x = 2 ^ k" by blast
    qed
    then show ?thesis
      using less [of y] e y by simp
  qed
qed

text \<open>The masks with \<open>k\<close> trailing zeros.\<close>

definition prefix_mask :: "nat \<Rightarrow> ipv4_addr" where
  "prefix_mask k = push_bit k (-1)"

lemma unat_mask32:
  assumes "k \<le> 32"
  shows "unat (mask k :: u32) = 2 ^ k - 1"
proof -
  have "(2::nat) ^ k \<le> 2 ^ 32"
    using assms by (rule power_increasing) simp
  moreover have "(mask k :: u32) = of_nat (2 ^ k - 1)"
    by (simp add: mask_eq_exp_minus_1 of_nat_diff)
  ultimately show ?thesis
    by (simp add: unat_of_nat del: of_nat_diff)
qed

lemma mask_test:
  fixes netmask :: ipv4_addr
  shows "(netmask OR (netmask - 1) = 0xffffffff) \<longleftrightarrow> (\<exists>k \<le> 32. netmask = prefix_mask k)"
proof (cases "netmask = 0")
  case True
  then show ?thesis
    by (auto intro!: exI [of _ 32] simp: prefix_mask_def push_bit_eq_mult)
next
  case False
  define x where "x = NOT netmask"
  have n: "netmask = NOT x" "netmask - 1 = NOT (x + 1)"
    by (simp_all add: x_def not_eq_complement)
  have m: "(0xffffffff :: ipv4_addr) = -1"
    by simp
  have "x \<noteq> -1"
    using False by (auto simp: x_def) (metis bit.compl_zero bit.double_compl)
  then have s: "unat (x + 1) = Suc (unat x)"
    using unatSuc [of x] by (simp add: add.commute add_eq_0_iff)
  have "(netmask OR (netmask - 1) = 0xffffffff) \<longleftrightarrow> NOT (x AND (x + 1)) = -1"
    unfolding n(2) m by (simp add: n(1))
  also have "\<dots> \<longleftrightarrow> x AND (x + 1) = 0"
    by (metis bit.compl_zero bit.double_compl)
  also have "\<dots> \<longleftrightarrow> unat x AND Suc (unat x) = 0"
    by (metis s unat_0 unat_inj unsigned_and_eq)
  also have "\<dots> \<longleftrightarrow> (\<exists>k. Suc (unat x) = 2 ^ k)"
    by (rule and_succ_nat)
  also have "\<dots> \<longleftrightarrow> (\<exists>k \<le> 32. netmask = prefix_mask k)"
  proof
    assume "\<exists>k. Suc (unat x) = 2 ^ k"
    then obtain k where k: "Suc (unat x) = 2 ^ k" by blast
    then have "(2::nat) ^ k \<le> 2 ^ 32"
      using unat_u32_less [of x] by simp
    then have k32: "k \<le> 32"
      by (simp only: power_increasing_iff)
    have "unat x = 2 ^ k - 1"
      using k by simp
    then have "x = mask k"
      using k32 by (intro unat_inj) (simp add: unat_mask32)
    then have "netmask = NOT (mask k)"
      by (simp add: n)
    then show "\<exists>k \<le> 32. netmask = prefix_mask k"
      using k32 by (auto simp: prefix_mask_def push_bit_minus_one_eq_not_mask)
  next
    assume "\<exists>k \<le> 32. netmask = prefix_mask k"
    then obtain k where k: "k \<le> 32" "netmask = NOT (mask k)"
      by (auto simp: prefix_mask_def push_bit_minus_one_eq_not_mask)
    then have "unat x = 2 ^ k - 1"
      by (simp add: x_def unat_mask32)
    then have "Suc (unat x) = 2 ^ k"
      by simp
    then show "\<exists>k. Suc (unat x) = 2 ^ k" by blast
  qed
  finally show ?thesis .
qed

section \<open>Routes\<close>

definition route_entry :: "ipv4_addr \<Rightarrow> ipv4_addr \<Rightarrow> ipv4_addr \<Rightarrow> int \<Rightarrow> u32 \<Rightarrow> ipv4_addr \<Rightarrow> ipv4_routing_entry" where
  "route_entry net netmask if_addr num flags gw =
     \<lparr>re_network_addr = net, re_netmask = netmask, re_gw_addr = gw, re_if_addr = if_addr,
      re_interface_id = num, re_flags = flags\<rparr>"

lemma kmalloc_frame [simp]:
  "route_table (snd (kmalloc s)) = route_table s" "ifs (snd (kmalloc s)) = ifs s" "ifhash (snd (kmalloc s)) = ifhash s"
  "effects (snd (kmalloc s)) = effects s" "chains (snd (kmalloc s)) = chains s" "alloc_ok (snd (kmalloc s)) = alloc_ok s"
  "junk (snd (kmalloc s)) = junk s" "frag_table (snd (kmalloc s)) = frag_table s" "sys_time (snd (kmalloc s)) = sys_time s"
  by (simp_all add: kmalloc_def)

lemma route_insert_prepends: "route_insert (re_netmask e) e t = e # t"
  by (cases t) simp_all

lemma route_add_spec:
  assumes "netmask OR (netmask - 1) = 0xffffffff" "alloc_ok s (allocs s)"
  shows "fst (ipv4_route_add_etc net netmask if_addr num flags gw s) = NO_ERROR"
    and "route_table (snd (ipv4_route_add_etc net netmask if_addr num flags gw s)) =
      route_entry net netmask if_addr num flags gw # route_table s"
  using assms route_insert_prepends [of "route_entry net netmask if_addr num flags gw"]
  by (simp_all add: ipv4_route_add_etc_def Let_def kmalloc_def route_entry_def)

lemma find_snoc: "List.find P (xs @ [x]) = (case List.find P xs of Some y \<Rightarrow> Some y | None \<Rightarrow> if P x then Some x else None)"
  by (induction xs) auto

lemma route_walk_last: "route_walk ip last_e es =
    (case List.find (\<lambda>e. ip AND re_netmask e = re_network_addr e) (rev es) of Some e \<Rightarrow> Some e | None \<Rightarrow> last_e)"
proof (induction es arbitrary: last_e)
  case (Cons e es)
  then show ?case
    by (simp add: find_snoc split: option.split)
qed simp

section \<open>The header\<close>

text \<open>The 20 bytes of a header, with the flags and offset field and the checksum as given.\<close>

definition ip_header :: "u16 \<Rightarrow> u16 \<Rightarrow> u16 \<Rightarrow> byte \<Rightarrow> u16 \<Rightarrow> ipv4_addr \<Rightarrow> ipv4_addr \<Rightarrow> packet" where
  "ip_header packet_len identification flags_off protocol ck src dest =
     [0x45, 0] @ raw16 (htons packet_len) @ raw16 identification @ raw16 (htons flags_off) @ [255, protocol] @ raw16 ck @
     raw32 (htonl src) @ raw32 (htonl dest)"

definition flags_offset :: "u16 \<Rightarrow> bool \<Rightarrow> u16" where
  "flags_offset off more_frags = (off div 8 AND IPV4_FRAG_OFFSET_MASK) OR (if more_frags then IPV4_FLAG_MORE_FRAGS else 0)"

lemma ucast_halves [simp]:
  "(ucast (ucast (v :: u32) :: u16) :: byte) = ucast v"
  "(ucast (drop_bit 8 (ucast (v :: u32) :: u16)) :: byte) = ucast (drop_bit 8 v)"
  "(ucast (ucast (drop_bit 16 (v :: u32)) :: u16) :: byte) = ucast (drop_bit 16 v)"
  "(ucast (drop_bit 8 (ucast (drop_bit 16 (v :: u32)) :: u16)) :: byte) = ucast (drop_bit 24 v)"
  by (rule bit_word_eqI; auto simp: bit_simps dest: bit_imp_le_length)+

lemma htons_or: "htons a OR htons b = htons (a OR b)"
  by (rule bit_word_eqI) (auto simp: htons_def bit_simps)

lemma length_ip_header [simp]: "length (ip_header pl i fo p c a b) = 20"
  by (simp add: ip_header_def)

lemma list20: "length h = 20 \<Longrightarrow> \<exists>a0 a1 a2 a3 a4 a5 a6 a7 a8 a9 b0 b1 b2 b3 b4 b5 b6 b7 b8 b9.
    h = [a0, a1, a2, a3, a4, a5, a6, a7, a8, a9, b0, b1, b2, b3, b4, b5, b6, b7, b8, b9]"
  by (simp add: numeral_eq_Suc length_Suc_conv) blast

lemma fill_header_eq:
  assumes "length h = 20"
  shows "\<exists>ck. ipv4_fill_header h pl i off more_frags p a b = ip_header pl i (flags_offset off more_frags) p ck a b \<and>
    cksum16 (ipv4_fill_header h pl i off more_frags p a b) = 0"
proof -
  define z where "z = ip_header pl i (flags_offset off more_frags) p 0 a b"
  have 5: "(0x45 AND 0xf :: byte) = 5" "(push_bit 4 4 OR 5 :: byte) = 0x45"
    by simp_all
  have c: "ipv4_fill_header h pl i off more_frags p a b = put16 z 10 (cksum16 z)"
  proof -
    obtain a0 a1 a2 a3 a4 a5 a6 a7 a8 a9 b0 b1 b2 b3 b4 b5 b6 b7 b8 b9
      where h: "h = [a0, a1, a2, a3, a4, a5, a6, a7, a8, a9, b0, b1, b2, b3, b4, b5, b6, b7, b8, b9]"
      using list20 [OF assms] by blast
    show ?thesis
      unfolding ipv4_fill_header_def Let_def h z_def ip_header_def flags_offset_def
      by (simp add: put8_def put16_def put32_def raw16_def raw32_def get16_def htons_or 5)
  qed
  have "get16 z 10 = 0"
    by (simp add: z_def ip_header_def get16_def raw16_def raw32_def le16_def)
  then have "cksum16 (put16 z 10 (cksum16 z)) = 0"
    by (intro cksum16_store) (simp_all add: z_def)
  moreover have "put16 z 10 (cksum16 z) = ip_header pl i (flags_offset off more_frags) p (cksum16 z) a b"
    unfolding z_def by (simp add: ip_header_def put16_def raw16_def raw32_def)
  ultimately show ?thesis
    unfolding c by metis
qed

lemma ip_header_fields [simp]:
  "ip_header pl i fo p c a b ! 0 = 0x45" "get16 (ip_header pl i fo p c a b) 2 = htons pl"
  "get16 (ip_header pl i fo p c a b) 4 = i" "get16 (ip_header pl i fo p c a b) 6 = htons fo"
  "ip_header pl i fo p c a b ! 9 = p" "get32 (ip_header pl i fo p c a b) 12 = htonl a"
  "get32 (ip_header pl i fo p c a b) 16 = htonl b"
  using le32_raw by (simp_all add: ip_header_def get16_def get32_def raw16_def raw32_def)

section \<open>Output\<close>

text \<open>A link that puts the packet on the wire, here the list of effects, and frees it.\<close>

definition wire_link :: "'a ipv4_state_scheme link_output \<Rightarrow> bool" where
  "wire_link lo \<longleftrightarrow> (\<forall>p i a prot s. lo (Some p) i a prot s = Some (NO_ERROR, emit (Sys_write 0 p) (free_chain (Some p) s)))"

definition memory_ok :: "'a net_base_scheme \<Rightarrow> bool" where
  "memory_ok s \<longleftrightarrow> (\<forall>n. alloc_ok s n)"

text \<open>\<open>f\<close> is the packet with a correct header that carries the piece \<open>d\<close> found at offset \<open>off\<close>.\<close>

definition is_fragment :: "nat \<Rightarrow> u16 \<Rightarrow> byte \<Rightarrow> ipv4_addr \<Rightarrow> ipv4_addr \<Rightarrow> nat \<Rightarrow> bool \<Rightarrow> packet \<Rightarrow> packet \<Rightarrow> bool" where
  "is_fragment m i prot src dest off more_frags d f \<longleftrightarrow> length f \<le> m \<and> cksum16 (take 20 f) = 0 \<and>
     (\<exists>ck. f = ip_header (of_nat (20 + length d)) i (flags_offset (of_nat off) more_frags) prot ck src dest @ d)"


definition piece_len :: "nat \<Rightarrow> nat \<Rightarrow> nat" where
  "piece_len m n = (if n + 20 < m then n else (m - 20) div 8 * 8)"

lemma unat_of_nat16 [simp]: "n < 65536 \<Longrightarrow> unat (of_nat n :: u16) = n"
  by (simp add: unat_of_nat)

lemma of_nat16_nonzero: "0 < n \<Longrightarrow> n < 65536 \<Longrightarrow> (of_nat n :: u16) \<noteq> 0"
  by (metis unat_of_nat16 unat_0 less_numeral_extra(3))

lemma packet_len_eq:
  assumes m: "m = unat if_mtu" "20 \<le> m" "m < 65536" and n: "n < 65536"
  shows "ipv4_packet_len if_mtu (of_nat n) = of_nat (20 + piece_len m n)"
proof -
  have a: "unat (of_nat (n + 20) :: u32) = n + 20"
    using n by (simp add: unat_of_nat del: of_nat_add)
  then have mi: "unat (min if_mtu (of_nat (n + 20))) = min m (n + 20)"
    by (auto simp: min_def word_le_nat_alt m(1))
  let ?p = "ucast (min if_mtu (of_nat (n + 20))) :: u16"
  have "unat ?p = min m (n + 20) mod 65536"
    by (simp add: unsigned_ucast_eq mi take_bit_eq_mod del: of_nat_add)
  then have p: "unat ?p = min m (n + 20)"
    using m by simp
  then have p': "?p = of_nat (min m (n + 20))"
    by (intro unat_inj) (use p m in simp)
  show ?thesis
  proof (cases "n + 20 < m")
    case True
    then show ?thesis
      using p p' n by (simp add: ipv4_packet_len_def Let_def sizeof_ipv4_header_def piece_len_def m(1) del: of_nat_add)
        (simp add: add.commute)
  next
    case False
    have u: "uint ?p = int m"
      using p False by (metis min.absorb1 not_less uint_nat)
    have "cdiv (int m - 20) 8 * 8 + 20 = int (20 + (m - 20) div 8 * 8)"
      using m(2) by (simp add: cdiv_def zdiv_int of_nat_diff)
    then have "(word_of_int (cdiv (int m - 20) 8 * 8 + 20) :: u16) = of_nat (20 + (m - 20) div 8 * 8)"
      by (simp only: of_int_of_nat_eq)
    then show ?thesis
      using False p u n by (simp add: ipv4_packet_len_def Let_def sizeof_ipv4_header_def piece_len_def m(1) ROUNDOWN_def
        del: of_nat_add)
  qed
qed

lemma piece_len_pos: "28 \<le> m \<Longrightarrow> 0 < n \<Longrightarrow> 0 < piece_len m n"
  by (auto simp: piece_len_def)

lemma piece_len_le: "28 \<le> m \<Longrightarrow> piece_len m n \<le> n"
  unfolding piece_len_def using div_times_less_eq_dividend [of "m - 20" 8] by auto

lemma piece_len_mtu: "20 \<le> m \<Longrightarrow> 20 + piece_len m n \<le> m"
  unfolding piece_len_def using div_times_less_eq_dividend [of "m - 20" 8] by auto

lemma get_chain_ok:
  "memory_ok s \<Longrightarrow> 0 < n \<Longrightarrow>
    get_chain n s = Some (Some (map (junk s) [0..<n]), s\<lparr>allocs := Suc (allocs s), chains := chains s + 1\<rparr>)"
  by (simp add: get_chain_def kmalloc_def memory_ok_def Let_def)

lemma dup_chain_ok:
  "memory_ok s \<Longrightarrow> off < length p \<Longrightarrow> 0 < n \<Longrightarrow>
    dup_chain (Some p) off n s = Some (Some (take n (drop off p)), s\<lparr>allocs := Suc (allocs s), chains := chains s + 1\<rparr>)"
  by (simp add: dup_chain_def get_chain_ok)

text \<open>What a round leaves of the state.\<close>

definition same_net :: "'a if_state_scheme \<Rightarrow> 'a if_state_scheme \<Rightarrow> bool" where
  "same_net s s' \<longleftrightarrow> memory_ok s' = memory_ok s \<and> ifs s' = ifs s \<and> ifhash s' = ifhash s"

lemma output_round:
  assumes lo: "wire_link lo" and mem: "memory_ok s" and ty: "if_type (ifs s i) = IF_TYPE_LOOPBACK"
    and m: "m = unat (mtu (ifs s i))" "28 \<le> m" "m < 65536" and L: "0 < L" "off + L = length p" "length p < 65536"
    and off: "8 dvd off" and n: "n = piece_len m L" and whole: "must_frag \<or> \<not> gone \<and> off = 0 \<and> d = p"
    and d: "must_frag \<Longrightarrow> d = take n (drop off p)"
  shows "\<exists>f s'. ipv4_output_loop packed lo must_frag (Some p) gone i ifa tr dest prot idn (of_nat off) (of_nat L) err s =
      ipv4_output_loop packed lo must_frag (Some p) True i ifa tr dest prot idn (of_nat (off + n)) (of_nat (L - n)) NO_ERROR s' \<and>
    (length d = n \<longrightarrow> is_fragment m idn prot ifa dest off (n \<noteq> L) d f) \<and> same_net s s' \<and>
    effects s' = effects s @ [Sys_write 0 f] \<and> chains s' = chains s - (if must_frag then 0 else 1)"
proof -
  have n1: "0 < n" "n \<le> L" "20 + n \<le> m"
    using piece_len_pos [OF m(2) L(1)] piece_len_le [OF m(2), of L] piece_len_mtu [of m L] m(2) n by auto
  have lt: "L < 65536" "20 + n < 65536" "off < length p" "off < 65536"
    using L n1 m by auto
  have L0: "(of_nat L :: u16) \<noteq> 0"
    using lt L by (intro of_nat16_nonzero) simp_all
  have pl: "ipv4_packet_len (mtu (ifs s i)) (of_nat L) = of_nat (20 + n)"
    unfolding n by (rule packet_len_eq) (use m lt in auto)
  let ?h = "ipv4_fill_header (map (junk s) [0..<20]) (of_nat (20 + n)) idn (of_nat off) (n \<noteq> L) prot ifa dest"
  obtain ck where h: "?h = ip_header (of_nat (20 + n)) idn (flags_offset (of_nat off) (n \<noteq> L)) prot ck ifa dest" "cksum16 ?h = 0"
    using fill_header_eq [of "map (junk s) [0..<20]" "of_nat (20 + n)" idn "of_nat off" "n \<noteq> L" prot ifa dest] by auto
  have len: "of_nat (20 + n) - 20 = (of_nat n :: u16)" "of_nat off + of_nat n = (of_nat (off + n) :: u16)" "(of_nat L - of_nat n :: u16) = of_nat (L - n)"
    using n1 by simp_all
  let ?s1 = "s\<lparr>allocs := Suc (allocs s), chains := chains s + 1\<rparr>"
  have m1: "memory_ok ?s1"
    using mem by (simp add: memory_ok_def)
  have mf: "(unat (of_nat (20 + n) :: u16) = unat (of_nat L :: u16) + 20) = (n = L)"
    using lt by (simp del: of_nat_add)
  have un: "unat (of_nat n :: u16) = n" "unat (of_nat off :: u16) = off"
    using lt by simp_all
  have g: "get_chain 20 s = Some (Some (map (junk s) [0..<20]), ?s1)"
    using get_chain_ok [OF mem, of 20] by simp
  have f: "length d = n \<Longrightarrow> is_fragment m idn prot ifa dest off (n \<noteq> L) d (?h @ d)"
    using n1 h by (auto simp: is_fragment_def)
  show ?thesis
  proof (cases must_frag)
    case True
    let ?s2 = "?s1\<lparr>allocs := Suc (Suc (allocs s)), chains := chains s + 2\<rparr>"
    have dup: "dup_chain (Some p) off n ?s1 = Some (Some (take n (drop off p)), ?s2)"
      using dup_chain_ok [OF m1 lt(3) n1(1)] by simp
    show ?thesis
      apply (subst ipv4_output_loop.simps)
      using L0 f d True lo ty
      apply (simp add: g pl mf len dup un Let_def merge_chains_def arp_lookup_def wire_link_def sizeof_ipv4_header_def
        del: of_nat_add of_nat_diff)
      apply (intro exI conjI, rule refl)
      apply (auto simp: same_net_def memory_ok_def emit_def free_chain_def)
      done
  next
    case False
    then have w: "\<not> gone" "off = 0" "d = p"
      using whole by auto
    show ?thesis
      apply (subst ipv4_output_loop.simps)
      using L0 f w False lo ty
      apply (simp add: g pl mf len un Let_def merge_chains_def arp_lookup_def wire_link_def sizeof_ipv4_header_def
        del: of_nat_add of_nat_diff)
      apply (intro exI conjI, rule refl)
      apply (auto simp: same_net_def memory_ok_def emit_def free_chain_def)
      done
  qed
qed


lemma same_netD:
  assumes "same_net s s'"
  shows "memory_ok s \<Longrightarrow> memory_ok s'" "ifs s' = ifs s" "ifhash s' = ifhash s"
  using assms by (simp_all add: same_net_def)


section \<open>What routing and output promise\<close>

text \<open>A route is accepted, while memory lasts, exactly when its mask is one of the 33 prefix masks (a run of
  ones followed by a run of zeros); a mask with a hole is refused and changes nothing.\<close>

theorem route_mask_test:
  assumes "alloc_ok s (allocs s)"
  shows "(if \<exists>k \<le> 32. netmask = prefix_mask k
    then fst (ipv4_route_add_etc net netmask if_addr num flags gw s) = NO_ERROR
    else ipv4_route_add_etc net netmask if_addr num flags gw s = (ERR_INVALID_ARGS, s))"
  using route_add_spec(1) [OF _ assms] mask_test [of netmask] by (simp add: ipv4_route_add_etc_def)

lemma demo_alloc: "alloc_ok (demo m) (allocs (demo m))"
  by simp

theorem route_mask_test_witness:
  "ipv4_route_add_etc 0x0a000000 0xff00ff00 0x0a000001 0 0 0 (demo 1500) = (ERR_INVALID_ARGS, demo 1500)"
proof -
  have "\<not> (\<exists>k \<le> 32. 0xff00ff00 = prefix_mask k)"
    using mask_test [of "0xff00ff00"] by simp
  then show ?thesis
    using route_mask_test [where s = "demo 1500" and netmask = "0xff00ff00" and net = "0x0a000000" and if_addr = "0x0a000001" and num = 0
      and flags = 0 and gw = 0, OF demo_alloc] by (simp only: if_False)
qed

text \<open>An older route wins.  Although a comment promises a table sorted from the least to the most
  specific mask, a new route goes to the front whatever its mask, and the search keeps the last match: a route
  added later is used only for the addresses that no earlier route covers, so a default route that comes first
  hides every route after it.\<close>

theorem later_route_is_hidden:
  assumes "alloc_ok s (allocs s)" "k \<le> 32"
  shows "ipv4_route_match ip (snd (ipv4_route_add_etc net (prefix_mask k) if_addr num flags gw s)) =
    (if fst (ipv4_route_match ip s) = NO_ERROR then ipv4_route_match ip s
     else if ip AND prefix_mask k = net then (NO_ERROR, num, if flags AND ROUTE_FLAGS_GW \<noteq> 0 then gw else ip, if_addr)
     else (ERR_NET_NO_ROUTE, -1, 0, 0))"
proof -
  have m: "prefix_mask k OR (prefix_mask k - 1) = 0xffffffff"
    using mask_test [of "prefix_mask k"] assms(2) by blast
  show ?thesis
    unfolding ipv4_route_match_def route_add_spec(2) [OF m assms(1)] route_walk_last
    by (simp add: route_entry_def find_snoc split: option.split)
qed

lemma prefix_mask_24: "prefix_mask 8 = 0xffffff00"
  by (simp add: prefix_mask_def push_bit_eq_mult)

text \<open>A host behind a second interface, inside 127.0.0.0/8, is still sent to the first.\<close>

theorem later_route_is_hidden_witness:
  "ipv4_route_match 0x7f000001 (snd (ipv4_route_add_etc 0x7f000000 0xffffff00 0x7f000009 5 0 0 (demo 1500))) =
    (NO_ERROR, 0, 0x7f000001, 0x7f000001)"
  using later_route_is_hidden [of "demo 1500" 8 "0x7f000001" "0x7f000000" "0x7f000009" 5 0 0] by (simp add: prefix_mask_24)



lemma demo_wire_link [simp]: "wire_link demo_wire"
  by (simp add: wire_link_def demo_wire_def)

lemma demo_memory [simp]: "memory_ok (demo m)"
  by (simp add: memory_ok_def)


text \<open>A datagram that with its header is exactly as long as the MTU, on an interface whose MTU leaves no
  multiple of eight for the payload, is sent twice: the length of the only packet is rounded down although the
  datagram is not fragmented, so the loop goes round again and uses the chain it has handed to the link layer
  already.\<close>

theorem ipv4_output_exact_mtu_faults:
  assumes lo: "wire_link lo" and mem: "memory_ok s"
    and route: "ipv4_route_match dest s = (NO_ERROR, iid, tr, ifa)" "if_id_to_ifnet iid s = i" "i \<noteq> 0"
    and ty: "if_type (ifs s i) = IF_TYPE_LOOPBACK" and m: "m = unat (mtu (ifs s i))" "28 \<le> m" "m < 65536"
    and p: "length p + 20 = m" "\<not> 8 dvd length p"
  shows "ipv4_output packed lo (Some p) dest prot s = None"
proof -
  define s0 where "s0 = s\<lparr>curr_identification := curr_identification s + 1\<rparr>"
  let ?id = "htons (ucast (curr_identification s))"
  let ?n = "piece_len m (length p)"
  have s0: "memory_ok s0" "ifs s0 = ifs s"
    using mem by (simp_all add: s0_def memory_ok_def)
  have L: "0 < length p" "length p < 65536"
    using p m by auto
  have "?n \<noteq> length p"
    using p by (auto simp: piece_len_def) (metis dvd_triv_right)
  then have n: "?n < length p"
    using piece_len_le [OF m(2), of "length p"] by simp
  obtain s1 where r: "ipv4_output_loop packed lo False (Some p) False i ifa tr dest prot ?id (of_nat 0) (of_nat (length p)) NO_ERROR s0 =
      ipv4_output_loop packed lo False (Some p) True i ifa tr dest prot ?id (of_nat (0 + ?n)) (of_nat (length p - ?n)) NO_ERROR s1"
      "same_net s0 s1"
    using output_round [where must_frag = False and d = p and gone = False and packed = packed and ifa = ifa and tr = tr
      and dest = dest and prot = prot and idn = ?id and err = NO_ERROR and s = s0 and i = i and p = p and off = 0 and m = m
      and n = ?n, OF lo s0(1) _ _ m(2,3) L(1) _ L(2)] ty m(1) s0 by auto
  have z: "(of_nat (length p - ?n) :: u16) \<noteq> 0"
    using n L by (intro of_nat16_nonzero) simp_all
  have "ipv4_output_loop packed lo False (Some p) True i ifa tr dest prot ?id (of_nat (0 + ?n)) (of_nat (length p - ?n)) NO_ERROR s1 = None"
    using z get_chain_ok [OF same_netD(1) [OF r(2) s0(1)], of 20]
    by (subst ipv4_output_loop.simps) (simp add: sizeof_ipv4_header_def Let_def del: of_nat_add of_nat_diff)
  then have "ipv4_output_loop packed lo False (Some p) False i ifa tr dest prot ?id 0 (of_nat (length p)) NO_ERROR s0 = None"
    using r(1) by simp
  moreover have "\<not> unat (of_nat (length p) :: u16) + sizeof_ipv4_header > unat (mtu (ifs s i))"
    using L m p by (simp add: sizeof_ipv4_header_def)
  ultimately show ?thesis
    using route by (simp add: ipv4_output_def chain_len_def s0_def)
qed

text \<open>The loopback interface of \<open>if.c\<close> has MTU 65535.\<close>

theorem ipv4_output_exact_mtu_faults_witness:
  "ipv4_output True demo_wire (Some (replicate 65515 0)) 0x7f000001 17 (demo 65535) = None"
  by (rule ipv4_output_exact_mtu_faults [where i = 1 and m = 65535 and iid = 0 and tr = "0x7f000001" and ifa = "0x7f000001"])
    simp_all

end
