(* ===== verification/Frag_Props.thy ===== *)
theory Frag_Props
  imports Ipv4_Props Ipv4_Input
begin

text \<open>
  Reassembly: fragments that arrive in order give back the datagram that \<open>ipv4_output\<close> cut into pieces, and
  what goes wrong when the first piece comes late.
\<close>

section \<open>Reading a fragment's header\<close>

lemma flags_offset_eq:
  assumes "8 dvd off" "off < 65536"
  shows "(flags_offset (of_nat off) more_frags AND IPV4_FRAG_OFFSET_MASK) * 8 = of_nat off"
    and "(flags_offset (of_nat off) more_frags AND IPV4_FLAG_MORE_FRAGS = 0) = (\<not> more_frags)"
    and "(flags_offset (of_nat off) more_frags AND IPV4_FRAG_OFFSET_MASK = 0) = (off = 0)"
proof -
  obtain k where k: "off = 8 * k" "k < 8192"
    using assms by auto
  have "of_nat off div 8 = (of_nat k :: u16)"
  proof (rule unat_inj)
    show "unat (of_nat off div 8 :: u16) = unat (of_nat k :: u16)"
      using k by (simp add: unat_div_distrib del: of_nat_mult)
  qed
  moreover have "(of_nat k :: u16) AND 0x1fff = of_nat k"
  proof -
    have "(0x1fff :: u16) = mask 13"
      by (simp add: mask_eq_exp_minus_1)
    moreover have "take_bit 13 (of_nat k :: u16) = of_nat k"
      using k by (intro unat_inj) (simp add: unsigned_take_bit_eq take_bit_nat_eq_self)
    ultimately show ?thesis
      by (simp add: take_bit_eq_mask)
  qed
  ultimately have d: "of_nat off div 8 AND IPV4_FRAG_OFFSET_MASK = (of_nat k :: u16)"
    by (simp add: IPV4_FRAG_OFFSET_MASK_def)
  have m: "IPV4_FLAG_MORE_FRAGS AND IPV4_FRAG_OFFSET_MASK = 0" "IPV4_FLAG_MORE_FRAGS \<noteq> 0"
    by (simp_all add: IPV4_FLAG_MORE_FRAGS_def IPV4_FRAG_OFFSET_MASK_def)
  have k': "(of_nat k :: u16) AND IPV4_FRAG_OFFSET_MASK = of_nat k"
    using d by (metis and.assoc and.idem)
  have k2: "(of_nat k :: u16) AND IPV4_FLAG_MORE_FRAGS = 0"
    by (metis and.assoc and.commute and_zero_eq k' m(1))
  have "flags_offset (of_nat off) more_frags AND IPV4_FRAG_OFFSET_MASK = of_nat k"
    by (simp add: flags_offset_def d bit.conj_disj_distrib2 k' m(1))
  then show "(flags_offset (of_nat off) more_frags AND IPV4_FRAG_OFFSET_MASK) * 8 = of_nat off"
      "(flags_offset (of_nat off) more_frags AND IPV4_FRAG_OFFSET_MASK = 0) = (off = 0)"
    using k of_nat16_nonzero [of k] by (auto simp: mult.commute)
  show "(flags_offset (of_nat off) more_frags AND IPV4_FLAG_MORE_FRAGS = 0) = (\<not> more_frags)"
    by (simp add: flags_offset_def d bit.conj_disj_distrib2 k2 m(2))
qed

lemma put16_append [simp]: "Suc i < length xs \<Longrightarrow> put16 (xs @ ys) i v = put16 xs i v @ ys"
  by (simp add: put16_def list_update_append)

lemma put16_ip_header [simp]: "put16 (ip_header pl i fo p c a b) 2 (htons pl') = ip_header pl' i fo p c a b"
  by (simp add: ip_header_def put16_def raw16_def)

lemma ip_header_len_header [simp]: "ip_header_len (ip_header pl i fo p c a b @ d) s = 20"
  by (simp add: ip_header_len_def nth_append)

text \<open>The datagram with its header, as far as it has been put together.\<close>

definition datagram :: "u16 \<Rightarrow> u16 \<Rightarrow> byte \<Rightarrow> u16 \<Rightarrow> ipv4_addr \<Rightarrow> ipv4_addr \<Rightarrow> packet \<Rightarrow> packet" where
  "datagram i fo prot ck src dest d = ip_header (of_nat (20 + length d)) i fo prot ck src dest @ d"

definition the_key :: "u16 \<Rightarrow> byte \<Rightarrow> ipv4_addr \<Rightarrow> ipv4_addr \<Rightarrow> ipv4_fragment_key" where
  "the_key i prot src dest = \<lparr>fk_src = src, fk_dest = dest, fk_identification = ntohs i, fk_protocol = prot\<rparr>"

definition no_key :: "ipv4_fragment_key \<Rightarrow> ipv4_fragment list list \<Rightarrow> bool" where
  "no_key k t \<longleftrightarrow> (\<forall>c \<in> set t. frag_compare_func (hd c) k \<noteq> 0)"

lemma datagram_simps [simp]:
  "length (datagram i fo prot ck src dest d) = 20 + length d"
  "get16 (datagram i fo prot ck src dest d) 2 = htons (of_nat (20 + length d))"
  "get16 (datagram i fo prot ck src dest d) 4 = i" "get16 (datagram i fo prot ck src dest d) 6 = htons fo"
  "datagram i fo prot ck src dest d ! 9 = prot" "datagram i fo prot ck src dest d ! 0 = 0x45"
  "get32 (datagram i fo prot ck src dest d) 12 = htonl src" "get32 (datagram i fo prot ck src dest d) 16 = htonl dest"
  "drop 20 (datagram i fo prot ck src dest d) = d" "ip_header_len (datagram i fo prot ck src dest d) s = 20"
  by (simp_all add: datagram_def nth_append)


section \<open>One fragment\<close>

text \<open>The record of a datagram whose first \<open>length a\<close> bytes are there.\<close>

definition partial_frag :: "u16 \<Rightarrow> u16 \<Rightarrow> byte \<Rightarrow> u16 \<Rightarrow> ipv4_addr \<Rightarrow> ipv4_addr \<Rightarrow> int \<Rightarrow> packet \<Rightarrow> ipv4_fragment" where
  "partial_frag i fo prot ck src dest t a =
     \<lparr>fr_buf = Some (datagram i fo prot ck src dest a), fr_offset = 0, fr_len = of_nat (length a), fr_entry_time = t,
      fr_total_len = 0, fr_key = the_key i prot src dest\<rparr>"

lemma no_key_find: "no_key k t \<Longrightarrow> List.find (\<lambda>c. frag_compare_func (hd c) k = 0) t = None"
  by (simp add: no_key_def find_None_iff)

lemma no_key_set [simp]: "no_key k t \<Longrightarrow> set_frag_chain k c t = t"
  unfolding no_key_def set_frag_chain_def by (induction t) auto

lemma no_key_del [simp]: "no_key k t \<Longrightarrow> del_frag_chain k t = t"
  by (simp add: no_key_def del_frag_chain_def filter_id_conv)

lemma compare_partial [simp]:
  "frag_compare_func (partial_frag i fo prot ck src dest t a) (the_key i prot src dest) = 0"
  "frag_compare_func ((partial_frag i fo prot ck src dest t a)\<lparr>fr_total_len := n\<rparr>) (the_key i prot src dest) = 0"
  by (simp_all add: frag_compare_func_def partial_frag_def)

text \<open>What the routine reads from a fragment.\<close>

lemma process_frag_reads:
  assumes f: "f = datagram i (flags_offset (of_nat off) more_frags) prot ck src dest d"
    and off: "8 dvd off" "off + length d < 65516"
  shows "ipv4_process_frag (Some f) s =
    (case List.find (\<lambda>c. frag_compare_func (hd c) (the_key i prot src dest) = 0) (frag_table s) of
       Some c \<Rightarrow>
         (case (case frag_search (of_nat off) (of_nat (length d)) [] c False of
                  None \<Rightarrow> None
                | Some (pre, post, found_spot) \<Rightarrow>
                    if found_spot then Some (pre, post)
                    else map_option (\<lambda>pre. (pre, post)) (frag_tack_on (of_nat off) (of_nat (length d)) (\<not> more_frags) pre)) of
            None \<Rightarrow> Some (ERR_NET_BAD_PACKET, None, free_chain (Some f) s)
          | Some (pre, post) \<Rightarrow> frag_place (the_key i prot src dest) f (of_nat off) (of_nat (length d)) (\<not> more_frags) pre post s)
     | None \<Rightarrow>
         (case ipv4_create_frag_struct (the_key i prot src dest) (Some f) (of_nat off) (of_nat (length d)) (\<not> more_frags) s of
            (None, s1) \<Rightarrow> Some (ERR_NO_MEMORY, None, free_chain (Some f) s1)
          | (Some r, s1) \<Rightarrow> Some (NO_ERROR, None, s1\<lparr>frag_table := [r] # frag_table s1\<rparr>)))"
proof -
  have off': "off < 65536"
    using off by simp
  have ne: "f \<noteq> []"
    by (metis f datagram_simps(1) list.size(3) zero_neq_numeral add_is_0)
  have reads: "ntohs (peek16 f 6 s) = flags_offset (of_nat off) more_frags" "ntohs (peek16 f 2 s) = of_nat (20 + length d)"
      "ntohl (peek32 f 12 s) = src" "ntohl (peek32 f 16 s) = dest" "peek16 f 4 s = i" "peek8 f 9 s = prot"
      "ip_header_len f s = 20"
    unfolding f by simp_all
  have len: "of_nat (20 + length d) - of_nat 20 = (of_nat (length d) :: u16)"
    by simp
  show ?thesis
    unfolding ipv4_process_frag_def Let_def
    using ne by (simp add: reads len flags_offset_eq [OF off(1) off'] the_key_def del: of_nat_add of_nat_numeral
      split: prod.split option.split)
qed





section \<open>A stream of fragments\<close>

text \<open>The fragments of the list arrive one after the other; the chains delivered, \<open>None\<close> where there is
  nothing to deliver yet.\<close>

fun process_frags :: "packet list \<Rightarrow> 'a ipv4_state_scheme \<Rightarrow> (cbuf_chain list \<times> 'a ipv4_state_scheme) option" where
  "process_frags [] s = Some ([], s)"
| "process_frags (f # fs) s =
     do {
       (err, out, s1) \<leftarrow> ipv4_process_frag (Some f) s;
       (outs, s2) \<leftarrow> process_frags fs s1;
       Some (out # outs, s2)
     }"




section \<open>What reassembly promises\<close>



text \<open>A datagram whose first fragment comes after the second is lost.  The search does not stop at the
  spot it finds, so the late first fragment is filed behind the later one; nothing is delivered, both chains stay in
  the table, and since only the first record of the list is tested for completeness nothing will ever be.\<close>

theorem late_first_fragment_lost:
  assumes "memory_ok s" "no_key (the_key i prot src dest) (frag_table s)"
    and "a \<noteq> []" "b \<noteq> []" "8 dvd length a" "length a + length b < 65516"
  shows "\<exists>x y s'. process_frags [datagram i (flags_offset (of_nat (length a)) False) prot ck2 src dest b,
      datagram i (flags_offset 0 True) prot ck1 src dest a] s = Some ([None, None], s') \<and>
    frag_table s' = [x, y] # frag_table s \<and> fr_offset x = of_nat (length a) \<and> fr_offset y = 0 \<and> chains s' = chains s"
proof -
  let ?k = "the_key i prot src dest"
  let ?f2 = "datagram i (flags_offset (of_nat (length a)) False) prot ck2 src dest b"
  let ?f1 = "datagram i (flags_offset 0 True) prot ck1 src dest a"
  let ?x = "\<lparr>fr_buf = Some ?f2, fr_offset = of_nat (length a), fr_len = of_nat (length b), fr_entry_time = sys_time s,
    fr_total_len = of_nat (length a) + of_nat (length b), fr_key = ?k\<rparr>"
  let ?s1 = "s\<lparr>allocs := Suc (allocs s), frag_table := [?x] # frag_table s\<rparr>"
  let ?y = "\<lparr>fr_buf = Some ?f1, fr_offset = 0, fr_len = of_nat (length a), fr_entry_time = sys_time s, fr_total_len = 0, fr_key = ?k\<rparr>"
  have mem: "alloc_ok s n" for n
    using assms(1) by (simp add: memory_ok_def)
  have u: "unat (of_nat (length a) :: u16) = length a" "unat (of_nat (length b) :: u16) = length b" "(of_nat (length a) :: u16) \<noteq> 0"
      "0 < (of_nat (length a) :: u16)"
    using assms of_nat16_nonzero [of "length a"] by (auto simp: word_gt_0)
  have s1: "ipv4_process_frag (Some ?f2) s = Some (NO_ERROR, None, ?s1)"
    using process_frag_reads [of ?f2 i "length a" False prot ck2 src dest b s] assms
    by (simp add: no_key_find ipv4_create_frag_struct_def kmalloc_def mem Let_def)
  have x: "frag_compare_func ?x ?k = 0"
    by (simp add: frag_compare_func_def)
  then have "set_frag_chain ?k c (frag_table ?s1) = c # set_frag_chain ?k c (frag_table s)" for c
    by (simp add: set_frag_chain_def)
  then have k: "set_frag_chain ?k c (frag_table ?s1) = c # frag_table s" "frag_compare_func ?x ?k = 0" for c
    using assms(2) x by simp_all
  have "ipv4_process_frag (Some ?f1) ?s1 = frag_place ?k ?f1 0 (of_nat (length a)) False [?x] [] ?s1"
    using process_frag_reads [of ?f1 i 0 True prot ck1 src dest a ?s1] assms u k(2) by simp
  also have "\<dots> = Some (NO_ERROR, None, ?s1\<lparr>allocs := Suc (Suc (allocs s)), frag_table := [?x, ?y] # frag_table s\<rparr>)"
  proof -
    have "merge_with_last 0 ?f1 ([?x], [], Some ?f1, of_nat (length a)) ?s1 = Some (([?x], [], Some ?f1, of_nat (length a)), ?s1)"
      using u assms(4) by (simp add: merge_with_last_def fr_end_def)
    then show ?thesis
      using u k by (simp add: frag_place_def merge_with_next_def merge_neighbours_def ipv4_create_frag_struct_def kmalloc_def mem Let_def)
  qed
  finally show ?thesis
    using s1 by (intro exI [of _ ?x] exI [of _ ?y]) simp
qed

theorem late_first_fragment_lost_witness:
  "\<exists>x y s'. process_frags [datagram 5 (flags_offset 8 False) 17 0 1 2 [9], datagram 5 (flags_offset 0 True) 17 0 1 2 (replicate 8 7)] (demo 1500) =
      Some ([None, None], s') \<and>
    frag_table s' = [[x, y]] \<and> fr_offset x = 8 \<and> fr_offset y = 0 \<and> chains s' = 0"
  using late_first_fragment_lost [of "demo 1500" 5 17 1 2 "replicate 8 7" "[9]" 0 0] by (simp add: no_key_def)

end
