(* ===== verification/Input_Props.thy ===== *)
theory Input_Props
  imports Frag_Props Net_Link
begin

text \<open>
  The receiving side up to the transport protocols: damaged headers are refused, echo requests are
  answered, and the packet without a payload that takes the kernel down.
\<close>

section \<open>Validation\<close>

lemma take_peek: "length h = 20 \<Longrightarrow> peek_bytes (h @ d) 0 20 s = h"
  by (simp add: peek_bytes_in)

lemma check_bad_checksum:
  assumes "length h = 20" "h ! 0 = 0x45" "cksum16 h \<noteq> 0"
  shows "ipv4_check (Some (h @ d)) i s = Inl ERR_NET_BAD_PACKET"
  using assms by (simp add: ipv4_check_def nth_append sizeof_ipv4_header_def take_peek)

text \<open>C35: Damage to a header is noticed.  If one 16-bit word of a valid option-less header (any but the first,
  which holds the header length) is replaced by a different one, other than exchanging the two zeros 0 and
  0xffff, the packet is dropped with \<open>ERR_NET_BAD_PACKET\<close> before anything else happens: its chain is freed once
  and nothing else of the state changes.\<close>

theorem ipv4_input_drops_damaged:
  assumes "length h = 20" "h ! 0 = 0x45" "cksum16 h = 0"
    and "even j" "2 \<le> j" "j < 20" "v \<noteq> get16 h j" "{v, get16 h j} \<noteq> {0, 0xffff}"
  shows "ipv4_input packed Q lo (Some (put16 h j v @ d)) i s = Some (ERR_NET_BAD_PACKET, s\<lparr>chains := chains s - 1\<rparr>)"
proof -
  have "Suc j < length h"
    using assms(1,4,6) by (metis Suc_lessI even_Suc even_numeral)
  then have "cksum16 (put16 h j v) \<noteq> cksum16 h"
    using assms by (intro cksum16_change) simp_all
  moreover have "put16 h j v ! 0 = 0x45"
    using assms(2,5) by (simp add: put16_def)
  ultimately have "ipv4_check (Some (put16 h j v @ d)) i s = Inl ERR_NET_BAD_PACKET"
    using assms(1,3) by (intro check_bad_checksum) simp_all
  then show ?thesis
    by (simp add: ipv4_input_def free_chain_def)
qed

definition no_queue :: queue_fns where
  "no_queue = \<lparr>queue_enqueue = \<lambda>q p. q @ [p], queue_dequeue = \<lambda>q. case q of [] \<Rightarrow> (0, []) | p # r \<Rightarrow> (p, r)\<rparr>"

lemma valid_header: "\<exists>ck. cksum16 (ip_header pl i (flags_offset off mf) p ck a b) = 0"
  using fill_header_eq [of "replicate 20 0" pl i off mf p a b] by auto

theorem ipv4_input_drops_damaged_witness:
  "\<exists>ck. ipv4_input True no_queue demo_wire (Some (put16 (ip_header 28 5 (flags_offset 0 False) 17 ck 1 2) 2 9 @ replicate 8 0)) 1 (demo 1500) =
    Some (ERR_NET_BAD_PACKET, (demo 1500)\<lparr>chains := -1\<rparr>)"
proof -
  obtain ck where ck: "cksum16 (ip_header 28 5 (flags_offset 0 False) 17 ck 1 2) = 0"
    using valid_header by blast
  have n: "(9 :: u16) \<noteq> htons 28" "{9 :: u16, htons 28} \<noteq> {0, 0xffff}"
    by (simp_all add: htons_def doubleton_eq_iff)
  show ?thesis
    using ipv4_input_drops_damaged [OF _ _ ck, of 2 9 True no_queue demo_wire "replicate 8 0" 1 "demo 1500"] n by auto
qed

section \<open>A packet without a payload\<close>

text \<open>A valid IP packet that consists of its header only, addressed to the host and carrying UDP or TCP,
  takes the kernel down: stripping the header frees the chain and leaves NULL, which \<open>udp_input\<close> and
  \<open>tcp_input\<close> dereference.\<close>

theorem header_only_packet_faults:
  assumes "length h = 20" "h ! 0 = 0x45" "cksum16 h = 0" "get16 h 2 = htons 20"
    and "ntohs (get16 h 6) AND IPV4_FLAG_MORE_FRAGS = 0" "ntohs (get16 h 6) AND IPV4_FRAG_OFFSET_MASK = 0"
    and "h ! 9 = IP_PROT_UDP \<or> h ! 9 = IP_PROT_TCP"
    and "ntohl (get32 h 16) = 0xffffffff \<or> addressed_to (ntohl (get32 h 16)) (addr_list (ifs s i))"
  shows "ipv4_input packed Q lo (Some h) i s = None"
proof -
  have "ipv4_check (Some h) i s = Inr h"
    using assms take_peek [of h "[]" s] by (auto simp: ipv4_check_def sizeof_ipv4_header_def)
  moreover have "ip_header_len h s = 20"
    using assms(1,2) by (simp add: ip_header_len_def)
  ultimately show ?thesis
    using assms by (auto simp: ipv4_input_def ipv4_deliver_def behead_chain_def free_chain_def Let_def udp_input_def tcp_input_def)
qed

theorem header_only_packet_faults_witness:
  "\<exists>ck. ipv4_input True no_queue demo_wire (Some (ip_header 20 5 (flags_offset 0 False) 17 ck 0x0a000001 0x7f000001)) 1 (demo 1500) = None"
proof -
  obtain ck where ck: "cksum16 (ip_header 20 5 (flags_offset 0 False) 17 ck 0x0a000001 0x7f000001) = 0"
    using valid_header by blast
  have "flags_offset 0 False = 0" "na_type (ip_netaddr 0x7f000001) = 2"
    by (simp_all add: flags_offset_def ip_netaddr_def)
  then show ?thesis
    using header_only_packet_faults [OF _ _ ck, of "demo 1500" 1 True no_queue demo_wire] by auto
qed

section \<open>Echo\<close>

lemma chain_cksum_all: "length p \<le> 65535 \<Longrightarrow> chain_cksum (Some p) 0 0xffff = cksum16 p"
  by (simp add: chain_cksum_def cksum16_def)

text \<open>C36: An echo request is answered with its own data.  A valid ICMP message of type 8 and at least four bytes
  goes back to its sender through \<open>ipv4_output\<close> as the same message with type 0, the code and everything after
  the checksum unchanged, and a checksum that verifies; a message whose checksum does not verify is freed and
  answered by nothing.\<close>

theorem icmp_echo:
  assumes "4 \<le> length p" "length p \<le> 65535" "p ! 0 = 8"
  shows "if cksum16 p = 0
    then \<exists>q. icmp_input packed lo (Some p) src s = ipv4_output packed lo (Some q) src IP_PROT_ICMP s \<and>
      cksum16 q = 0 \<and> length q = length p \<and> q ! 0 = 0 \<and> q ! 1 = p ! 1 \<and> drop 4 q = drop 4 p
    else icmp_input packed lo (Some p) src s = Some (ERR_NET_BAD_PACKET, s\<lparr>chains := chains s - 1\<rparr>)"
proof (cases "cksum16 p = 0")
  case True
  let ?p1 = "put16 (put8 p 0 0) 2 0"
  let ?q = "put16 ?p1 2 (cksum16 ?p1)"
  have "icmp_input packed lo (Some p) src s = ipv4_output packed lo (Some ?q) src IP_PROT_ICMP s"
    using assms True by (cases p) (simp_all add: icmp_input_def chain_cksum_all Let_def)
  moreover have "cksum16 ?q = 0"
    using assms(1) by (intro cksum16_store) simp_all
  moreover have "?q ! 0 = 0" "?q ! 1 = p ! 1" "drop 4 ?q = drop 4 p"
    using assms(1) by (cases p; simp add: put16_def put8_def drop_update_cancel)+
  ultimately show ?thesis
    unfolding if_P [OF True] by (intro exI [of _ ?q] conjI) (assumption | simp)+
next
  case False
  then show ?thesis
    using assms by (simp add: icmp_input_def chain_cksum_all free_chain_def)
qed

theorem icmp_echo_witness:
  "\<exists>q. icmp_input True demo_wire (Some [8, 0, 0xf7, 0xff]) 0x7f000001 (demo 1500) =
      ipv4_output True demo_wire (Some q) 0x7f000001 1 (demo 1500) \<and>
    cksum16 q = 0 \<and> length q = 4 \<and> q ! 0 = 0 \<and> q ! 1 = 0 \<and> drop 4 q = []"
proof -
  have c: "cksum16 [8, 0, 0xf7, 0xff] = 0"
    by (intro unat_inj) (simp add: unat_cksum16 ocanon_def)
  have l: "4 \<le> length [8, 0, 0xf7, 0xff :: byte]" "length [8, 0, 0xf7, 0xff :: byte] \<le> 65535" "[8, 0, 0xf7, 0xff :: byte] ! 0 = 8"
    by simp_all
  show ?thesis
    using icmp_echo [OF l, of True demo_wire "0x7f000001" "demo 1500"] by (simp add: c numeral_eq_Suc)
qed

end
