(* ===== verification/Udp_Props.thy ===== *)
theory Udp_Props
  imports Ipv4_Props
begin

text \<open>
  A datagram from the sender's header to the receiver's queue: the checksum with the pseudo header, the lookup
  of the endpoint and the order of delivery.
\<close>

section \<open>The checksum\<close>

lemma chain_cksum_2_eq: "even (length ph) \<Longrightarrow> chain_cksum_2 (Some p) 0 (length p) ph = cksum16 (ph @ p)"
  using cksum16_2_append [of ph p] by (simp add: chain_cksum_2_def cksum16_2_def)

text \<open>The other representation of a zero checksum verifies as well.\<close>

lemma cksum16_store_ones:
  assumes "Suc i < length p" "even i" "get16 p i = 0" "cksum16 p = 0"
  shows "cksum16 (put16 p i 0xffff) = 0"
proof -
  have w: "wsum (put16 p i 0xffff) = wsum p + 65535"
    using wsum_put16 [OF assms(1,2), of "0xffff"] by (simp add: assms(3))
  have "ocanon (wsum p) = 65535"
    using unat_cksum16 [of p] ocanon_le [of "wsum p"] assms(4) by simp
  then have "wsum p mod 65535 = 0"
    by (metis ocanon_mod mod_self)
  then have "(wsum p + 65535) mod 65535 = 65535 mod (65535 :: nat)"
    by (metis mod_add_self2 mod_self)
  then have "ocanon (wsum p + 65535) = ocanon 65535"
    by (simp add: ocanon_eq_iff)
  then have "unat (cksum16 (put16 p i 0xffff)) = 0"
    by (simp add: unat_cksum16 w ocanon_small)
  then show ?thesis
    by (simp add: unat_eq_zero)
qed

lemma get16_put16_other: "i + 1 < j \<Longrightarrow> get16 (put16 p j v) i = get16 p i"
  by (simp add: get16_def put16_def)

lemma drop_put16: "j + 1 < n \<Longrightarrow> drop n (put16 p j v) = drop n p"
  by (simp add: put16_def)

lemma put16_shift: "put16 (xs @ p) (length xs + i) v = xs @ put16 p i v"
  by (simp add: put16_def list_update_append)

lemma get16_shift: "get16 (xs @ p) (length xs + i) = get16 p i"
  by (simp add: get16_def nth_append)

text \<open>What \<open>udp_fill_header\<close> leaves: the fields, a non-zero checksum that verifies, and the payload.\<close>

lemma udp_fill_header_spec:
  assumes p: "8 \<le> length p" "length p < 65536" and ph: "even (length ph)"
    and q_def: "q = udp_fill_header p sp dp (length p) ph"
  shows "length q = length p" "get16 q 0 = htons sp" "get16 q 2 = htons dp" "get16 q 4 = htons (of_nat (length p))"
    "get16 q 6 \<noteq> 0" "chain_cksum_2 (Some q) 0 (length p) ph = 0" "drop 8 q = drop 8 p"
proof -
  define p4 where "p4 = put16 (put16 (put16 (put16 p 0 (htons sp)) 2 (htons dp)) 4 (htons (of_nat (length p)))) 6 0"
  have l: "length p4 = length p"
    by (simp add: p4_def)
  define c where "c = cksum16 (ph @ p4)"
  have q: "q = put16 p4 6 (if c = 0 then 0xffff else c)"
    unfolding q_def udp_fill_header_def Let_def p4_def [symmetric] c_def
    using chain_cksum_2_eq [OF ph, of p4] l by simp
  show "length q = length p"
    using l by (simp add: q)
  show "get16 q 0 = htons sp" "get16 q 2 = htons dp" "get16 q 4 = htons (of_nat (length p))" "drop 8 q = drop 8 p"
    using p(1) unfolding q by (simp_all add: p4_def get16_put16_other drop_put16)
  show "get16 q 6 \<noteq> 0"
    using l p(1) unfolding q by (subst get16_put16) auto
  have z: "get16 p4 6 = 0"
    using p(1) by (simp add: p4_def)
  have "cksum16 (ph @ q) = 0"
  proof (cases "c = 0")
    case True
    then show ?thesis
      using cksum16_store_ones [of "length ph + 6" "ph @ p4"] ph p(1) l z
      by (simp add: q put16_shift get16_shift c_def)
  next
    case False
    then show ?thesis
      using cksum16_store [of "length ph + 6" "ph @ p4"] ph p(1) l z
      by (simp add: q put16_shift get16_shift c_def)
  qed
  then show "chain_cksum_2 (Some q) 0 (length p) ph = 0"
    using chain_cksum_2_eq [OF ph, of q] l by (simp add: q)
qed

section \<open>Delivery\<close>

lemma udp_input_queues:
  assumes p: "8 < length p" "length p < 65536" and mem: "memory_ok s"
    and e: "e = tab_find (\<lambda>e. udp_endpoint_compare_func (udp_ep s e) dp = 0) (udp_endpoints s)" "e \<noteq> 0" "1 \<le> ue_ref_count (udp_ep s e)"
    and q: "q = udp_fill_header p sp dp (length p) (udp_pseudo_header (htonl src) (htonl dest) (htons (of_nat (length p))))"
  shows "\<exists>s'. udp_input (Some q) src dest s = Some (NO_ERROR, s') \<and>
    uq_elems (ue_q (udp_ep s' e)) = uq_elems (ue_q (udp_ep s e)) @
      [\<lparr>qe_src_address = src, qe_target_address = dest, qe_src_port = sp, qe_target_port = dp,
        qe_len = int (length p) - 8, qe_buf = Some (drop 8 p)\<rparr>] \<and>
    uq_count (ue_q (udp_ep s' e)) = uq_count (ue_q (udp_ep s e)) + 1 \<and>
    ue_ref_count (udp_ep s' e) = ue_ref_count (udp_ep s e) \<and> chains s' = chains s"
proof -
  let ?ph = "udp_pseudo_header (htonl src) (htonl dest) (htons (of_nat (length p)))"
  have ph: "even (length ?ph)"
    by (simp add: udp_pseudo_header_def)
  have p8: "8 \<le> length p"
    using p by simp
  note f = udp_fill_header_spec [OF p8 p(2) ph q]
  have n: "unat (of_nat (length p) :: u16) = length p" "uint (of_nat (length p) :: u16) = int (length p)"
    using p(2) by (simp_all add: unat_of_nat uint_nat)
  have reads: "peek16 q 0 s = htons sp" "peek16 q 2 s = htons dp" "peek16 q 4 s = htons (of_nat (length p))" "peek16 q 6 s = get16 q 6"
    using f p by simp_all
  have len: "\<not> (of_nat (length p) :: u16) > of_nat (chain_len (Some q))"
    using f(1) by (simp add: chain_len_def)
  show ?thesis
    unfolding udp_input_def
    using mem e(2,3) p len f
    by (simp add: reads n Let_def e(1) [symmetric] kmalloc_def memory_ok_def behead_chain_def sizeof_udp_header_def
      udp_endpoint_acquire_ref_def udp_endpoint_release_ref_def upd_ep_def udp_queue_push_def)
qed

text \<open>C26: What a UDP sender builds, the receiver accepts and queues.  A datagram of \<open>n > 0\<close> bytes with the
  header \<open>udp_fill_header\<close> writes passes the length and checksum tests of \<open>udp_input\<close> (also when its checksum
  is the one transmitted as 0xffff), and the endpoint that the table holds for the destination port gets one new
  element at the end of its queue: the sender's address and port, the payload's length and exactly the payload.
  The reference taken during the delivery is returned and no chain is lost.\<close>

theorem udp_sent_is_received:
  assumes "8 < length p" "length p < 65536" "memory_ok s"
    and "e = tab_find (\<lambda>e. udp_endpoint_compare_func (udp_ep s e) dp = 0) (udp_endpoints s)" "e \<noteq> 0" "1 \<le> ue_ref_count (udp_ep s e)"
    and "q = udp_fill_header p sp dp (length p) (udp_pseudo_header (htonl src) (htonl dest) (htons (of_nat (length p))))"
  shows "\<exists>s'. udp_input (Some q) src dest s = Some (NO_ERROR, s') \<and>
    uq_elems (ue_q (udp_ep s' e)) = uq_elems (ue_q (udp_ep s e)) @
      [\<lparr>qe_src_address = src, qe_target_address = dest, qe_src_port = sp, qe_target_port = dp,
        qe_len = int (length p) - 8, qe_buf = Some (drop 8 p)\<rparr>] \<and>
    uq_count (ue_q (udp_ep s' e)) = uq_count (ue_q (udp_ep s e)) + 1 \<and>
    ue_ref_count (udp_ep s' e) = ue_ref_count (udp_ep s e) \<and> chains s' = chains s"
  by (rule udp_input_queues [OF assms])

definition demo_udp :: tcp_state where
  "demo_udp = (demo 1500)\<lparr>udp_ep := (\<lambda>_. \<lparr>ue_port = 53, ue_q = udp_init_queue, ue_ref_count = 1\<rparr>), udp_endpoints := [5]\<rparr>"

theorem udp_sent_is_received_witness:
  "\<exists>s'. udp_input (Some (udp_fill_header (replicate 11 7) 1024 53 11 (udp_pseudo_header (htonl 1) (htonl 2) (htons 11)))) 1 2 demo_udp =
      Some (NO_ERROR, s') \<and>
    uq_elems (ue_q (udp_ep s' 5)) = [\<lparr>qe_src_address = 1, qe_target_address = 2, qe_src_port = 1024, qe_target_port = 53,
      qe_len = 3, qe_buf = Some [7, 7, 7]\<rparr>] \<and> uq_count (ue_q (udp_ep s' 5)) = 1 \<and>
    ue_ref_count (udp_ep s' 5) = 1 \<and> chains s' = 0"
proof -
  have h: "8 < length (replicate 11 (7 :: byte))" "length (replicate 11 (7 :: byte)) < 65536" "memory_ok demo_udp"
      "5 = tab_find (\<lambda>e. udp_endpoint_compare_func (udp_ep demo_udp e) 53 = 0) (udp_endpoints demo_udp)" "5 \<noteq> (0 :: ptr)"
      "1 \<le> ue_ref_count (udp_ep demo_udp 5)"
    by (simp_all add: demo_udp_def memory_ok_def tab_find_def udp_endpoint_compare_func_def)
  have d: "drop 8 (replicate 11 (7 :: byte)) = [7, 7, 7]"
    by (simp add: numeral_eq_Suc)
  show ?thesis
    using udp_sent_is_received [OF h refl, of 1024 1 2]
    by (simp only: d length_replicate) (simp add: demo_udp_def udp_init_queue_def)
qed

end
