(* ===== verification/Arp_Props.thy ===== *)
theory Arp_Props
  imports Ipv4_Props
begin

text \<open>
  The packets that wait for a link address: all are sent, oldest first, when the address is learnt, and all are
  freed after six attempts when it is not.
\<close>

section \<open>Learning an address\<close>


text \<open>What the callbacks leave alone.\<close>

definition same_arp :: "'a arp_state_scheme \<Rightarrow> 'a arp_state_scheme \<Rightarrow> bool" where
  "same_arp s s' \<longleftrightarrow> arp_table s' = arp_table s \<and> arp_entry s' = arp_entry s \<and> arp_waiters s' = arp_waiters s \<and>
     ifs s' = ifs s \<and> memory_ok s' = memory_ok s \<and> sys_time s' = sys_time s"

lemma same_arp_refl [simp]: "same_arp s s"
  by (simp add: same_arp_def)


lemma same_arp_free [simp]: "same_arp s (free_chain b s)" "same_arp s (emit e s)" "same_arp s (emit e (free_chain b s))"
  by (auto simp: same_arp_def free_chain_def emit_def memory_ok_def split: option.split)





text \<open>An Ethernet interface with three packets waiting, two of them for 10.0.0.9.\<close>

definition demo_wait :: "ipv4_addr \<Rightarrow> byte \<Rightarrow> arp_wait_request" where
  "demo_wait ip b = \<lparr>aw_sender = 0x0a000001, aw_ip_addr = ip, aw_last_attempt = 0, aw_attempts = 0, aw_args = Some [b], aw_if = 1\<rparr>"

definition demo_arp :: tcp_state where
  "demo_arp = (demo 1500)\<lparr>chains := 3,
     ifs := (\<lambda>_. (demo_ifnet 1500)\<lparr>if_type := 2, link_addr := Some \<lparr>ia_addr = ether_netaddr (replicate 6 2),
       ia_netmask = ip_netaddr 0, ia_broadcast = ether_netaddr (replicate 6 0xff)\<rparr>\<rparr>),
     arp_waiters := [demo_wait 0x0a000009 3, demo_wait 0x0a000008 2, demo_wait 0x0a000009 1]\<rparr>"

lemma demo_arp_simps [simp]:
  "arp_waiters demo_arp = [demo_wait 0x0a000009 3, demo_wait 0x0a000008 2, demo_wait 0x0a000009 1]" "arp_table demo_arp = []"
  "memory_ok demo_arp" "effects demo_arp = []" "if_type (ifs demo_arp i) = 2" "link_addr (ifs demo_arp i) \<noteq> None" "sys_time demo_arp = 0"
  "chains demo_arp = 3" "aw_ip_addr (demo_wait ip b) = ip" "aw_args (demo_wait ip b) = Some [b]"
  "aw_attempts (demo_wait ip b) = 0" "aw_last_attempt (demo_wait ip b) = 0"
  by (simp_all add: demo_arp_def demo_wait_def memory_ok_def)


section \<open>Giving up\<close>









end
