(* ===== verification/Tcp_Props.thy ===== *)
theory Tcp_Props
  imports Ipv4_Props Tcp_Input
begin

text \<open>
  TCP: sequence numbers around the wrap, the reassembly of the received stream against an abstract stream, and
  the transitions of the state machine.
\<close>

section \<open>Sequence numbers\<close>

lemma sint_diff:
  assumes "\<bar>int a - int b\<bar> < 2 ^ 31"
  shows "sint (base + of_nat a - (base + of_nat b) :: u32) = int a - int b"
proof -
  have "base + of_nat a - (base + of_nat b) = (word_of_int (int a - int b) :: u32)"
    by simp
  moreover have "sint (word_of_int (int a - int b) :: u32) = signed_take_bit 31 (int a - int b)"
    by (simp only: sint_sbintrunc') simp
  ultimately show ?thesis
    using assms by (simp add: signed_take_bit_int_eq_self)
qed

lemma seq_cmp:
  assumes "a < 2 ^ 31" "b < 2 ^ 31"
  shows "SEQUENCE_LT (base + of_nat a) (base + of_nat b) \<longleftrightarrow> a < b" "SEQUENCE_LTE (base + of_nat a) (base + of_nat b) \<longleftrightarrow> a \<le> b"
    "SEQUENCE_GT (base + of_nat a) (base + of_nat b) \<longleftrightarrow> b < a" "SEQUENCE_GTE (base + of_nat a) (base + of_nat b) \<longleftrightarrow> b \<le> a"
  using assms sint_diff [of a b base] by (auto simp: SEQUENCE_LT_def SEQUENCE_LTE_def SEQUENCE_GT_def SEQUENCE_GTE_def)

section \<open>The received stream\<close>

text \<open>The segment \<open>q\<close> carries the \<open>n\<close> bytes from offset \<open>off\<close> of the stream \<open>d\<close>, whose first byte has the
  sequence number \<open>base\<close>; its header (in host order) has no options.\<close>

definition segment :: "packet \<Rightarrow> u32 \<Rightarrow> nat \<times> nat \<Rightarrow> packet \<Rightarrow> bool" where
  "segment d base = (\<lambda>(off, n) q. off + n \<le> length d \<and>
     (\<exists>h. length h = 20 \<and> get32 h 4 = base + of_nat off \<and> drop_bit 12 (get16 h 12) = 5 \<and> q = h @ take n (drop off d)))"

text \<open>How far the stream is known after the segments of the queue, and which of them stay in the queue.\<close>

fun stream_advance :: "nat \<Rightarrow> (nat \<times> nat) list \<Rightarrow> nat \<times> (nat \<times> nat) list" where
  "stream_advance pos [] = (pos, [])"
| "stream_advance pos ((off, n) # os) =
     (if off + n < pos then stream_advance pos os
      else if off \<le> pos then stream_advance (max pos (off + n)) os
      else (pos, (off, n) # os))"

definition chain_bytes :: "cbuf_chain \<Rightarrow> packet" where
  "chain_bytes b = (case b of None \<Rightarrow> [] | Some p \<Rightarrow> p)"

definition live :: "cbuf_chain \<Rightarrow> int" where
  "live b = (if b = None then 0 else 1)"

lemma segment_reads:
  assumes "segment d base (off, n) q"
  shows "seg_seq q s = base + of_nat off" "seg_header_len q s = 20" "length q = 20 + n" "drop 20 q = take n (drop off d)" "off + n \<le> length d"
  using assms by (auto simp: segment_def seg_seq_def seg_header_len_def)

lemma stream_advance_ge: "pos \<le> fst (stream_advance pos os)"
  by (induction pos os rule: stream_advance.induct) auto

lemma stream_advance_le:
  "list_all2 (segment d base) os qs \<Longrightarrow> pos \<le> length d \<Longrightarrow> fst (stream_advance pos os) \<le> length d"
proof (induction pos os arbitrary: qs rule: stream_advance.induct)
  case (2 pos off n os)
  then show ?case
    by (cases qs) (auto dest: segment_reads(5))
qed simp

lemma stream_advance_gap:
  "sorted (map fst os) \<Longrightarrow> (off, n) \<in> set os \<Longrightarrow> off \<le> fst (stream_advance pos os) \<Longrightarrow> off + n \<le> fst (stream_advance pos os)"
proof (induction pos os rule: stream_advance.induct)
  case (2 pos off' n' os)
  consider "off' + n' < pos" | "pos \<le> off' + n'" "off' \<le> pos" | "pos < off'"
    by linarith
  then show ?case
  proof cases
    case 1
    then show ?thesis
      using 2 stream_advance_ge [of pos os] by auto
  next
    case 2: 2
    then show ?thesis
      using "2.IH"(2) "2.prems" stream_advance_ge [of "max pos (off' + n')" os] by auto
  next
    case 3
    then show ?thesis
      using "2.prems" by fastforce
  qed
qed simp

lemma take_drop_join:
  assumes "a \<le> b" "b \<le> c"
  shows "take (b - a) (drop a d) @ take (c - b) (drop b d) = take (c - a) (drop a d)"
  using take_add [of "b - a" "c - b" "drop a d"] assms by simp

lemma unat_20_plus: "k < 2 ^ 31 \<Longrightarrow> unat (20 + of_nat k :: u32) = 20 + k"
  using unat_of_nat [of "20 + k", where ?'a = 32] by (simp add: take_bit_eq_mod)

lemma merge_bytes:
  "chain_bytes (fst (merge_chains a b s)) = chain_bytes a @ chain_bytes b"
  "chains (snd (merge_chains a b s)) - live (fst (merge_chains a b s)) = chains s - live a - live b"
  by (auto simp: merge_chains_def chain_bytes_def live_def split: option.split)

lemma reassemble_refines:
  assumes d: "length d < 2 ^ 31"
  shows "pos \<le> length d \<Longrightarrow> list_all2 (segment d base) os qs \<Longrightarrow>
    \<exists>qs' rb' s'. reassemble qs (base + of_nat pos) rb s = ((qs', base + of_nat (fst (stream_advance pos os)), rb'), s') \<and>
      list_all2 (segment d base) (snd (stream_advance pos os)) qs' \<and>
      chain_bytes rb' = chain_bytes rb @ take (fst (stream_advance pos os) - pos) (drop pos d) \<and>
      chains s' - live rb' - int (length qs') = chains s - live rb - int (length qs)"
proof (induction pos os arbitrary: qs rb s rule: stream_advance.induct)
  case (2 pos off n os)
  obtain q qs1 where q: "qs = q # qs1" "segment d base (off, n) q" "list_all2 (segment d base) os qs1"
    using "2.prems"(2) by (cases qs) auto
  note r = segment_reads [OF q(2)]
  have lt: "off < 2 ^ 31" "off + n < 2 ^ 31" "pos < 2 ^ 31"
    using r(5) d "2.prems"(1) by linarith+
  have high: "base + of_nat off + of_nat (length q) - 20 = base + of_nat (off + n)"
    using r(3) by simp
  have c: "SEQUENCE_LT (base + of_nat (off + n)) (base + of_nat pos) \<longleftrightarrow> off + n < pos"
      "SEQUENCE_LTE (base + of_nat off) (base + of_nat pos) \<longleftrightarrow> off \<le> pos"
    using seq_cmp [OF lt(2,3), of base] seq_cmp [OF lt(1,3), of base] by blast+
  consider "off + n < pos" | "pos \<le> off + n" "off \<le> pos" | "pos \<le> off + n" "pos < off"
    by linarith
  then show ?case
  proof cases
    case 1
    obtain qs' rb' s' where i: "reassemble qs1 (base + of_nat pos) rb (free_chain (Some q) s) =
          ((qs', base + of_nat (fst (stream_advance pos os)), rb'), s')"
        "list_all2 (segment d base) (snd (stream_advance pos os)) qs'"
        "chain_bytes rb' = chain_bytes rb @ take (fst (stream_advance pos os) - pos) (drop pos d)"
        "chains s' - live rb' - int (length qs') = chains (free_chain (Some q) s) - live rb - int (length qs1)"
      using "2.IH"(1) [OF 1 "2.prems"(1) q(3)] by blast
    have "reassemble qs (base + of_nat pos) rb s = reassemble qs1 (base + of_nat pos) rb (free_chain (Some q) s)"
      unfolding q(1) reassemble.simps Let_def r(1,2) high c using 1 by simp
    then show ?thesis
      using i 1 q(1) by (simp add: free_chain_def)
  next
    case 2
    let ?pos = "max pos (off + n)"
    let ?k = "20 + (pos - off)"
    obtain tmp s1 where b: "behead_chain (Some q) ?k True s = (tmp, s1)" by force
    have tmp: "chain_bytes tmp = take (off + n - pos) (drop pos d)" "chains s1 - live tmp = chains s - 1" "chain_len tmp = off + n - pos"
    proof -
      have "drop ?k q = drop (pos - off) (drop 20 q)"
        by (simp only: drop_drop add.commute)
      also have "\<dots> = take (n - (pos - off)) (drop (pos - off + off) d)"
        by (simp only: r(4) drop_take drop_drop)
      finally have dr: "drop ?k q = take (off + n - pos) (drop pos d)"
        using 2 by (simp add: add.commute)
      have "length q \<le> ?k \<longleftrightarrow> off + n - pos = 0"
        using r(3) 2 by auto
      then show "chain_bytes tmp = take (off + n - pos) (drop pos d)" "chains s1 - live tmp = chains s - 1" "chain_len tmp = off + n - pos"
        using b dr r(3,5) 2 by (auto simp: behead_chain_def chain_bytes_def live_def free_chain_def chain_len_def split: if_splits)
    qed
    obtain rb1 s2 where m: "merge_chains rb tmp s1 = (rb1, s2)" by force
    have rb1: "chain_bytes rb1 = chain_bytes rb @ take (off + n - pos) (drop pos d)" "chains s2 - live rb1 = chains s - 1 - live rb"
      using merge_bytes [of rb tmp s1] m tmp by simp_all
    have "of_nat (pos - off) = (base + of_nat pos - (base + of_nat off) :: u32)"
      using 2 by simp
    then have k: "unat (20 + (base + of_nat pos - (base + of_nat off)) :: u32) = ?k"
      using unat_20_plus [of "pos - off"] lt(3) by (metis less_imp_diff_less)
    have low: "base + of_nat pos + of_nat (chain_len tmp) = base + of_nat ?pos"
      using tmp(3) 2 by (simp add: max_def)
    have step: "reassemble qs (base + of_nat pos) rb s = reassemble qs1 (base + of_nat ?pos) rb1 s2"
      unfolding q(1) reassemble.simps Let_def r(1,2) high c k b m split low using 2 by simp
    have p': "?pos \<le> length d"
      using r(5) "2.prems"(1) by simp
    obtain qs' rb' s' where i: "reassemble qs1 (base + of_nat ?pos) rb1 s2 = ((qs', base + of_nat (fst (stream_advance ?pos os)), rb'), s')"
        "list_all2 (segment d base) (snd (stream_advance ?pos os)) qs'"
        "chain_bytes rb' = chain_bytes rb1 @ take (fst (stream_advance ?pos os) - ?pos) (drop ?pos d)"
        "chains s' - live rb' - int (length qs') = chains s2 - live rb1 - int (length qs1)"
      using "2.IH"(2) [OF _ _ p' q(3), of rb1 s2] 2 by auto
    have "?pos = off + n" "stream_advance pos ((off, n) # os) = stream_advance ?pos os"
      using 2 by simp_all
    then have "chain_bytes rb' = chain_bytes rb @ take (fst (stream_advance pos ((off, n) # os)) - pos) (drop pos d)"
      using i(3) rb1(1) take_drop_join [of pos "off + n" "fst (stream_advance ?pos os)" d] 2 stream_advance_ge [of ?pos os] by simp
    moreover have "chains s' - live rb' - int (length qs') = chains s - live rb - int (length qs)"
      using i(4) rb1(2) q(1) by simp
    ultimately show ?thesis
      using i(1,2) step \<open>stream_advance pos ((off, n) # os) = stream_advance ?pos os\<close> by auto
  next
    case 3
    have "reassemble qs (base + of_nat pos) rb s = ((qs, base + of_nat pos, rb), s)"
      unfolding q(1) reassemble.simps Let_def r(1,2) high c using 3 by simp
    then show ?thesis
      using 3 "2.prems"(2) by simp
  qed
qed (simp add: live_def)

text \<open>C6: Reassembly never invents, loses or reorders a byte of the stream.  For any stream of less than
  \<open>2^31\<close> bytes and any queue of segments of it, sorted by sequence number, with arbitrary overlaps, duplicates
  and gaps, and wherever the sequence numbers wrap, the loop of \<open>handle_data\<close> moves \<open>rx_win_low\<close> from one position
  of the stream forward to another, appends to the read buffer exactly the bytes between the two, stops only where
  no queued segment holds the next byte, and keeps the rest of the queue; every chain merged or dropped is
  accounted for.\<close>

theorem reassemble_is_the_stream:
  assumes "length d < 2 ^ 31" "pos \<le> length d" "list_all2 (segment d base) os qs" "sorted (map fst os)"
  shows "\<exists>pos' qs' rb' s'. reassemble qs (base + of_nat pos) rb s = ((qs', base + of_nat pos', rb'), s') \<and>
    pos \<le> pos' \<and> pos' \<le> length d \<and> chain_bytes rb' = chain_bytes rb @ take (pos' - pos) (drop pos d) \<and>
    (\<forall>(off, n) \<in> set os. off \<le> pos' \<longrightarrow> off + n \<le> pos') \<and>
    list_all2 (segment d base) (snd (stream_advance pos os)) qs' \<and>
    chains s' - live rb' - int (length qs') = chains s - live rb - int (length qs)"
  using reassemble_refines [OF assms(1-3), of rb s] stream_advance_ge [of pos os] stream_advance_le [OF assms(3,2)]
    stream_advance_gap [OF assms(4)] by blast

text \<open>A stream that begins three bytes before the sequence numbers wrap; the two segments overlap.\<close>

definition demo_seg :: "u32 \<Rightarrow> packet \<Rightarrow> packet" where
  "demo_seg n data = [0, 80, 4, 0] @ raw32 n @ [0, 0, 0, 0, 16, 80, 0, 1, 0, 0, 0, 0] @ data"

lemma demo_segment: "off + n \<le> length d \<Longrightarrow> segment d base (off, n) (demo_seg (base + of_nat off) (take n (drop off d)))"
proof -
  assume len: "off + n \<le> length d"
  let ?h = "[0, 80, 4, 0] @ raw32 (base + of_nat off) @ [0, 0, 0, 0, 16, 80, 0, 1, 0, 0, 0, 0]"
  have "get32 ?h 4 = base + of_nat off"
    by (rule get32_at) simp
  moreover have "length ?h = 20" "drop_bit 12 (get16 ?h 12) = 5"
    by (simp_all add: get16_def le16_def raw32_def)
  ultimately show ?thesis
    using len unfolding segment_def demo_seg_def split by (intro conjI exI [of _ ?h]) simp_all
qed

theorem reassemble_is_the_stream_witness:
  "\<exists>qs' rb' s'. reassemble [demo_seg (-2) [1, 2, 3], demo_seg 0 [3, 4, 5]] (-3 + of_nat 1) (Some [0]) (demo 1500) =
      ((qs', -3 + of_nat 6, rb'), s') \<and> chain_bytes rb' = [0, 1, 2, 3, 4, 5]"
proof -
  let ?d = "[0, 1, 2, 3, 4, 5 :: byte]"
  have h: "length ?d < 2 ^ 31" "1 \<le> length ?d" "sorted (map fst [(1 :: nat, 3 :: nat), (3, 3)])"
    by simp_all
  have q: "list_all2 (segment ?d (-3)) [(1, 3), (3, 3)] [demo_seg (-2) [1, 2, 3], demo_seg 0 [3, 4, 5]]"
    using demo_segment [of 1 3 ?d "-3"] demo_segment [of 3 3 ?d "-3"] by simp
  obtain pos' qs' rb' s' where r: "reassemble [demo_seg (-2) [1, 2, 3], demo_seg 0 [3, 4, 5]] (-3 + of_nat 1) (Some [0]) (demo 1500) =
      ((qs', -3 + of_nat pos', rb'), s')" "1 \<le> pos'" "pos' \<le> length ?d"
      "chain_bytes rb' = chain_bytes (Some [0]) @ take (pos' - 1) (drop 1 ?d)" "\<forall>(off, n) \<in> set [(1, 3), (3, 3)]. off \<le> pos' \<longrightarrow> off + n \<le> pos'"
    using reassemble_is_the_stream [OF h(1,2) q h(3), of "Some [0]" "demo 1500"] by blast
  have "pos' = 6"
    using r(2,3,5) by auto
  then show ?thesis
    using r(1,4) by (intro exI [of _ qs'] exI [of _ rb'] exI [of _ s']) (simp only: refl, simp add: chain_bytes_def)
qed

end
