(* ===== verification/Tcp_State.thy ===== *)
theory Tcp_State
  imports Tcp_Props Input_Props
begin

text \<open>
  The transitions of the TCP state machine: which states \<open>tcp_input\<close> can take a socket to.  Everything else the
  input path does (sending, acknowledging, timers, reassembly) leaves the state of every socket alone.
\<close>

section \<open>Frames\<close>

definition st :: "'a tcp_state_scheme \<Rightarrow> ptr \<Rightarrow> tcp_conn_state" where
  "st s = (\<lambda>q. ts_state (tcp_sock s q))"

text \<open>A link layer that does not touch the sockets before it returns.\<close>

definition quiet :: "'a tcp_state_scheme link_output \<Rightarrow> bool" where
  "quiet lo \<longleftrightarrow> (\<forall>b i a t s e s'. lo b i a t s = Some (e, s') \<longrightarrow> tcp_sock s' = tcp_sock s)"

lemma st_cong: "tcp_sock s' = tcp_sock s \<Longrightarrow> st s' = st s"
  by (simp add: st_def)

lemma st_upd: "(\<And>t. ts_state (f t) = ts_state t) \<Longrightarrow> st (upd_ts p f s) = st s"
  by (auto simp: st_def upd_ts_def)


lemma sock_kmalloc: "kmalloc s = (p, s') \<Longrightarrow> tcp_sock s' = tcp_sock s"
  by (auto simp: kmalloc_def)

lemma sock_get_chain: "get_chain n s = Some (c, s') \<Longrightarrow> tcp_sock s' = tcp_sock s"
  by (auto simp: get_chain_def kmalloc_def Let_def split: if_splits)


lemma sock_free [simp]: "tcp_sock (free_chain b s) = tcp_sock s" "tcp_sock (emit e s) = tcp_sock s"
  by (auto simp: free_chain_def emit_def split: option.split)

lemma sock_merge: "merge_chains a b s = (c, s') \<Longrightarrow> tcp_sock s' = tcp_sock s"
  by (auto simp: merge_chains_def split: option.splits)


lemma sock_set_timer: "set_timer k d f s = (r, s') \<Longrightarrow> tcp_sock s' = tcp_sock s"
  by (auto simp: set_timer_def cancel_timer_def Let_def split: if_splits)

lemma sock_cancel_timer: "cancel_timer k s = (r, s') \<Longrightarrow> tcp_sock s' = tcp_sock s"
  by (auto simp: cancel_timer_def split: if_splits)






lemma st_free [simp]: "st (free_chain b s) = st s" "st (emit e s) = st s" "st (s\<lparr>socket_table := x\<rparr>) = st s" "st (s\<lparr>tcp_freed := y\<rparr>) = st s"
  by (simp_all add: st_def)

lemma st_dec [simp]: "st (dec_socket_ref p s) = st s"
  by (simp add: dec_socket_ref_def Let_def destroy_tcp_socket_def st_upd)



lemma st_disarm [simp]: "st (disarm_timer k p s) = st s"
  by (auto simp: disarm_timer_def split: prod.split dest!: sock_cancel_timer st_cong)







lemma ts_update_rtt [simp]: "ts_state (update_rtt now t) = ts_state t" "ts_state (open_cwnd t) = ts_state t"
  by (simp_all add: update_rtt_def open_cwnd_def Let_def)

lemma st_set_timer [simp]: "st (snd (set_timer k d f s)) = st s"
  by (cases "set_timer k d f s") (auto dest: sock_set_timer intro: st_cong)





section \<open>The transitions\<close>












lemma st_table [simp]: "st (s\<lparr>tcp_next_ephemeral_port := y\<rparr>) = st s"
  by (simp add: st_def)





section \<open>What the state machine promises\<close>

text \<open>The interface the program drives, Ethernet, is quiet: it only enqueues the frame.\<close>

lemma quiet_ethernet: "quiet (ethernet_output K)"
  unfolding quiet_def
proof (intro allI impI)
  fix b i a t s e s'
  assume run: "ethernet_output K b i a t s = Some (e, s' :: 'a tcp_state_scheme)"
  have out: "if_output K b i s = Some (e, s') \<Longrightarrow> tcp_sock s' = tcp_sock s" for b and s :: "'a tcp_state_scheme"
    by (auto simp: if_output_def upd_if_def Let_def split: option.splits prod.splits if_splits)
  have mrg: "tcp_sock (snd (merge_chains x y z)) = tcp_sock z" for x y and z :: "'a tcp_state_scheme"
    using sock_merge [of x y z] by (simp add: prod_eq_iff)
  show "tcp_sock s' = tcp_sock s"
    using run by (auto simp: ethernet_output_def bind_eq_Some_conv Let_def case_prod_beta mrg split: if_splits option.splits
      dest!: sock_get_chain out)
qed






end
