(* ===== verification/Delivery_Props.thy ===== *)
theory Delivery_Props
  imports Udp_Props Input_Props
begin

text \<open>
  From one host to another: the packets that \<open>ipv4_output\<close> makes of a datagram, given to \<open>ipv4_input\<close> of the
  receiver, reach the transport protocol as that datagram; and, on top of that, a UDP datagram from
  \<open>udp_sendto\<close> to \<open>udp_recvfrom\<close>.
\<close>

section \<open>Packets arriving\<close>



definition for_us :: "ipv4_addr \<Rightarrow> ptr \<Rightarrow> 'a if_state_scheme \<Rightarrow> bool" where
  "for_us dest j s \<longleftrightarrow> dest = 0xffffffff \<or> addressed_to dest (addr_list (ifs s j))"

lemma for_us_cong [simp]:
  "for_us dest j (s\<lparr>chains := c\<rparr>) = for_us dest j s" "for_us dest j (s\<lparr>allocs := a\<rparr>) = for_us dest j s"
  "for_us dest j (t\<lparr>frag_table := u\<rparr>) = for_us dest j t"
  by (simp_all add: for_us_def)

lemma memory_ok_cong [simp]:
  "memory_ok (s\<lparr>chains := c\<rparr>) = memory_ok s" "memory_ok (s\<lparr>allocs := a\<rparr>) = memory_ok s"
  "memory_ok (t\<lparr>frag_table := u\<rparr>) = memory_ok t"
  by (simp_all add: memory_ok_def)





section \<open>UDP from end to end\<close>






end
