(* ===== verification/Rtl8139.thy ===== *)
theory Rtl8139
  imports Lock Net_If
begin

text \<open>
  The driver of the Realtek 8139: \<^verbatim>\<open>SkyCore/Net/rtl8139_dev.c\<close> (bringing the card up, the four transmit
  slots, the receive ring, the interrupt) and \<^verbatim>\<open>rtl8139.c\<close> (the device calls on top).  The card is a parameter:
  a state \<open>'hw\<close> with what a port access reads and changes, and the receive ring as its DMA has left it.  A call
  that has to wait says on what; its continuation is a definition of its own.
\<close>

section \<open>The card and the driver's state\<close>

record 'hw rtl_io =
  in8 :: "nat \<Rightarrow> 'hw \<Rightarrow> byte \<times> 'hw"
  in16 :: "nat \<Rightarrow> 'hw \<Rightarrow> u16 \<times> 'hw"
  in32 :: "nat \<Rightarrow> 'hw \<Rightarrow> u32 \<times> 'hw"
  out8 :: "byte \<Rightarrow> nat \<Rightarrow> 'hw \<Rightarrow> 'hw"
  out16 :: "u16 \<Rightarrow> nat \<Rightarrow> 'hw \<Rightarrow> 'hw"
  out32 :: "u32 \<Rightarrow> nat \<Rightarrow> 'hw \<Rightarrow> 'hw"
  rxbuf :: "'hw \<Rightarrow> nat \<Rightarrow> byte"
  rx_store :: "nat \<Rightarrow> byte \<Rightarrow> 'hw \<Rightarrow> 'hw"

record 'hw rtl8139 =
  mac_addr :: "byte list"
  txbn :: nat
  last_txbn :: nat
  rx_sem :: u32
  tx_sem :: u32
  rtl_lock :: mutex
  txbuf :: "nat \<Rightarrow> byte"
  hw :: 'hw
  tab :: sem_table

definition RT_IDR0 :: nat where "RT_IDR0 = 0x00"
definition RT_MAR0 :: nat where "RT_MAR0 = 0x08"
definition RT_TXSTATUS0 :: nat where "RT_TXSTATUS0 = 0x10"
definition RT_TXADDR0 :: nat where "RT_TXADDR0 = 0x20"
definition RT_RXBUF :: nat where "RT_RXBUF = 0x30"
definition RT_CHIPCMD :: nat where "RT_CHIPCMD = 0x37"
definition RT_RXBUFTAIL :: nat where "RT_RXBUFTAIL = 0x38"
definition RT_RXBUFHEAD :: nat where "RT_RXBUFHEAD = 0x3A"
definition RT_INTRMASK :: nat where "RT_INTRMASK = 0x3C"
definition RT_INTRSTATUS :: nat where "RT_INTRSTATUS = 0x3E"
definition RT_TXCONFIG :: nat where "RT_TXCONFIG = 0x40"
definition RT_RXCONFIG :: nat where "RT_RXCONFIG = 0x44"
definition RT_RXMISSED :: nat where "RT_RXMISSED = 0x4C"
definition RT_CFG9346 :: nat where "RT_CFG9346 = 0x50"
definition RT_CONFIG1 :: nat where "RT_CONFIG1 = 0x52"
definition RT_CONFIG4 :: nat where "RT_CONFIG4 = 0x5A"
definition RT_MULTIINTR :: nat where "RT_MULTIINTR = 0x5C"

abbreviation (input) RT_CMD_RESET :: byte where "RT_CMD_RESET \<equiv> 0x10"
abbreviation (input) RT_CMD_RX_ENABLE :: byte where "RT_CMD_RX_ENABLE \<equiv> 0x08"
abbreviation (input) RT_CMD_TX_ENABLE :: byte where "RT_CMD_TX_ENABLE \<equiv> 0x04"
abbreviation (input) RT_CMD_RX_BUF_EMPTY :: byte where "RT_CMD_RX_BUF_EMPTY \<equiv> 0x01"
abbreviation (input) RT_INT_RXBUF_OVERFLOW :: u16 where "RT_INT_RXBUF_OVERFLOW \<equiv> 0x0010"
abbreviation (input) RT_INT_TX_ERR :: u16 where "RT_INT_TX_ERR \<equiv> 0x0008"
abbreviation (input) RT_INT_TX_OK :: u16 where "RT_INT_TX_OK \<equiv> 0x0004"
abbreviation (input) RT_INT_RX_ERR :: u16 where "RT_INT_RX_ERR \<equiv> 0x0002"
abbreviation (input) RT_INT_RX_OK :: u16 where "RT_INT_RX_OK \<equiv> 0x0001"
abbreviation (input) RT_TX_ABORTED :: u32 where "RT_TX_ABORTED \<equiv> 0x40000000"
abbreviation (input) RT_TX_STATUS_OK :: u32 where "RT_TX_STATUS_OK \<equiv> 0x00008000"
abbreviation (input) RT_TX_UNDERRUN :: u32 where "RT_TX_UNDERRUN \<equiv> 0x00004000"
abbreviation (input) RT_RX_STATUS_OK :: u16 where "RT_RX_STATUS_OK \<equiv> 0x0001"

definition ETHERNET_MIN_SIZE :: nat where "ETHERNET_MIN_SIZE = ETHERNET_HEADER_SIZE + 46"

definition MYRT_INTS :: u16 where
  "MYRT_INTS = 0x8000 OR RT_INT_RX_ERR OR RT_INT_RX_OK OR RT_INT_TX_ERR OR RT_INT_TX_OK OR RT_INT_RXBUF_OVERFLOW"

definition TAILREG_TO_TAIL :: "u16 \<Rightarrow> u16" where "TAILREG_TO_TAIL r = ucast ((ucast r + 16 :: u32) mod 0x10000)"
definition TAIL_TO_TAILREG :: "u16 \<Rightarrow> u16" where "TAIL_TO_TAILREG r = r - 16"

definition upd_hw :: "('hw \<Rightarrow> 'hw) \<Rightarrow> 'hw rtl8139 \<Rightarrow> 'hw rtl8139" where
  "upd_hw f s = s\<lparr>hw := f (hw s)\<rparr>"

text \<open>How a call that may block ends: with a result, waiting for a semaphore, or waiting for the lock.\<close>

datatype 'r rtl_call = Return 'r | Wait_sem | Wait_lock

section \<open>Detection and initialisation\<close>

record pci_info =
  vendor_id :: u16
  device_id :: u16
  interrupt_line :: byte
  base_registers :: "u32 list"
  base_register_sizes :: "u32 list"

text \<open>The PCI module (\<open>get_nth_pci_info\<close>, \<open>None\<close> beyond the last device) is a parameter.\<close>

partial_function (option) pci_search :: "(nat \<Rightarrow> pci_info option) \<Rightarrow> nat \<Rightarrow> pci_info option option" where
  "pci_search pci i =
     (case pci i of
        None \<Rightarrow> Some None
      | Some p \<Rightarrow> if vendor_id p = 0x10EC \<and> device_id p = 0x8139 then Some (Some p) else pci_search pci (Suc i))"

text \<open>The loop over the base registers: \<open>(phys_base, phys_size, io_port)\<close>.\<close>

fun find_base :: "u32 list \<Rightarrow> u32 list \<Rightarrow> u16 \<Rightarrow> u32 \<times> u32 \<times> u16" where
  "find_base (b # bs) (n # ns) io_port =
     (if b > 0xffff then (b, n, io_port)
      else find_base bs ns (if b > 0 then ucast b else io_port))"
| "find_base _ _ io_port = (0, 0, io_port)"

definition rtl8139_detect :: "(nat \<Rightarrow> pci_info option) option \<Rightarrow> bool \<Rightarrow> (int \<times> (byte \<times> u32 \<times> u32 \<times> u16) option) option" where
  "rtl8139_detect module_pci malloc_ok =
     (case module_pci of
        None \<Rightarrow> Some (-1, None)
      | Some pci \<Rightarrow> do {
          found \<leftarrow> pci_search pci 0;
          case found of
            None \<Rightarrow> Some (-1, None)
          | Some p \<Rightarrow>
              if \<not> malloc_ok then Some (ERR_NO_MEMORY, None)
              else
                let (base, size, io_port) = find_base (take 6 (base_registers p)) (take 6 (base_register_sizes p)) 0
                in if base = 0 then Some (-1, None) else Some (0, Some (interrupt_line p, base, size, io_port))
        })"

text \<open>Waiting for the reset, at most a second of the clock \<open>now\<close>; \<open>False\<close> is the time-out.\<close>

partial_function (option) reset_wait ::
  "'hw rtl_io \<Rightarrow> ('hw \<Rightarrow> int) \<Rightarrow> ('hw \<Rightarrow> 'hw) \<Rightarrow> int \<Rightarrow> 'hw \<Rightarrow> (bool \<times> 'hw) option" where
  "reset_wait io now snooze start h =
     (let h1 = snooze h
      in if now h1 - start > 1000000 then Some (False, h1)
         else
           let (c, h2) = in8 io RT_CHIPCMD h1
           in if c AND RT_CMD_RESET \<noteq> 0 then reset_wait io now snooze start h2 else Some (True, h2))"

fun read_mac :: "'hw rtl_io \<Rightarrow> nat \<Rightarrow> nat \<Rightarrow> 'hw \<Rightarrow> byte list \<times> 'hw" where
  "read_mac io r 0 h = ([], h)"
| "read_mac io r (Suc n) h = (let (b, h1) = in8 io r h; (bs, h2) = read_mac io (Suc r) n h1 in (b # bs, h2))"

text \<open>The register writes that configure the card once its buffers exist at the physical addresses \<open>rx_phys\<close>,
  \<open>tx_phys\<close> and \<open>tx_phys2\<close>.\<close>

definition configure_card :: "'hw rtl_io \<Rightarrow> u32 \<Rightarrow> u32 \<Rightarrow> u32 \<Rightarrow> 'hw \<Rightarrow> 'hw" where
  "configure_card io rx_phys tx_phys tx_phys2 h =
     (let h = out8 io 0xc0 RT_CFG9346 h;
          h = out8 io 0 RT_CONFIG1 h;
          h = out8 io (RT_CMD_RX_ENABLE OR RT_CMD_TX_ENABLE) RT_CHIPCMD h;
          h = out32 io 0x00009c00 RT_RXCONFIG h;
          h = out32 io 0x03000400 RT_TXCONFIG h;
          (c1, h) = in8 io RT_CONFIG1 h;
          h = out8 io (c1 AND NOT 0x30 OR 0x20) RT_CONFIG1 h;
          (c4, h) = in8 io RT_CONFIG4 h;
          h = out8 io (c4 OR 0x80) RT_CONFIG4 h;
          h = out8 io 0 RT_CFG9346 h;
          h = fold (\<lambda>a. rx_store io a 0) [0..<4] h;
          h = out32 io rx_phys RT_RXBUF h;
          h = out32 io tx_phys RT_TXADDR0 h;
          h = out32 io (tx_phys + 2 * 1024) (RT_TXADDR0 + 4) h;
          h = out32 io tx_phys2 (RT_TXADDR0 + 8) h;
          h = out32 io (tx_phys2 + 2 * 1024) (RT_TXADDR0 + 12) h;
          h = out32 io 0 RT_RXMISSED h;
          (rc, h) = in32 io RT_RXCONFIG h;
          h = out32 io (rc OR 0x0000000f) RT_RXCONFIG h;
          h = out32 io 0 RT_MAR0 h;
          h = out32 io 0 (RT_MAR0 + 4) h;
          h = out16 io 0 RT_MULTIINTR h;
          h = out16 io MYRT_INTS RT_INTRMASK h;
          h = out8 io (RT_CMD_RX_ENABLE OR RT_CMD_TX_ENABLE) RT_CHIPCMD h
      in out8 io 0 RT_CFG9346 h)"

definition rtl8139_init ::
  "'hw rtl_io \<Rightarrow> ('hw \<Rightarrow> int) \<Rightarrow> ('hw \<Rightarrow> 'hw) \<Rightarrow> int \<Rightarrow> (nat \<Rightarrow> u32) \<Rightarrow> (nat \<Rightarrow> bool) \<Rightarrow> int \<Rightarrow> 'hw rtl8139 \<Rightarrow>
   (int \<times> 'hw rtl8139) option" where
  "rtl8139_init io now snooze region phys malloc_ok kernel_proc s =
     (if region < 0 then Some (-1, s)
      else do {
        let start = now (hw s);
        (ready, h) \<leftarrow> reset_wait io now snooze start (out8 io RT_CMD_RESET RT_CHIPCMD (hw s));
        if \<not> ready then Some (-1, s\<lparr>hw := h\<rparr>)
        else do {
          (tx, t1) \<leftarrow> sem_create (malloc_ok 0) 4 (Some ''rtl8139_txsem'') kernel_proc (tab s);
          (err, m, t2) \<leftarrow> mutex_init (malloc_ok 1) (Some ''rtl8139'') kernel_proc (Some (rtl_lock s)) t1;
          (rx, t3) \<leftarrow> sem_create (malloc_ok 2) 0 (Some ''rtl8139_rxsem'') kernel_proc t2;
          let (mac, h1) = read_mac io RT_IDR0 6 h;
          Some (0, s\<lparr>tx_sem := tx, rtl_lock := (case m of Some m \<Rightarrow> m | None \<Rightarrow> rtl_lock s), txbn := 0, last_txbn := 0,
                    rx_sem := rx, mac_addr := mac, tab := t3,
                    txbuf := (\<lambda>a. if a < 4 \<or> 4 * 1024 \<le> a \<and> a < 4 * 1024 + 4 then 0 else txbuf s a),
                    hw := configure_card io (phys 0) (phys 1) (phys 2) h1\<rparr>)
        }
      })"

definition rtl8139_stop :: "'hw rtl_io \<Rightarrow> 'hw \<Rightarrow> 'hw" where
  "rtl8139_stop io h = out16 io 0 RT_INTRMASK (out8 io RT_CMD_RESET RT_CHIPCMD h)"

definition rtl8139_resetrx :: "'hw rtl_io \<Rightarrow> 'hw \<Rightarrow> 'hw" where
  "rtl8139_resetrx io h =
     (let h = rtl8139_stop io h;
          h = out16 io (TAIL_TO_TAILREG 0) RT_RXBUFTAIL h;
          h = out16 io 0 RT_RXBUFHEAD h;
          h = out16 io MYRT_INTS RT_INTRMASK h
      in out8 io (RT_CMD_RX_ENABLE OR RT_CMD_TX_ENABLE) RT_CHIPCMD h)"

section \<open>Transmission\<close>

text \<open>With the semaphore and the lock: copy into the next slot and hand it to the card.\<close>

definition xmit_store :: "'hw rtl_io \<Rightarrow> packet \<Rightarrow> 'hw rtl8139 \<Rightarrow> 'hw rtl8139" where
  "xmit_store io p s =
     (let base = txbn s * 0x800;
          len = (if length p < ETHERNET_MIN_SIZE then ETHERNET_MIN_SIZE else length p)
      in s\<lparr>txbuf := (\<lambda>a. if base \<le> a \<and> a < base + length p then p ! (a - base) else txbuf s a),
          hw := out32 io (of_nat len OR 0x80000) (RT_TXSTATUS0 + txbn s * 4) (hw s),
          txbn := (if Suc (txbn s) \<ge> 4 then 0 else Suc (txbn s))\<rparr>)"

definition xmit_send :: "thread_queue_fns \<Rightarrow> 'hw rtl_io \<Rightarrow> tid \<Rightarrow> packet \<Rightarrow> 'hw rtl8139 \<Rightarrow> 'hw rtl8139 option" where
  "xmit_send T io me p s =
     (let s1 = xmit_store io p s
      in map_option (\<lambda>(m, t). s1\<lparr>rtl_lock := m, tab := t\<rparr>) (mutex_unlock T me (rtl_lock s1) (tab s1)))"

definition take_lock :: "thread_queue_fns \<Rightarrow> tid \<Rightarrow> 'hw rtl8139 \<Rightarrow> (bool \<times> 'hw rtl8139) option" where
  "take_lock T me s =
     map_option (\<lambda>(got, m, t). (got, s\<lparr>rtl_lock := m, tab := t\<rparr>)) (mutex_lock T me (rtl_lock s) (tab s))"

definition xmit_locked ::
  "thread_queue_fns \<Rightarrow> 'hw rtl_io \<Rightarrow> tid \<Rightarrow> packet \<Rightarrow> 'hw rtl8139 \<Rightarrow> (unit rtl_call \<times> 'hw rtl8139) option" where
  "xmit_locked T io me p s =
     do {
       (got, s1) \<leftarrow> take_lock T me s;
       if got then map_option (Pair (Return ())) (xmit_send T io me p s1) else Some (Wait_lock, s1)
     }"

definition rtl8139_xmit ::
  "thread_queue_fns \<Rightarrow> 'hw rtl_io \<Rightarrow> tid \<Rightarrow> packet \<Rightarrow> 'hw rtl8139 \<Rightarrow> (unit rtl_call \<times> 'hw rtl8139) option" where
  "rtl8139_xmit T io me p s =
     do {
       (r, t) \<leftarrow> sem_acquire T me (tx_sem s) 1 (tab s);
       case r of
         Inl err \<Rightarrow> xmit_locked T io me p (s\<lparr>tab := t\<rparr>)
       | Inr _ \<Rightarrow> Some (Wait_sem, s\<lparr>tab := t\<rparr>)
     }"

text \<open>When the thread runs again after waiting for a slot, or for the lock.\<close>

definition xmit_resume_sem ::
  "thread_queue_fns \<Rightarrow> 'hw rtl_io \<Rightarrow> tid \<Rightarrow> packet \<Rightarrow> 'hw rtl8139 \<Rightarrow> (unit rtl_call \<times> 'hw rtl8139) option" where
  "xmit_resume_sem T io me p s =
     (let (err, ret, t) = sem_acquire_finish me (tab s) in xmit_locked T io me p (s\<lparr>tab := t\<rparr>))"

definition xmit_resume_lock ::
  "thread_queue_fns \<Rightarrow> 'hw rtl_io \<Rightarrow> tid \<Rightarrow> packet \<Rightarrow> 'hw rtl8139 \<Rightarrow> 'hw rtl8139 option" where
  "xmit_resume_lock T io me p s =
     (let (m, t) = mutex_lock_resume me (rtl_lock s) (tab s) in xmit_send T io me p (s\<lparr>rtl_lock := m, tab := t\<rparr>))"

section \<open>Reception\<close>

definition rx16 :: "'hw rtl_io \<Rightarrow> nat \<Rightarrow> 'hw \<Rightarrow> u16" where
  "rx16 io a h = le16 (rxbuf io h a) (rxbuf io h (Suc a))"

definition rx_bytes :: "'hw rtl_io \<Rightarrow> nat \<Rightarrow> nat \<Rightarrow> 'hw \<Rightarrow> packet" where
  "rx_bytes io a n h = map (rxbuf io h) [a..<a + n]"

text \<open>The two \<open>memcpy\<close>s: \<open>len\<close> bytes behind the four-byte entry header at \<open>tail\<close>.\<close>

definition rx_copy :: "'hw rtl_io \<Rightarrow> nat \<Rightarrow> nat \<Rightarrow> 'hw \<Rightarrow> packet" where
  "rx_copy io tail len h =
     (if tail + len > 0xffff
      then rx_bytes io (tail + 4) (0x10000 - (tail + 4)) h @ rx_bytes io 0 (len - (0x10000 - (tail + 4))) h
      else rx_bytes io (tail + 4) len h)"

text \<open>With the semaphore and the lock: \<open>None\<close> is \<open>goto restart\<close>, otherwise the result, the bytes copied and
  \<open>release_sem\<close>.\<close>

definition rx_take :: "'hw rtl_io \<Rightarrow> int \<Rightarrow> 'hw \<Rightarrow> (int \<times> packet \<times> bool) option \<times> 'hw" where
  "rx_take io buf_len h =
     (let (reg, h) = in16 io RT_RXBUFTAIL h;
          tail = unat (TAILREG_TO_TAIL reg);
          (head, h) = in16 io RT_RXBUFHEAD h
      in if tail = unat head then (None, h)
         else
           let (cmd, h) = in8 io RT_CHIPCMD h
           in if cmd AND RT_CMD_RX_BUF_EMPTY \<noteq> 0 then (None, h)
              else if rx16 io (tail + 2) h = 0xfff0 then (None, h)
              else
                let len = rx16 io (tail + 2) h - 4
                in if rx16 io tail h AND RT_RX_STATUS_OK = 0 \<or> unat len > ETHERNET_MAX_SIZE then (None, rtl8139_resetrx io h)
                   else if uint len > buf_len then
                     let (head, h) = in16 io RT_RXBUFHEAD h
                     in (Some (ERR_TOO_BIG, [], True), out16 io (TAILREG_TO_TAIL head) RT_RXBUFTAIL h)
                   else
                     let data = rx_copy io tail (unat len) h;
                         next = (tail + unat (rx16 io (tail + 2) h) + 4 + 3) div 4 * 4 mod 0x10000;
                         h = out16 io (TAIL_TO_TAILREG (of_nat next)) RT_RXBUFTAIL h;
                         (head, h) = in16 io RT_RXBUFHEAD h
                     in (Some (uint len, data, next \<noteq> unat head), h))"

text \<open>One round behind the lock.  The inner \<open>None\<close> is the restart, with the lock given back.\<close>

definition rx_received ::
  "thread_queue_fns \<Rightarrow> 'hw rtl_io \<Rightarrow> tid \<Rightarrow> int \<Rightarrow> 'hw rtl8139 \<Rightarrow> ((int \<times> packet) option \<times> 'hw rtl8139) option" where
  "rx_received T io me buf_len s =
     (let (r, h) = rx_take io buf_len (hw s)
      in do {
        t1 \<leftarrow> (case r of
                 Some (rc, data, release_sem) \<Rightarrow>
                   if release_sem then map_option snd (sem_release T (rx_sem s) 1 (tab s)) else Some (tab s)
               | None \<Rightarrow> Some (tab s));
        (m, t2) \<leftarrow> mutex_unlock T me (rtl_lock s) t1;
        Some (map_option (\<lambda>(rc, data, release_sem). (rc, data)) r, s\<lparr>hw := h, rtl_lock := m, tab := t2\<rparr>)
      })"

definition rx_locked ::
  "thread_queue_fns \<Rightarrow> 'hw rtl_io \<Rightarrow> tid \<Rightarrow> int \<Rightarrow> 'hw rtl8139 \<Rightarrow> ((int \<times> packet) option rtl_call \<times> 'hw rtl8139) option" where
  "rx_locked T io me buf_len s =
     do {
       (got, s1) \<leftarrow> take_lock T me s;
       if got then map_option (\<lambda>(r, s). (Return r, s)) (rx_received T io me buf_len s1) else Some (Wait_lock, s1)
     }"

text \<open>One round of the loop from \<open>restart\<close>; \<open>Return None\<close> goes round again.\<close>

definition rx_round ::
  "thread_queue_fns \<Rightarrow> 'hw rtl_io \<Rightarrow> tid \<Rightarrow> int \<Rightarrow> 'hw rtl8139 \<Rightarrow> ((int \<times> packet) option rtl_call \<times> 'hw rtl8139) option" where
  "rx_round T io me buf_len s =
     do {
       (r, t) \<leftarrow> sem_acquire T me (rx_sem s) 1 (tab s);
       case r of
         Inl err \<Rightarrow> rx_locked T io me buf_len (s\<lparr>tab := t\<rparr>)
       | Inr _ \<Rightarrow> Some (Wait_sem, s\<lparr>tab := t\<rparr>)
     }"

partial_function (option) rtl8139_rx_loop ::
  "thread_queue_fns \<Rightarrow> 'hw rtl_io \<Rightarrow> tid \<Rightarrow> int \<Rightarrow> 'hw rtl8139 \<Rightarrow> ((int \<times> packet) rtl_call \<times> 'hw rtl8139) option" where
  "rtl8139_rx_loop T io me buf_len s =
     do {
       (r, s1) \<leftarrow> rx_round T io me buf_len s;
       case r of
         Return (Some x) \<Rightarrow> Some (Return x, s1)
       | Return None \<Rightarrow> rtl8139_rx_loop T io me buf_len s1
       | Wait_sem \<Rightarrow> Some (Wait_sem, s1)
       | Wait_lock \<Rightarrow> Some (Wait_lock, s1)
     }"

definition rtl8139_rx ::
  "thread_queue_fns \<Rightarrow> 'hw rtl_io \<Rightarrow> tid \<Rightarrow> int \<Rightarrow> 'hw rtl8139 \<Rightarrow> ((int \<times> packet) rtl_call \<times> 'hw rtl8139) option" where
  "rtl8139_rx T io me buf_len s =
     (if buf_len < 1500 then Some (Return (-1, []), s) else rtl8139_rx_loop T io me buf_len s)"

section \<open>The interrupt\<close>

text \<open>The result says whether to reschedule.\<close>

definition rtl8139_rxint :: "thread_queue_fns \<Rightarrow> 'hw rtl_io \<Rightarrow> 'hw rtl8139 \<Rightarrow> (bool \<times> 'hw rtl8139) option" where
  "rtl8139_rxint T io s =
     (let (c, h) = in8 io RT_CHIPCMD (hw s)
      in if c AND RT_CMD_RX_BUF_EMPTY = 0 then
           map_option (\<lambda>(err, t). (True, s\<lparr>hw := h, tab := t\<rparr>)) (sem_release_etc T (rx_sem s) 1 SEM_FLAG_NO_RESCHED (tab s))
         else Some (False, s\<lparr>hw := h\<rparr>))"

text \<open>The loop over the transmit slots, \<open>k\<close> rounds to go; the test for an empty ring is skipped in the first.\<close>

fun txint_loop :: "thread_queue_fns \<Rightarrow> 'hw rtl_io \<Rightarrow> nat \<Rightarrow> bool \<Rightarrow> bool \<Rightarrow> 'hw rtl8139 \<Rightarrow> (bool \<times> 'hw rtl8139) option" where
  "txint_loop T io 0 first rc s = Some (rc, s)"
| "txint_loop T io (Suc k) first rc s =
     (if \<not> first \<and> last_txbn s = txbn s then Some (rc, s)
      else
        let (txstat, h) = in32 io (RT_TXSTATUS0 + last_txbn s * 4) (hw s)
        in if txstat AND (RT_TX_STATUS_OK OR RT_TX_UNDERRUN OR RT_TX_ABORTED) = 0 then Some (rc, s\<lparr>hw := h\<rparr>)
           else do {
             let last = (if Suc (last_txbn s) \<ge> 4 then 0 else Suc (last_txbn s));
             (err, t) \<leftarrow> sem_release_etc T (tx_sem s) 1 SEM_FLAG_NO_RESCHED (tab s);
             txint_loop T io k False True (s\<lparr>hw := h, last_txbn := last, tab := t\<rparr>)
           })"

text \<open>\<open>rtl8139_dumptxstate\<close> reads the status registers and prints them; the reads are kept.\<close>

definition rtl8139_dumptxstate :: "'hw rtl_io \<Rightarrow> 'hw \<Rightarrow> 'hw" where
  "rtl8139_dumptxstate io h = fold (\<lambda>k h. snd (in32 io (RT_TXSTATUS0 + k * 4) h)) [0..<4] h"

definition rtl8139_txint :: "thread_queue_fns \<Rightarrow> 'hw rtl_io \<Rightarrow> u16 \<Rightarrow> 'hw rtl8139 \<Rightarrow> (bool \<times> 'hw rtl8139) option" where
  "rtl8139_txint T io int_status s =
     txint_loop T io 4 True False (if int_status AND RT_INT_TX_ERR \<noteq> 0 then upd_hw (rtl8139_dumptxstate io) s else s)"

text \<open>A receive overflow: the reads of the message, then the ring is emptied.\<close>

definition rx_overflow :: "'hw rtl_io \<Rightarrow> 'hw \<Rightarrow> 'hw" where
  "rx_overflow io h =
     (let h = snd (in32 io RT_RXBUF h);
          h = snd (in16 io RT_RXBUFHEAD h);
          h = snd (in16 io RT_RXBUFTAIL h);
          h = out32 io 0 RT_RXMISSED h;
          (head, h) = in16 io RT_RXBUFHEAD h
      in out16 io (TAIL_TO_TAILREG head) RT_RXBUFTAIL h)"

partial_function (option) int_loop ::
  "thread_queue_fns \<Rightarrow> 'hw rtl_io \<Rightarrow> bool \<Rightarrow> 'hw rtl8139 \<Rightarrow> (bool \<times> 'hw rtl8139) option" where
  "int_loop T io rc s =
     (let (status, h) = in16 io RT_INTRSTATUS (hw s)
      in if status = 0 then Some (rc, s\<lparr>hw := h\<rparr>)
         else do {
           let s1 = s\<lparr>hw := out16 io status RT_INTRSTATUS h\<rparr>;
           (r2, s2) \<leftarrow> (if status AND RT_INT_TX_OK \<noteq> 0 \<or> status AND RT_INT_TX_ERR \<noteq> 0
                        then rtl8139_txint T io status s1 else Some (False, s1));
           (r3, s3) \<leftarrow> (if status AND RT_INT_RX_ERR \<noteq> 0 \<or> status AND RT_INT_RX_OK \<noteq> 0
                        then rtl8139_rxint T io s2 else Some (False, s2));
           let s4 = (if status AND RT_INT_RXBUF_OVERFLOW \<noteq> 0 then upd_hw (rx_overflow io) s3 else s3);
           int_loop T io (rc \<or> r2 \<or> r3) s4
         })"

definition rtl8139_int :: "thread_queue_fns \<Rightarrow> 'hw rtl_io \<Rightarrow> 'hw rtl8139 \<Rightarrow> (bool \<times> 'hw rtl8139) option" where
  "rtl8139_int T io s =
     do {
       (rc, s1) \<leftarrow> int_loop T io False (upd_hw (out16 io 0 RT_INTRMASK) s);
       Some (rc, upd_hw (out16 io MYRT_INTS RT_INTRMASK) s1)
     }"

section \<open>The device calls\<close>

definition rtl8139_open :: "'ident \<Rightarrow> int \<times> 'ident" where "rtl8139_open ident = (0, ident)"
definition rtl8139_freecookie :: "'ident \<Rightarrow> int" where "rtl8139_freecookie cookie = 0"
definition rtl8139_seek :: "'ident \<Rightarrow> int" where "rtl8139_seek cookie = ERR_NOT_ALLOWED"
definition rtl8139_close :: "'ident \<Rightarrow> int" where "rtl8139_close cookie = 0"

definition rtl8139_read ::
  "thread_queue_fns \<Rightarrow> 'hw rtl_io \<Rightarrow> tid \<Rightarrow> int \<Rightarrow> 'hw rtl8139 \<Rightarrow> ((int \<times> packet) rtl_call \<times> 'hw rtl8139) option" where
  "rtl8139_read T io me len s =
     (if len < int ETHERNET_MAX_SIZE then Some (Return (ERR_VFS_INSUFFICIENT_BUF, []), s) else rtl8139_rx T io me len s)"

definition rtl8139_write ::
  "thread_queue_fns \<Rightarrow> 'hw rtl_io \<Rightarrow> tid \<Rightarrow> packet \<Rightarrow> int \<Rightarrow> 'hw rtl8139 \<Rightarrow> (int rtl_call \<times> 'hw rtl8139) option" where
  "rtl8139_write T io me buf len s =
     (if len > int ETHERNET_MAX_SIZE then Some (Return ERR_VFS_INSUFFICIENT_BUF, s)
      else if len < 0 then Some (Return ERR_INVALID_ARGS, s)
      else map_option (\<lambda>(r, s). (case r of Return _ \<Rightarrow> Return len | Wait_sem \<Rightarrow> Wait_sem | Wait_lock \<Rightarrow> Wait_lock, s))
             (rtl8139_xmit T io me (take (nat len) buf) s))"

datatype rtl_ioctl = IF_GET_ADDR | IF_GET_TYPE | Other_ioctl

definition rtl8139_ioctl :: "rtl_ioctl \<Rightarrow> nat \<Rightarrow> 'hw rtl8139 option \<Rightarrow> int \<times> packet" where
  "rtl8139_ioctl op len rtl =
     (case rtl of
        None \<Rightarrow> (ERR_IO_ERROR, [])
      | Some s \<Rightarrow>
          (case op of
             IF_GET_ADDR \<Rightarrow> if len \<ge> 6 then (NO_ERROR, mac_addr s) else (ERR_VFS_INSUFFICIENT_BUF, [])
           | IF_GET_TYPE \<Rightarrow> if len \<ge> 4 then (NO_ERROR, raw32 (of_nat IF_TYPE_ETHERNET)) else (ERR_VFS_INSUFFICIENT_BUF, [])
           | Other_ioctl \<Rightarrow> (ERR_INVALID_ARGS, [])))"

text \<open>The entry of the module: the result, and whether the device was published.  \<open>rtl8139_init\<close>'s result is not
  looked at.\<close>

definition dev_bootstrap ::
  "(nat \<Rightarrow> pci_info option) option \<Rightarrow> bool \<Rightarrow> ('hw rtl8139 \<Rightarrow> (int \<times> 'hw rtl8139) option) \<Rightarrow> 'hw rtl8139 \<Rightarrow>
   (int \<times> bool \<times> 'hw rtl8139) option" where
  "dev_bootstrap module_pci malloc_ok init s =
     do {
       (err, found) \<leftarrow> rtl8139_detect module_pci malloc_ok;
       if err < 0 then Some (ERR_GENERAL, False, s)
       else do { (err, s1) \<leftarrow> init s; Some (0, True, s1) }
     }"

end
