(* ===== verification/Rtl8139_Props.thy ===== *)
theory Rtl8139_Props
  imports Rtl8139 Lock_Props
begin

text \<open>
  What the Realtek driver delivers and how it shares the four transmit slots: a frame read from the receive ring,
  a step relation over the threads that send and the interrupt that reaps, and the places where the code leaves
  its promises.
\<close>

section \<open>The receive ring\<close>

definition reads_steady :: "'hw rtl_io \<Rightarrow> bool" where
  "reads_steady io \<longleftrightarrow> (\<forall>r h. snd (in8 io r h) = h \<and> snd (in16 io r h) = h)"



text \<open>The frames the wrap test misjudges: its bound forgets the four bytes of the entry header.\<close>

definition overhang :: "nat \<Rightarrow> nat \<Rightarrow> bool" where
  "overhang tail n \<longleftrightarrow> tail + n \<le> 0xffff \<and> 0x10000 < tail + 4 + n"






text \<open>With the semaphore and the lock free the call does not wait.\<close>

definition sem_is :: "sem_table \<Rightarrow> u32 \<Rightarrow> int \<Rightarrow> bool" where
  "sem_is t sid c \<longleftrightarrow> sems_active t \<and> se_id (sems t (sem_slot sid)) = sid \<and> se_count (sems t (sem_slot sid)) = c"


lemma sem_is_upd:
  "sem_is (upd_sem (sem_slot sid) (\<lambda>e. e\<lparr>se_count := se_count e + d\<rparr>) t) sid (c + d) = sem_is t sid c"
  "sem_is (upd_sem (sem_slot sid) (\<lambda>e. e\<lparr>se_count := se_count e - d\<rparr>) t) sid (c - d) = sem_is t sid c"
  "sem_slot a \<noteq> sem_slot sid \<Longrightarrow> sem_is (upd_sem (sem_slot a) f t) sid c = sem_is t sid c"
  by (auto simp: sem_is_def)

lemma sem_release_now:
  "fifo T \<Longrightarrow> sem_is t sid c \<Longrightarrow> 0 \<le> c \<Longrightarrow>
    sem_release T sid 1 t = Some (0, upd_sem (sem_slot sid) (\<lambda>e. e\<lparr>se_count := se_count e + 1\<rparr>) t)"
  by (simp add: sem_is_def release_none)








text \<open>A card of sixteen-bit registers and a ring in memory.\<close>

type_synonym card = "(nat \<Rightarrow> u16) \<times> (nat \<Rightarrow> byte)"

definition plain_io :: "card rtl_io" where
  "plain_io = \<lparr>in8 = \<lambda>r h. (ucast (fst h r), h), in16 = \<lambda>r h. (fst h r, h), in32 = \<lambda>r h. (ucast (fst h r), h),
     out8 = \<lambda>x r h. ((fst h)(r := ucast x), snd h), out16 = \<lambda>x r h. ((fst h)(r := x), snd h),
     out32 = \<lambda>x r h. ((fst h)(r := ucast x), snd h), rxbuf = snd, rx_store = \<lambda>a x h. (fst h, (snd h)(a := x))\<rparr>"

lemma plain_io_simps [simp]:
  "in8 plain_io r h = (ucast (fst h r), h)" "in16 plain_io r h = (fst h r, h)" "in32 plain_io r h = (ucast (fst h r), h)"
  "out8 plain_io y r h = ((fst h)(r := ucast y), snd h)" "out16 plain_io x r h = ((fst h)(r := x), snd h)"
  "out32 plain_io z r h = ((fst h)(r := ucast z), snd h)" "rxbuf plain_io = snd" "reads_steady plain_io"
  by (simp_all add: plain_io_def reads_steady_def)




lemma sem_slot_12 [simp]: "sem_slot 1 = 1" "sem_slot 2 = 2"
  by (simp_all add: sem_slot_def MAX_SEMS_def)


text \<open>In the excluded case the last bytes come from behind the ring, where the card never writes.\<close>

theorem rx_copy_overhang:
  assumes "overhang tail n" "tail + 4 \<le> 0x10000"
  shows "rx_copy io tail n h = map (rxbuf io h) [tail + 4..<0x10000] @ map (rxbuf io h) [0x10000..<tail + 4 + n] \<and>
    0x10000 < tail + 4 + n"
proof -
  have "[tail + 4..<tail + 4 + n] = [tail + 4..<0x10000] @ [0x10000..<tail + 4 + n]"
    using assms upt_add_eq_append [of "tail + 4" "0x10000" "tail + 4 + n - 0x10000"]
    by (auto simp: overhang_def ac_simps)
  then show ?thesis
    using assms by (auto simp: overhang_def rx_copy_def rx_bytes_def)
qed

section \<open>The transmit slots\<close>








lemma release_flags: "sem_release_etc T sid c flags s = sem_release T sid c s"
  by (simp add: sem_release_def sem_release_etc_def)
















section \<open>Where the driver leaves its promises\<close>

text \<open>An interrupt that finds nothing in flight while the status registers still say that the last frames were
  sent (the test for an empty ring is skipped in the first round of the loop): the driver walks once round the
  ring and releases four units too many, after which eight threads may enter four slots.\<close>

theorem txint_stale_status:
  assumes T: "fifo T" and s: "sem_is (tab s) (tx_sem s) 4" "txbn s = 0" "last_txbn s = 0"
    and stale: "\<And>r h. in32 io r h = (RT_TX_STATUS_OK, h)"
  shows "\<exists>s'. rtl8139_txint T io RT_INT_TX_OK s = Some (True, s') \<and> sem_is (tab s') (tx_sem s) 8 \<and>
    txbn s' = 0 \<and> last_txbn s' = 0"
proof -
  have r: "\<exists>tb. sem_release T (tx_sem s) 1 t = Some (0, tb) \<and> sem_is tb (tx_sem s) (c + 1)" if "sem_is t (tx_sem s) c" "0 \<le> c" for t c
    using sem_release_now [OF T that] that sem_is_upd(1) [of "tx_sem s" 1 t c] by auto
  obtain t1 where t1: "sem_release T (tx_sem s) 1 (tab s) = Some (0, t1)" "sem_is t1 (tx_sem s) 5"
    using r [OF s(1)] by auto
  obtain t2 where t2: "sem_release T (tx_sem s) 1 t1 = Some (0, t2)" "sem_is t2 (tx_sem s) 6"
    using r [OF t1(2)] by auto
  obtain t3 where t3: "sem_release T (tx_sem s) 1 t2 = Some (0, t3)" "sem_is t3 (tx_sem s) 7"
    using r [OF t2(2)] by auto
  obtain t4 where t4: "sem_release T (tx_sem s) 1 t3 = Some (0, t4)" "sem_is t4 (tx_sem s) 8"
    using r [OF t3(2)] by auto
  have "rtl8139_txint T io RT_INT_TX_OK s = txint_loop T io (Suc (Suc (Suc (Suc 0)))) True False s"
    by (simp add: rtl8139_txint_def numeral_eq_Suc)
  then show ?thesis
    using s t1 t2 t3 t4 stale by (simp add: release_flags)
qed

text \<open>A short frame is padded by length only: the rest of the slot keeps the bytes of the frame that used it
  before, and the card is told to send them.\<close>

definition slot_bytes :: "'hw rtl8139 \<Rightarrow> nat \<Rightarrow> packet" where
  "slot_bytes s n = map (\<lambda>k. txbuf s (txbn s * 0x800 + k)) [0..<n]"

theorem xmit_padding_leaks:
  assumes "length p < ETHERNET_MIN_SIZE"
  shows "map (\<lambda>k. txbuf (xmit_store io p s) (txbn s * 0x800 + k)) [0..<ETHERNET_MIN_SIZE] =
      p @ drop (length p) (slot_bytes s ETHERNET_MIN_SIZE) \<and>
    hw (xmit_store io p s) = out32 io (of_nat ETHERNET_MIN_SIZE OR 0x80000) (RT_TXSTATUS0 + txbn s * 4) (hw s)"
  using assms by (auto simp: xmit_store_def Let_def slot_bytes_def nth_append intro!: nth_equalityI)

text \<open>A frame is handed to the card as it is, from the slot's address, with its length.\<close>

theorem xmit_stores_frame:
  assumes "ETHERNET_MIN_SIZE \<le> length p"
  shows "map (\<lambda>k. txbuf (xmit_store io p s) (txbn s * 0x800 + k)) [0..<length p] = p \<and>
    hw (xmit_store io p s) = out32 io (of_nat (length p) OR 0x80000) (RT_TXSTATUS0 + txbn s * 4) (hw s)"
  using assms by (auto simp: xmit_store_def Let_def intro!: nth_equalityI)

text \<open>A frame too large for the reader's buffer: the tail register gets the head's offset plus sixteen where the
  rest of the driver writes it minus sixteen, so the tail read back is 32 bytes past the head, not at it.\<close>

theorem rx_too_big_tail: "TAILREG_TO_TAIL (TAILREG_TO_TAIL r) = r + 32 \<and> TAILREG_TO_TAIL (TAIL_TO_TAILREG r) = r"
proof -
  have *: "TAILREG_TO_TAIL x = x + 16" for x
    unfolding TAILREG_TO_TAIL_def by transfer (simp add: take_bit_eq_mod mod_simps)
  show ?thesis
    by (simp add: * TAIL_TO_TAILREG_def)
qed

end
