(* ===== verification/Phys_Mem.thy ===== *)
theory Phys_Mem
  imports Net_Prelude "HOL-Library.Monad_Syntax"
begin

text \<open>
  \<^verbatim>\<open>SkyCore/Memory/PhysicalMemoryManager.cpp\<close>: the bitmap of 4 KB blocks of physical memory, in the kernel build
  (not \<^verbatim>\<open>SKY_EMULATOR\<close>).  A set bit is a block in use.  An access to the bitmap outside its words is \<open>None\<close>: in C
  it is a read or write of whatever lies behind.  There are at most \<open>2 ^ 20\<close> blocks, so the loop counters are
  naturals.
\<close>

section \<open>State\<close>

record memory_layout =
  kernelBase :: u32
  kernelDataBase :: u32
  kernelDataTop :: u32
  bootStackBase :: u32
  bootStackTop :: u32
  bootPhysicalStackTop :: u32
  kHeapBase :: u32
  kHeapTop :: u32
  kernelIOAreaBase :: u32
  kernelIOAreaTop :: u32
  kernelTop :: u32

record pmm =
  m_usedBlocks :: u32
  m_maxBlocks :: u32
  m_pMemoryMap :: u32
  mem_map :: "u32 list"

abbreviation (input) PMM_BLOCK_SIZE :: u32 where "PMM_BLOCK_SIZE \<equiv> 4096"
abbreviation (input) NO_FRAME :: u32 where "NO_FRAME \<equiv> 0xffffffff"

definition m_memoryMapSize :: "pmm \<Rightarrow> nat" where "m_memoryMapSize s = length (mem_map s)"

definition KERNEL_HEAP_FRAME_COUNT :: u32 where "KERNEL_HEAP_FRAME_COUNT = 12800"

definition BuildKernelMemoryLayout :: "u32 \<Rightarrow> u32 \<Rightarrow> memory_layout \<Rightarrow> memory_layout" where
  "BuildKernelMemoryLayout mmap map_size l =
     l\<lparr>kernelDataBase := mmap, kernelDataTop := mmap + map_size, bootStackBase := 0xc0100000, bootStackTop := 0xc0103fff,
       kHeapBase := 0xc0104000, kHeapTop := 0xc0104000 + KERNEL_HEAP_FRAME_COUNT * 4096,
       kernelIOAreaBase := 0xe4000000, kernelIOAreaTop := 0xe7ffffff, kernelTop := 0xffffffff\<rparr>"

section \<open>Bits\<close>

definition SetBit :: "nat \<Rightarrow> pmm \<Rightarrow> pmm option" where
  "SetBit b s =
     (if b div 32 < length (mem_map s)
      then Some (s\<lparr>mem_map := (mem_map s)[b div 32 := mem_map s ! (b div 32) OR push_bit (b mod 32) 1]\<rparr>) else None)"

definition UnsetBit :: "nat \<Rightarrow> pmm \<Rightarrow> pmm option" where
  "UnsetBit b s =
     (if b div 32 < length (mem_map s)
      then Some (s\<lparr>mem_map := (mem_map s)[b div 32 := mem_map s ! (b div 32) AND NOT (push_bit (b mod 32) 1)]\<rparr>) else None)"

definition TestMemoryMap :: "nat \<Rightarrow> pmm \<Rightarrow> bool" where
  "TestMemoryMap b s \<longleftrightarrow> mem_map s ! (b div 32) AND push_bit (b mod 32) 1 > 0"

fun SetBits :: "nat \<Rightarrow> nat \<Rightarrow> pmm \<Rightarrow> pmm option" where
  "SetBits b 0 s = Some s"
| "SetBits b (Suc n) s = do { s1 \<leftarrow> SetBit b s; SetBits (Suc b) n s1 }"

fun UnsetBits :: "nat \<Rightarrow> nat \<Rightarrow> pmm \<Rightarrow> pmm option" where
  "UnsetBits b 0 s = Some s"
| "UnsetBits b (Suc n) s = do { s1 \<leftarrow> UnsetBit b s; UnsetBits (Suc b) n s1 }"

section \<open>The search for free frames\<close>

text \<open>The two nested loops: the words that are not all ones, and the clear bits of each.  Only whole words are
  looked at.\<close>

definition clear_bits :: "pmm \<Rightarrow> (nat \<times> nat) list" where
  "clear_bits s =
     [(i, j). i \<leftarrow> [0..<unat (m_maxBlocks s) div 32], mem_map s ! i \<noteq> 0xffffffff, j \<leftarrow> [0..<32],
              mem_map s ! i AND push_bit j 1 = 0]"

definition GetFreeFrame :: "pmm \<Rightarrow> u32" where
  "GetFreeFrame s = (case clear_bits s of [] \<Rightarrow> NO_FRAME | (i, j) # r \<Rightarrow> of_nat (i * 32 + j))"

text \<open>The loop over \<open>count\<close>: \<open>Some\<close> returns from the function, \<open>None\<close> goes on to the next clear bit.\<close>

function count_free :: "pmm \<Rightarrow> nat \<Rightarrow> nat \<Rightarrow> nat \<Rightarrow> nat \<Rightarrow> u32 option" where
  "count_free s startingBit nblocks cnt free =
     (if cnt < nblocks then
        if startingBit + cnt \<ge> unat (m_maxBlocks s) then Some NO_FRAME
        else if TestMemoryMap (startingBit + cnt) s then None
        else if Suc free = nblocks then Some (of_nat startingBit)
        else count_free s startingBit nblocks (Suc cnt) (Suc free)
      else None)"
  by auto
termination by (relation "measure (\<lambda>(s, b, nblocks, cnt, free). nblocks - cnt)") auto

declare count_free.simps [simp del]

fun search_frames :: "pmm \<Rightarrow> nat \<Rightarrow> (nat \<times> nat) list \<Rightarrow> u32" where
  "search_frames s nblocks [] = NO_FRAME"
| "search_frames s nblocks ((i, j) # r) =
     (case count_free s (i * 32 + j) nblocks 0 0 of Some frame \<Rightarrow> frame | None \<Rightarrow> search_frames s nblocks r)"

definition GetFreeFrames :: "nat \<Rightarrow> pmm \<Rightarrow> u32" where
  "GetFreeFrames nblocks s =
     (if nblocks = 0 then NO_FRAME else if nblocks = 1 then GetFreeFrame s else search_frames s nblocks (clear_bits s))"

section \<open>Allocation\<close>

text \<open>The address 0 is \<open>NULL\<close>.\<close>

definition AllocBlock :: "pmm \<Rightarrow> (u32 \<times> pmm) option" where
  "AllocBlock s =
     (if m_maxBlocks s - m_usedBlocks s \<le> 0 then Some (0, s)
      else
        let frame = GetFreeFrame s
        in if frame = -1 then Some (0, s)
           else do {
             s1 \<leftarrow> SetBit (unat frame) s;
             Some (frame * PMM_BLOCK_SIZE, s1\<lparr>m_usedBlocks := m_usedBlocks s1 + 1\<rparr>)
           })"

definition FreeBlock :: "u32 \<Rightarrow> pmm \<Rightarrow> pmm option" where
  "FreeBlock addr s =
     do {
       s1 \<leftarrow> UnsetBit (unat (addr div PMM_BLOCK_SIZE)) s;
       Some (s1\<lparr>m_usedBlocks := m_usedBlocks s1 - 1\<rparr>)
     }"

definition AllocBlocks :: "u32 \<Rightarrow> pmm \<Rightarrow> (u32 \<times> pmm) option" where
  "AllocBlocks nblocks s =
     (if m_maxBlocks s - m_usedBlocks s \<le> nblocks then Some (0, s)
      else
        let frame = GetFreeFrames (unat nblocks) s
        in if frame = -1 then Some (0, s)
           else do {
             s1 \<leftarrow> SetBits (unat frame) (unat nblocks) s;
             Some (frame * PMM_BLOCK_SIZE, s1\<lparr>m_usedBlocks := m_usedBlocks s1 + nblocks\<rparr>)
           })"

definition FreeBlocks :: "u32 \<Rightarrow> u32 \<Rightarrow> pmm \<Rightarrow> pmm option" where
  "FreeBlocks addr nblocks s =
     do {
       s1 \<leftarrow> UnsetBits (unat (addr div PMM_BLOCK_SIZE)) (unat nblocks) s;
       Some (s1\<lparr>m_usedBlocks := m_usedBlocks s1 - nblocks\<rparr>)
     }"

definition GetUsedBlockCount :: "pmm \<Rightarrow> u32" where "GetUsedBlockCount s = m_usedBlocks s"

definition GetFreeMemorySize :: "pmm \<Rightarrow> u32" where
  "GetFreeMemorySize s = (m_maxBlocks s - m_usedBlocks s) * PMM_BLOCK_SIZE"

section \<open>Start-up\<close>

fun set_available :: "bool \<Rightarrow> nat \<Rightarrow> nat \<Rightarrow> pmm \<Rightarrow> pmm option" where
  "set_available unset i 0 s = Some s"
| "set_available unset i (Suc n) s =
     do {
       s1 \<leftarrow> (if unset then map_option (\<lambda>s. s\<lparr>m_usedBlocks := m_usedBlocks s - 1\<rparr>) (UnsetBit i s)
              else map_option (\<lambda>s. s\<lparr>m_usedBlocks := m_usedBlocks s + 1\<rparr>) (SetBit i s));
       set_available unset (Suc i) n s1
     }"

definition SetMemoryAvailable :: "u32 \<Rightarrow> u32 \<Rightarrow> bool \<Rightarrow> pmm \<Rightarrow> pmm option" where
  "SetMemoryAvailable base len unset s =
     (let startBlock = unat (base div PMM_BLOCK_SIZE); endBlock = unat ((base + len) div PMM_BLOCK_SIZE)
      in set_available unset startBlock (endBlock - startBlock) s)"

text \<open>\<open>memorySize\<close> and \<open>kernelSize\<close> are the boot parameters.  The layout is built before the last, partial word
  of the bitmap is counted.\<close>

definition pmm_Initialize :: "u32 \<Rightarrow> u32 \<Rightarrow> memory_layout \<Rightarrow> (memory_layout \<times> pmm) option" where
  "pmm_Initialize memorySize kernelSize layout =
     (let maxBlocks = memorySize div PMM_BLOCK_SIZE;
          mmap = kernelBase layout + kernelSize;
          words = maxBlocks div 32;
          layout' = BuildKernelMemoryLayout mmap words layout;
          words' = (if maxBlocks mod 32 \<noteq> 0 then words + 1 else words);
          s = \<lparr>m_usedBlocks = maxBlocks, m_maxBlocks = maxBlocks, m_pMemoryMap = mmap,
               mem_map = replicate (unat words') 0xffffffff\<rparr>;
          availablePoint = mmap + words' * 4
      in map_option (Pair layout') (SetMemoryAvailable availablePoint (memorySize - availablePoint) True s))"

end
