(* ===== verification/Phys_Props.thy ===== *)
theory Phys_Props
  imports Phys_Mem
begin

text \<open>
  The bitmap of \<open>Phys_Mem\<close> as a set of free blocks: what each operation does to the set, the agreement of the counter
  with it, and the extents handed out.
\<close>

section \<open>The set of free blocks\<close>

definition in_use :: "pmm \<Rightarrow> nat \<Rightarrow> bool" where
  "in_use s b \<longleftrightarrow> bit (mem_map s ! (b div 32)) (b mod 32)"

definition free_set :: "pmm \<Rightarrow> nat set" where
  "free_set s = {b. b < 32 * length (mem_map s) \<and> \<not> in_use s b}"

text \<open>The bitmap covers the blocks, the bits behind the last block are set, and the counter counts.\<close>

definition pmm_ok :: "pmm \<Rightarrow> bool" where
  "pmm_ok s \<longleftrightarrow> unat (m_maxBlocks s) \<le> 2 ^ 20 \<and> unat (m_maxBlocks s) \<le> 32 * length (mem_map s) \<and>
     free_set s \<subseteq> {..<unat (m_maxBlocks s)} \<and> unat (m_usedBlocks s) + card (free_set s) = unat (m_maxBlocks s)"

lemma finite_free [simp]: "finite (free_set s)"
  by (rule finite_subset [of _ "{..<32 * length (mem_map s)}"]) (auto simp: free_set_def)

lemma same_bit: "b div 32 = c div 32 \<Longrightarrow> b mod 32 = c mod 32 \<Longrightarrow> b = (c :: nat)"
  by (metis div_mult_mod_eq)

lemma free_set_cong: "mem_map s = mem_map s' \<Longrightarrow> free_set s = free_set s'"
  by (simp add: free_set_def in_use_def)

lemma free_set_simps [simp]: "free_set (s\<lparr>m_usedBlocks := n\<rparr>) = free_set s" "in_use (s\<lparr>m_usedBlocks := n\<rparr>) = in_use s"
  by (simp_all add: free_set_def in_use_def fun_eq_iff)

lemma div_less_length: "b < 32 * n \<longleftrightarrow> b div 32 < (n :: nat)"
  by (simp add: div_less_iff_less_mult mult.commute)

lemma SetBit_spec:
  assumes "b < 32 * length (mem_map s)"
  shows "\<exists>s'. SetBit b s = Some s' \<and> free_set s' = free_set s - {b} \<and> length (mem_map s') = length (mem_map s) \<and>
    m_usedBlocks s' = m_usedBlocks s \<and> m_maxBlocks s' = m_maxBlocks s \<and> m_pMemoryMap s' = m_pMemoryMap s"
proof -
  have b: "b div 32 < length (mem_map s)"
    using assms by (simp add: div_less_length)
  have "bit ((mem_map s)[b div 32 := mem_map s ! (b div 32) OR push_bit (b mod 32) 1] ! (x div 32)) (x mod 32) \<longleftrightarrow>
      x = b \<or> bit (mem_map s ! (x div 32)) (x mod 32)" for x
    using b same_bit [of x b] by (cases "x div 32 = b div 32") (auto simp: bit_simps)
  then show ?thesis
    using b by (auto simp: SetBit_def free_set_def in_use_def)
qed

lemma UnsetBit_spec:
  assumes "b < 32 * length (mem_map s)"
  shows "\<exists>s'. UnsetBit b s = Some s' \<and> free_set s' = insert b (free_set s) \<and> length (mem_map s') = length (mem_map s) \<and>
    m_usedBlocks s' = m_usedBlocks s \<and> m_maxBlocks s' = m_maxBlocks s \<and> m_pMemoryMap s' = m_pMemoryMap s"
proof -
  have b: "b div 32 < length (mem_map s)"
    using assms by (simp add: div_less_length)
  have "bit ((mem_map s)[b div 32 := mem_map s ! (b div 32) AND NOT (push_bit (b mod 32) 1)] ! (x div 32)) (x mod 32) \<longleftrightarrow>
      x \<noteq> b \<and> bit (mem_map s ! (x div 32)) (x mod 32)" for x
    using b same_bit [of x b] by (cases "x div 32 = b div 32") (auto simp: bit_simps)
  then show ?thesis
    using b assms by (auto simp: UnsetBit_def free_set_def in_use_def)
qed

lemma SetBits_spec:
  "b + n \<le> 32 * length (mem_map s) \<Longrightarrow>
    \<exists>s'. SetBits b n s = Some s' \<and> free_set s' = free_set s - {b..<b + n} \<and> length (mem_map s') = length (mem_map s) \<and>
      m_usedBlocks s' = m_usedBlocks s \<and> m_maxBlocks s' = m_maxBlocks s \<and> m_pMemoryMap s' = m_pMemoryMap s"
proof (induction n arbitrary: b s)
  case (Suc n)
  obtain s1 where s1: "SetBit b s = Some s1" "free_set s1 = free_set s - {b}" "length (mem_map s1) = length (mem_map s)"
      "m_usedBlocks s1 = m_usedBlocks s" "m_maxBlocks s1 = m_maxBlocks s" "m_pMemoryMap s1 = m_pMemoryMap s"
    using SetBit_spec [of b s] Suc.prems by auto
  obtain s' where s': "SetBits (Suc b) n s1 = Some s'" "free_set s' = free_set s1 - {Suc b..<Suc b + n}"
      "length (mem_map s') = length (mem_map s1)" "m_usedBlocks s' = m_usedBlocks s1" "m_maxBlocks s' = m_maxBlocks s1"
      "m_pMemoryMap s' = m_pMemoryMap s1"
    using Suc.IH [of "Suc b" s1] Suc.prems s1(3) by auto
  moreover have "free_set s1 - {Suc b..<Suc b + n} = free_set s - {b..<b + Suc n}"
    unfolding s1(2) by auto
  ultimately show ?case
    using s1 by simp
qed simp

lemma UnsetBits_spec:
  "b + n \<le> 32 * length (mem_map s) \<Longrightarrow>
    \<exists>s'. UnsetBits b n s = Some s' \<and> free_set s' = free_set s \<union> {b..<b + n} \<and> length (mem_map s') = length (mem_map s) \<and>
      m_usedBlocks s' = m_usedBlocks s \<and> m_maxBlocks s' = m_maxBlocks s \<and> m_pMemoryMap s' = m_pMemoryMap s"
proof (induction n arbitrary: b s)
  case (Suc n)
  obtain s1 where s1: "UnsetBit b s = Some s1" "free_set s1 = insert b (free_set s)" "length (mem_map s1) = length (mem_map s)"
      "m_usedBlocks s1 = m_usedBlocks s" "m_maxBlocks s1 = m_maxBlocks s" "m_pMemoryMap s1 = m_pMemoryMap s"
    using UnsetBit_spec [of b s] Suc.prems by auto
  obtain s' where s': "UnsetBits (Suc b) n s1 = Some s'" "free_set s' = free_set s1 \<union> {Suc b..<Suc b + n}"
      "length (mem_map s') = length (mem_map s1)" "m_usedBlocks s' = m_usedBlocks s1" "m_maxBlocks s' = m_maxBlocks s1"
      "m_pMemoryMap s' = m_pMemoryMap s1"
    using Suc.IH [of "Suc b" s1] Suc.prems s1(3) by auto
  moreover have "free_set s1 \<union> {Suc b..<Suc b + n} = free_set s \<union> {b..<b + Suc n}"
    unfolding s1(2) by auto
  ultimately show ?case
    using s1 by simp
qed simp

lemma and_bit_0: "w AND push_bit k 1 = 0 \<longleftrightarrow> \<not> bit (w :: u32) k"
  by (simp add: push_bit_of_1 and_exp_eq_0_iff_not_bit)

lemma in_use_test: "TestMemoryMap b s \<longleftrightarrow> in_use s b"
  unfolding TestMemoryMap_def in_use_def word_neq_0_conv [symmetric] and_bit_0 by simp

section \<open>The searches\<close>

text \<open>The nested loops visit the clear bits of the whole words in ascending order.\<close>

definition whole_blocks :: "pmm \<Rightarrow> nat" where
  "whole_blocks s = unat (m_maxBlocks s) div 32 * 32"

lemma clear_word: "[j. j \<leftarrow> [0..<32], w AND push_bit j 1 = 0] = filter (\<lambda>j. \<not> bit (w :: u32) j) [0..<32]"
proof -
  have "[j. j \<leftarrow> xs, P j] = filter P xs" for P :: "nat \<Rightarrow> bool" and xs
    by (induction xs) auto
  then show ?thesis
    by (simp only: and_bit_0)
qed

lemma full_word: "(\<forall>j < 32. bit (w :: u32) j) \<longleftrightarrow> w = 0xffffffff"
proof
  assume "\<forall>j < 32. bit w j"
  then have "w = mask 32"
    by (intro bit_word_eqI) (simp add: bit_simps)
  then show "w = 0xffffffff"
    by (simp add: mask_eq_exp_minus_1)
next
  assume "w = 0xffffffff"
  then have "w = mask 32"
    by (simp add: mask_eq_exp_minus_1)
  then show "\<forall>j < 32. bit w j"
    by (simp add: bit_simps)
qed

definition frame_of :: "nat \<times> nat \<Rightarrow> nat" where "frame_of p = fst p * 32 + snd p"

lemma clear_bits_upto:
  "map frame_of [(i, j). i \<leftarrow> [0..<n], m ! i \<noteq> (0xffffffff :: u32), j \<leftarrow> [0..<32], m ! i AND push_bit j 1 = 0] =
   filter (\<lambda>b. \<not> bit (m ! (b div 32)) (b mod 32)) [0..<n * 32]"
proof (induction n)
  case (Suc n)
  let ?row = "\<lambda>i. if m ! i \<noteq> 0xffffffff then [(i, j). j \<leftarrow> [0..<32], m ! i AND push_bit j 1 = 0] else []"
  have row: "?row i = map (Pair i) (filter (\<lambda>j. \<not> bit (m ! i) j) [0..<32])" for i
  proof -
    have "[(i, j). j \<leftarrow> [0..<32], m ! i AND push_bit j 1 = 0] = map (Pair i) [j. j \<leftarrow> [0..<32], m ! i AND push_bit j 1 = 0]"
      unfolding map_concat map_map by (intro arg_cong [where f = concat] map_cong) auto
    moreover have "m ! i = 0xffffffff \<Longrightarrow> filter (\<lambda>j. \<not> bit (m ! i) j) [0..<32] = []"
      using full_word [of "m ! i"] by (simp add: filter_empty_conv)
    ultimately show ?thesis
      unfolding clear_word by auto
  qed
  have "[0..<Suc n * 32] = [0..<n * 32] @ map (\<lambda>j. n * 32 + j) [0..<32]"
    using upt_add_eq_append [of 0 "n * 32" 32] map_add_upt [of "n * 32" 32] by (simp add: add.commute)
  moreover have "filter (\<lambda>b. \<not> bit (m ! (b div 32)) (b mod 32)) (map (\<lambda>j. n * 32 + j) [0..<32]) = map frame_of (?row n)"
  proof -
    have "filter (\<lambda>b. \<not> bit (m ! (b div 32)) (b mod 32)) (map (\<lambda>j. n * 32 + j) [0..<32]) =
        map (\<lambda>j. n * 32 + j) (filter (\<lambda>j. \<not> bit (m ! n) j) [0..<32])"
      unfolding filter_map by (intro arg_cong [where f = "map _"] filter_cong) auto
    then show ?thesis
      unfolding row by (simp add: frame_of_def o_def)
  qed
  ultimately show ?case
    using Suc.IH by simp
qed simp

lemma clear_bits_frames: "map frame_of (clear_bits s) = filter (\<lambda>b. \<not> in_use s b) [0..<whole_blocks s]"
  unfolding clear_bits_def whole_blocks_def in_use_def by (rule clear_bits_upto)

lemma GetFreeFrame_eq:
  "GetFreeFrame s = (case filter (\<lambda>b. \<not> in_use s b) [0..<whole_blocks s] of [] \<Rightarrow> NO_FRAME | b # r \<Rightarrow> of_nat b)"
  unfolding clear_bits_frames [symmetric] GetFreeFrame_def
  by (cases "clear_bits s") (auto simp: frame_of_def)

text \<open>\<open>n\<close> free blocks in a row from \<open>b\<close>, all of them in memory.\<close>

definition free_run :: "pmm \<Rightarrow> nat \<Rightarrow> nat \<Rightarrow> bool" where
  "free_run s n b \<longleftrightarrow> b + n \<le> unat (m_maxBlocks s) \<and> (\<forall>x \<in> {b..<b + n}. \<not> in_use s x)"

definition first_frame :: "nat list \<Rightarrow> u32" where
  "first_frame bs = (case bs of [] \<Rightarrow> NO_FRAME | b # r \<Rightarrow> of_nat b)"

lemma count_free_spec:
  assumes "c < n" "\<forall>x \<in> {b..<b + c}. \<not> in_use s x" "b + c \<le> unat (m_maxBlocks s)"
  shows "count_free s b n c c =
    (if free_run s n b then Some (of_nat b)
     else if \<forall>x \<in> {b..<unat (m_maxBlocks s)}. \<not> in_use s x then Some NO_FRAME
     else if \<exists>x \<in> {b..<b + n}. x < unat (m_maxBlocks s) \<and> in_use s x then None else Some NO_FRAME)"
  using assms
proof (induction "n - c" arbitrary: c)
  case 0
  then show ?case by simp
next
  case (Suc k)
  consider (beyond) "b + c = unat (m_maxBlocks s)" | (used) "b + c < unat (m_maxBlocks s)" "in_use s (b + c)"
    | (free) "b + c < unat (m_maxBlocks s)" "\<not> in_use s (b + c)"
    using Suc.prems(3) by fastforce
  then show ?case
  proof cases
    case beyond
    then have "\<not> free_run s n b" "\<forall>x \<in> {b..<unat (m_maxBlocks s)}. \<not> in_use s x"
      using Suc.prems by (auto simp: free_run_def)
    then show ?thesis
      using beyond Suc.prems(1) by (subst count_free.simps) simp
  next
    case used
    then have "b + c \<in> {b..<b + n}" "b + c \<in> {b..<unat (m_maxBlocks s)}"
      using Suc.prems(1) by auto
    then have "\<not> free_run s n b" "\<not> (\<forall>x \<in> {b..<unat (m_maxBlocks s)}. \<not> in_use s x)"
        "\<exists>x \<in> {b..<b + n}. x < unat (m_maxBlocks s) \<and> in_use s x"
      using used unfolding free_run_def by blast+
    then show ?thesis
      using used Suc.prems(1) by (subst count_free.simps) (simp add: in_use_test)
  next
    case free
    have b: "\<forall>x \<in> {b..<b + Suc c}. \<not> in_use s x"
      using Suc.prems(2) free(2) by (auto simp: less_Suc_eq)
    show ?thesis
    proof (cases "Suc c = n")
      case True
      then have "free_run s n b"
        using b free by (auto simp: free_run_def)
      then show ?thesis
        using free Suc.prems(1) True by (subst count_free.simps) (simp add: in_use_test)
    next
      case False
      have "count_free s b n c c = count_free s b n (Suc c) (Suc c)"
        using free Suc.prems(1) False by (subst count_free.simps) (simp add: in_use_test)
      then show ?thesis
        using Suc.hyps(1) [of "Suc c"] Suc.hyps(2) Suc.prems(1) False b free by simp
    qed
  qed
qed

lemma search_frames_spec:
  assumes "0 < n" "sorted (map frame_of L)" "\<forall>p \<in> set L. frame_of p \<le> unat (m_maxBlocks s)"
  shows "search_frames s n L = first_frame (filter (free_run s n) (map frame_of L))"
  using assms(2,3)
proof (induction L)
  case Nil
  then show ?case by (simp add: first_frame_def)
next
  case (Cons p L)
  obtain i j where p: "p = (i, j)" by (cases p)
  let ?b = "frame_of p"
  have c: "count_free s ?b n 0 0 = (if free_run s n ?b then Some (of_nat ?b)
     else if \<forall>x \<in> {?b..<unat (m_maxBlocks s)}. \<not> in_use s x then Some NO_FRAME
     else if \<exists>x \<in> {?b..<?b + n}. x < unat (m_maxBlocks s) \<and> in_use s x then None else Some NO_FRAME)"
    using count_free_spec [of 0 n ?b s] assms(1) Cons.prems(2) by simp
  have step: "search_frames s n (p # L) = (case count_free s ?b n 0 0 of Some frame \<Rightarrow> frame | None \<Rightarrow> search_frames s n L)"
    by (simp add: p frame_of_def)
  have later: "\<not> free_run s n b" if "b \<in> set (map frame_of L)" "unat (m_maxBlocks s) < ?b + n" for b
    using that Cons.prems(1) by (auto simp: free_run_def)
  consider (run) "free_run s n ?b" | (short) "\<not> free_run s n ?b" "unat (m_maxBlocks s) < ?b + n" "count_free s ?b n 0 0 = Some NO_FRAME"
    | (goes_on) "\<not> free_run s n ?b" "count_free s ?b n 0 0 = None"
    using c by (auto simp: free_run_def not_le split: if_splits)
  then show ?case
  proof cases
    case run
    then show ?thesis
      unfolding step c by (simp add: first_frame_def)
  next
    case short
    then have "filter (free_run s n) (map frame_of (p # L)) = []"
      using later by (auto simp: filter_empty_conv)
    then show ?thesis
      unfolding step short(3) by (simp add: first_frame_def)
  next
    case goes_on
    then show ?thesis
      unfolding step using Cons by simp
  qed
qed

lemma GetFreeFrames_eq:
  assumes "0 < n"
  shows "GetFreeFrames n s = first_frame (filter (free_run s n) [0..<whole_blocks s])"
proof -
  let ?F = "filter (\<lambda>b. \<not> in_use s b) [0..<whole_blocks s]"
  have w: "whole_blocks s \<le> unat (m_maxBlocks s)"
    by (simp add: whole_blocks_def)
  have eq: "filter (free_run s n) ?F = filter (free_run s n) [0..<whole_blocks s]"
    using assms by (auto simp: free_run_def intro!: filter_cong)
  show ?thesis
  proof (cases "n = 1")
    case True
    have "filter (free_run s 1) [0..<whole_blocks s] = ?F"
      using w by (intro filter_cong) (auto simp: free_run_def)
    then show ?thesis
      using True by (simp add: GetFreeFrames_def GetFreeFrame_eq first_frame_def)
  next
    case False
    have "\<forall>p \<in> set (clear_bits s). frame_of p \<in> set ?F"
      unfolding clear_bits_frames [symmetric] by simp
    then have "search_frames s n (clear_bits s) = first_frame (filter (free_run s n) (map frame_of (clear_bits s)))"
      using w by (intro search_frames_spec assms) (auto simp: clear_bits_frames sorted_wrt_filter)
    then show ?thesis
      using False assms eq by (simp add: GetFreeFrames_def clear_bits_frames)
  qed
qed

section \<open>Allocating and freeing\<close>

lemma upt_split: "b < m \<Longrightarrow> [0..<m] = [0..<b] @ b # [Suc b..<m]"
  by (metis le0 le_add_diff_inverse less_imp_le upt_add_eq_append upt_conv_Cons)

lemma first_frame_least:
  "first_frame (filter P [0..<m]) = (if \<exists>b < m. P b then of_nat (LEAST b. P b) else NO_FRAME)"
proof (cases "\<exists>b < m. P b")
  case True
  then obtain c where c: "c < m" "P c" by blast
  obtain b where eq: "b = (LEAST b. P b)" by blast
  have b: "P b" "b \<le> c" "\<And>x. x < b \<Longrightarrow> \<not> P x"
    unfolding eq by (rule LeastI [of P, OF c(2)], rule Least_le [of P, OF c(2)], rule not_less_Least [of _ P])
  have m: "b < m"
    using b(2) c(1) by simp
  have "filter P [0..<b] = []"
    using b(3) by (auto simp: filter_empty_conv)
  then have "filter P [0..<m] = b # filter P [Suc b..<m]"
    unfolding upt_split [OF m] filter_append using b(1) by simp
  then show ?thesis
    using True unfolding eq [symmetric] first_frame_def by simp
next
  case False
  then have "filter P [0..<m] = []"
    by (auto simp: filter_empty_conv)
  then show ?thesis
    unfolding if_not_P [OF False] by (simp add: first_frame_def)
qed

lemma unat_frame: "b < 2 ^ 20 \<Longrightarrow> unat (of_nat b :: u32) = b"
  by (simp add: unat_of_nat)

lemma unat_frame_addr: "b < 2 ^ 20 \<Longrightarrow> unat (of_nat b * PMM_BLOCK_SIZE :: u32) = b * 4096"
  by (simp add: unat_word_ariths unat_frame)

lemma addr_frame: "b < 2 ^ 20 \<Longrightarrow> unat ((of_nat b * PMM_BLOCK_SIZE :: u32) div PMM_BLOCK_SIZE) = b"
  by (simp add: unat_div unat_frame_addr)

lemma not_NO_FRAME: "b < 2 ^ 20 \<Longrightarrow> (of_nat b :: u32) \<noteq> -1"
proof
  assume "b < 2 ^ 20" "(of_nat b :: u32) = -1"
  moreover have "(-1 :: u32) = 0xffffffff"
    by simp
  ultimately have "unat (0xffffffff :: u32) < 2 ^ 20"
    using unat_frame by metis
  then show False
    by simp
qed

lemma pmm_free_count: "pmm_ok s \<Longrightarrow> unat (m_maxBlocks s - m_usedBlocks s) = card (free_set s)"
  by (auto simp: pmm_ok_def unat_sub_if' word_le_nat_alt)

lemma free_run_set:
  assumes "pmm_ok s" "free_run s n b"
  shows "{b..<b + n} \<subseteq> free_set s" "b + n \<le> 2 ^ 20" "b + n \<le> 32 * length (mem_map s)"
  using assms by (auto simp: free_run_def free_set_def pmm_ok_def)

lemma pmm_ok_take:
  assumes ok: "pmm_ok s" and X: "X \<subseteq> free_set s" "card X = unat n"
    and s': "free_set s' = free_set s - X" "length (mem_map s') = length (mem_map s)" "m_maxBlocks s' = m_maxBlocks s"
      "m_usedBlocks s' = m_usedBlocks s + n"
  shows "pmm_ok s'"
proof -
  have le: "unat n \<le> card (free_set s)"
    using X by (metis card_mono finite_free)
  have c: "card (free_set s') = card (free_set s) - unat n"
    unfolding s'(1) using X by (metis card_Diff_subset finite_free finite_subset)
  have "unat (m_usedBlocks s + n) = unat (m_usedBlocks s) + unat n"
    using ok le unsigned_less [of "m_maxBlocks s", where 'a = nat] by (auto simp: pmm_ok_def unat_word_ariths)
  then show ?thesis
    using ok le c s' by (auto simp: pmm_ok_def)
qed

lemma pmm_ok_give:
  assumes ok: "pmm_ok s" and X: "X \<subseteq> {..<unat (m_maxBlocks s)}" "X \<inter> free_set s = {}" "card X = unat n"
    and s': "free_set s' = free_set s \<union> X" "length (mem_map s') = length (mem_map s)" "m_maxBlocks s' = m_maxBlocks s"
      "m_usedBlocks s' = m_usedBlocks s - n"
  shows "pmm_ok s'"
proof -
  have fin: "finite X"
    using X(1) finite_subset by blast
  have c: "card (free_set s') = card (free_set s) + unat n"
    unfolding s'(1) using X fin by (metis Int_commute card_Un_disjoint finite_free)
  have "free_set s \<union> X \<subseteq> {..<unat (m_maxBlocks s)}"
    using ok X by (auto simp: pmm_ok_def)
  then have "card (free_set s) + unat n \<le> unat (m_maxBlocks s)"
    using c s'(1) by (metis card_lessThan card_mono finite_lessThan)
  then have "unat n \<le> unat (m_usedBlocks s)"
    using ok by (auto simp: pmm_ok_def)
  then have "unat (m_usedBlocks s - n) = unat (m_usedBlocks s) - unat n"
    by (simp add: unat_sub_if' word_le_nat_alt)
  then show ?thesis
    using ok c s' X \<open>unat n \<le> unat (m_usedBlocks s)\<close> by (auto simp: pmm_ok_def)
qed

lemma AllocBlocks_spec:
  assumes ok: "pmm_ok s" and n: "0 < unat n"
  shows "if (\<exists>b < whole_blocks s. free_run s (unat n) b) \<and> unat n < card (free_set s)
    then \<exists>s'. AllocBlocks n s = Some (of_nat (LEAST b. free_run s (unat n) b) * PMM_BLOCK_SIZE, s') \<and> pmm_ok s' \<and>
      free_run s (unat n) (LEAST b. free_run s (unat n) b) \<and>
      free_set s' = free_set s - {(LEAST b. free_run s (unat n) b)..<(LEAST b. free_run s (unat n) b) + unat n} \<and>
      m_usedBlocks s' = m_usedBlocks s + n \<and> m_maxBlocks s' = m_maxBlocks s
    else AllocBlocks n s = Some (0, s)"
proof -
  let ?b = "LEAST b. free_run s (unat n) b"
  have F: "GetFreeFrames (unat n) s = (if \<exists>b < whole_blocks s. free_run s (unat n) b then of_nat ?b else NO_FRAME)"
    unfolding GetFreeFrames_eq [OF n] by (rule first_frame_least)
  show ?thesis
  proof (cases "(\<exists>b < whole_blocks s. free_run s (unat n) b) \<and> unat n < card (free_set s)")
    case True
    then have run: "free_run s (unat n) ?b"
      by (auto intro: LeastI)
    note r = free_run_set [OF ok run]
    have b: "?b < 2 ^ 20"
      using r(2) n by simp
    obtain s1 where s1: "SetBits ?b (unat n) s = Some s1" "free_set s1 = free_set s - {?b..<?b + unat n}"
        "length (mem_map s1) = length (mem_map s)" "m_usedBlocks s1 = m_usedBlocks s" "m_maxBlocks s1 = m_maxBlocks s"
      using SetBits_spec [OF r(3)] by blast
    have "\<not> m_maxBlocks s - m_usedBlocks s \<le> n"
      using True pmm_free_count [OF ok] by (simp add: word_le_nat_alt)
    then have "AllocBlocks n s = Some (of_nat ?b * PMM_BLOCK_SIZE, s1\<lparr>m_usedBlocks := m_usedBlocks s + n\<rparr>)"
      using True s1 F not_NO_FRAME [OF b] unat_frame [OF b] by (simp add: AllocBlocks_def Let_def)
    moreover have "pmm_ok (s1\<lparr>m_usedBlocks := m_usedBlocks s + n\<rparr>)"
      by (rule pmm_ok_take [OF ok r(1), of n]) (use s1 in simp_all)
    ultimately show ?thesis
      using True run s1 by simp
  next
    case False
    then show ?thesis
      using F pmm_free_count [OF ok] by (auto simp: AllocBlocks_def word_le_nat_alt)
  qed
qed

text \<open>A single block is a run of one; here the last free block may be handed out too.\<close>

lemma AllocBlock_spec:
  assumes ok: "pmm_ok s"
  shows "if \<exists>b < whole_blocks s. free_run s 1 b
    then \<exists>s'. AllocBlock s = Some (of_nat (LEAST b. free_run s 1 b) * PMM_BLOCK_SIZE, s') \<and> pmm_ok s' \<and>
      free_run s 1 (LEAST b. free_run s 1 b) \<and>
      free_set s' = free_set s - {LEAST b. free_run s 1 b} \<and> m_usedBlocks s' = m_usedBlocks s + 1 \<and> m_maxBlocks s' = m_maxBlocks s
    else AllocBlock s = Some (0, s)"
proof -
  obtain b where b: "b = (LEAST b. free_run s 1 b)" by blast
  have "GetFreeFrame s = GetFreeFrames 1 s"
    by (simp add: GetFreeFrames_def)
  then have F: "GetFreeFrame s = (if \<exists>b < whole_blocks s. free_run s 1 b then of_nat b else NO_FRAME)"
    unfolding b by (simp only: GetFreeFrames_eq [of 1] zero_less_one first_frame_least)
  show ?thesis
  proof (cases "\<exists>b < whole_blocks s. free_run s 1 b")
    case True
    then have run: "free_run s 1 b"
      unfolding b by (auto intro: LeastI)
    note r = free_run_set [OF ok run]
    have b20: "b < 2 ^ 20"
      using r(2) by simp
    obtain s1 where s1: "SetBit b s = Some s1" "free_set s1 = free_set s - {b}"
        "length (mem_map s1) = length (mem_map s)" "m_usedBlocks s1 = m_usedBlocks s" "m_maxBlocks s1 = m_maxBlocks s"
      using SetBit_spec [of b s] r(3) by auto
    have "b \<in> free_set s"
      using r(1) by simp
    then have "0 < card (free_set s)"
      by (metis card_gt_0_iff empty_iff finite_free)
    then have "unat (m_maxBlocks s - m_usedBlocks s) \<noteq> 0"
      using pmm_free_count [OF ok] by linarith
    then have "\<not> m_maxBlocks s - m_usedBlocks s \<le> 0"
      by (auto simp: word_le_nat_alt)
    then have "AllocBlock s = Some (of_nat b * PMM_BLOCK_SIZE, s1\<lparr>m_usedBlocks := m_usedBlocks s + 1\<rparr>)"
      using True s1 F not_NO_FRAME [OF b20] unat_frame [OF b20] by (simp add: AllocBlock_def Let_def)
    moreover have "pmm_ok (s1\<lparr>m_usedBlocks := m_usedBlocks s + 1\<rparr>)"
      by (rule pmm_ok_take [OF ok, of "{b}" 1]) (use s1 \<open>b \<in> free_set s\<close> in simp_all)
    ultimately show ?thesis
      unfolding b [symmetric] if_P [OF True] using run s1 by simp
  next
    case False
    then show ?thesis
      unfolding if_not_P [OF False] using F [unfolded if_not_P [OF False]] by (simp add: AllocBlock_def)
  qed
qed

lemma FreeBlocks_spec:
  assumes ok: "pmm_ok s" and b: "b + unat n \<le> unat (m_maxBlocks s)" "{b..<b + unat n} \<inter> free_set s = {}" "b < 2 ^ 20"
  shows "\<exists>s'. FreeBlocks (of_nat b * PMM_BLOCK_SIZE) n s = Some s' \<and> pmm_ok s' \<and>
    free_set s' = free_set s \<union> {b..<b + unat n} \<and> m_maxBlocks s' = m_maxBlocks s \<and> m_usedBlocks s' = m_usedBlocks s - n"
proof -
  have "b + unat n \<le> 32 * length (mem_map s)"
    using ok b(1) by (simp add: pmm_ok_def)
  then obtain s1 where s1: "UnsetBits b (unat n) s = Some s1" "free_set s1 = free_set s \<union> {b..<b + unat n}"
      "length (mem_map s1) = length (mem_map s)" "m_usedBlocks s1 = m_usedBlocks s" "m_maxBlocks s1 = m_maxBlocks s"
    using UnsetBits_spec by blast
  have "pmm_ok (s1\<lparr>m_usedBlocks := m_usedBlocks s - n\<rparr>)"
    by (rule pmm_ok_give [OF ok _ b(2), of n]) (use b s1 in auto)
  then show ?thesis
    using s1 addr_frame [OF b(3)] by (simp add: FreeBlocks_def)
qed

lemma FreeBlock_FreeBlocks: "FreeBlock a s = FreeBlocks a 1 s"
proof -
  have "UnsetBits b 1 s = UnsetBit b s" for b
    using UnsetBits.simps(2) [of b 0 s] by (cases "UnsetBit b s") simp_all
  then show ?thesis
    by (simp add: FreeBlock_def FreeBlocks_def)
qed

section \<open>Start-up\<close>

lemma UnsetBit_count: "UnsetBit b (s\<lparr>m_usedBlocks := x\<rparr>) = map_option (\<lambda>s'. s'\<lparr>m_usedBlocks := x\<rparr>) (UnsetBit b s)"
  by (cases s) (simp add: UnsetBit_def)

lemma UnsetBits_count: "UnsetBits b n (s\<lparr>m_usedBlocks := x\<rparr>) = map_option (\<lambda>s'. s'\<lparr>m_usedBlocks := x\<rparr>) (UnsetBits b n s)"
proof (induction n arbitrary: b s)
  case (Suc n)
  then show ?case
    by (cases "UnsetBit b s") (simp_all add: UnsetBit_count)
qed simp

lemma UnsetBit_keeps: "UnsetBit b s = Some s' \<Longrightarrow> m_usedBlocks s' = m_usedBlocks s"
  by (auto simp: UnsetBit_def split: if_splits)

lemma set_available_True: "set_available True i n s =
  map_option (\<lambda>s'. s'\<lparr>m_usedBlocks := m_usedBlocks s - of_nat n\<rparr>) (UnsetBits i n s)"
proof (induction n arbitrary: i s)
  case (Suc n)
  then show ?case
    by (cases "UnsetBit i s")
      (auto simp: UnsetBits_count option.map_comp o_def diff_diff_eq UnsetBit_keeps add.commute intro!: option.map_cong)
qed (cases s, simp)

text \<open>The first block handed over at start-up, counted from the end of the bitmap.\<close>

definition first_available :: "u32 \<Rightarrow> u32 \<Rightarrow> memory_layout \<Rightarrow> nat" where
  "first_available memorySize kernelSize layout =
     unat (kernelBase layout) + unat kernelSize + 4 * ((unat memorySize div 4096 + 31) div 32)"

lemma words_up: "((m :: nat) + 31) div 32 = (if m mod 32 \<noteq> 0 then m div 32 + 1 else m div 32)"
proof -
  have "m + 31 = (m mod 32 + 31) + m div 32 * 32"
    by simp
  then have "(m + 31) div 32 = (m mod 32 + 31) div 32 + m div 32"
    by (metis div_mult_self3 zero_neq_numeral add.commute)
  moreover have "(m mod 32 + 31) div 32 = (if m mod 32 \<noteq> 0 then 1 else 0)"
    by (simp add: div_nat_eqI)
  ultimately show ?thesis
    by simp
qed

lemma pmm_Initialize_spec:
  assumes fits: "first_available memorySize kernelSize layout \<le> unat memorySize"
  shows "\<exists>l s. pmm_Initialize memorySize kernelSize layout = Some (l, s) \<and> pmm_ok s \<and>
    m_maxBlocks s = memorySize div 4096 \<and> unat (m_maxBlocks s) = unat memorySize div 4096 \<and>
    free_set s = {first_available memorySize kernelSize layout div 4096..<unat memorySize div 4096} \<and>
    m_pMemoryMap s = kernelBase layout + kernelSize"
proof -
  let ?m = "unat memorySize div 4096"
  let ?map = "kernelBase layout + kernelSize"
  let ?max = "memorySize div 4096"
  let ?words = "if ?max mod 32 \<noteq> 0 then ?max div 32 + 1 else ?max div 32"
  let ?w = "(?m + 31) div 32" and ?f = "first_available memorySize kernelSize layout"
  have m: "unat ?max = ?m" "?m < 2 ^ 20"
    using unsigned_less [of memorySize, where 'a = nat] by (simp_all add: unat_div)
  have w: "unat ?words = ?w"
  proof -
    have "unat (?max div 32) = ?m div 32" "unat (?max mod 32) = ?m mod 32"
      using m by (simp_all add: unat_div unat_mod)
    moreover have "?m div 32 + 1 < 2 ^ 32"
      using m(2) by simp
    ultimately show ?thesis
      unfolding words_up by (auto simp: unat_word_ariths unat_eq_0 [symmetric])
  qed
  let ?s = "\<lparr>m_usedBlocks = ?max, m_maxBlocks = ?max, m_pMemoryMap = ?map, mem_map = replicate ?w 0xffffffff\<rparr>"
  have f: "unat (?map + ?words * 4) = ?f"
    using fits unsigned_less [of memorySize, where 'a = nat] w
    by (simp add: first_available_def unat_word_ariths)
  have e: "?f div 4096 \<le> ?m" "?m \<le> 32 * ?w"
    using fits by (simp_all add: div_le_mono)
  have full: "free_set ?s = {}"
    using full_word [of "0xffffffff"] by (auto simp: free_set_def in_use_def div_less_length)
  let ?n = "?m - ?f div 4096"
  obtain s1 where s1: "UnsetBits (?f div 4096) ?n ?s = Some s1" "free_set s1 = {?f div 4096..<?m}"
      "length (mem_map s1) = ?w" "m_maxBlocks s1 = ?max" "m_pMemoryMap s1 = ?map"
    using UnsetBits_spec [of "?f div 4096" ?n ?s] e full by auto
  have "unat ((?map + ?words * 4) div PMM_BLOCK_SIZE) = ?f div 4096"
    using f by (simp add: unat_div)
  then have run: "pmm_Initialize memorySize kernelSize layout =
      Some (BuildKernelMemoryLayout ?map (?max div 32) layout, s1\<lparr>m_usedBlocks := ?max - of_nat ?n\<rparr>)"
    using s1(1) m w by (simp add: pmm_Initialize_def Let_def SetMemoryAvailable_def set_available_True)
  have "unat (?max - of_nat ?n) = ?m - ?n"
    using m by (simp add: unat_sub_if' unat_of_nat word_le_nat_alt)
  then have "pmm_ok (s1\<lparr>m_usedBlocks := ?max - of_nat ?n\<rparr>)"
    using m e s1 by (auto simp: pmm_ok_def)
  then show ?thesis
    using run s1 m by simp
qed

section \<open>What the allocator promises\<close>

text \<open>\<open>pmm_reach N s L\<close>: \<open>L\<close> lists the extents (first block, length) handed out and not given back, \<open>N\<close> is the number of
  blocks free at start-up.  Callers give back what they were given.\<close>

inductive pmm_reach :: "nat \<Rightarrow> pmm \<Rightarrow> (nat \<times> nat) list \<Rightarrow> bool" where
  init: "first_available memorySize kernelSize layout \<le> unat memorySize \<Longrightarrow>
    pmm_Initialize memorySize kernelSize layout = Some (l, s) \<Longrightarrow> N = card (free_set s) \<Longrightarrow> pmm_reach N s []"
| alloc: "pmm_reach N s L \<Longrightarrow> AllocBlock s = Some (a, s') \<Longrightarrow> a \<noteq> 0 \<Longrightarrow> pmm_reach N s' ((unat a div 4096, 1) # L)"
| allocs: "pmm_reach N s L \<Longrightarrow> 0 < n \<Longrightarrow> AllocBlocks n s = Some (a, s') \<Longrightarrow> a \<noteq> 0 \<Longrightarrow>
    pmm_reach N s' ((unat a div 4096, unat n) # L)"
| free: "pmm_reach N s L \<Longrightarrow> (b, 1) \<in> set L \<Longrightarrow> FreeBlock (of_nat b * PMM_BLOCK_SIZE) s = Some s' \<Longrightarrow>
    pmm_reach N s' (remove1 (b, 1) L)"
| frees: "pmm_reach N s L \<Longrightarrow> (b, unat n) \<in> set L \<Longrightarrow> FreeBlocks (of_nat b * PMM_BLOCK_SIZE) n s = Some s' \<Longrightarrow>
    pmm_reach N s' (remove1 (b, unat n) L)"

definition extent :: "nat \<times> nat \<Rightarrow> nat set" where "extent e = {fst e..<fst e + snd e}"

definition extents_ok :: "nat \<Rightarrow> pmm \<Rightarrow> (nat \<times> nat) list \<Rightarrow> bool" where
  "extents_ok N s L \<longleftrightarrow> pmm_ok s \<and> (\<forall>e \<in> set L. 0 < snd e \<and> extent e \<subseteq> {..<unat (m_maxBlocks s)} - free_set s) \<and>
     sorted_wrt (\<lambda>e f. extent e \<inter> extent f = {}) L \<and> card (free_set s) + sum_list (map snd L) = N"

lemma disjoint_remove1:
  assumes "sorted_wrt (\<lambda>e f. extent e \<inter> extent f = {}) L" "e \<in> set L"
  shows "f \<in> set (remove1 e L) \<Longrightarrow> extent e \<inter> extent f = {}"
  using assms by (induction L) (auto split: if_splits)

lemma sorted_wrt_remove1: "sorted_wrt P L \<Longrightarrow> sorted_wrt P (remove1 e L)"
  by (induction L) (auto dest: notin_set_remove1 set_remove1_subset [THEN subsetD])

lemma extents_take:
  assumes ok: "extents_ok N s L" and s': "pmm_ok s'" "free_set s' = free_set s - {b..<b + n}" "m_maxBlocks s' = m_maxBlocks s"
    and run: "free_run s n b" "0 < n"
  shows "extents_ok N s' ((b, n) # L)"
proof -
  have r: "{b..<b + n} \<subseteq> free_set s"
    using free_run_set ok run(1) by (auto simp: extents_ok_def)
  have c: "card (free_set s') + n = card (free_set s)"
    unfolding s'(2) using card_Diff_subset [OF _ r] card_mono [OF _ r] by simp
  have "extent e \<inter> {b..<b + n} = {}" if "e \<in> set L" for e
    using ok that r by (auto simp: extents_ok_def)
  then show ?thesis
    using ok s' c run r by (auto simp: extents_ok_def extent_def free_run_def)
qed

lemma extents_give:
  assumes ok: "extents_ok N s L" and e: "(b, unat n) \<in> set L"
  shows "\<exists>s'. FreeBlocks (of_nat b * PMM_BLOCK_SIZE) n s = Some s' \<and> extents_ok N s' (remove1 (b, unat n) L)"
proof -
  have "0 < snd (b, unat n)" "extent (b, unat n) \<subseteq> {..<unat (m_maxBlocks s)} - free_set s"
    using ok e unfolding extents_ok_def by blast+
  then have p: "0 < unat n" "{b..<b + unat n} \<subseteq> {..<unat (m_maxBlocks s)}" "{b..<b + unat n} \<inter> free_set s = {}"
    unfolding extent_def fst_conv snd_conv by blast+
  have pm: "pmm_ok s"
    using ok by (simp add: extents_ok_def)
  have "b + unat n \<le> unat (m_maxBlocks s)"
    using p(1) subsetD [OF p(2), of "b + (unat n - 1)"] by (cases "unat n") simp_all
  moreover have "unat (m_maxBlocks s) \<le> 2 ^ 20"
    using pm by (simp add: pmm_ok_def)
  ultimately obtain s' where s': "FreeBlocks (of_nat b * PMM_BLOCK_SIZE) n s = Some s'" "pmm_ok s'"
      "free_set s' = free_set s \<union> {b..<b + unat n}" "m_maxBlocks s' = m_maxBlocks s"
    using FreeBlocks_spec [OF pm, of b n] p(1,3) by auto
  have c: "card (free_set s') = card (free_set s) + unat n"
    unfolding s'(3) using p(3) by (subst card_Un_disjoint) auto
  have "sum_list (map snd L) = unat n + sum_list (map snd (remove1 (b, unat n) L))"
    using sum_list_map_remove1 [OF e, of snd] by simp
  moreover have "extent f \<subseteq> {..<unat (m_maxBlocks s')} - free_set s' \<and> 0 < snd f" if "f \<in> set (remove1 (b, unat n) L)" for f
  proof -
    have "f \<in> set L"
      using that set_remove1_subset [of "(b, unat n)" L] by blast
    then have "extent f \<subseteq> {..<unat (m_maxBlocks s)} - free_set s" "0 < snd f"
      using ok unfolding extents_ok_def by blast+
    moreover have "extent (b, unat n) \<inter> extent f = {}"
      using ok disjoint_remove1 [OF _ e that] unfolding extents_ok_def by blast
    ultimately show ?thesis
      unfolding s'(3,4) by (auto simp: extent_def)
  qed
  ultimately have "extents_ok N s' (remove1 (b, unat n) L)"
    using ok s'(2) c by (auto simp: extents_ok_def sorted_wrt_remove1)
  then show ?thesis
    using s'(1) by blast
qed

lemma pmm_reach_ok: "pmm_reach N s L \<Longrightarrow> extents_ok N s L"
proof (induction rule: pmm_reach.induct)
  case (init memorySize kernelSize layout l s N)
  then show ?case
    using pmm_Initialize_spec [OF init(1)] by (auto simp: extents_ok_def)
next
  case (alloc N s L a s')
  have ok: "pmm_ok s"
    using alloc.IH by (simp add: extents_ok_def)
  let ?b = "LEAST b. free_run s 1 b"
  have r: "free_run s 1 ?b" "a = of_nat ?b * PMM_BLOCK_SIZE" "pmm_ok s'" "free_set s' = free_set s - {?b..<?b + 1}"
      "m_maxBlocks s' = m_maxBlocks s"
    using AllocBlock_spec [OF ok] alloc.hyps(2,3) by (auto split: if_splits)
  have "unat a div 4096 = ?b"
    using free_run_set(2) [OF ok r(1)] unat_frame_addr [of ?b] by (simp add: r(2))
  then show ?case
    using extents_take [OF alloc.IH r(3-5,1)] by simp
next
  case (allocs N s L n a s')
  have ok: "pmm_ok s" and n: "0 < unat n"
    using allocs by (simp_all add: extents_ok_def unat_gt_0 word_gt_0)
  let ?b = "LEAST b. free_run s (unat n) b"
  have r: "free_run s (unat n) ?b" "a = of_nat ?b * PMM_BLOCK_SIZE" "pmm_ok s'" "free_set s' = free_set s - {?b..<?b + unat n}"
      "m_maxBlocks s' = m_maxBlocks s"
    using AllocBlocks_spec [OF ok n] allocs.hyps(3,4) by (auto split: if_splits)
  have "unat a div 4096 = ?b"
    using free_run_set(2) [OF ok r(1)] unat_frame_addr [of ?b] n by (simp add: r(2))
  then show ?case
    using extents_take [OF allocs.IH r(3-5,1) n] by simp
next
  case (free N s L b s')
  then show ?case
    using extents_give [of N s L b 1] by (auto simp: FreeBlock_FreeBlocks)
next
  case (frees N s L b n s')
  then show ?case
    using extents_give [of N s L b n] by auto
qed

text \<open>A machine of 64 blocks whose kernel ends in the middle of block 1.\<close>

definition small_layout :: memory_layout where
  "small_layout = \<lparr>kernelBase = 0x1000, kernelDataBase = 0, kernelDataTop = 0, bootStackBase = 0, bootStackTop = 0,
     bootPhysicalStackTop = 0, kHeapBase = 0, kHeapTop = 0, kernelIOAreaBase = 0, kernelIOAreaTop = 0, kernelTop = 0\<rparr>"

lemma small_available: "first_available 0x40000 0x500 small_layout = 0x1508"
  by (simp add: first_available_def small_layout_def)

lemma small_start:
  obtains l s where "pmm_Initialize 0x40000 0x500 small_layout = Some (l, s)" "pmm_ok s" "unat (m_maxBlocks s) = 64"
    "free_set s = {1..<64}" "pmm_reach 63 s []"
proof -
  obtain l s where i: "pmm_Initialize 0x40000 0x500 small_layout = Some (l, s)" "pmm_ok s" "unat (m_maxBlocks s) = 64"
      "free_set s = {1..<64}"
    using pmm_Initialize_spec [of "0x40000" "0x500" small_layout] by (auto simp: small_available)
  moreover have "pmm_reach 63 s []"
    by (rule pmm_reach.init [OF _ i(1)]) (simp_all add: small_available i(4))
  ultimately show thesis
    using that by blast
qed

lemma free_run_iff: "pmm_ok s \<Longrightarrow> 0 < n \<Longrightarrow> free_run s n b \<longleftrightarrow> {b..<b + n} \<subseteq> free_set s"
proof
  assume ok: "pmm_ok s" and n: "0 < n" and sub: "{b..<b + n} \<subseteq> free_set s"
  have "b + (n - 1) \<in> free_set s"
    using n sub by (intro subsetD [OF sub]) simp
  then have "b + n \<le> unat (m_maxBlocks s)"
    using ok n by (auto simp: pmm_ok_def)
  then show "free_run s n b"
    using sub by (auto simp: free_run_def free_set_def)
qed (rule free_run_set(1))

text \<open>C14: Physical memory is handed out once: in every state reachable by starting up, allocating single blocks and
  runs, and giving back what was handed out, the extents in hand are pairwise disjoint, their blocks exist and
  are marked in use, and the free memory the allocator reports is exactly what was free at start-up less what
  is in hand.\<close>

theorem pmm_extents_disjoint:
  assumes "pmm_reach N s L"
  shows "sorted_wrt (\<lambda>e f. extent e \<inter> extent f = {}) L \<and>
    (\<forall>e \<in> set L. \<forall>b \<in> extent e. b < unat (m_maxBlocks s) \<and> in_use s b) \<and>
    unat (m_maxBlocks s - GetUsedBlockCount s) + sum_list (map snd L) = N"
proof -
  have ok: "extents_ok N s L" "pmm_ok s"
    using pmm_reach_ok [OF assms] by (simp_all add: extents_ok_def)
  have "b < unat (m_maxBlocks s) \<and> in_use s b" if e: "e \<in> set L" and b: "b \<in> extent e" for e b
  proof -
    have "extent e \<subseteq> {..<unat (m_maxBlocks s)} - free_set s"
      using ok(1) e unfolding extents_ok_def by blast
    then have "b < unat (m_maxBlocks s)" "b \<notin> free_set s"
      using b by auto
    then show ?thesis
      using ok(2) by (auto simp: free_set_def pmm_ok_def)
  qed
  then show ?thesis
    using ok pmm_free_count [OF ok(2)] by (auto simp: extents_ok_def GetUsedBlockCount_def)
qed

theorem pmm_extents_disjoint_witness:
  "\<exists>s s' a. pmm_reach 63 s [] \<and> AllocBlock s = Some (a, s') \<and> in_use s' (unat a div 4096) \<and>
    unat (m_maxBlocks s' - GetUsedBlockCount s') = 62"
proof -
  obtain l s where s: "pmm_ok s" "free_set s = {1..<64}" "pmm_reach 63 s []" "unat (m_maxBlocks s) = 64"
    by (rule small_start)
  have run: "free_run s 1 1" "1 < whole_blocks s"
    using s free_run_iff [of s 1 1] by (auto simp: whole_blocks_def)
  let ?b = "LEAST b. free_run s 1 b"
  have b: "free_run s 1 ?b"
    using run(1) by (rule LeastI)
  then have "?b \<in> {1..<64}"
    using free_run_set(1) [OF s(1) b] s(2) by simp
  then have "of_nat ?b * PMM_BLOCK_SIZE \<noteq> (0 :: u32)"
    using unat_frame_addr [of ?b] by auto
  then obtain a s' where a: "AllocBlock s = Some (a, s')" "a \<noteq> 0"
    using AllocBlock_spec [OF s(1)] run by (auto split: if_splits)
  show ?thesis
    using pmm_extents_disjoint [OF pmm_reach.alloc [OF s(3) a]] s(3) a(1) by (auto simp: extent_def)
qed

text \<open>C28: A request for \<open>n\<close> blocks takes the lowest run of \<open>n\<close> free blocks, and nothing else; it is refused exactly when no
  run starts in the whole words of the bitmap, or when not more than \<open>n\<close> blocks are free; a refusal changes
  nothing, and giving the run back restores the set of free blocks and the counter.\<close>

theorem AllocBlocks_first_fit:
  assumes "pmm_reach N s L" "0 < n"
  shows "if (\<exists>b < whole_blocks s. free_run s (unat n) b) \<and> unat n < unat (m_maxBlocks s - GetUsedBlockCount s)
    then \<exists>b s' s''. free_run s (unat n) b \<and> (\<forall>c < b. \<not> free_run s (unat n) c) \<and>
      AllocBlocks n s = Some (of_nat b * PMM_BLOCK_SIZE, s') \<and> free_set s' = free_set s - {b..<b + unat n} \<and>
      GetUsedBlockCount s' = GetUsedBlockCount s + n \<and>
      FreeBlocks (of_nat b * PMM_BLOCK_SIZE) n s' = Some s'' \<and> free_set s'' = free_set s \<and> GetUsedBlockCount s'' = GetUsedBlockCount s
    else AllocBlocks n s = Some (0, s)"
proof -
  have ok: "pmm_ok s" and n: "0 < unat n"
    using pmm_reach_ok [OF assms(1)] assms(2) by (simp_all add: extents_ok_def unat_gt_0 word_gt_0)
  show ?thesis
  proof (cases "(\<exists>b < whole_blocks s. free_run s (unat n) b) \<and> unat n < card (free_set s)")
    case True
    obtain b where b: "b = (LEAST b. free_run s (unat n) b)" by blast
    obtain s' where s': "AllocBlocks n s = Some (of_nat b * PMM_BLOCK_SIZE, s')" "pmm_ok s'" "free_run s (unat n) b"
        "free_set s' = free_set s - {b..<b + unat n}" "m_usedBlocks s' = m_usedBlocks s + n" "m_maxBlocks s' = m_maxBlocks s"
      using AllocBlocks_spec [OF ok n] unfolding if_P [OF True] b by blast
    note r = free_run_set [OF ok s'(3)]
    have "b + unat n \<le> unat (m_maxBlocks s')" "b < 2 ^ 20"
      using s'(3,6) r(2) n by (auto simp: free_run_def)
    then obtain s'' where "FreeBlocks (of_nat b * PMM_BLOCK_SIZE) n s' = Some s''" "free_set s'' = free_set s' \<union> {b..<b + unat n}"
        "m_usedBlocks s'' = m_usedBlocks s' - n"
      using FreeBlocks_spec [OF s'(2), of b n] s'(4) by auto
    moreover have "\<forall>c < b. \<not> free_run s (unat n) c"
      unfolding b using not_less_Least by blast
    moreover have "free_set s - {b..<b + unat n} \<union> {b..<b + unat n} = free_set s"
      using r(1) by blast
    ultimately show ?thesis
      using True s' pmm_free_count [OF ok] by (auto simp: GetUsedBlockCount_def)
  next
    case False
    then show ?thesis
      using AllocBlocks_spec [OF ok n] pmm_free_count [OF ok] by (auto simp: GetUsedBlockCount_def)
  qed
qed

theorem AllocBlocks_first_fit_witness:
  "\<exists>s s'. pmm_reach 63 s [] \<and> AllocBlocks 3 s = Some (0x1000, s') \<and> free_set s' = {4..<64}"
proof -
  obtain l s where s: "pmm_ok s" "free_set s = {1..<64}" "pmm_reach 63 s []" "unat (m_maxBlocks s) = 64"
    by (rule small_start)
  have run: "free_run s 3 c \<longleftrightarrow> {c..<c + 3} \<subseteq> {1..<64}" for c
    using free_run_iff [OF s(1), of 3 c] s(2) by simp
  have one: "free_run s 3 1" "\<not> free_run s 3 0"
    unfolding run by auto
  have "\<exists>b < whole_blocks s. free_run s (unat (3 :: u32)) b"
    using one(1) s(4) by (intro exI [of _ 1]) (simp add: whole_blocks_def)
  moreover have "unat (3 :: u32) < unat (m_maxBlocks s - GetUsedBlockCount s)"
    using pmm_free_count [OF s(1)] s(2) by (simp add: GetUsedBlockCount_def)
  ultimately obtain b s' where b: "free_run s 3 b" "\<forall>c < b. \<not> free_run s 3 c"
      "AllocBlocks 3 s = Some (of_nat b * PMM_BLOCK_SIZE, s')" "free_set s' = free_set s - {b..<b + 3}"
    using AllocBlocks_first_fit [OF s(3), of 3] by auto
  have "b = 1"
    using b(1,2) one by (metis less_one linorder_neqE_nat)
  then show ?thesis
    using b(3,4) s(2,3) by (intro exI [of _ s] exI [of _ s']) auto
qed

text \<open>At start-up the space behind the bitmap is rounded down to a block, not up: when the bitmap does not end on a
  block boundary, its last block counts as free and is the first one handed out.\<close>

theorem pmm_bitmap_handed_out:
  assumes fits: "first_available memorySize kernelSize layout \<le> unat memorySize"
    and odd: "first_available memorySize kernelSize layout mod 4096 \<noteq> 0"
    and whole: "first_available memorySize kernelSize layout div 4096 < unat memorySize div 4096 div 32 * 32"
    and run: "pmm_Initialize memorySize kernelSize layout = Some (l, s)"
  shows "\<exists>a s'. AllocBlock s = Some (a, s') \<and> unat a < first_available memorySize kernelSize layout \<and>
    first_available memorySize kernelSize layout < unat a + 4096"
proof -
  let ?f = "first_available memorySize kernelSize layout"
  have s: "pmm_ok s" "unat (m_maxBlocks s) = unat memorySize div 4096" "free_set s = {?f div 4096..<unat memorySize div 4096}"
    using pmm_Initialize_spec [OF fits] run by auto
  have one: "free_run s 1 b \<longleftrightarrow> ?f div 4096 \<le> b \<and> b < unat memorySize div 4096" for b
    using free_run_iff [OF s(1), of 1 b] s(3) by auto
  have lt: "?f div 4096 < unat memorySize div 4096"
    using whole by (rule less_le_trans) simp
  have "(LEAST b. free_run s 1 b) = ?f div 4096"
    unfolding one using lt by (intro Least_equality) auto
  moreover have "\<exists>b < whole_blocks s. free_run s 1 b"
    using whole s(2) lt one by (intro exI [of _ "?f div 4096"]) (simp add: whole_blocks_def)
  ultimately obtain s' where a: "AllocBlock s = Some (of_nat (?f div 4096) * PMM_BLOCK_SIZE, s')"
    using AllocBlock_spec [OF s(1)] by auto
  have "unat memorySize div 4096 < 2 ^ 20"
    by (rule less_mult_imp_div_less) (simp add: unat_u32_less)
  then have "?f div 4096 < 2 ^ 20"
    using lt by (rule less_trans [rotated])
  note addr = unat_frame_addr [OF this]
  have "?f = ?f div 4096 * 4096 + ?f mod 4096" "?f mod 4096 < 4096"
    by (rule div_mult_mod_eq [symmetric], rule mod_less_divisor) simp
  then have "?f div 4096 * 4096 < ?f" "?f < ?f div 4096 * 4096 + 4096"
    using odd by linarith+
  then show ?thesis
    unfolding addr [symmetric] using a by blast
qed

text \<open>A second \<open>FreeBlock\<close> of the same block is not noticed: the counter drops below the truth.\<close>

theorem FreeBlock_twice:
  assumes "pmm_ok s" "b \<in> free_set s" "0 < m_usedBlocks s"
  shows "\<exists>s'. FreeBlock (of_nat b * PMM_BLOCK_SIZE) s = Some s' \<and> free_set s' = free_set s \<and>
    unat (m_maxBlocks s' - GetUsedBlockCount s') = card (free_set s') + 1"
proof -
  have b: "b < 32 * length (mem_map s)" "b < unat (m_maxBlocks s)" "b < 2 ^ 20"
    using assms(1,2) by (auto simp: pmm_ok_def free_set_def)
  obtain s1 where s1: "UnsetBit b s = Some s1" "free_set s1 = free_set s" "m_usedBlocks s1 = m_usedBlocks s" "m_maxBlocks s1 = m_maxBlocks s"
    using UnsetBit_spec [OF b(1)] insert_absorb [OF assms(2)] by auto
  have u: "0 < unat (m_usedBlocks s)" "unat (m_usedBlocks s) + card (free_set s) = unat (m_maxBlocks s)"
    using assms by (simp_all add: pmm_ok_def unat_gt_0 word_gt_0)
  have "unat (m_usedBlocks s - 1) = unat (m_usedBlocks s) - 1"
    using u(1) by (simp add: unat_sub_if' word_le_nat_alt)
  then have "unat (m_maxBlocks s - (m_usedBlocks s - 1)) = card (free_set s) + 1"
    using u by (auto simp: unat_sub_if' word_le_nat_alt)
  then show ?thesis
    using s1 addr_frame [OF b(3)] by (simp add: FreeBlock_def GetUsedBlockCount_def)
qed

end
