(* ===== verification/Virt_Mem.thy ===== *)
theory Virt_Mem
  imports Phys_Mem
begin

text \<open>
  \<^verbatim>\<open>SkyCore/Memory/VirtualMemoryManager.cpp\<close> with \<^verbatim>\<open>PageTableEntry.cpp\<close> and \<^verbatim>\<open>PageDirectoryEntry.cpp\<close>: the two-level page
  tables of the x86, kept in blocks of the physical memory manager.  Memory is a function from the address of a
  32-bit word to the word; the manager reaches page directories and tables by their physical addresses, as the
  kernel's identity mapping lets it.  The critical sections make each operation one step.  \<open>None\<close> comes from the
  physical memory manager: an access outside its bitmap.
\<close>

section \<open>Entries\<close>

abbreviation (input) I86_PTE_PRESENT :: u32 where "I86_PTE_PRESENT \<equiv> 1"
abbreviation (input) I86_PTE_WRITABLE :: u32 where "I86_PTE_WRITABLE \<equiv> 2"
abbreviation (input) I86_PTE_FRAME :: u32 where "I86_PTE_FRAME \<equiv> 0x7FFFF000"

definition AddAttribute :: "u32 \<Rightarrow> u32 \<Rightarrow> u32" where "AddAttribute e attr = e OR attr"
definition DelAttribute :: "u32 \<Rightarrow> u32 \<Rightarrow> u32" where "DelAttribute e attr = e AND NOT attr"
definition SetFrame :: "u32 \<Rightarrow> u32 \<Rightarrow> u32" where "SetFrame e addr = e AND NOT I86_PTE_FRAME OR addr"
definition IsPresent :: "u32 \<Rightarrow> bool" where "IsPresent e \<longleftrightarrow> e AND I86_PTE_PRESENT \<noteq> 0"
definition IsWritable :: "u32 \<Rightarrow> bool" where "IsWritable e \<longleftrightarrow> e AND I86_PTE_WRITABLE > 0"
definition GetFrame :: "u32 \<Rightarrow> u32" where "GetFrame e = e AND I86_PTE_FRAME"
definition IsUser :: "u32 \<Rightarrow> bool" where "IsUser e \<longleftrightarrow> e AND 4 > 0"
definition Is4mb :: "u32 \<Rightarrow> bool" where "Is4mb e \<longleftrightarrow> e AND 0x80 > 0"

section \<open>State\<close>

record vmm =
  pmm_state :: pmm
  ram :: "u32 \<Rightarrow> u32"
  kernel_directory :: u32
  cur_directory :: u32
  cr3 :: u32
  g_pte :: u32
  layout :: memory_layout

definition PAGE_DIRECTORY_INDEX :: "u32 \<Rightarrow> u32" where "PAGE_DIRECTORY_INDEX x = drop_bit 22 x AND 0x3ff"
definition PAGE_TABLE_INDEX :: "u32 \<Rightarrow> u32" where "PAGE_TABLE_INDEX x = drop_bit 12 x AND 0x3ff"
definition PAGE_GET_OFFSET :: "u32 \<Rightarrow> u32" where "PAGE_GET_OFFSET x = x AND 0xfff"

text \<open>Element \<open>i\<close> of the table at \<open>a\<close>, and its assignment.\<close>

definition entry :: "u32 \<Rightarrow> u32 \<Rightarrow> vmm \<Rightarrow> u32" where "entry a i s = ram s (a + 4 * i)"

definition set_entry :: "u32 \<Rightarrow> u32 \<Rightarrow> u32 \<Rightarrow> vmm \<Rightarrow> vmm" where
  "set_entry a i x s = s\<lparr>ram := (ram s)(a + 4 * i := x)\<rparr>"

definition clear_page :: "u32 \<Rightarrow> vmm \<Rightarrow> vmm" where
  "clear_page a s = s\<lparr>ram := (\<lambda>x. if x - a < 4096 then 0 else ram s x)\<rparr>"

definition vm_alloc :: "vmm \<Rightarrow> (u32 \<times> vmm) option" where
  "vm_alloc s = map_option (\<lambda>(a, p). (a, s\<lparr>pmm_state := p\<rparr>)) (AllocBlock (pmm_state s))"

definition vm_free :: "u32 \<Rightarrow> vmm \<Rightarrow> vmm option" where
  "vm_free a s = map_option (\<lambda>p. s\<lparr>pmm_state := p\<rparr>) (FreeBlock a (pmm_state s))"

definition vm_allocs :: "u32 \<Rightarrow> vmm \<Rightarrow> (u32 \<times> vmm) option" where
  "vm_allocs n s = map_option (\<lambda>(a, p). (a, s\<lparr>pmm_state := p\<rparr>)) (AllocBlocks n (pmm_state s))"

section \<open>Translation\<close>

definition GetPhysicalAddress :: "u32 \<Rightarrow> u32 \<Rightarrow> vmm \<Rightarrow> u32" where
  "GetPhysicalAddress dir va s =
     (let pde = entry dir (PAGE_DIRECTORY_INDEX va) s;
          pt = pde AND NOT 0xfff
      in if pde = 0 then 0
         else
           let pte = entry pt (PAGE_TABLE_INDEX va) s
           in if pte = 0 then 0 else (pte AND NOT 0xfff) + PAGE_GET_OFFSET va)"

section \<open>Mapping\<close>

definition CreatePageTable :: "u32 \<Rightarrow> u32 \<Rightarrow> u32 \<Rightarrow> vmm \<Rightarrow> (bool \<times> vmm) option" where
  "CreatePageTable dir va flags s =
     (if entry dir (PAGE_DIRECTORY_INDEX va) s = 0 then do {
        (pPageTable, s1) \<leftarrow> vm_alloc s;
        if pPageTable = 0 then Some (False, s1)
        else Some (True, set_entry dir (PAGE_DIRECTORY_INDEX va) (pPageTable OR flags) (clear_page pPageTable s1))
      }
      else Some (True, s))"

text \<open>The result of \<open>CreatePageTable\<close> is not looked at.\<close>

definition MapPhysicalAddressToVirtualAddresss :: "u32 \<Rightarrow> u32 \<Rightarrow> u32 \<Rightarrow> u32 \<Rightarrow> vmm \<Rightarrow> vmm option" where
  "MapPhysicalAddressToVirtualAddresss dir virt phys flags s =
     do {
       s1 \<leftarrow> (if entry dir (drop_bit 22 virt) s = 0 then map_option snd (CreatePageTable dir virt flags s) else Some s);
       let pageTable = entry dir (drop_bit 22 virt) s1 AND NOT 0xfff;
       Some (set_entry pageTable (drop_bit 12 (drop_bit 10 (push_bit 10 virt))) (phys OR flags) s1)
     }"

text \<open>\<open>n\<close> pages from \<open>virt\<close> and \<open>phys\<close> on.\<close>

fun map_pages :: "u32 \<Rightarrow> u32 \<Rightarrow> u32 \<Rightarrow> nat \<Rightarrow> vmm \<Rightarrow> vmm option" where
  "map_pages dir virt phys 0 s = Some s"
| "map_pages dir virt phys (Suc n) s =
     do {
       s1 \<leftarrow> MapPhysicalAddressToVirtualAddresss dir virt phys (I86_PTE_PRESENT OR I86_PTE_WRITABLE) s;
       map_pages dir (virt + 4096) (phys + 4096) n s1
     }"

definition MapAddress :: "u32 \<Rightarrow> u32 \<Rightarrow> u32 \<Rightarrow> vmm \<Rightarrow> (bool \<times> vmm) option" where
  "MapAddress pd startAddress pageCount s =
     do {
       (mem, s1) \<leftarrow> vm_allocs pageCount s;
       if mem = 0 then Some (False, s1)
       else map_option (Pair True) (map_pages pd startAddress mem (unat pageCount) s1)
     }"

text \<open>The loop ends only when \<open>va\<close> passes \<open>end\<close> without wrapping round.\<close>

partial_function (option) MapDMAAddress :: "u32 \<Rightarrow> u32 \<Rightarrow> u32 \<Rightarrow> u32 \<Rightarrow> vmm \<Rightarrow> (bool \<times> vmm) option" where
  "MapDMAAddress pd va pa end_addr s =
     (if va \<le> end_addr then do {
        s1 \<leftarrow> MapPhysicalAddressToVirtualAddresss pd va pa (I86_PTE_PRESENT OR I86_PTE_WRITABLE) s;
        MapDMAAddress pd (va + 0x1000) (pa + 0x1000) end_addr s1
      }
      else Some (True, s))"

section \<open>Unmapping\<close>

definition UnmapPageTable :: "u32 \<Rightarrow> u32 \<Rightarrow> vmm \<Rightarrow> vmm option" where
  "UnmapPageTable dir virt s =
     (if entry dir (drop_bit 22 virt) s \<noteq> 0 then
        map_option (set_entry dir (drop_bit 22 virt) 0) (vm_free (entry dir (drop_bit 22 virt) s AND 0x7FFFF000) s)
      else Some s)"

definition UnmapPhysicalAddress :: "u32 \<Rightarrow> u32 \<Rightarrow> vmm \<Rightarrow> vmm option" where
  "UnmapPhysicalAddress dir virt s =
     (if entry dir (drop_bit 22 virt) s \<noteq> 0 then UnmapPageTable dir virt s else Some s)"

fun unmap_pages :: "u32 \<Rightarrow> u32 \<Rightarrow> nat \<Rightarrow> vmm \<Rightarrow> vmm option" where
  "unmap_pages pd virt 0 s = Some s"
| "unmap_pages pd virt (Suc n) s = do { s1 \<leftarrow> UnmapPhysicalAddress pd virt s; unmap_pages pd (virt + 4096) n s1 }"

definition UnmapAddress :: "u32 \<Rightarrow> u32 \<Rightarrow> u32 \<Rightarrow> vmm \<Rightarrow> (bool \<times> vmm) option" where
  "UnmapAddress pd startAddress pageCount s = map_option (Pair True) (unmap_pages pd startAddress (unat pageCount) s)"

fun free_directory :: "u32 \<Rightarrow> nat \<Rightarrow> vmm \<Rightarrow> vmm option" where
  "free_directory dir 0 s = Some s"
| "free_directory dir (Suc n) s =
     do {
       s1 \<leftarrow> free_directory dir n s;
       let pde = entry dir (of_nat n) s1;
       if pde \<noteq> 0 then map_option (set_entry dir (of_nat n) 0) (vm_free (pde AND 0x7FFFF000) s1) else Some s1
     }"

definition FreePageDirectory :: "u32 \<Rightarrow> vmm \<Rightarrow> vmm option" where "FreePageDirectory dir = free_directory dir 1024"

definition CreatePageDirectory :: "vmm \<Rightarrow> (u32 \<times> vmm) option" where "CreatePageDirectory s = vm_alloc s"

definition AllocPage :: "u32 \<Rightarrow> vmm \<Rightarrow> (bool \<times> vmm) option" where
  "AllocPage e s =
     do {
       (p, s1) \<leftarrow> vm_alloc s;
       if p = 0 then Some (False, s1)
       else Some (True, set_entry e 0 (AddAttribute (SetFrame (entry e 0 s1) p) I86_PTE_PRESENT) s1)
     }"

definition FreePage :: "u32 \<Rightarrow> vmm \<Rightarrow> vmm option" where
  "FreePage e s =
     do {
       s1 \<leftarrow> (if GetFrame (entry e 0 s) \<noteq> 0 then vm_free (GetFrame (entry e 0 s)) s else Some s);
       Some (set_entry e 0 (DelAttribute (entry e 0 s1) I86_PTE_PRESENT) s1)
     }"

section \<open>Start-up\<close>

definition SetCurPageDirectory :: "u32 \<Rightarrow> vmm \<Rightarrow> bool \<times> vmm" where
  "SetCurPageDirectory dir s = (if dir = 0 then (False, s) else (True, s\<lparr>cur_directory := dir\<rparr>))"

definition GetCurPageDirectory :: "vmm \<Rightarrow> u32" where "GetCurPageDirectory s = cur_directory s"
definition GetKernelPageDirectory :: "vmm \<Rightarrow> u32" where "GetKernelPageDirectory s = kernel_directory s"

text \<open>The inner loop: the page table for the \<open>n\<close> frames from \<open>frame\<close> on.\<close>

fun identity_table :: "u32 \<Rightarrow> u32 \<Rightarrow> nat \<Rightarrow> vmm \<Rightarrow> vmm" where
  "identity_table pt frame 0 s = s"
| "identity_table pt frame (Suc n) s =
     identity_table pt (frame + 4096) n
       (set_entry pt (PAGE_TABLE_INDEX frame) (SetFrame (AddAttribute 0 I86_PTE_PRESENT) frame) s)"

fun identity_tables :: "nat \<Rightarrow> u32 \<Rightarrow> vmm \<Rightarrow> (bool \<times> vmm) option" where
  "identity_tables 0 virt s = Some (True, s)"
| "identity_tables (Suc n) virt s =
     do {
       (pt, s1) \<leftarrow> vm_alloc s;
       if pt = 0 then Some (False, s1)
       else do {
         let s2 = identity_table pt virt 1024 (clear_page pt s1);
         let dir = kernel_directory s2;
         let i = PAGE_DIRECTORY_INDEX (virt + 0x400000 - 0x00400000);
         let e = SetFrame (AddAttribute (entry dir i s2) (I86_PTE_PRESENT OR I86_PTE_WRITABLE)) pt;
         identity_tables n (virt + 0x400000) (set_entry dir i e s2)
       }
     }"

text \<open>A directory at 0 is not refused: the table is then written at address 0.\<close>

definition SetupKernelPageDirectory :: "vmm \<Rightarrow> (bool \<times> vmm) option" where
  "SetupKernelPageDirectory s =
     do {
       (dir, s1) \<leftarrow> vm_allocs 1 s;
       let s2 = clear_page dir (s1\<lparr>kernel_directory := dir\<rparr>);
       let pageTableCount = kernelDataTop (layout s2) div 4096 div 1024 + 1;
       (ok, s3) \<leftarrow> identity_tables (unat pageTableCount) 0 s2;
       if \<not> ok then Some (False, s3)
       else let (r, s4) = SetCurPageDirectory dir s3 in Some (True, s4\<lparr>cr3 := dir\<rparr>)
     }"

definition vmm_Initialize :: "vmm \<Rightarrow> (bool \<times> vmm) option" where
  "vmm_Initialize s =
     do {
       (result, s1) \<leftarrow> SetupKernelPageDirectory s;
       if \<not> result then Some (False, s1)
       else do {
         (pte, s2) \<leftarrow> vm_alloc s1;
         s3 \<leftarrow> MapPhysicalAddressToVirtualAddresss (kernel_directory s2) pte pte (I86_PTE_PRESENT OR I86_PTE_WRITABLE) (s2\<lparr>g_pte := pte\<rparr>);
         let bootStackFrameCount = (bootStackTop (layout s3) - bootStackBase (layout s3)) div 4096;
         (mem, s4) \<leftarrow> vm_allocs bootStackFrameCount s3;
         if mem = 0 then Some (False, s4)
         else do {
           s5 \<leftarrow> map_pages (kernel_directory s4) (bootStackBase (layout s4)) mem (unat bootStackFrameCount) s4;
           Some (True, s5\<lparr>layout := (layout s5)\<lparr>bootPhysicalStackTop := mem + bootStackFrameCount * PMM_BLOCK_SIZE\<rparr>\<rparr>)
         }
       }
     }"

text \<open>\<open>HeapManager::Initialize\<close> maps the heap's pages and the frame buffer; the result of \<open>MapAddress\<close> is not looked at.\<close>

definition map_kernel_heap :: "u32 \<Rightarrow> vmm \<Rightarrow> vmm option" where
  "map_kernel_heap framebuffer_addr s =
     do {
       (ok, s1) \<leftarrow> MapAddress (kernel_directory s) (kHeapBase (layout s)) KERNEL_HEAP_FRAME_COUNT s;
       (ok2, s2) \<leftarrow> MapDMAAddress (cur_directory s1) framebuffer_addr framebuffer_addr (framebuffer_addr + 0x01000000) s1;
       Some s2
     }"

end
