(* ===== verification/Virt_Props.thy ===== *)
theory Virt_Props
  imports Virt_Mem Phys_Props
begin

text \<open>
  Address translation after the operations of \<open>Virt_Mem\<close>: what mapping a page changes and leaves alone, over a page
  directory whose tables lie in blocks of their own.
\<close>

section \<open>The source of frames\<close>

text \<open>What the page tables need of the physical memory manager: a block it hands out was free, and is no longer.\<close>

locale frame_source =
  fixes ok :: "'p \<Rightarrow> bool" and frames :: "'p \<Rightarrow> nat set" and alloc :: "'p \<Rightarrow> (u32 \<times> 'p) option"
  assumes alloc_total: "ok p \<Longrightarrow> alloc p \<noteq> None"
    and alloc_new: "ok p \<Longrightarrow> alloc p = Some (a, p') \<Longrightarrow> a \<noteq> 0 \<Longrightarrow>
      unat a div 4096 \<in> frames p \<and> unat a mod 4096 = 0 \<and> frames p' = frames p - {unat a div 4096} \<and> ok p'"
    and alloc_refused: "ok p \<Longrightarrow> alloc p = Some (0, p') \<Longrightarrow> frames p' \<subseteq> frames p \<and> ok p'"
begin

definition held :: "'p \<Rightarrow> u32 \<Rightarrow> bool" where "held p a \<longleftrightarrow> unat a div 4096 \<notin> frames p"

lemma alloc_keeps:
  assumes "ok p" "alloc p = Some (a, p')"
  shows "ok p'" "held p x \<Longrightarrow> held p' x" "a \<noteq> 0 \<Longrightarrow> held p' a" "a \<noteq> 0 \<Longrightarrow> held p x \<Longrightarrow> x \<noteq> a"
  using alloc_new [OF assms] alloc_refused [of p p'] assms by (cases "a = 0"; auto simp: held_def)+

end

lemma AllocBlock_success:
  assumes ok: "pmm_ok p" and a: "AllocBlock p = Some (a, p')" "a \<noteq> 0"
  shows "unat a div 4096 \<in> free_set p \<and> unat a mod 4096 = 0 \<and> free_set p' = free_set p - {unat a div 4096} \<and> pmm_ok p'"
proof -
  obtain b where b: "b = (LEAST b. free_run p 1 b)" by blast
  have r: "free_run p 1 b" "a = of_nat b * PMM_BLOCK_SIZE" "pmm_ok p'" "free_set p' = free_set p - {b}"
    unfolding b using AllocBlock_spec [OF ok] a by (auto split: if_splits)
  have "b < 2 ^ 20"
    using free_run_set(2) [OF ok r(1)] by simp
  then show ?thesis
    using r free_run_set(1) [OF ok r(1)] unat_frame_addr [of b] by simp
qed

interpretation fs: frame_source pmm_ok free_set AllocBlock
proof
  fix p :: pmm
  assume "pmm_ok p"
  then show "AllocBlock p \<noteq> None"
    using AllocBlock_spec [of p] by (auto split: if_splits)
next
  fix p a p'
  assume "pmm_ok p" "AllocBlock p = Some (a, p')" "a \<noteq> 0"
  then show "unat a div 4096 \<in> free_set p \<and> unat a mod 4096 = 0 \<and> free_set p' = free_set p - {unat a div 4096} \<and> pmm_ok p'"
    by (rule AllocBlock_success)
next
  fix p p'
  assume "pmm_ok p" "AllocBlock p = Some (0, p')"
  then show "free_set p' \<subseteq> free_set p \<and> pmm_ok p'"
    using AllocBlock_spec [of p] by (auto split: if_splits)
qed

section \<open>Page arithmetic\<close>

definition page_aligned :: "u32 \<Rightarrow> bool" where "page_aligned a \<longleftrightarrow> a AND 0xfff = 0"

lemma mask12: "(0xfff :: u32) = mask 12" "(0x3ff :: u32) = mask 10"
  by (simp_all add: mask_eq_exp_minus_1)

lemma page_aligned_unat: "page_aligned a \<longleftrightarrow> unat a mod 4096 = 0"
proof -
  have "unat (a AND mask 12) = unat a mod 4096"
    by (simp add: take_bit_eq_mask [symmetric] take_bit_eq_mod unat_mod)
  then show ?thesis
    unfolding page_aligned_def mask12 by (metis unat_0 unat_inj)
qed

lemma page_aligned_mask: "page_aligned (a AND NOT 0xfff)"
  unfolding page_aligned_def mask12 by (rule bit_word_eqI) (auto simp: bit_simps)

lemma page_aligned_mask' [simp]: "page_aligned (a AND - 4096)"
  using page_aligned_mask [of a] by simp

lemma mask_flags:
  assumes "page_aligned a" "f AND NOT 0xfff = 0"
  shows "(a OR f) AND NOT 0xfff = a" "a OR f = 0 \<longleftrightarrow> a = 0 \<and> f = 0"
proof -
  have a: "\<not> (bit a n \<and> n < 12)" for n
    using arg_cong [OF assms(1) [unfolded page_aligned_def mask12], of "\<lambda>w. bit w n"] by (auto simp: bit_simps dest: bit_imp_le_length)
  have f: "\<not> (bit f n \<and> \<not> n < 12)" for n
    using arg_cong [OF assms(2) [unfolded mask12], of "\<lambda>w. bit w n"] by (auto simp: bit_simps dest: bit_imp_le_length)
  show "(a OR f) AND NOT 0xfff = a"
    unfolding mask12 using a f by (intro bit_word_eqI) (auto simp: bit_simps)
  show "a OR f = 0 \<longleftrightarrow> a = 0 \<and> f = 0"
    by (auto simp: bit_eq_iff bit_simps)
qed

lemma index_simps:
  "drop_bit 22 x = PAGE_DIRECTORY_INDEX x" "drop_bit 12 (drop_bit 10 (push_bit 10 x)) = PAGE_TABLE_INDEX x"
  "PAGE_DIRECTORY_INDEX x < 1024" "PAGE_TABLE_INDEX x < 1024"
proof -
  show "drop_bit 22 x = PAGE_DIRECTORY_INDEX x"
    unfolding PAGE_DIRECTORY_INDEX_def mask12 by (rule bit_word_eqI) (auto simp: bit_simps dest: bit_imp_le_length)
  show "drop_bit 12 (drop_bit 10 (push_bit 10 x)) = PAGE_TABLE_INDEX x"
    unfolding PAGE_TABLE_INDEX_def mask12 by (rule bit_word_eqI) (auto simp: bit_simps dest: bit_imp_le_length)
  show "PAGE_DIRECTORY_INDEX x < 1024" "PAGE_TABLE_INDEX x < 1024"
    unfolding PAGE_DIRECTORY_INDEX_def PAGE_TABLE_INDEX_def mask12
    by (simp_all add: take_bit_eq_mask [symmetric] word_less_nat_alt take_bit_eq_mod unat_mod)
qed

lemma same_page:
  "drop_bit 12 x = drop_bit 12 y \<longleftrightarrow> PAGE_DIRECTORY_INDEX x = PAGE_DIRECTORY_INDEX y \<and> PAGE_TABLE_INDEX x = PAGE_TABLE_INDEX (y :: u32)"
proof
  assume "drop_bit 12 x = drop_bit 12 y"
  moreover have "drop_bit 22 z = drop_bit 10 (drop_bit 12 z)" for z :: u32
    by simp
  ultimately show "PAGE_DIRECTORY_INDEX x = PAGE_DIRECTORY_INDEX y \<and> PAGE_TABLE_INDEX x = PAGE_TABLE_INDEX y"
    unfolding PAGE_DIRECTORY_INDEX_def PAGE_TABLE_INDEX_def by metis
next
  assume a: "PAGE_DIRECTORY_INDEX x = PAGE_DIRECTORY_INDEX y \<and> PAGE_TABLE_INDEX x = PAGE_TABLE_INDEX y"
  have *: "bit x n = bit y n" if "12 \<le> n" "n < 32" for n
  proof (cases "n < 22")
    case True
    have "bit (PAGE_TABLE_INDEX x) (n - 12) = bit (PAGE_TABLE_INDEX y) (n - 12)"
      using a by simp
    moreover have "n - 12 < 10" "n - 12 < 32"
      using True that by simp_all
    ultimately show ?thesis
      using that by (simp add: PAGE_TABLE_INDEX_def mask12 bit_simps)
  next
    case False
    have "bit (drop_bit 22 x) (n - 22) = bit (drop_bit 22 y) (n - 22)"
      using a unfolding index_simps(1) by simp
    then show ?thesis
      using False that by (simp add: bit_simps)
  qed
  have "bit x (12 + n) = bit y (12 + n)" for n
    using * [of "12 + n"] by (cases "n < 20") (auto dest: bit_imp_le_length)
  then show "drop_bit 12 x = drop_bit 12 y"
    by (intro bit_word_eqI) (simp add: bit_simps)
qed

lemma page_number:
  assumes "page_aligned a"
  obtains q where "unat a = 4096 * q" "q < 1048576"
proof -
  have "unat a mod 4096 = 0" "unat a < 4294967296"
    using assms unat_u32_less by (simp_all add: page_aligned_unat)
  then show thesis
    using that [of "unat a div 4096"] by (simp add: minus_mod_eq_mult_div [symmetric] less_mult_imp_div_less)
qed

lemma unat_entry:
  assumes "page_aligned a" "i < (1024 :: u32)"
  shows "unat (a + 4 * i) = unat a + 4 * unat i" "4 * unat i < 4096"
proof -
  have i: "unat i < 1024"
    using assms(2) by (simp add: word_less_nat_alt)
  then show "4 * unat i < 4096" by simp
  obtain q where "unat a = 4096 * q" "q < 1048576"
    using assms(1) by (rule page_number)
  then have "unat a + 4 * unat i < 4294967296"
    using i by linarith
  then show "unat (a + 4 * i) = unat a + 4 * unat i"
    using i by (simp add: unat_word_ariths)
qed

lemma entry_inj:
  assumes "page_aligned a" "page_aligned b" "i < (1024 :: u32)" "j < 1024"
  shows "a + 4 * i = b + 4 * j \<longleftrightarrow> a = b \<and> i = j"
proof
  assume eq: "a + 4 * i = b + 4 * j"
  obtain q where q: "unat a = 4096 * q" using assms(1) by (rule page_number)
  obtain r where r: "unat b = 4096 * r" using assms(2) by (rule page_number)
  have sum: "unat a + 4 * unat i = unat b + 4 * unat j"
    using eq unat_entry(1) [OF assms(1,3)] unat_entry(1) [OF assms(2,4)] by simp
  have "(4096 * q + 4 * unat i) div 4096 = q" "(4096 * r + 4 * unat j) div 4096 = r"
    using unat_entry(2) [OF assms(1,3)] unat_entry(2) [OF assms(2,4)] by simp_all
  then have "q = r"
    using sum q r by metis
  then show "a = b \<and> i = j"
    using sum q r by (simp add: word_unat_eq_iff)
qed simp

lemma entry_set [simp]:
  assumes "page_aligned a" "page_aligned b" "i < 1024" "j < 1024"
  shows "entry a i (set_entry b j x s) = (if a = b \<and> i = j then x else entry a i s)"
  using entry_inj [OF assms] by (simp add: entry_def set_entry_def)

lemma entry_clear [simp]:
  assumes "page_aligned a" "page_aligned b" "i < 1024"
  shows "entry a i (clear_page b s) = (if a = b then 0 else entry a i s)"
proof (cases "a = b")
  case True
  have "4 * i < 4096"
    using assms(3) unat_entry [OF assms(1,3)] by (simp add: word_less_nat_alt unat_word_ariths)
  then show ?thesis
    using True by (simp add: entry_def clear_page_def)
next
  case False
  have "\<not> a + 4 * i - b < 4096"
  proof
    assume lt: "a + 4 * i - b < 4096"
    obtain q where q: "unat a = 4096 * q" "q < 1048576" using assms(1) by (rule page_number)
    obtain r where r: "unat b = 4096 * r" "r < 1048576" using assms(2) by (rule page_number)
    have "unat (a + 4 * i - b) = (if unat b \<le> unat a + 4 * unat i then unat a + 4 * unat i - unat b
        else unat a + 4 * unat i + 4294967296 - unat b)"
      using unat_entry(1) [OF assms(1,3)] by (simp add: unat_sub_if')
    moreover have "unat (a + 4 * i - b) < 4096"
      using lt by (simp add: word_less_nat_alt)
    moreover have "q < r \<or> r < q"
      using False q r by (auto simp: word_unat_eq_iff)
    ultimately show False
      using q r unat_entry(2) [OF assms(1,3)] by (auto split: if_splits)
  qed
  then show ?thesis
    using False by (simp add: entry_def clear_page_def)
qed

section \<open>A page directory in order\<close>

abbreviation (input) table_of :: "u32 \<Rightarrow> u32 \<Rightarrow> vmm \<Rightarrow> u32" where
  "table_of dir i s \<equiv> entry dir i s AND NOT 0xfff"

text \<open>The directory and its tables lie in blocks that are not free, all of them different and none of them among the
  blocks \<open>R\<close> reserved for others.\<close>

definition vm_ok :: "nat set \<Rightarrow> u32 \<Rightarrow> vmm \<Rightarrow> bool" where
  "vm_ok R dir s \<longleftrightarrow> pmm_ok (pmm_state s) \<and> page_aligned dir \<and> fs.held (pmm_state s) dir \<and>
     (\<forall>i < 1024. entry dir i s \<noteq> 0 \<longrightarrow> table_of dir i s \<noteq> dir \<and> fs.held (pmm_state s) (table_of dir i s)) \<and>
     (\<forall>i < 1024. \<forall>j < 1024. entry dir i s \<noteq> 0 \<and> entry dir j s \<noteq> 0 \<and> table_of dir i s = table_of dir j s \<longrightarrow> i = j) \<and>
     R \<inter> free_set (pmm_state s) = {} \<and> unat dir div 4096 \<notin> R \<and>
     (\<forall>i < 1024. entry dir i s \<noteq> 0 \<longrightarrow> unat (table_of dir i s) div 4096 \<notin> R)"

lemma vm_okD:
  assumes "vm_ok R dir s"
  shows "pmm_ok (pmm_state s)" "page_aligned dir" "fs.held (pmm_state s) dir"
    "i < 1024 \<Longrightarrow> entry dir i s \<noteq> 0 \<Longrightarrow> table_of dir i s \<noteq> dir"
    "i < 1024 \<Longrightarrow> entry dir i s \<noteq> 0 \<Longrightarrow> fs.held (pmm_state s) (table_of dir i s)"
    "i < 1024 \<Longrightarrow> j < 1024 \<Longrightarrow> entry dir i s \<noteq> 0 \<Longrightarrow> entry dir j s \<noteq> 0 \<Longrightarrow> table_of dir i s = table_of dir j s \<longleftrightarrow> i = j"
    "R \<inter> free_set (pmm_state s) = {}" "unat dir div 4096 \<notin> R"
    "i < 1024 \<Longrightarrow> entry dir i s \<noteq> 0 \<Longrightarrow> unat (table_of dir i s) div 4096 \<notin> R"
  using assms unfolding vm_ok_def by blast+

lemma set_entry_pmm [simp]: "pmm_state (set_entry a i x s) = pmm_state s" "pmm_state (clear_page a s) = pmm_state s"
  by (simp_all add: set_entry_def clear_page_def)

lemma entry_pmm [simp]: "entry a i (s\<lparr>pmm_state := p\<rparr>) = entry a i s"
  by (simp add: entry_def)

lemma clear_page_pmm [simp]: "clear_page a (s\<lparr>pmm_state := p\<rparr>) = (clear_page a s)\<lparr>pmm_state := p\<rparr>"
  by (cases s) (simp add: clear_page_def cong: if_cong)

text \<open>A table of its own for a hole in the directory changes no translation.\<close>

lemma CreatePageTable_ok:
  assumes ok: "vm_ok R dir s" and hole: "entry dir (PAGE_DIRECTORY_INDEX virt) s = 0"
    and alloc: "AllocBlock (pmm_state s) = Some (a, p)" "a \<noteq> 0" and flags: "flags AND NOT 0xfff = 0"
  shows "\<exists>s'. CreatePageTable dir virt flags s = Some (True, s') \<and> vm_ok R dir s' \<and>
    (\<forall>i < 1024. i \<noteq> PAGE_DIRECTORY_INDEX virt \<longrightarrow> entry dir i s' = entry dir i s) \<and> entry dir (PAGE_DIRECTORY_INDEX virt) s' \<noteq> 0 \<and> (\<forall>va. GetPhysicalAddress dir va s' = GetPhysicalAddress dir va s) \<and>
    pmm_state s' = p"
proof -
  note D = vm_okD [OF ok] and K = fs.alloc_keeps [OF vm_okD(1) [OF ok] alloc(1)]
  have a: "page_aligned a" and N: "unat a div 4096 \<in> free_set (pmm_state s)" "free_set p \<subseteq> free_set (pmm_state s)"
    using fs.alloc_new [OF D(1) alloc] by (auto simp: page_aligned_unat)
  have da: "dir \<noteq> a"
    using K(4) [OF alloc(2) D(3)] .
  have ta: "table_of dir i s \<noteq> a" if "i < 1024" "entry dir i s \<noteq> 0" for i
    using K(4) [OF alloc(2) D(5) [OF that]] .
  let ?j = "PAGE_DIRECTORY_INDEX virt"
  let ?s = "set_entry dir ?j (a OR flags) ((clear_page a s)\<lparr>pmm_state := p\<rparr>)"
  have flag: "(a OR flags) AND NOT 0xfff = a" "a OR flags \<noteq> 0"
    using mask_flags [OF a flags] alloc(2) by auto
  have e: "entry dir i ?s = (if i = ?j then a OR flags else entry dir i s)" if "i < 1024" for i
    using that D(2) a da index_simps(3) by simp
  have t: "entry b i ?s = (if b = a then 0 else entry b i s)" if "page_aligned b" "b \<noteq> dir" "i < 1024" for b i
    using that D(2) a index_simps(3) by simp
  have "GetPhysicalAddress dir va ?s = GetPhysicalAddress dir va s" for va
  proof (cases "PAGE_DIRECTORY_INDEX va = ?j")
    case True
    then show ?thesis
      using e [OF index_simps(3)] t [OF a _ index_simps(4)] da flag hole by (simp add: GetPhysicalAddress_def Let_def)
  next
    case False
    then show ?thesis
      using e [OF index_simps(3)] t [OF page_aligned_mask _ index_simps(4)] D(4) [OF index_simps(3)] ta [OF index_simps(3)]
      by (simp add: GetPhysicalAddress_def Let_def)
  qed
  moreover have "vm_ok R dir ?s"
    unfolding vm_ok_def
  proof (intro conjI allI impI)
    show "pmm_ok (pmm_state ?s)" "page_aligned dir" "fs.held (pmm_state ?s) dir"
      using K(1,2) D by simp_all
    show "table_of dir i ?s \<noteq> dir" "fs.held (pmm_state ?s) (table_of dir i ?s)" if "i < 1024" "entry dir i ?s \<noteq> 0" for i
      using that e flag da D(4,5) K(2,3) alloc(2) by (auto split: if_splits)
    show "i = j" if "i < 1024" "j < 1024" "entry dir i ?s \<noteq> 0 \<and> entry dir j ?s \<noteq> 0 \<and> table_of dir i ?s = table_of dir j ?s" for i j
      using that e flag ta D(6) by (auto split: if_splits)
    show "R \<inter> free_set (pmm_state ?s) = {}" "unat dir div 4096 \<notin> R"
      using D(7,8) N by auto
    show "unat (table_of dir i ?s) div 4096 \<notin> R" if "i < 1024" "entry dir i ?s \<noteq> 0" for i
      using that e flag D(7,9) N by (auto split: if_splits)
  qed
  moreover have "\<forall>i < 1024. i \<noteq> ?j \<longrightarrow> entry dir i ?s = entry dir i s"
    using e by simp
  moreover have "CreatePageTable dir virt flags s = Some (True, ?s)"
    using hole alloc by (simp add: CreatePageTable_def vm_alloc_def)
  ultimately show ?thesis
    using e [OF index_simps(3)] flag by (intro exI [of _ ?s]) simp
qed

text \<open>Filling an entry of an existing table changes the translation of its page only.\<close>

lemma set_table_ok:
  assumes ok: "vm_ok R dir s" and pde: "entry dir (PAGE_DIRECTORY_INDEX virt) s \<noteq> 0"
    and phys: "page_aligned phys" "flags AND NOT 0xfff = 0" "phys OR flags \<noteq> 0"
    and s': "s' = set_entry (table_of dir (PAGE_DIRECTORY_INDEX virt) s) (PAGE_TABLE_INDEX virt) (phys OR flags) s"
  shows "vm_ok R dir s'" "GetPhysicalAddress dir va s' =
    (if drop_bit 12 va = drop_bit 12 virt then phys + PAGE_GET_OFFSET va else GetPhysicalAddress dir va s)"
proof -
  note D = vm_okD [OF ok]
  let ?pt = "table_of dir (PAGE_DIRECTORY_INDEX virt) s"
  have dir: "entry dir i s' = entry dir i s" if "i < 1024" for i
    using that D(2) D(4) [OF index_simps(3) pde] index_simps(4) unfolding s' by auto
  have t: "entry b i s' = (if b = ?pt \<and> i = PAGE_TABLE_INDEX virt then phys OR flags else entry b i s)"
    if "page_aligned b" "i < 1024" for b i
    using that index_simps(4) unfolding s' by simp
  show "vm_ok R dir s'"
    using ok dir unfolding vm_ok_def by (simp add: s')
  show "GetPhysicalAddress dir va s' =
    (if drop_bit 12 va = drop_bit 12 virt then phys + PAGE_GET_OFFSET va else GetPhysicalAddress dir va s)"
  proof (cases "drop_bit 12 va = drop_bit 12 virt")
    case True
    then show ?thesis
      using dir [OF index_simps(3)] t [OF page_aligned_mask index_simps(4)] pde phys(3) mask_flags(1) [OF phys(1,2)]
      unfolding same_page by (simp add: GetPhysicalAddress_def Let_def)
  next
    case False
    moreover have "table_of dir (PAGE_DIRECTORY_INDEX va) s \<noteq> ?pt \<or> PAGE_TABLE_INDEX va \<noteq> PAGE_TABLE_INDEX virt"
      if "entry dir (PAGE_DIRECTORY_INDEX va) s \<noteq> 0"
      using False D(6) [OF index_simps(3) index_simps(3) that pde] unfolding same_page by blast
    ultimately show ?thesis
      using dir [OF index_simps(3)] t [OF page_aligned_mask index_simps(4)] by (auto simp: GetPhysicalAddress_def Let_def)
  qed
qed

text \<open>Blocks the page tables can still get: those below the end of the whole words.  Block 0 must not be free: its
  address is \<open>NULL\<close>.\<close>

definition room :: "pmm \<Rightarrow> nat set" where "room p = free_set p \<inter> {..<whole_blocks p}"

lemma AllocBlock_room:
  assumes ok: "pmm_ok p" and z: "0 \<notin> free_set p" and r: "room p \<noteq> {}"
  shows "\<exists>a p'. AllocBlock p = Some (a, p') \<and> a \<noteq> 0 \<and> 0 \<notin> free_set p' \<and> card (room p) \<le> Suc (card (room p'))"
proof -
  obtain b where b: "b = (LEAST b. free_run p 1 b)" by blast
  obtain c where "c \<in> free_set p" "c < whole_blocks p"
    using r by (auto simp: room_def)
  then have ex: "\<exists>b < whole_blocks p. free_run p 1 b"
    using free_run_iff [OF ok, of 1 c] by auto
  obtain p' where p': "AllocBlock p = Some (of_nat b * PMM_BLOCK_SIZE, p')" "free_run p 1 b" "free_set p' = free_set p - {b}"
      "m_maxBlocks p' = m_maxBlocks p"
    unfolding b using AllocBlock_spec [OF ok] ex by auto
  have "b \<in> free_set p" "b < 2 ^ 20"
    using free_run_set [OF ok p'(2)] by auto
  then have "of_nat b * PMM_BLOCK_SIZE \<noteq> (0 :: u32)"
    using z unat_frame_addr [of b] by (auto simp: neq0_conv)
  moreover have "room p \<subseteq> insert b (room p')"
    using p'(3,4) by (auto simp: room_def whole_blocks_def)
  then have "card (room p) \<le> Suc (card (room p'))"
    using card_mono [of "insert b (room p')" "room p"] card_insert_le_m1 [of "Suc (card (room p'))" "room p'" b]
    by (simp add: room_def)
  ultimately show ?thesis
    using p' z by auto
qed

lemma map_page:
  assumes ok: "vm_ok R dir s" and z: "0 \<notin> free_set (pmm_state s)"
    and avail: "entry dir (PAGE_DIRECTORY_INDEX virt) s = 0 \<Longrightarrow> room (pmm_state s) \<noteq> {}"
    and phys: "page_aligned phys" "flags AND NOT 0xfff = 0" "phys OR flags \<noteq> 0"
  shows "\<exists>s'. MapPhysicalAddressToVirtualAddresss dir virt phys flags s = Some s' \<and> vm_ok R dir s' \<and>
    0 \<notin> free_set (pmm_state s') \<and>
    (\<forall>va. GetPhysicalAddress dir va s' =
       (if drop_bit 12 va = drop_bit 12 virt then phys + PAGE_GET_OFFSET va else GetPhysicalAddress dir va s)) \<and>
    (\<forall>i < 1024. entry dir i s' = 0 \<longleftrightarrow> entry dir i s = 0 \<and> i \<noteq> PAGE_DIRECTORY_INDEX virt) \<and>
    card (room (pmm_state s)) \<le> card (room (pmm_state s')) + (if entry dir (PAGE_DIRECTORY_INDEX virt) s = 0 then 1 else 0)"
proof -
  let ?j = "PAGE_DIRECTORY_INDEX virt"
  obtain s1 where s1: "(if entry dir ?j s = 0 then map_option snd (CreatePageTable dir virt flags s) else Some s) = Some s1"
      "vm_ok R dir s1" "entry dir ?j s1 \<noteq> 0" "\<forall>va. GetPhysicalAddress dir va s1 = GetPhysicalAddress dir va s"
      "0 \<notin> free_set (pmm_state s1)" "\<forall>i < 1024. entry dir i s1 = 0 \<longleftrightarrow> entry dir i s = 0 \<and> i \<noteq> ?j"
      "card (room (pmm_state s)) \<le> card (room (pmm_state s1)) + (if entry dir ?j s = 0 then 1 else 0)"
  proof (cases "entry dir ?j s = 0")
    case True
    obtain a p where a: "AllocBlock (pmm_state s) = Some (a, p)" "a \<noteq> 0" "0 \<notin> free_set p"
        "card (room (pmm_state s)) \<le> Suc (card (room p))"
      using AllocBlock_room [OF vm_okD(1) [OF ok] z avail [OF True]] by blast
    obtain s1 where c: "CreatePageTable dir virt flags s = Some (True, s1)" "vm_ok R dir s1" "entry dir ?j s1 \<noteq> 0"
        "\<forall>va. GetPhysicalAddress dir va s1 = GetPhysicalAddress dir va s" "pmm_state s1 = p"
        "\<forall>i < 1024. i \<noteq> ?j \<longrightarrow> entry dir i s1 = entry dir i s"
      using CreatePageTable_ok [OF ok True a(1,2) phys(2)] by blast
    have "entry dir i s1 = 0 \<longleftrightarrow> entry dir i s = 0 \<and> i \<noteq> ?j" if "i < 1024" for i
      using that c(3,6) by metis
    then show ?thesis
      using that [of s1] True a c by simp
  next
    case False
    then show ?thesis
      using that [of s] ok z by auto
  qed
  let ?s = "set_entry (table_of dir ?j s1) (PAGE_TABLE_INDEX virt) (phys OR flags) s1"
  note T = set_table_ok [OF s1(2,3) phys refl]
  have "MapPhysicalAddressToVirtualAddresss dir virt phys flags s = Some ?s"
    unfolding MapPhysicalAddressToVirtualAddresss_def index_simps(2) index_simps(1) using s1(1) by simp
  moreover have "entry dir i ?s = entry dir i s1" if "i < 1024" for i
    using that vm_okD(2) [OF s1(2)] vm_okD(4) [OF s1(2) index_simps(3) s1(3)] index_simps(4) by auto
  ultimately show ?thesis
    using T s1 by auto
qed

text \<open>The directory slots without a table among \<open>n\<close> pages.\<close>

definition holes :: "u32 \<Rightarrow> u32 \<Rightarrow> nat \<Rightarrow> vmm \<Rightarrow> u32 set" where
  "holes dir virt n s = {i. i < 1024 \<and> entry dir i s = 0 \<and> i \<in> (\<lambda>k. PAGE_DIRECTORY_INDEX (virt + of_nat k * 4096)) ` {..<n}}"

lemma page_aligned_add: "page_aligned a \<Longrightarrow> page_aligned (a + of_nat k * 4096)"
  by (simp add: page_aligned_unat unat_word_ariths mod_simps mod_mod_cancel)

lemma aligned_page_eq:
  assumes "page_aligned a" "page_aligned b" "drop_bit 12 a = drop_bit 12 b"
  shows "a = b"
proof -
  have "unat a div 4096 = unat b div 4096"
    using arg_cong [OF assms(3), of unat] by (simp add: drop_bit_eq_div unat_div)
  then have "unat a = unat b"
    using assms(1,2) unfolding page_aligned_unat by (metis div_mult_mod_eq)
  then show ?thesis
    by (rule unat_inj)
qed

lemma pages_distinct:
  assumes "page_aligned a" "j < 2 ^ 20" "k < 2 ^ 20" "drop_bit 12 (a + of_nat j * 4096) = drop_bit 12 (a + of_nat k * 4096)"
  shows "j = k"
proof -
  have "a + of_nat j * 4096 = a + of_nat k * 4096"
    using aligned_page_eq [OF page_aligned_add [OF assms(1)] page_aligned_add [OF assms(1)] assms(4)] .
  then have "(of_nat j * PMM_BLOCK_SIZE :: u32) = of_nat k * PMM_BLOCK_SIZE"
    by simp
  then have "j * 4096 = k * 4096"
    using unat_frame_addr [OF assms(2)] unat_frame_addr [OF assms(3)] by metis
  then show ?thesis
    by simp
qed

lemma map_pages_spec:
  assumes "vm_ok R dir s" "0 \<notin> free_set (pmm_state s)" "page_aligned virt" "page_aligned phys" "n \<le> 2 ^ 20"
    and "card (holes dir virt n s) \<le> card (room (pmm_state s))"
  shows "\<exists>s'. map_pages dir virt phys n s = Some s' \<and> vm_ok R dir s' \<and>
    (\<forall>k < n. \<forall>va. drop_bit 12 va = drop_bit 12 (virt + of_nat k * 4096) \<longrightarrow>
       GetPhysicalAddress dir va s' = phys + of_nat k * 4096 + PAGE_GET_OFFSET va) \<and>
    (\<forall>va. (\<forall>k < n. drop_bit 12 va \<noteq> drop_bit 12 (virt + of_nat k * 4096)) \<longrightarrow>
       GetPhysicalAddress dir va s' = GetPhysicalAddress dir va s)"
  using assms
proof (induction n arbitrary: virt phys s)
  case (Suc n)
  let ?j = "PAGE_DIRECTORY_INDEX virt" and ?f = "I86_PTE_PRESENT OR I86_PTE_WRITABLE"
  have fin: "finite (holes dir virt (Suc n) s)" "finite (room (pmm_state s))"
    by (auto simp: holes_def room_def)
  have hj: "?j \<in> holes dir virt (Suc n) s" if "entry dir ?j s = 0"
    using that index_simps(3) by (auto simp: holes_def intro!: image_eqI [of _ _ 0])
  have avail: "entry dir ?j s = 0 \<Longrightarrow> room (pmm_state s) \<noteq> {}"
    using hj Suc.prems(6) fin by (metis card_eq_0_iff empty_iff le_zero_eq)
  have "?f AND NOT 0xfff = 0" "phys OR ?f \<noteq> 0"
    by (simp, auto simp: bit_eq_iff bit_simps intro!: exI [of _ 0])
  then obtain s1 where s1: "MapPhysicalAddressToVirtualAddresss dir virt phys ?f s = Some s1" "vm_ok R dir s1"
      "0 \<notin> free_set (pmm_state s1)"
      "\<And>va. GetPhysicalAddress dir va s1 =
         (if drop_bit 12 va = drop_bit 12 virt then phys + PAGE_GET_OFFSET va else GetPhysicalAddress dir va s)"
      "\<And>i. i < 1024 \<Longrightarrow> entry dir i s1 = 0 \<longleftrightarrow> entry dir i s = 0 \<and> i \<noteq> ?j"
      "card (room (pmm_state s)) \<le> card (room (pmm_state s1)) + (if entry dir ?j s = 0 then 1 else 0)"
    using map_page [OF Suc.prems(1,2) avail Suc.prems(4), where flags = ?f] by blast
  have shift: "virt + 4096 + of_nat k * 4096 = virt + of_nat (Suc k) * 4096" for k
    by (simp add: algebra_simps)
  have "holes dir (virt + 4096) n s1 \<subseteq> holes dir virt (Suc n) s - {?j}"
  proof
    fix i
    assume "i \<in> holes dir (virt + 4096) n s1"
    then obtain k where k: "i < 1024" "entry dir i s1 = 0" "k < n" "i = PAGE_DIRECTORY_INDEX (virt + of_nat (Suc k) * 4096)"
      unfolding holes_def shift by blast
    then have "i \<in> (\<lambda>k. PAGE_DIRECTORY_INDEX (virt + of_nat k * 4096)) ` {..<Suc n}"
      by blast
    then show "i \<in> holes dir virt (Suc n) s - {?j}"
      using k s1(5) [OF k(1)] by (simp add: holes_def)
  qed
  then have "card (holes dir (virt + 4096) n s1) \<le> card (holes dir virt (Suc n) s - {?j})"
    using fin by (intro card_mono) auto
  moreover have "card (holes dir virt (Suc n) s - {?j}) \<le> card (room (pmm_state s1))"
    using hj s1(6) Suc.prems(6) fin by (cases "entry dir ?j s = 0") (auto simp: holes_def)
  ultimately obtain s' where s': "map_pages dir (virt + 4096) (phys + 4096) n s1 = Some s'" "vm_ok R dir s'"
      "\<And>k va. k < n \<Longrightarrow> drop_bit 12 va = drop_bit 12 (virt + of_nat (Suc k) * 4096) \<Longrightarrow>
         GetPhysicalAddress dir va s' = phys + of_nat (Suc k) * 4096 + PAGE_GET_OFFSET va"
      "\<And>va. (\<And>k. k < n \<Longrightarrow> drop_bit 12 va \<noteq> drop_bit 12 (virt + of_nat (Suc k) * 4096)) \<Longrightarrow>
         GetPhysicalAddress dir va s' = GetPhysicalAddress dir va s1"
    using Suc.IH [OF s1(2,3), of "virt + 4096" "phys + 4096"] page_aligned_add [OF Suc.prems(3), of 1]
      page_aligned_add [OF Suc.prems(4), of 1] Suc.prems(5)
    unfolding shift by (auto simp: algebra_simps)
  have first: "drop_bit 12 virt \<noteq> drop_bit 12 (virt + of_nat (Suc k) * 4096)" if "k < n" for k
    using pages_distinct [OF Suc.prems(3), of 0 "Suc k"] that Suc.prems(5) by auto
  have "GetPhysicalAddress dir va s' = phys + of_nat k * 4096 + PAGE_GET_OFFSET va"
    if "k < Suc n" "drop_bit 12 va = drop_bit 12 (virt + of_nat k * 4096)" for k va
    using that s'(3) s'(4) [of va] s1(4) [of va] first by (cases k) auto
  moreover have "GetPhysicalAddress dir va s' = GetPhysicalAddress dir va s"
    if "\<forall>k < Suc n. drop_bit 12 va \<noteq> drop_bit 12 (virt + of_nat k * 4096)" for va
    using that s'(4) [of va] s1(4) [of va] by (metis Suc_mono add.right_neutral mult_zero_left of_nat_0 zero_less_Suc)
  ultimately show ?case
    using s1(1) s'(1,2) by simp
qed simp

section \<open>What mapping promises\<close>

text \<open>A directory in the first block of the small machine, empty.\<close>

lemma small_directory:
  obtains s where "vm_ok {} 0x1000 s" "\<And>i. entry 0x1000 i s = 0" "room (pmm_state s) = {2..<64}"
    "free_set (pmm_state s) = {2..<64}"
proof -
  obtain l p where p: "pmm_ok p" "free_set p = {1..<64}" "unat (m_maxBlocks p) = 64"
    by (rule small_start)
  have one: "free_run p 1 c \<longleftrightarrow> c \<in> {1..<64}" for c
    using free_run_iff [OF p(1), of 1 c] p(2) by auto
  have least: "(LEAST c. free_run p 1 c) = 1"
    unfolding one by (rule Least_equality) auto
  have eq: "{1..<64} - {1} = {2..<64 :: nat}"
    by auto
  have "\<exists>b < whole_blocks p. free_run p 1 b"
    using one p(3) by (intro exI [of _ 1]) (simp add: whole_blocks_def)
  then obtain p' where p': "AllocBlock p = Some (0x1000, p')" "pmm_ok p'" "free_set p' = {2..<64}" "m_maxBlocks p' = m_maxBlocks p"
    using AllocBlock_spec [OF p(1)] least p(2) eq by auto
  let ?s = "\<lparr>pmm_state = p', ram = (\<lambda>a. 0), kernel_directory = 0x1000, cur_directory = 0, cr3 = 0, g_pte = 0, layout = small_layout\<rparr>"
  have "vm_ok {} 0x1000 ?s"
    using p' by (simp add: vm_ok_def entry_def fs.held_def page_aligned_def)
  moreover have "room p' = {2..<64}"
    using p' p(3) by (auto simp: room_def whole_blocks_def)
  ultimately show thesis
    using that [of ?s] p'(3) by (simp add: entry_def)
qed



text \<open>C13: \<open>MapAddress\<close> backs a range with fresh memory: page \<open>k\<close> of the range translates to block \<open>k\<close> of one run of
  physical blocks that were free, no page table lies in that run, and no other translation changes, provided
  there are blocks enough for the page tables that are missing.\<close>

theorem MapAddress_maps:
  assumes "vm_ok {} dir s" "0 \<notin> free_set (pmm_state s)" "page_aligned start" "0 < n"
    and alloc: "AllocBlocks n (pmm_state s) = Some (mem, p)" "mem \<noteq> 0"
    and space: "card (holes dir start (unat n) s) \<le> card (room p)"
  shows "\<exists>s'. MapAddress dir start n s = Some (True, s') \<and>
    {unat mem div 4096..<unat mem div 4096 + unat n} \<subseteq> free_set (pmm_state s) \<and>
    vm_ok {unat mem div 4096..<unat mem div 4096 + unat n} dir s' \<and>
    (\<forall>k < unat n. \<forall>va. drop_bit 12 va = drop_bit 12 (start + of_nat k * 4096) \<longrightarrow>
       GetPhysicalAddress dir va s' = mem + of_nat k * 4096 + PAGE_GET_OFFSET va) \<and>
    (\<forall>va. (\<forall>k < unat n. drop_bit 12 va \<noteq> drop_bit 12 (start + of_nat k * 4096)) \<longrightarrow>
       GetPhysicalAddress dir va s' = GetPhysicalAddress dir va s)"
proof -
  note D = vm_okD [OF assms(1)]
  have n: "0 < unat n"
    using assms(4) by (simp add: unat_gt_0 word_gt_0)
  obtain b where b: "b = (LEAST b. free_run (pmm_state s) (unat n) b)" by blast
  have r: "mem = of_nat b * PMM_BLOCK_SIZE" "free_run (pmm_state s) (unat n) b" "pmm_ok p"
      "free_set p = free_set (pmm_state s) - {b..<b + unat n}"
    unfolding b using AllocBlocks_spec [OF D(1) n] alloc by (auto split: if_splits)
  note run = free_run_set [OF D(1) r(2)]
  have bd: "unat mem div 4096 = b" "page_aligned mem"
    using unat_frame_addr [of b] run(2) n unfolding r(1) by (simp_all add: page_aligned_unat)
  let ?s = "s\<lparr>pmm_state := p\<rparr>" and ?R = "{b..<b + unat n}"
  have held: "unat x div 4096 \<notin> ?R" if "fs.held (pmm_state s) x" for x
    using that run(1) by (auto simp: fs.held_def)
  have "vm_ok ?R dir ?s"
    unfolding vm_ok_def
  proof (intro conjI allI impI)
    show "pmm_ok (pmm_state ?s)" "page_aligned dir" "?R \<inter> free_set (pmm_state ?s) = {}"
      using D(2) r(3,4) by auto
    show "fs.held (pmm_state ?s) dir" "unat dir div 4096 \<notin> ?R"
      using D(3) held r(4) by (auto simp: fs.held_def)
    show "table_of dir i ?s \<noteq> dir" "fs.held (pmm_state ?s) (table_of dir i ?s)" "unat (table_of dir i ?s) div 4096 \<notin> ?R"
      if "i < 1024" "entry dir i ?s \<noteq> 0" for i
      using that D(4,5) held r(4) by (auto simp: fs.held_def)
    show "i = j" if "i < 1024" "j < 1024" "entry dir i ?s \<noteq> 0 \<and> entry dir j ?s \<noteq> 0 \<and> table_of dir i ?s = table_of dir j ?s" for i j
      using that D(6) by auto
  qed
  moreover have "unat n \<le> 2 ^ 20"
    using run(2) by simp
  moreover have "holes dir start (unat n) ?s = holes dir start (unat n) s" "GetPhysicalAddress dir va ?s = GetPhysicalAddress dir va s" for va
    by (simp_all add: holes_def GetPhysicalAddress_def Let_def)
  ultimately obtain s' where "map_pages dir start mem (unat n) ?s = Some s'" "vm_ok ?R dir s'"
      "\<forall>k < unat n. \<forall>va. drop_bit 12 va = drop_bit 12 (start + of_nat k * 4096) \<longrightarrow>
         GetPhysicalAddress dir va s' = mem + of_nat k * 4096 + PAGE_GET_OFFSET va"
      "\<forall>va. (\<forall>k < unat n. drop_bit 12 va \<noteq> drop_bit 12 (start + of_nat k * 4096)) \<longrightarrow>
         GetPhysicalAddress dir va s' = GetPhysicalAddress dir va s"
    using map_pages_spec [of ?R dir ?s start mem "unat n"] assms(2,3) space bd(2) r(4) by auto
  then show ?thesis
    using alloc run(1) bd(1) by (simp add: MapAddress_def vm_allocs_def)
qed

theorem MapAddress_maps_witness:
  "\<exists>s s' mem. MapAddress 0x1000 0xc0104000 3 s = Some (True, s') \<and>
    GetPhysicalAddress 0x1000 0xc0105008 s' = mem + 0x1008 \<and> GetPhysicalAddress 0x1000 0xc0107000 s' = 0"
proof -
  obtain s where s: "vm_ok {} 0x1000 s" "\<And>i. entry 0x1000 i s = 0" "room (pmm_state s) = {2..<64}"
      "free_set (pmm_state s) = {2..<64}"
    by (rule small_directory) (rule that)
  note ok = vm_okD(1) [OF s(1)]
  have run: "free_run (pmm_state s) 3 c \<longleftrightarrow> {c..<c + 3} \<subseteq> {2..<64}" for c
    using free_run_iff [OF ok, of 3 c] s(4) by simp
  obtain b where b: "b = (LEAST b. free_run (pmm_state s) 3 b)" by blast
  have two: "free_run (pmm_state s) 3 2" "2 < whole_blocks (pmm_state s)"
    using s(3) run by (auto simp: room_def)
  then obtain p where p: "AllocBlocks 3 (pmm_state s) = Some (of_nat b * PMM_BLOCK_SIZE, p)" "free_run (pmm_state s) 3 b"
      "free_set p = {2..<64} - {b..<b + 3}" "m_maxBlocks p = m_maxBlocks (pmm_state s)"
    unfolding b using AllocBlocks_spec [OF ok, of 3] s(4) by (auto split: if_splits)
  have bb: "b \<le> 2" "2 \<le> b"
    unfolding b by (rule Least_le [of "free_run (pmm_state s) 3", OF two(1)]) (use p(2) run [of b] b in auto)
  then have mem: "of_nat b * PMM_BLOCK_SIZE \<noteq> (0 :: u32)"
    by simp
  have "room p = {5..<64}"
    using s(3) p(3,4) bb by (auto simp: room_def whole_blocks_def)
  moreover have "card (holes 0x1000 0xc0104000 3 s) \<le> 3"
  proof -
    let ?f = "\<lambda>k :: nat. PAGE_DIRECTORY_INDEX (0xc0104000 + of_nat k * 4096)"
    have "card (holes 0x1000 0xc0104000 3 s) \<le> card (?f ` {..<3})"
      by (rule card_mono) (auto simp: holes_def)
    also have "\<dots> \<le> card {..<3 :: nat}"
      by (rule card_image_le) simp
    finally show ?thesis by simp
  qed
  ultimately obtain s' where s': "MapAddress 0x1000 0xc0104000 3 s = Some (True, s')"
      "\<And>k va. k < 3 \<Longrightarrow> drop_bit 12 va = drop_bit 12 (0xc0104000 + of_nat k * 4096) \<Longrightarrow>
         GetPhysicalAddress 0x1000 va s' = of_nat b * PMM_BLOCK_SIZE + of_nat k * 4096 + PAGE_GET_OFFSET va"
      "\<And>va. (\<forall>k < 3. drop_bit 12 va \<noteq> drop_bit 12 (0xc0104000 + of_nat k * 4096)) \<Longrightarrow>
         GetPhysicalAddress 0x1000 va s' = GetPhysicalAddress 0x1000 va s"
    using MapAddress_maps [OF s(1) _ _ _ p(1) mem, of "0xc0104000"] s(4) by (auto simp: page_aligned_def)
  have "GetPhysicalAddress 0x1000 0xc0105008 s' = of_nat b * PMM_BLOCK_SIZE + 0x1008"
    using s'(2) [of 1 "0xc0105008"] by (simp add: PAGE_GET_OFFSET_def)
  moreover have "GetPhysicalAddress 0x1000 0xc0107000 s' = 0"
    using s'(3) [of "0xc0107000"] s(2) by (simp add: GetPhysicalAddress_def Let_def less_Suc_eq numeral_3_eq_3)
  ultimately show ?thesis
    using s'(1) by blast
qed

section \<open>Where mapping leaves its promises\<close>

text \<open>Unmapping one page gives back the whole page table: every page of its 4 MB loses its translation, while the
  memory behind the pages stays marked in use.\<close>

theorem UnmapAddress_drops_neighbours:
  assumes "vm_ok R dir s" "entry dir (PAGE_DIRECTORY_INDEX virt) s \<noteq> 0" "UnmapAddress dir virt 1 s = Some (r, s')"
    and "PAGE_DIRECTORY_INDEX va = PAGE_DIRECTORY_INDEX virt"
  shows "r \<and> GetPhysicalAddress dir va s' = 0"
proof -
  note D = vm_okD [OF assms(1)]
  obtain p where "s' = set_entry dir (PAGE_DIRECTORY_INDEX virt) 0 (s\<lparr>pmm_state := p\<rparr>)" "r"
    using assms(2,3) unfolding UnmapAddress_def One_nat_def unat_1 unmap_pages.simps UnmapPhysicalAddress_def UnmapPageTable_def
      vm_free_def index_simps(1) by (auto simp: numeral_eq_Suc split: if_splits)
  then show ?thesis
    using assms(4) D(2) index_simps(3) by (simp add: GetPhysicalAddress_def)
qed

text \<open>Mapping a page when no block is left for its table: the entry goes to the word at address 0 plus four times the
  index, in physical page 0, and the page stays unmapped.\<close>

theorem map_without_table:
  assumes "vm_ok R dir s" "0x1000 \<le> dir" "entry dir (PAGE_DIRECTORY_INDEX virt) s = 0" "AllocBlock (pmm_state s) = Some (0, p)"
  shows "\<exists>s'. MapPhysicalAddressToVirtualAddresss dir virt phys flags s = Some s' \<and>
    ram s' (4 * PAGE_TABLE_INDEX virt) = phys OR flags \<and> GetPhysicalAddress dir virt s' = 0"
proof -
  note D = vm_okD [OF assms(1)]
  let ?s = "set_entry 0 (PAGE_TABLE_INDEX virt) (phys OR flags) (s\<lparr>pmm_state := p\<rparr>)"
  have "MapPhysicalAddressToVirtualAddresss dir virt phys flags s = Some ?s"
    unfolding MapPhysicalAddressToVirtualAddresss_def index_simps(2) index_simps(1)
    using assms(3,4) by (simp add: CreatePageTable_def vm_alloc_def)
  moreover have "dir \<noteq> 0" "page_aligned 0"
    using assms(2) by (auto simp: page_aligned_def)
  then have "GetPhysicalAddress dir virt ?s = 0"
    using D(2) assms(3) index_simps(3,4) by (simp add: GetPhysicalAddress_def)
  ultimately show ?thesis
    by (simp add: set_entry_def)
qed

text \<open>The frame masks stop at bit 30: giving back a page table above 2 GB frees a block below.\<close>

theorem frame_mask_short: "(0x80001000 OR 3) AND I86_PTE_FRAME = 0x1000" "GetFrame (SetFrame 0 0x80001000) = 0x1000"
  by (simp_all add: GetFrame_def SetFrame_def)

text \<open>The boot stack's top is the address of its last byte, so the page count rounds down: of its four pages the last,
  where the stack begins, is not mapped.\<close>

theorem boot_stack_short:
  "(bootStackTop (BuildKernelMemoryLayout m n l) - bootStackBase (BuildKernelMemoryLayout m n l)) div 4096 = 3"
  "k < 3 \<Longrightarrow> drop_bit 12 (bootStackTop (BuildKernelMemoryLayout m n l)) \<noteq>
    drop_bit 12 (bootStackBase (BuildKernelMemoryLayout m n l) + of_nat k * 4096)"
  by (auto simp: BuildKernelMemoryLayout_def less_Suc_eq numeral_3_eq_3)

text \<open>A range that ends with the address space is mapped for ever.\<close>

theorem MapDMAAddress_endless: "MapDMAAddress pd va pa 0xffffffff s = None"
proof -
  have "e \<noteq> 0xffffffff" if "MapDMAAddress pd va pa e s = Some r" for e r
    using that
  proof (rule MapDMAAddress.raw_induct [where P = "\<lambda>pd va pa e s r. e \<noteq> 0xffffffff", rotated])
    fix f :: "u32 \<Rightarrow> u32 \<Rightarrow> u32 \<Rightarrow> u32 \<Rightarrow> vmm \<Rightarrow> (bool \<times> vmm) option" and pd va pa e s r
    assume IH: "\<And>pd va pa e s r. f pd va pa e s = Some r \<Longrightarrow> e \<noteq> 0xffffffff"
      and run: "(if va \<le> e then MapPhysicalAddressToVirtualAddresss pd va pa (I86_PTE_PRESENT OR I86_PTE_WRITABLE) s \<bind>
          (\<lambda>s1. f pd (va + 0x1000) (pa + 0x1000) e s1) else Some (True, s)) = Some r"
    show "e \<noteq> 0xffffffff"
    proof
      assume e: "e = 0xffffffff"
      then have "va \<le> e"
        using unat_u32_less [of va] by (simp add: word_le_nat_alt)
      then obtain x where "f pd (va + 0x1000) (pa + 0x1000) e x = Some r"
        using run by (auto split: bind_splits)
      then show False
        using IH e by blast
    qed
  qed
  then show ?thesis
    by (cases "MapDMAAddress pd va pa 0xffffffff s") auto
qed

end
