(* ===== verification/Ordered_Array.thy ===== *)
theory Ordered_Array
  imports Net_Prelude
begin

text \<open>
  \<^verbatim>\<open>SkyCore/Heap/ordered_array.cpp\<close>: the insertion-sorted array that indexes the holes of a heap.  The array is a
  function from positions to items, and the ordering a parameter, as in the code.  \<open>max_size\<close> is never looked at
  there; an insertion that would write behind the array is \<open>None\<close>.
\<close>

record ordered_array =
  oa_array :: "nat \<Rightarrow> u32"
  oa_size :: nat
  oa_max_size :: nat

definition standard_lessthan_predicate :: "u32 \<Rightarrow> u32 \<Rightarrow> bool" where
  "standard_lessthan_predicate a b \<longleftrightarrow> a < b"

text \<open>\<open>create_ordered_array\<close> differs from \<open>place_ordered_array\<close> in where the array lies.\<close>

definition place_ordered_array :: "nat \<Rightarrow> ordered_array" where
  "place_ordered_array max_size = \<lparr>oa_array = (\<lambda>i. 0), oa_size = 0, oa_max_size = max_size\<rparr>"

function insert_position :: "(u32 \<Rightarrow> u32 \<Rightarrow> bool) \<Rightarrow> u32 \<Rightarrow> ordered_array \<Rightarrow> nat \<Rightarrow> nat" where
  "insert_position lt item a i =
     (if i < oa_size a \<and> lt (oa_array a i) item then insert_position lt item a (Suc i) else i)"
  by auto
termination by (relation "measure (\<lambda>(lt, x, a, i). oa_size a - i)") auto

text \<open>The loop that moves everything from \<open>i\<close> on up by one, \<open>tmp\<close> being the item taken out last.\<close>

function shift_up :: "nat \<Rightarrow> nat \<Rightarrow> u32 \<Rightarrow> (nat \<Rightarrow> u32) \<Rightarrow> nat \<Rightarrow> u32" where
  "shift_up i n tmp arr = (if i < n then shift_up (Suc i) n (arr (Suc i)) (arr(Suc i := tmp)) else arr)"
  by auto
termination by (relation "measure (\<lambda>(i, n, t, arr). n - i)") auto

definition insert_ordered_array :: "(u32 \<Rightarrow> u32 \<Rightarrow> bool) \<Rightarrow> u32 \<Rightarrow> ordered_array \<Rightarrow> ordered_array option" where
  "insert_ordered_array lt item a =
     (let i = insert_position lt item a 0
      in if oa_size a \<ge> oa_max_size a then None
         else if i = oa_size a then Some (a\<lparr>oa_array := (oa_array a)(i := item), oa_size := Suc (oa_size a)\<rparr>)
         else Some (a\<lparr>oa_array := shift_up i (oa_size a) (oa_array a i) ((oa_array a)(i := item)), oa_size := Suc (oa_size a)\<rparr>))"

definition lookup_ordered_array :: "nat \<Rightarrow> ordered_array \<Rightarrow> u32" where
  "lookup_ordered_array i a = oa_array a i"

function shift_down :: "nat \<Rightarrow> nat \<Rightarrow> (nat \<Rightarrow> u32) \<Rightarrow> nat \<Rightarrow> u32" where
  "shift_down i n arr = (if i < n then shift_down (Suc i) n (arr(i := arr (Suc i))) else arr)"
  by auto
termination by (relation "measure (\<lambda>(i, n, arr). n - i)") auto

definition remove_ordered_array :: "nat \<Rightarrow> ordered_array \<Rightarrow> ordered_array" where
  "remove_ordered_array i a = a\<lparr>oa_array := shift_down i (oa_size a) (oa_array a), oa_size := oa_size a - 1\<rparr>"

declare insert_position.simps [simp del] shift_up.simps [simp del] shift_down.simps [simp del]

section \<open>The array as a list\<close>

definition items :: "ordered_array \<Rightarrow> u32 list" where "items a = map (oa_array a) [0..<oa_size a]"

lemma length_items [simp]: "length (items a) = oa_size a"
  by (simp add: items_def)

lemma items_nth: "i < oa_size a \<Longrightarrow> items a ! i = oa_array a i"
  by (simp add: items_def)

lemma shift_up_nth: "shift_up i n tmp arr k =
  (if k \<le> i \<or> n < k then arr k else if k = Suc i then tmp else arr (k - 1))"
proof (induction i n tmp arr rule: shift_up.induct)
  case (1 i n tmp arr)
  show ?case
  proof (cases "i < n")
    case True
    show ?thesis
      unfolding shift_up.simps [of i n tmp arr] if_P [OF True] 1 [OF True] using True by auto
  qed (subst shift_up.simps, auto)
qed

lemma shift_down_nth: "shift_down i n arr k = (if i \<le> k \<and> k < n then arr (Suc k) else arr k)"
proof (induction i n arr rule: shift_down.induct)
  case (1 i n arr)
  show ?case
  proof (cases "i < n")
    case True
    show ?thesis
      unfolding shift_down.simps [of i n arr] if_P [OF True] 1 [OF True] using True by auto
  qed (subst shift_down.simps, auto)
qed

lemma insert_position_eq:
  "i \<le> oa_size a \<Longrightarrow> insert_position lt x a i = i + length (takeWhile (\<lambda>y. lt y x) (drop i (items a)))"
proof (induction lt x a i rule: insert_position.induct)
  case (1 lt x a i)
  show ?case
  proof (cases "i < oa_size a")
    case True
    then have "drop i (items a) = oa_array a i # drop (Suc i) (items a)"
      using Cons_nth_drop_Suc [of i "items a"] by (simp add: items_nth)
    then show ?thesis
      using 1 True by (subst insert_position.simps) auto
  qed (use 1 in \<open>subst insert_position.simps, auto\<close>)
qed

text \<open>Insertion puts the item before the first one that is not less.\<close>

lemma insert_items:
  assumes "oa_size a < oa_max_size a"
  shows "\<exists>a'. insert_ordered_array lt x a = Some a' \<and> oa_size a' = Suc (oa_size a) \<and> oa_max_size a' = oa_max_size a \<and>
    items a' = takeWhile (\<lambda>y. lt y x) (items a) @ x # dropWhile (\<lambda>y. lt y x) (items a)"
proof -
  let ?i = "length (takeWhile (\<lambda>y. lt y x) (items a))"
  have i: "insert_position lt x a 0 = ?i" "?i \<le> oa_size a"
    using insert_position_eq [of 0 a lt x] length_takeWhile_le [of "\<lambda>y. lt y x" "items a"] by simp_all
  have split: "takeWhile (\<lambda>y. lt y x) (items a) = take ?i (items a)" "dropWhile (\<lambda>y. lt y x) (items a) = drop ?i (items a)"
    by (rule takeWhile_eq_take, rule dropWhile_eq_drop)
  let ?arr = "if ?i = oa_size a then (oa_array a)(?i := x)
    else shift_up ?i (oa_size a) (oa_array a ?i) ((oa_array a)(?i := x))"
  have arr: "?arr k = (if k < ?i then oa_array a k else if k = ?i then x else oa_array a (k - 1))" if "k \<le> oa_size a" for k
    using that i(2) by (auto simp: shift_up_nth)
  have "map ?arr [0..<Suc (oa_size a)] = take ?i (items a) @ x # drop ?i (items a)"
  proof (rule nth_equalityI)
    fix k
    assume "k < length (map ?arr [0..<Suc (oa_size a)])"
    then have k: "k \<le> oa_size a"
      by simp
    then have "map ?arr [0..<Suc (oa_size a)] ! k = ?arr k"
      by (simp del: upt_Suc)
    then show "map ?arr [0..<Suc (oa_size a)] ! k = (take ?i (items a) @ x # drop ?i (items a)) ! k"
      using arr [OF k] k i(2) by (auto simp: nth_append nth_Cons' items_nth)
  qed (use i in simp)
  then show ?thesis
    using assms i split by (auto simp: insert_ordered_array_def Let_def items_def)
qed

lemma remove_items: "i < oa_size a \<Longrightarrow> items (remove_ordered_array i a) = take i (items a) @ drop (Suc i) (items a)"
  by (rule nth_equalityI) (auto simp: items_def remove_ordered_array_def shift_down_nth nth_append)

text \<open>On an array in order, with the order given by a key, insertion is \<open>insort_key\<close>, whatever lies behind the array.\<close>

lemma takeWhile_insort:
  "sorted (map f xs) \<Longrightarrow> takeWhile (\<lambda>y. f y < f x) xs @ x # dropWhile (\<lambda>y. f y < f x) xs = insort_key (f :: 'a \<Rightarrow> 'k :: linorder) x xs"
  by (induction xs) (auto simp: not_less)

text \<open>C37: The ordered array is insertion sort: on an array that is in order by a key and not full, inserting an item
  gives exactly \<open>insort_key\<close>, so it stays in order, and removing position \<open>i\<close> drops that item and keeps the order.\<close>

theorem ordered_array_insort:
  assumes "sorted (map f (items a))" "oa_size a < oa_max_size a" "i < oa_size a"
  shows "(\<exists>a'. insert_ordered_array (\<lambda>x y. f x < (f y :: u32)) x a = Some a' \<and> items a' = insort_key f x (items a) \<and>
      sorted (map f (items a'))) \<and>
    items (remove_ordered_array i a) = take i (items a) @ drop (Suc i) (items a) \<and>
    sorted (map f (items (remove_ordered_array i a)))"
proof -
  obtain a' where a': "insert_ordered_array (\<lambda>x y. f x < f y) x a = Some a'" "items a' = insort_key f x (items a)"
    using insert_items [OF assms(2), of "\<lambda>x y. f x < f y" x] takeWhile_insort [OF assms(1), of x] by auto
  have "sorted (map f (take i (items a) @ drop (Suc i) (items a)))"
  proof -
    have "items a = take i (items a) @ items a ! i # drop (Suc i) (items a)"
      using assms(3) id_take_nth_drop [of i "items a"] by simp
    then have "sorted (map f (take i (items a) @ items a ! i # drop (Suc i) (items a)))"
      using assms(1) by simp
    then show ?thesis
      unfolding map_append list.map sorted_append by auto
  qed
  then show ?thesis
    using a' assms(1) remove_items [OF assms(3)] sorted_insort_key [of f x "items a"] by simp
qed

theorem ordered_array_insort_witness:
  "\<exists>a'. insert_ordered_array standard_lessthan_predicate 5 \<lparr>oa_array = (\<lambda>i. of_nat (4 * i)), oa_size = 3, oa_max_size = 8\<rparr> = Some a' \<and>
    items a' = [0, 4, 5, 8]"
  using ordered_array_insort [of "\<lambda>x. x" "\<lparr>oa_array = (\<lambda>i. of_nat (4 * i)), oa_size = 3, oa_max_size = 8\<rparr>" 0 5]
  by (auto simp: items_def standard_lessthan_predicate_def [abs_def] numeral_3_eq_3)

end
