(* ===== verification/Kheap.thy ===== *)
theory Kheap
  imports Ordered_Array "HOL-Library.Monad_Syntax"
begin

text \<open>
  \<^verbatim>\<open>SkyCore/Heap/kheap.cpp\<close>: the kernel heap.  Blocks and holes tile the heap; each starts with a header of twelve
  bytes (magic, one byte that says whether it is a hole, three of padding, size) and ends with a footer of eight
  (magic, address of the header), and an ordered array lists the holes by size.  Memory is a function from
  32-bit addresses to bytes; all sizes and addresses wrap as \<open>u32int\<close> does.  \<open>None\<close> is a failed
  \<^verbatim>\<open>SKY_ASSERT\<close>, which halts the system, or an index written beyond its end.  The critical sections make each
  operation one step.
\<close>

section \<open>Memory\<close>

type_synonym memory = "u32 \<Rightarrow> byte"

definition ld32 :: "memory \<Rightarrow> u32 \<Rightarrow> u32" where
  "ld32 m a = ucast (m a) OR push_bit 8 (ucast (m (a + 1))) OR push_bit 16 (ucast (m (a + 2))) OR push_bit 24 (ucast (m (a + 3)))"

definition st32 :: "u32 \<Rightarrow> u32 \<Rightarrow> memory \<Rightarrow> memory" where
  "st32 a v m = m(a := ucast v, a + 1 := ucast (drop_bit 8 v), a + 2 := ucast (drop_bit 16 v), a + 3 := ucast (drop_bit 24 v))"

abbreviation (input) HEAP_MAGIC :: u32 where "HEAP_MAGIC \<equiv> 0x123890AB"
abbreviation (input) HEAP_INDEX_SIZE :: nat where "HEAP_INDEX_SIZE \<equiv> 0x20000"

text \<open>The fields of \<open>header_t\<close> and \<open>footer_t\<close>.\<close>

definition hd_magic :: "memory \<Rightarrow> u32 \<Rightarrow> u32" where "hd_magic m p = ld32 m p"
definition hd_is_hole :: "memory \<Rightarrow> u32 \<Rightarrow> byte" where "hd_is_hole m p = m (p + 4)"
definition hd_size :: "memory \<Rightarrow> u32 \<Rightarrow> u32" where "hd_size m p = ld32 m (p + 8)"
definition ft_magic :: "memory \<Rightarrow> u32 \<Rightarrow> u32" where "ft_magic m p = ld32 m p"
definition ft_header :: "memory \<Rightarrow> u32 \<Rightarrow> u32" where "ft_header m p = ld32 m (p + 4)"

definition set_header :: "u32 \<Rightarrow> byte \<Rightarrow> u32 \<Rightarrow> memory \<Rightarrow> memory" where
  "set_header p hole n m = st32 (p + 8) n ((st32 p HEAP_MAGIC m)(p + 4 := hole))"

definition set_footer :: "u32 \<Rightarrow> u32 \<Rightarrow> memory \<Rightarrow> memory" where
  "set_footer p header m = st32 (p + 4) header (st32 p HEAP_MAGIC m)"

section \<open>The heap\<close>

record heap =
  heap_index :: ordered_array
  start_address :: u32
  end_address :: u32
  max_address :: u32
  supervisor :: byte
  readonly :: byte
  hmem :: memory
  g_usedHeapSize :: u32

definition header_t_less_than :: "memory \<Rightarrow> u32 \<Rightarrow> u32 \<Rightarrow> bool" where
  "header_t_less_than m a b \<longleftrightarrow> hd_size m a < hd_size m b"

definition insert_hole :: "u32 \<Rightarrow> heap \<Rightarrow> heap option" where
  "insert_hole p s = map_option (\<lambda>i. s\<lparr>heap_index := i\<rparr>) (insert_ordered_array (header_t_less_than (hmem s)) p (heap_index s))"

definition remove_hole :: "nat \<Rightarrow> heap \<Rightarrow> heap" where
  "remove_hole i s = s\<lparr>heap_index := remove_ordered_array i (heap_index s)\<rparr>"

definition upd_mem :: "(memory \<Rightarrow> memory) \<Rightarrow> heap \<Rightarrow> heap" where
  "upd_mem f s = s\<lparr>hmem := f (hmem s)\<rparr>"

text \<open>The index array itself lies in front of the heap; \<open>place_ordered_array\<close> clears it.\<close>

definition create_kernel_heap :: "u32 \<Rightarrow> u32 \<Rightarrow> u32 \<Rightarrow> byte \<Rightarrow> byte \<Rightarrow> heap \<Rightarrow> heap option" where
  "create_kernel_heap start end_addr max_addr superv ro s =
     (if start mod 0x1000 \<noteq> 0 \<or> end_addr mod 0x1000 \<noteq> 0 then None
      else
        let m = (\<lambda>a. if a - start < 4 * 0x20000 then 0 else hmem s a);
            start = start + 4 * 0x20000;
            start = (if start AND 0xFFFFF000 \<noteq> 0 then (start AND 0xFFFFF000) + 0x1000 else start)
        in insert_hole start
             (s\<lparr>heap_index := place_ordered_array HEAP_INDEX_SIZE, start_address := start, end_address := end_addr,
               max_address := max_addr, supervisor := superv, readonly := ro, hmem := set_header start 1 (end_addr - start) m\<rparr>))"

section \<open>Allocation\<close>

text \<open>The scan of the index from position \<open>i\<close>; the page-aligned test compares signed.\<close>

function find_smallest_hole :: "u32 \<Rightarrow> bool \<Rightarrow> heap \<Rightarrow> nat \<Rightarrow> nat option" where
  "find_smallest_hole sz page_align s i =
     (if i < oa_size (heap_index s) then
        let header = lookup_ordered_array i (heap_index s)
        in if page_align then
             let offset = (if (header + 12) AND 0xFFFFF000 \<noteq> 0 then 0x1000 - (header + 12) mod 0x1000 else 0)
             in if sint sz \<le> sint (hd_size (hmem s) header - offset) then Some i
                else find_smallest_hole sz page_align s (Suc i)
           else if sz \<le> hd_size (hmem s) header then Some i else find_smallest_hole sz page_align s (Suc i)
      else None)"
  by auto
termination by (relation "measure (\<lambda>(n, p, s, i). oa_size (heap_index s) - i)") auto

declare find_smallest_hole.simps [simp del]

text \<open>What follows once a hole is chosen: the split in front when the block must be page-aligned, the block, and the
  hole behind it.  When no hole fits, the assertion halts the system; the code behind it, which would expand the
  heap, is never reached.\<close>

definition split_front :: "nat \<Rightarrow> bool \<Rightarrow> u32 \<Rightarrow> u32 \<Rightarrow> heap \<Rightarrow> u32 \<times> u32 \<times> heap" where
  "split_front i page_align pos hole_size s =
     (if page_align \<and> pos AND 0xFFFFF000 \<noteq> 0 then
        let new_location = pos + 0x1000 - (pos AND 0xFFF) - 12;
            front = 0x1000 - (pos AND 0xFFF) - 12;
            s = upd_mem (\<lambda>m. set_footer (new_location - 8) pos (set_header pos 1 front m)) s
        in (new_location, hole_size - hd_size (hmem s) pos, s)
      else (pos, hole_size, remove_hole i s))"

definition split_behind :: "u32 \<Rightarrow> u32 \<Rightarrow> u32 \<Rightarrow> u32 \<Rightarrow> heap \<Rightarrow> heap option" where
  "split_behind pos sz new_size hole_size s =
     (if hole_size - new_size > 0 then
        let hole = pos + 12 + sz + 8;
            s1 = upd_mem (set_header hole 1 (hole_size - new_size)) s;
            footer = hole + hole_size - new_size - 8;
            s2 = (if footer < end_address s1 then upd_mem (set_footer footer hole) s1 else s1)
        in insert_hole hole s2
      else Some s)"

definition memory_alloc :: "u32 \<Rightarrow> bool \<Rightarrow> heap \<Rightarrow> (u32 \<times> heap) option" where
  "memory_alloc sz page_align s =
     (let new_size = sz + 12 + 8
      in do {
        i \<leftarrow> find_smallest_hole new_size page_align s 0;
        let pos = lookup_ordered_array i (heap_index s);
        let hole_size = hd_size (hmem s) pos;
        let (sz, new_size) = (if hole_size - new_size < 12 + 8 then (sz + (hole_size - new_size), hole_size) else (sz, new_size));
        let (pos, hole_size, s1) = split_front i page_align pos hole_size s;
        let s2 = upd_mem (\<lambda>m. set_footer (pos + 12 + sz) pos (set_header pos 0 new_size m)) s1;
        s3 \<leftarrow> split_behind pos sz new_size hole_size s2;
        Some (pos + 12, s3\<lparr>g_usedHeapSize := g_usedHeapSize s3 + new_size\<rparr>)
      })"

section \<open>Freeing\<close>

function index_of :: "ordered_array \<Rightarrow> u32 \<Rightarrow> nat \<Rightarrow> nat" where
  "index_of a p i = (if i < oa_size a \<and> lookup_ordered_array i a \<noteq> p then index_of a p (Suc i) else i)"
  by auto
termination by (relation "measure (\<lambda>(a, p, i). oa_size a - i)") auto

declare index_of.simps [simp del]

text \<open>The left neighbour: the header to go on with, whether it has to be indexed, and the heap.\<close>

definition unify_left :: "u32 \<Rightarrow> u32 \<Rightarrow> heap \<Rightarrow> u32 \<times> bool \<times> heap" where
  "unify_left header footer s =
     (let m = hmem s; test_footer = header - 8
      in if ft_magic m test_footer = HEAP_MAGIC \<and> hd_is_hole m (ft_header m test_footer) = 1 then
           let cache_size = hd_size m header;
               header = ft_header m test_footer;
               m = st32 (footer + 4) header m
           in (header, False, s\<lparr>hmem := st32 (header + 8) (hd_size m header + cache_size) m\<rparr>)
         else (header, True, s))"

definition unify_right :: "u32 \<Rightarrow> u32 \<Rightarrow> heap \<Rightarrow> heap option" where
  "unify_right header footer s =
     (let m = hmem s; test_header = footer + 8
      in if hd_magic m test_header = HEAP_MAGIC \<and> hd_is_hole m test_header \<noteq> 0 then
           let m = st32 (header + 8) (hd_size m header + hd_size m test_header) m;
               test_footer = test_header + hd_size m test_header - 8;
               m = st32 (test_footer + 4) header m;
               i = index_of (heap_index s) test_header 0
           in if i < oa_size (heap_index s) then Some (remove_hole i (s\<lparr>hmem := m\<rparr>)) else None
         else Some s)"

definition hfree :: "u32 \<Rightarrow> heap \<Rightarrow> heap option" where
  "hfree p s =
     (if p = 0 then Some s
      else
        let header = p - 12;
            footer = header + hd_size (hmem s) header - 8;
            s = s\<lparr>g_usedHeapSize := g_usedHeapSize s - hd_size (hmem s) header\<rparr>
        in if hd_magic (hmem s) header \<noteq> HEAP_MAGIC \<or> ft_magic (hmem s) footer \<noteq> HEAP_MAGIC then None
           else do {
             let s = upd_mem (\<lambda>m. m(header + 4 := 1)) s;
             let (header, do_add, s) = unify_left header footer s;
             s \<leftarrow> unify_right header footer s;
             if do_add then insert_hole header s else Some s
           })"

section \<open>The calls\<close>

definition kmalloc_int :: "u32 \<Rightarrow> bool \<Rightarrow> heap \<Rightarrow> (u32 \<times> heap) option" where
  "kmalloc_int sz align s = memory_alloc sz align s"

definition kmalloc :: "u32 \<Rightarrow> heap \<Rightarrow> (u32 \<times> heap) option" where "kmalloc sz = kmalloc_int sz False"
definition kmalloc_a :: "u32 \<Rightarrow> heap \<Rightarrow> (u32 \<times> heap) option" where "kmalloc_a sz = kmalloc_int sz True"
definition kmalloc_p :: "u32 \<Rightarrow> heap \<Rightarrow> (u32 \<times> heap) option" where "kmalloc_p sz = kmalloc_int sz False"
definition kmalloc_ap :: "u32 \<Rightarrow> heap \<Rightarrow> (u32 \<times> heap) option" where "kmalloc_ap sz = kmalloc_int sz True"
definition heap_malloc :: "u32 \<Rightarrow> heap \<Rightarrow> (u32 \<times> heap) option" where "heap_malloc sz = kmalloc sz"
definition kfree :: "u32 \<Rightarrow> heap \<Rightarrow> heap option" where "kfree p = hfree p"
definition heap_free :: "u32 \<Rightarrow> heap \<Rightarrow> heap option" where "heap_free p = hfree p"

definition heap_calloc :: "u32 \<Rightarrow> u32 \<Rightarrow> heap \<Rightarrow> (u32 \<times> heap) option" where
  "heap_calloc cnt sz s =
     map_option (\<lambda>(p, s). (p, upd_mem (\<lambda>m a. if a - p < cnt * sz then 0 else m a) s)) (kmalloc (cnt * sz) s)"

text \<open>The assertion wants a size above 0.\<close>

definition malloc_size :: "u32 \<Rightarrow> heap \<Rightarrow> u32 option" where
  "malloc_size p s =
     (let n = hd_size (hmem s) (p - 12) - 12 - 8 in if n > 0 then Some n else None)"

definition krealloc :: "u32 \<Rightarrow> u32 \<Rightarrow> heap \<Rightarrow> (u32 \<times> heap) option" where
  "krealloc p sz s =
     (if p = 0 then kmalloc sz s
      else do {
        n \<leftarrow> malloc_size p s;
        if n < sz then do {
          (new, s1) \<leftarrow> kmalloc sz s;
          if new = 0 then Some (0, s1)
          else do {
            n1 \<leftarrow> malloc_size p s1;
            s2 \<leftarrow> kfree p (upd_mem (\<lambda>m a. if a - new < n1 then m (p + (a - new)) else m a) s1);
            Some (new, s2)
          }
        }
        else Some (p, s)
      })"

definition heap_realloc :: "u32 \<Rightarrow> u32 \<Rightarrow> heap \<Rightarrow> (u32 \<times> heap) option" where "heap_realloc p sz = krealloc p sz"

end
