(* ===== verification/Kheap_Lemmas.thy ===== *)
theory Kheap_Lemmas
  imports Kheap
begin

text \<open>
  The kernel heap as a list of blocks and holes that tile it: reading and writing words, what it means for a heap to
  be in order (\<open>heap_ok\<close>), and what an allocation (\<open>memory_alloc_ok\<close>) and a release (\<open>hfree_ok\<close>) do to the list and to
  the memory in between.
\<close>

section \<open>Bytes and words\<close>

definition adr :: "nat \<Rightarrow> u32" where "adr n = of_nat n"

lemma adr_simps [simp]:
  "adr a + adr b = adr (a + b)" "adr a + 1 = adr (a + 1)" "adr a + numeral k = adr (a + numeral k)"
  by (simp_all add: adr_def)

lemma adr_diff [simp]:
  "b \<le> a \<Longrightarrow> adr a - adr b = adr (a - b)" "numeral k \<le> a \<Longrightarrow> adr a - numeral k = adr (a - numeral k)"
  by (simp_all add: adr_def of_nat_diff)

lemma adr_footer [simp]: "8 \<le> a \<Longrightarrow> adr (a - 8 + 4) = adr (a - 4)" "8 \<le> a \<Longrightarrow> adr (a - 8) + 8 = adr a"
  by (simp_all add: adr_def of_nat_diff)

lemma unat_adr [simp]: "a < 2 ^ 32 \<Longrightarrow> unat (adr a) = a"
  by (simp add: adr_def unat_of_nat)

lemma adr_eq: "a < 2 ^ 32 \<Longrightarrow> b < 2 ^ 32 \<Longrightarrow> adr a = adr b \<longleftrightarrow> a = b"
  using unat_adr by metis

lemma adr_unat [simp]: "adr (unat x) = x"
  by (simp add: adr_def)

text \<open>Two memories that agree between two addresses.\<close>

definition agree :: "memory \<Rightarrow> memory \<Rightarrow> nat \<Rightarrow> nat \<Rightarrow> bool" where
  "agree m m' lo hi \<longleftrightarrow> (\<forall>n. lo \<le> n \<and> n < hi \<longrightarrow> m (adr n) = m' (adr n))"

lemma agree_refl [simp]: "agree m m lo hi"
  by (simp add: agree_def)

lemma agree_trans: "agree m m' lo hi \<Longrightarrow> agree m' m'' lo hi \<Longrightarrow> agree m m'' lo hi"
  by (simp add: agree_def)

lemma agree_sub: "agree m m' lo hi \<Longrightarrow> lo \<le> lo' \<Longrightarrow> hi' \<le> hi \<Longrightarrow> agree m m' lo' hi'"
  by (simp add: agree_def)

lemma agree_sym: "agree m m' lo hi = agree m' m lo hi"
  by (auto simp: agree_def)

lemma byte_agree: "agree m m' lo hi \<Longrightarrow> lo \<le> n \<Longrightarrow> n < hi \<Longrightarrow> m (adr n) = m' (adr n)"
  by (simp add: agree_def)

lemma ld32_agree:
  assumes "agree m m' lo hi" "lo \<le> n" "n + 4 \<le> hi"
  shows "ld32 m (adr n) = ld32 m' (adr n)"
proof -
  have "m (adr (n + k)) = m' (adr (n + k))" if "k < 4" for k
    using assms that by (intro byte_agree) auto
  from this [of 0] this [of 1] this [of 2] this [of 3] show ?thesis
    by (simp add: ld32_def)
qed

lemma ld32_st32 [simp]: "ld32 (st32 a v m) a = v"
proof -
  have "ucast (ucast v :: byte) OR push_bit 8 (ucast (ucast (drop_bit 8 v) :: byte)) OR
      push_bit 16 (ucast (ucast (drop_bit 16 v) :: byte)) OR push_bit 24 (ucast (ucast (drop_bit 24 v) :: byte)) = v"
    (is "?l = v")
  proof (rule bit_word_eqI)
    fix n
    assume "n < LENGTH(32)"
    then show "bit ?l n = bit v n"
      by (cases "n < 16"; cases "n < 24") (auto simp: bit_simps)
  qed
  then show ?thesis
    by (simp add: ld32_def st32_def)
qed

lemma st32_byte:
  assumes "a + 4 \<le> 2 ^ 32" "n < 2 ^ 32" "n < a \<or> a + 4 \<le> n"
  shows "st32 (adr a) v m (adr n) = m (adr n)"
proof -
  have "adr n \<noteq> adr (a + k)" if "k < 4" for k
    using assms that by (subst adr_eq) auto
  from this [of 0] this [of 1] this [of 2] this [of 3] show ?thesis
    by (simp add: st32_def)
qed

lemma agree_st32: "a + 4 \<le> 2 ^ 32 \<Longrightarrow> hi \<le> 2 ^ 32 \<Longrightarrow> hi \<le> a \<or> a + 4 \<le> lo \<Longrightarrow> agree (st32 (adr a) v m) m lo hi"
  by (auto simp: agree_def intro!: st32_byte)

lemma agree_byte: "a < 2 ^ 32 \<Longrightarrow> hi \<le> 2 ^ 32 \<Longrightarrow> hi \<le> a \<or> a < lo \<Longrightarrow> agree (m(adr a := v)) m lo hi"
  by (auto simp: agree_def adr_eq)

lemma ld32_st32_other:
  "a + 4 \<le> 2 ^ 32 \<Longrightarrow> b + 4 \<le> 2 ^ 32 \<Longrightarrow> a + 4 \<le> b \<or> b + 4 \<le> a \<Longrightarrow> ld32 (st32 (adr a) v m) (adr b) = ld32 m (adr b)"
  by (rule ld32_agree [of _ _ b "b + 4"]) (auto intro!: agree_st32)

section \<open>Tiles\<close>

definition hdr :: "memory \<Rightarrow> nat \<Rightarrow> nat \<Rightarrow> bool \<Rightarrow> bool" where
  "hdr m a n h \<longleftrightarrow> ld32 m (adr a) = HEAP_MAGIC \<and> m (adr (a + 4)) = (if h then 1 else 0) \<and> ld32 m (adr (a + 8)) = adr n"

definition ftr :: "memory \<Rightarrow> nat \<Rightarrow> nat \<Rightarrow> bool" where
  "ftr m a n \<longleftrightarrow> ld32 m (adr (a + n - 8)) = HEAP_MAGIC \<and> ld32 m (adr (a + n - 4)) = adr a"

text \<open>Blocks and holes from \<open>a\<close> on, \<open>(size, hole)\<close> each.  A hole that reaches the end of the heap may lack its footer:
  nobody looks for it.\<close>

fun tiles :: "memory \<Rightarrow> nat \<Rightarrow> nat \<Rightarrow> (nat \<times> bool) list \<Rightarrow> bool" where
  "tiles m e a [] = True"
| "tiles m e a ((n, h) # bs) = (20 \<le> n \<and> hdr m a n h \<and> (h \<and> a + n = e \<or> ftr m a n) \<and> tiles m e (a + n) bs)"

definition extent :: "(nat \<times> bool) list \<Rightarrow> nat" where "extent bs = sum_list (map fst bs)"

lemma extent_simps [simp]: "extent [] = 0" "extent (b # bs) = fst b + extent bs" "extent (xs @ ys) = extent xs + extent ys"
  by (simp_all add: extent_def)

lemma tiles_append: "tiles m e a (xs @ ys) \<longleftrightarrow> tiles m e a xs \<and> tiles m e (a + extent xs) ys"
  by (induction m e a xs rule: tiles.induct) (auto simp: add.assoc)

lemma hdr_agree: "agree m m' a (a + 12) \<Longrightarrow> hdr m a n h = hdr m' a n h"
  using ld32_agree [of m m' a "a + 12" a] ld32_agree [of m m' a "a + 12" "a + 8"] byte_agree [of m m' a "a + 12" "a + 4"]
  by (simp add: hdr_def)

lemma ftr_agree: "agree m m' (a + n - 8) (a + n) \<Longrightarrow> 20 \<le> n \<Longrightarrow> ftr m a n = ftr m' a n"
  using ld32_agree [of m m' "a + n - 8" "a + n" "a + n - 8"] ld32_agree [of m m' "a + n - 8" "a + n" "a + n - 4"]
  by (simp add: ftr_def)

lemma tiles_agree: "agree m m' a (a + extent bs) \<Longrightarrow> tiles m e a bs = tiles m' e a bs"
proof (induction m e a bs rule: tiles.induct)
  case (2 m e a n h bs)
  have "hdr m a n h = hdr m' a n h" "ftr m a n = ftr m' a n" if "20 \<le> n"
    using that 2(2) by (auto intro!: hdr_agree ftr_agree elim: agree_sub)
  moreover have "tiles m e (a + n) bs = tiles m' e (a + n) bs"
    by (rule 2(1)) (rule agree_sub [OF 2(2)], auto)
  ultimately show ?case
    by auto
qed simp

lemma set_header_agree:
  assumes "a + 12 \<le> 2 ^ 32" "hi \<le> 2 ^ 32" "hi \<le> a \<or> a + 12 \<le> lo"
  shows "agree (set_header (adr a) x y m) m lo hi"
proof -
  let ?m1 = "st32 (adr a) HEAP_MAGIC m"
  let ?m2 = "?m1(adr (a + 4) := x)"
  have "agree (st32 (adr (a + 8)) y ?m2) ?m2 lo hi" "agree ?m2 ?m1 lo hi" "agree ?m1 m lo hi"
    using assms by (auto intro!: agree_st32 agree_byte)
  then show ?thesis
    unfolding set_header_def by (auto intro: agree_trans)
qed

lemma set_footer_agree:
  assumes "a + 8 \<le> 2 ^ 32" "hi \<le> 2 ^ 32" "hi \<le> a \<or> a + 8 \<le> lo"
  shows "agree (set_footer (adr a) x m) m lo hi"
proof -
  let ?m1 = "st32 (adr a) HEAP_MAGIC m"
  have "agree (st32 (adr (a + 4)) x ?m1) ?m1 lo hi" "agree ?m1 m lo hi"
    using assms by (auto intro!: agree_st32)
  then show ?thesis
    unfolding set_footer_def by (auto intro: agree_trans)
qed

lemma set_header_hdr:
  assumes "a + 12 \<le> 2 ^ 32"
  shows "hdr (set_header (adr a) (if h then 1 else 0) (adr n) m) a n h"
proof -
  let ?m1 = "st32 (adr a) HEAP_MAGIC m" and ?b = "if h then 1 else 0 :: byte"
  let ?m2 = "?m1(adr (a + 4) := ?b)"
  have eq: "set_header (adr a) ?b (adr n) m = st32 (adr (a + 8)) (adr n) ?m2"
    by (simp add: set_header_def)
  have "ld32 ?m2 (adr a) = ld32 ?m1 (adr a)"
    using assms by (intro ld32_agree [of _ _ a "a + 4"] agree_byte) auto
  then show ?thesis
    unfolding hdr_def eq using assms st32_byte [of "a + 8" "a + 4" "adr n" ?m2] by (simp add: ld32_st32_other)
qed

lemma set_footer_ftr:
  assumes "a + n \<le> 2 ^ 32" "20 \<le> n" "f = a + n - 8"
  shows "ftr (set_footer (adr f) (adr a) m) a n"
proof -
  have eq: "set_footer (adr f) (adr a) m = st32 (adr (a + n - 4)) (adr a) (st32 (adr (a + n - 8)) HEAP_MAGIC m)"
    using assms by (simp add: set_footer_def)
  show ?thesis
    unfolding ftr_def eq using assms by (simp add: ld32_st32_other)
qed

section \<open>A heap in order\<close>

fun holes_at :: "nat \<Rightarrow> (nat \<times> bool) list \<Rightarrow> nat set" where
  "holes_at a [] = {}"
| "holes_at a ((n, h) # bs) = (if h then {a} else {}) \<union> holes_at (a + n) bs"

lemma holes_at_append [simp]: "holes_at a (xs @ ys) = holes_at a xs \<union> holes_at (a + extent xs) ys"
  by (induction a xs rule: holes_at.induct) (auto simp: add.assoc)

lemma holes_atD: "x \<in> holes_at a bs \<Longrightarrow> \<exists>xs n ys. bs = xs @ (n, True) # ys \<and> x = a + extent xs"
proof (induction a bs rule: holes_at.induct)
  case (2 a n h bs)
  show ?case
  proof (cases "h \<and> x = a")
    case True
    then show ?thesis by (intro exI [of _ "[]"]) auto
  next
    case False
    then obtain xs k ys where "bs = xs @ (k, True) # ys" "x = a + n + extent xs"
      using 2 by (auto split: if_splits)
    then show ?thesis
      by (intro exI [of _ "(n, h) # xs"]) auto
  qed
qed simp

lemma holes_at_range: "x \<in> holes_at a bs \<Longrightarrow> tiles m e a bs \<Longrightarrow> a \<le> x \<and> x + 20 \<le> a + extent bs"
  by (auto dest!: holes_atD simp: tiles_append)

text \<open>No two holes are neighbours.\<close>

definition separated :: "(nat \<times> bool) list \<Rightarrow> bool" where
  "separated bs \<longleftrightarrow> successively (\<lambda>b c. \<not> (snd b \<and> snd c)) bs"

text \<open>The blocks fill the heap, the words just before and just behind it do not look like a footer or a header, and the
  index lists every hole once.\<close>

definition heap_ok :: "heap \<Rightarrow> (nat \<times> bool) list \<Rightarrow> bool" where
  "heap_ok s bs \<longleftrightarrow>
     (let a = unat (start_address s); e = unat (end_address s)
      in 8 \<le> a \<and> a + extent bs = e \<and> e + 12 \<le> 2 ^ 32 \<and> tiles (hmem s) e a bs \<and> separated bs \<and>
         ld32 (hmem s) (adr (a - 8)) \<noteq> HEAP_MAGIC \<and> ld32 (hmem s) (adr e) \<noteq> HEAP_MAGIC \<and>
         distinct (items (heap_index s)) \<and> set (items (heap_index s)) = adr ` holes_at a bs \<and>
         oa_size (heap_index s) \<le> oa_max_size (heap_index s))"

abbreviation (input) heap_start :: "heap \<Rightarrow> nat" where "heap_start s \<equiv> unat (start_address s)"
abbreviation (input) heap_end :: "heap \<Rightarrow> nat" where "heap_end s \<equiv> unat (end_address s)"

lemma heap_okD:
  assumes "heap_ok s bs"
  shows "8 \<le> heap_start s" "heap_start s + extent bs = heap_end s" "heap_end s + 12 \<le> 2 ^ 32"
    "tiles (hmem s) (heap_end s) (heap_start s) bs" "separated bs"
    "ld32 (hmem s) (adr (heap_start s - 8)) \<noteq> HEAP_MAGIC" "ld32 (hmem s) (adr (heap_end s)) \<noteq> HEAP_MAGIC"
    "distinct (items (heap_index s))" "set (items (heap_index s)) = adr ` holes_at (heap_start s) bs"
    "oa_size (heap_index s) \<le> oa_max_size (heap_index s)"
  using assms by (simp_all add: heap_ok_def Let_def)

lemma adr_hole_inj:
  assumes "heap_ok s bs"
  shows "inj_on adr (holes_at (heap_start s) bs \<union> {x. x \<le> heap_end s})"
proof (rule inj_onI)
  fix x y
  assume "x \<in> holes_at (heap_start s) bs \<union> {x. x \<le> heap_end s}" "y \<in> holes_at (heap_start s) bs \<union> {x. x \<le> heap_end s}" "adr x = adr y"
  then show "x = y"
    using heap_okD(2-4) [OF assms] holes_at_range [of _ "heap_start s" bs "hmem s" "heap_end s"] adr_eq [of x y] by fastforce
qed

lemma tiles_hd_size:
  assumes "tiles m e a (xs @ (n, h) # ys)"
  shows "hd_size m (adr (a + extent xs)) = adr n" "hd_magic m (adr (a + extent xs)) = HEAP_MAGIC"
    "hd_is_hole m (adr (a + extent xs)) = (if h then 1 else 0)" "20 \<le> n"
  using assms by (simp_all add: tiles_append hdr_def hd_size_def hd_magic_def hd_is_hole_def)

lemma find_step:
  "find_smallest_hole n False s i =
     (if i < oa_size (heap_index s)
      then if n \<le> hd_size (hmem s) (items (heap_index s) ! i) then Some i else find_smallest_hole n False s (Suc i)
      else None)"
  by (subst find_smallest_hole.simps) (simp add: lookup_ordered_array_def items_nth Let_def)

lemma find_hole:
  "case find_smallest_hole n False s i of
     Some j \<Rightarrow> i \<le> j \<and> j < oa_size (heap_index s) \<and> n \<le> hd_size (hmem s) (items (heap_index s) ! j)
   | None \<Rightarrow> \<forall>k. i \<le> k \<and> k < oa_size (heap_index s) \<longrightarrow> \<not> n \<le> hd_size (hmem s) (items (heap_index s) ! k)"
proof (induction "oa_size (heap_index s) - i" arbitrary: i)
  case 0
  then show ?case
    by (subst find_step) auto
next
  case (Suc d)
  have "case find_smallest_hole n False s (Suc i) of
     Some j \<Rightarrow> Suc i \<le> j \<and> j < oa_size (heap_index s) \<and> n \<le> hd_size (hmem s) (items (heap_index s) ! j)
   | None \<Rightarrow> \<forall>k. Suc i \<le> k \<and> k < oa_size (heap_index s) \<longrightarrow> \<not> n \<le> hd_size (hmem s) (items (heap_index s) ! k)"
    using Suc by auto
  then show ?case
    by (subst find_step) (auto split: option.splits simp: Suc_le_eq nat_less_le)
qed

lemma tiles_replace:
  assumes "tiles m e a (xs @ (n, h) # ys)" "agree m m' a (a + extent xs)" "agree m m' (a + extent xs + n) (a + extent xs + n + extent ys)"
    and "tiles m' e (a + extent xs) new" "extent new = n"
  shows "tiles m' e a (xs @ new @ ys)"
  using assms tiles_agree [OF assms(2)] tiles_agree [OF assms(3)] by (simp add: tiles_append add.assoc)

text \<open>The memory outside a range and the bounds of the heap stay.\<close>

definition same_outside :: "heap \<Rightarrow> heap \<Rightarrow> nat \<Rightarrow> nat \<Rightarrow> bool" where
  "same_outside s s' lo hi \<longleftrightarrow>
     start_address s' = start_address s \<and> end_address s' = end_address s \<and> oa_max_size (heap_index s') = oa_max_size (heap_index s) \<and>
     agree (hmem s) (hmem s') 0 lo \<and> agree (hmem s) (hmem s') hi (2 ^ 32)"

lemma adr_less: "a < 2 ^ 32 \<Longrightarrow> b < 2 ^ 32 \<Longrightarrow> adr a < adr b \<longleftrightarrow> a < b"
  by (simp add: word_less_nat_alt)

lemma adr_le: "a < 2 ^ 32 \<Longrightarrow> b < 2 ^ 32 \<Longrightarrow> adr a \<le> adr b \<longleftrightarrow> a \<le> b"
  by (simp add: word_le_nat_alt)

lemma set_remove_nth:
  "distinct xs \<Longrightarrow> i < length xs \<Longrightarrow> set (take i xs @ drop (Suc i) xs) = set xs - {xs ! i}"
  "distinct xs \<Longrightarrow> i < length xs \<Longrightarrow> distinct (take i xs @ drop (Suc i) xs)"
proof -
  assume xs: "distinct xs" "i < length xs"
  define ys zs where "ys = take i xs" and "zs = drop (Suc i) xs"
  have eq: "xs = ys @ xs ! i # zs"
    unfolding ys_def zs_def by (rule id_take_nth_drop [OF xs(2)])
  have "distinct (ys @ xs ! i # zs)" "set xs = set (ys @ xs ! i # zs)"
    using xs(1) eq by simp_all
  then show "set (take i xs @ drop (Suc i) xs) = set xs - {xs ! i}" "distinct (take i xs @ drop (Suc i) xs)"
    unfolding ys_def [symmetric] zs_def [symmetric] by auto
qed

lemma hole_in_index:
  assumes "heap_ok s bs" "i < oa_size (heap_index s)"
  obtains xs n ys where "bs = xs @ (n, True) # ys" "lookup_ordered_array i (heap_index s) = adr (heap_start s + extent xs)"
proof -
  have "items (heap_index s) ! i \<in> adr ` holes_at (heap_start s) bs"
    using nth_mem [of i "items (heap_index s)"] assms by (simp add: heap_okD(9))
  then show thesis
    using assms(2) that by (fastforce simp: lookup_ordered_array_def items_nth dest: holes_atD)
qed

lemma index_of_hole:
  assumes "heap_ok s (xs @ (n, True) # ys)"
  obtains i where "i < oa_size (heap_index s)" "lookup_ordered_array i (heap_index s) = adr (heap_start s + extent xs)"
proof -
  have "adr (heap_start s + extent xs) \<in> set (items (heap_index s))"
    by (simp add: heap_okD(9) [OF assms])
  then show thesis
    using that by (auto simp: in_set_conv_nth lookup_ordered_array_def items_nth)
qed

section \<open>Allocation\<close>

definition alloc_size :: "nat \<Rightarrow> nat \<Rightarrow> nat" where
  "alloc_size z n = (if n - (z + 20) < 20 then n else z + 20)"

definition alloc_list :: "(nat \<times> bool) list \<Rightarrow> nat \<Rightarrow> nat \<Rightarrow> (nat \<times> bool) list \<Rightarrow> (nat \<times> bool) list" where
  "alloc_list xs n k ys = xs @ ((k, False) # (if k < n then [(n - k, True)] else [])) @ ys"

lemma alloc_size_bounds: "z + 20 \<le> n \<Longrightarrow> z + 20 \<le> alloc_size z n \<and> alloc_size z n \<le> n \<and> (alloc_size z n = n \<or> alloc_size z n + 20 \<le> n)"
  by (cases "n - (z + 20) < 20") (auto simp: alloc_size_def)

lemma alloc_tiles:
  assumes "tiles m e a (xs @ (n, True) # ys)" "a + extent (xs @ (n, True) # ys) = e" "e + 12 \<le> 2 ^ 32"
    and "20 \<le> k" "k = n \<or> k + 20 \<le> n" and b: "b = a + extent xs"
    and m2: "m2 = set_footer (adr (b + k - 8)) (adr b) (set_header (adr b) 0 (adr k) m)"
    and m3: "m3 = (if k < n then set_footer (adr (b + n - 8)) (adr (b + k)) (set_header (adr (b + k)) 1 (adr (n - k)) m2) else m2)"
  shows "tiles m3 e a (alloc_list xs n k ys) \<and> agree m m3 0 b \<and> agree m m3 (b + n) (2 ^ 32)"
proof -
  have le: "b + n + extent ys = e" "k \<le> n"
    using assms(2,5) b by auto
  let ?m1 = "set_header (adr b) 0 (adr k) m" and ?m4 = "set_header (adr (b + k)) 1 (adr (n - k)) m2"
  have m12: "agree ?m1 m lo hi" "agree m2 ?m1 lo hi" if "hi \<le> b \<or> b + n \<le> lo" "hi \<le> 2 ^ 32" for lo hi
    using that le assms(3,4) unfolding m2 by (auto intro!: set_header_agree set_footer_agree)
  have m34: "agree m3 m2 lo hi" if "hi \<le> b + k \<or> b + n \<le> lo" "hi \<le> 2 ^ 32" for lo hi
  proof (cases "k < n")
    case True
    have "agree m3 ?m4 lo hi" "agree ?m4 m2 lo hi"
      using True that le assms(3-5) unfolding m3 if_P [OF True] by (auto intro!: set_header_agree set_footer_agree)
    then show ?thesis
      by (rule agree_trans)
  qed (simp add: m3)
  have out: "agree m m3 lo hi" if "hi \<le> b \<or> b + n \<le> lo" "hi \<le> 2 ^ 32" for lo hi
  proof -
    have "agree m3 m2 lo hi"
      by (rule m34) (use that le in auto)
    then show ?thesis
      using m12 [OF that] by (metis agree_sym agree_trans)
  qed
  have front: "hdr m2 b k False" "ftr m2 b k"
  proof -
    have "hdr ?m1 b k False"
      using set_header_hdr [of b False k m] le assms(3,4) by simp
    moreover have "agree m2 ?m1 b (b + 12)"
      using le assms(3,4) unfolding m2 by (auto intro!: set_footer_agree)
    ultimately show "hdr m2 b k False"
      by (simp add: hdr_agree)
    show "ftr m2 b k"
      unfolding m2 using le assms(3,4) by (intro set_footer_ftr) auto
  qed
  have "agree m3 m2 b (b + k)"
    using m34 le assms(3) by simp
  then have first: "hdr m3 b k False" "ftr m3 b k"
    using front hdr_agree [of m3 m2 b k False] ftr_agree [of m3 m2 b k] assms(4) by (simp_all add: agree_sub)
  have second: "hdr m3 (b + k) (n - k) True \<and> ftr m3 (b + k) (n - k)" if "k < n"
  proof -
    have m3': "m3 = set_footer (adr (b + n - 8)) (adr (b + k)) ?m4"
      using that by (simp add: m3)
    have "hdr ?m4 (b + k) (n - k) True"
      using set_header_hdr [of "b + k" True "n - k" m2] le assms(3,4) by simp
    moreover have "agree m3 ?m4 (b + k) (b + k + 12)"
      using that le assms(3-5) unfolding m3' by (auto intro!: set_footer_agree)
    moreover have "ftr m3 (b + k) (n - k)"
      unfolding m3' using that le assms(3-5) by (intro set_footer_ftr) auto
    ultimately show ?thesis
      by (simp add: hdr_agree)
  qed
  have "tiles m3 e b ((k, False) # (if k < n then [(n - k, True)] else []))"
    using first second assms(4,5) by auto
  moreover have "agree m m3 a b" "agree m m3 (b + n) (b + n + extent ys)"
    using le assms(3) by (auto intro: out)
  ultimately have "tiles m3 e a (alloc_list xs n k ys)"
    unfolding alloc_list_def using assms(1) le(2) b by (intro tiles_replace [where n = n and m = m and h = True]) auto
  then show ?thesis
    using out le assms(3) by auto
qed

lemma not_a_hole:
  assumes "tiles m e a (xs @ (n, h) # ys)" "a + extent (xs @ (n, h) # ys) = e" "e + 12 \<le> 2 ^ 32" "b = a + extent xs" "b \<le> c" "c < b + n"
  shows "adr c \<notin> adr ` (holes_at a xs \<union> holes_at (b + n) ys)"
proof
  assume "adr c \<in> adr ` (holes_at a xs \<union> holes_at (b + n) ys)"
  then obtain x where x: "adr c = adr x" "x \<in> holes_at a xs \<union> holes_at (b + n) ys"
    by (rule imageE)
  have t: "tiles m e a xs" "tiles m e (b + n) ys"
    using assms(1,4) by (auto simp: tiles_append)
  have "x + 20 \<le> b \<or> b + n \<le> x \<and> x + 20 \<le> e"
    using x(2) holes_at_range [OF _ t(1), of x] holes_at_range [OF _ t(2), of x] assms(2,4) by auto
  then show False
    using x(1) assms adr_eq [of x c] by auto
qed

lemma index_without_hole:
  assumes ok: "heap_ok s (xs @ (n, True) # ys)" and i: "i < oa_size (heap_index s)"
    and at: "lookup_ordered_array i (heap_index s) = adr (heap_start s + extent xs)"
  shows "set (items (remove_ordered_array i (heap_index s))) = adr ` (holes_at (heap_start s) xs \<union> holes_at (heap_start s + extent xs + n) ys)"
    and "distinct (items (remove_ordered_array i (heap_index s)))"
    and "oa_size (remove_ordered_array i (heap_index s)) < oa_max_size (heap_index s)"
    and "oa_max_size (remove_ordered_array i (heap_index s)) = oa_max_size (heap_index s)"
proof -
  let ?a = "heap_start s" and ?b = "heap_start s + extent xs"
  let ?H = "holes_at ?a xs \<union> holes_at (?b + n) ys"
  have "adr ?b \<notin> adr ` ?H"
    using not_a_hole [OF heap_okD(4,2,3) [OF ok], of ?b ?b] heap_okD(4) [OF ok] by (simp add: tiles_append)
  then have "adr ` holes_at ?a (xs @ (n, True) # ys) - {adr ?b} = adr ` ?H"
    by auto
  moreover have "items (heap_index s) ! i = adr ?b"
    using at i by (simp add: lookup_ordered_array_def items_nth)
  ultimately show "set (items (remove_ordered_array i (heap_index s))) = adr ` ?H"
    using set_remove_nth(1) [OF heap_okD(8) [OF ok]] i by (simp add: remove_items heap_okD(9) [OF ok] flip: set_append)
  show "distinct (items (remove_ordered_array i (heap_index s)))"
    using set_remove_nth(2) [OF heap_okD(8) [OF ok]] i by (simp add: remove_items)
qed (use heap_okD(10) [OF ok] i in \<open>auto simp: remove_ordered_array_def\<close>)

lemma insert_hole_ok:
  assumes "oa_size (heap_index s) < oa_max_size (heap_index s)"
  obtains i where "insert_hole p s = Some (s\<lparr>heap_index := i\<rparr>)" "set (items i) = insert p (set (items (heap_index s)))"
    "oa_size i = Suc (oa_size (heap_index s))" "oa_max_size i = oa_max_size (heap_index s)"
    "p \<notin> set (items (heap_index s)) \<Longrightarrow> distinct (items (heap_index s)) \<Longrightarrow> distinct (items i)"
proof -
  let ?lt = "header_t_less_than (hmem s)" and ?xs = "items (heap_index s)"
  define ys zs where "ys = takeWhile (\<lambda>y. ?lt y p) ?xs" and "zs = dropWhile (\<lambda>y. ?lt y p) ?xs"
  have xs: "?xs = ys @ zs"
    by (simp add: ys_def zs_def)
  obtain i where "insert_ordered_array ?lt p (heap_index s) = Some i" "oa_size i = Suc (oa_size (heap_index s))"
    "oa_max_size i = oa_max_size (heap_index s)" "items i = ys @ p # zs"
    using insert_items [OF assms] unfolding ys_def zs_def by blast
  then show thesis
    using that unfolding xs by (simp add: insert_hole_def)
qed

lemma separated_alloc: "separated (xs @ (n, True) # ys) \<Longrightarrow> separated (alloc_list xs n k ys)"
  by (auto simp: separated_def alloc_list_def successively_append_iff successively_Cons)

lemma holes_alloc_list:
  "k \<le> n \<Longrightarrow> holes_at a (alloc_list xs n k ys) =
     holes_at a xs \<union> (if k < n then {a + extent xs + k} else {}) \<union> holes_at (a + extent xs + n) ys"
  by (auto simp: alloc_list_def add.assoc)

lemma extent_alloc_list: "k \<le> n \<Longrightarrow> extent (alloc_list xs n k ys) = extent xs + n + extent ys"
  by (simp add: alloc_list_def)

lemma alloc_arg: "adr z + 12 + 8 = adr (z + 20)"
  by (simp add: adr_def)

lemma memory_alloc_at:
  assumes ok: "heap_ok s (xs @ (n, True) # ys)" and z: "z + 20 \<le> n"
    and find: "find_smallest_hole (adr (z + 20)) False s 0 = Some i" "i < oa_size (heap_index s)"
    and i: "lookup_ordered_array i (heap_index s) = adr (heap_start s + extent xs)"
  defines "k \<equiv> alloc_size z n" and "b \<equiv> heap_start s + extent xs"
  obtains s' where "memory_alloc (adr z) False s = Some (adr (b + 12), s')" "heap_ok s' (alloc_list xs n k ys)"
    "same_outside s s' b (b + n)"
proof -
  let ?bs = "xs @ (n, True) # ys" and ?s1 = "remove_hole i s"
  note D = heap_okD [OF ok]
  have lim: "b + n + extent ys = heap_end s" "heap_end s + 12 \<le> 2 ^ 32" "n < 2 ^ 32"
    using D(2,3) by (simp_all add: b_def)
  have k: "z + 20 \<le> k" "k \<le> n" "k = n \<or> k + 20 \<le> n"
    using alloc_size_bounds [OF z] by (auto simp: k_def)
  have hs: "hd_size (hmem s) (adr b) = adr n"
    using tiles_hd_size(1) [OF D(4)] by (simp add: b_def)
  have "adr n - adr (z + 20) < 20 \<longleftrightarrow> n - (z + 20) < 20"
    using z lim adr_less [of "n - (z + 20)" 20] by (simp add: adr_def)
  then have sizes: "(if adr n - adr (z + 20) < 12 + 8 then (adr z + (adr n - adr (z + 20)), adr n) else (adr z, adr (z + 20))) = (adr (k - 20), adr k)"
    using z by (simp add: k_def alloc_size_def)
  define m2 where "m2 = set_footer (adr (b + k - 8)) (adr b) (set_header (adr b) 0 (adr k) (hmem s))"
  define m3 where "m3 = (if k < n then set_footer (adr (b + n - 8)) (adr (b + k)) (set_header (adr (b + k)) 1 (adr (n - k)) m2) else m2)"
  have T: "tiles m3 (heap_end s) (heap_start s) (alloc_list xs n k ys)" "agree (hmem s) m3 0 b" "agree (hmem s) m3 (b + n) (2 ^ 32)"
    using alloc_tiles [OF D(4,2,3) _ k(3) meta_eq_to_obj_eq [OF b_def] m2_def m3_def] k(1) by auto
  note R = index_without_hole [OF ok find(2) i]
  have eq: "memory_alloc (adr z) False s = do {
      s3 \<leftarrow> split_behind (adr b) (adr (k - 20)) (adr k) (adr n) (upd_mem (\<lambda>m. m2) ?s1);
      Some (adr (b + 12), s3\<lparr>g_usedHeapSize := g_usedHeapSize s3 + adr k\<rparr>) }"
    unfolding memory_alloc_def alloc_arg Let_def find(1) bind.bind_lunit i b_def [symmetric] hs sizes case_prod_conv split_front_def simp_thms if_False
    using k(1) by (simp add: upd_mem_def m2_def remove_hole_def add.commute)
  have outside: "same_outside s s' b (b + n)"
    if "hmem s' = m3" "start_address s' = start_address s" "end_address s' = end_address s" "oa_max_size (heap_index s') = oa_max_size (heap_index s)" for s'
    using that T by (simp add: same_outside_def)
  have okI: "heap_ok s' (alloc_list xs n k ys)"
    if "hmem s' = m3" "start_address s' = start_address s" "end_address s' = end_address s"
      "distinct (items (heap_index s'))" "oa_size (heap_index s') \<le> oa_max_size (heap_index s')"
      "set (items (heap_index s')) = adr ` holes_at (heap_start s) (alloc_list xs n k ys)" for s'
  proof -
    have "ld32 m3 (adr (heap_start s - 8)) \<noteq> HEAP_MAGIC"
      using D(1,6) ld32_agree [OF T(2), of "heap_start s - 8"] by (simp add: b_def)
    moreover have "ld32 m3 (adr (heap_end s)) \<noteq> HEAP_MAGIC"
      using D(7) lim ld32_agree [OF T(3), of "heap_end s"] by simp
    ultimately show ?thesis
      using that D(1-3) T(1) k separated_alloc [OF D(5)] by (simp add: heap_ok_def Let_def extent_alloc_list)
  qed
  show thesis
  proof (cases "k < n")
    case False
    then have "split_behind (adr b) (adr (k - 20)) (adr k) (adr n) (upd_mem (\<lambda>m. m2) ?s1) = Some (upd_mem (\<lambda>m. m2) ?s1)"
      using k by (simp add: split_behind_def)
    let ?t = "upd_mem (\<lambda>m. m2) ?s1"
    let ?s' = "?t\<lparr>g_usedHeapSize := g_usedHeapSize ?t + adr k\<rparr>"
    have f: "hmem ?s' = m3" "start_address ?s' = start_address s" "end_address ?s' = end_address s"
      "heap_index ?s' = remove_ordered_array i (heap_index s)"
      using False by (simp_all add: upd_mem_def remove_hole_def m3_def)
    have "set (items (heap_index ?s')) = adr ` holes_at (heap_start s) (alloc_list xs n k ys)"
      using False k(2) R(1) unfolding f(4) by (simp add: holes_alloc_list)
    then have "heap_ok ?s' (alloc_list xs n k ys)"
      using R unfolding f(4) [symmetric] by (intro okI f(1-3)) auto
    moreover have "same_outside s ?s' b (b + n)"
      using R unfolding f(4) [symmetric] by (intro outside f(1-3)) auto
    moreover have "memory_alloc (adr z) False s = Some (adr (b + 12), ?s')"
      using False k by (simp add: eq split_behind_def)
    ultimately show thesis
      by (rule that [rotated])
  next
    case True
    let ?s2 = "upd_mem (\<lambda>m. m3) ?s1"
    have "adr n - adr k > 0"
      using True lim adr_less [of 0 "n - k"] by (simp add: adr_def)
    moreover have "adr (b + n - 8) < end_address s"
      using lim k adr_less [of "b + n - 8" "heap_end s"] by simp
    moreover have h: "adr b + 12 + adr (k - 20) + 8 = adr (b + k)"
      using k by (simp add: adr_def of_nat_diff)
    moreover have f: "adr (b + k) + adr n - adr k - 8 = adr (b + n - 8)"
      using True k by (simp add: adr_def of_nat_diff)
    ultimately have split: "split_behind (adr b) (adr (k - 20)) (adr k) (adr n) (upd_mem (\<lambda>m. m2) ?s1) = insert_hole (adr (b + k)) ?s2"
      unfolding split_behind_def Let_def h f using True by (simp add: upd_mem_def remove_hole_def m3_def)
    have new: "adr (b + k) \<notin> set (items (heap_index ?s1))"
      using not_a_hole [OF D(4,2,3), of b "b + k"] True R(1) by (simp add: remove_hole_def b_def)
    obtain j where j: "insert_hole (adr (b + k)) ?s2 = Some (?s2\<lparr>heap_index := j\<rparr>)"
      "set (items j) = insert (adr (b + k)) (set (items (heap_index ?s1)))" "oa_size j = Suc (oa_size (heap_index ?s1))"
      "oa_max_size j = oa_max_size (heap_index s)" "distinct (items j)"
      using insert_hole_ok [of ?s2 "adr (b + k)"] new R by (auto simp: upd_mem_def remove_hole_def)
    let ?s' = "?s2\<lparr>heap_index := j, g_usedHeapSize := g_usedHeapSize ?s2 + adr k\<rparr>"
    have f: "hmem ?s' = m3" "start_address ?s' = start_address s" "end_address ?s' = end_address s" "heap_index ?s' = j"
      by (simp_all add: upd_mem_def remove_hole_def)
    have "set (items (heap_index ?s')) = adr ` holes_at (heap_start s) (alloc_list xs n k ys)"
      using True R(1) j(2) unfolding f(4) by (simp add: holes_alloc_list remove_hole_def b_def image_Un insert_commute)
    moreover have "distinct (items (heap_index ?s'))" "oa_size (heap_index ?s') \<le> oa_max_size (heap_index ?s')"
      using R(3) j(3-5) unfolding f(4) by (simp_all add: remove_hole_def)
    ultimately have "heap_ok ?s' (alloc_list xs n k ys)"
      by (intro okI f(1-3))
    moreover have "same_outside s ?s' b (b + n)"
      using j(4) by (intro outside f(1-3)) (unfold f(4))
    moreover have "memory_alloc (adr z) False s = Some (adr (b + 12), ?s')"
      by (simp add: eq split j(1))
    ultimately show thesis
      by (rule that [rotated])
  qed
qed

lemma memory_alloc_ok:
  assumes ok: "heap_ok s bs" and z: "z + 20 < 2 ^ 32"
  shows "case memory_alloc (adr z) False s of
      None \<Rightarrow> \<forall>n. (n, True) \<in> set bs \<longrightarrow> n < z + 20
    | Some (p, s') \<Rightarrow> \<exists>xs n ys. bs = xs @ (n, True) # ys \<and> z + 20 \<le> n \<and> p = adr (heap_start s + extent xs + 12) \<and>
        heap_ok s' (alloc_list xs n (alloc_size z n) ys) \<and> same_outside s s' (heap_start s + extent xs) (heap_start s + extent xs + n)"
proof (cases "find_smallest_hole (adr (z + 20)) False s 0")
  case None
  have "n < z + 20" if hole: "(n, True) \<in> set bs" for n
  proof -
    obtain xs ys where bs: "bs = xs @ (n, True) # ys"
      using split_list [OF hole] by blast
    obtain i where i: "i < oa_size (heap_index s)" "lookup_ordered_array i (heap_index s) = adr (heap_start s + extent xs)"
      using index_of_hole [OF ok [unfolded bs]] .
    have "hd_size (hmem s) (items (heap_index s) ! i) = adr n"
      using tiles_hd_size(1) [OF heap_okD(4) [OF ok, unfolded bs]] i by (simp add: lookup_ordered_array_def items_nth)
    then have "\<not> adr (z + 20) \<le> adr n"
      using find_hole [where n = "adr (z + 20)" and s = s and i = 0] None i(1) by auto
    then show ?thesis
      using z heap_okD(2,3) [OF ok] bs by (simp add: adr_le)
  qed
  moreover have "memory_alloc (adr z) False s = None"
    unfolding memory_alloc_def alloc_arg Let_def None by simp
  ultimately show ?thesis
    by simp
next
  case (Some i)
  then have i: "i < oa_size (heap_index s)" "adr (z + 20) \<le> hd_size (hmem s) (items (heap_index s) ! i)"
    using find_hole [where n = "adr (z + 20)" and s = s and i = 0] by simp_all
  obtain xs n ys where bs: "bs = xs @ (n, True) # ys" and at: "lookup_ordered_array i (heap_index s) = adr (heap_start s + extent xs)"
    using hole_in_index [OF ok i(1)] .
  have "hd_size (hmem s) (items (heap_index s) ! i) = adr n"
    using tiles_hd_size(1) [OF heap_okD(4) [OF ok, unfolded bs]] i(1) at by (simp add: lookup_ordered_array_def items_nth)
  then have n: "z + 20 \<le> n"
    using i(2) z heap_okD(2,3) [OF ok] bs by (simp add: adr_le)
  obtain s' where "memory_alloc (adr z) False s = Some (adr (heap_start s + extent xs + 12), s')"
    "heap_ok s' (alloc_list xs n (alloc_size z n) ys)"
    "same_outside s s' (heap_start s + extent xs) (heap_start s + extent xs + n)"
    using memory_alloc_at [OF ok [unfolded bs] n Some i(1) at] .
  then show ?thesis
    using bs n by auto
qed

section \<open>Release\<close>

lemma merge_tiles:
  assumes "tiles m e a (xs @ (n, True) # (k, True) # ys)" "a + extent (xs @ (n, True) # (k, True) # ys) = e" "e + 12 \<le> 2 ^ 32"
    and b: "b = a + extent xs"
    and m': "ld32 m' (adr (b + 8)) = adr (n + k)" "ld32 m' (adr (b + n + k - 4)) = adr b"
    and out: "\<And>lo hi. hi \<le> 2 ^ 32 \<Longrightarrow> hi \<le> b + 8 \<or> b + 12 \<le> lo \<and> hi \<le> b + n + k - 4 \<or> b + n + k \<le> lo \<Longrightarrow> agree m m' lo hi"
  shows "tiles m' e a (xs @ (n + k, True) # ys)"
proof -
  have t: "20 \<le> n" "20 \<le> k" "hdr m b n True" "b + n + k = e \<or> ftr m (b + n) k" "b + n + k + extent ys = e"
    using assms(1,2) b by (auto simp: tiles_append add.assoc)
  have "hdr m' b (n + k) True"
    using t(3) m'(1) ld32_agree [OF out, of "b + 8" b b] byte_agree [OF out, of "b + 8" b "b + 4"] t(1,5) assms(3)
    by (simp add: hdr_def)
  moreover have "agree m m' (b + n + k - 8) (b + n + k - 4)"
    by (rule out) (use t assms(3) in auto)
  then have "ftr m' b (n + k)" if "ftr m (b + n) k"
    using that m'(2) ld32_agree [of m m' "b + n + k - 8" "b + n + k - 4" "b + n + k - 8"] t(1,2) by (simp add: ftr_def add.assoc)
  ultimately have "tiles m' e b [(n + k, True)]"
    using t by auto
  moreover have "tiles m e a xs" "tiles m e (b + n + k) ys"
    using assms(1) b by (simp_all add: tiles_append add.assoc)
  then have "tiles m' e a xs" "tiles m' e (b + n + k) ys"
    using t(5) assms(3) b by (simp_all add: tiles_agree [OF out])
  ultimately show ?thesis
    using b by (simp add: tiles_append add.assoc)
qed

definition join_left :: "(nat \<times> bool) list \<Rightarrow> nat \<Rightarrow> (nat \<times> bool) list \<times> nat" where
  "join_left xs n = (if xs \<noteq> [] \<and> snd (last xs) then (butlast xs, fst (last xs) + n) else (xs, n))"

fun join_right :: "nat \<Rightarrow> (nat \<times> bool) list \<Rightarrow> nat \<times> (nat \<times> bool) list" where
  "join_right n ((k, True) # ys) = (n + k, ys)"
| "join_right n ys = (n, ys)"

definition free_list :: "(nat \<times> bool) list \<Rightarrow> nat \<Rightarrow> (nat \<times> bool) list \<Rightarrow> (nat \<times> bool) list" where
  "free_list xs n ys = (let (xs', n1) = join_left xs n; (n2, ys') = join_right n1 ys in xs' @ (n2, True) # ys')"

lemma mark_tiles:
  assumes "tiles m e a (xs @ (n, False) # ys)" "a + extent (xs @ (n, False) # ys) = e" "e + 12 \<le> 2 ^ 32" "b = a + extent xs"
  shows "tiles (m(adr (b + 4) := 1)) e a (xs @ (n, True) # ys)"
proof -
  let ?m = "m(adr (b + 4) := 1)"
  have t: "20 \<le> n" "hdr m b n False" "ftr m b n" "b + n + extent ys = e"
    using assms by (auto simp: tiles_append add.assoc)
  have out: "agree m ?m lo hi" if "hi \<le> b + 4 \<or> b + 5 \<le> lo" "hi \<le> 2 ^ 32" for lo hi
    using that t assms(3) agree_byte [of "b + 4" hi lo m 1] by (auto simp: agree_sym)
  have "hdr ?m b n True"
    using t assms(3) ld32_agree [OF out, of "b + 4" b b] ld32_agree [OF out, of "b + 12" "b + 8" "b + 8"] by (simp add: hdr_def)
  moreover have "ftr ?m b n"
    using t assms(3) ftr_agree [OF out, of b n] by simp
  ultimately have "tiles ?m e b [(n, True)]"
    using t(1) by simp
  then show ?thesis
    using tiles_replace [OF assms(1), of ?m "[(n, True)]"] out t(1,4) assms(3,4) by simp
qed

lemma unify_left_ok:
  assumes t: "tiles (hmem s) e a (xs @ (n, True) # ys)" "a + extent (xs @ (n, True) # ys) = e" "e + 12 \<le> 2 ^ 32" "b = a + extent xs"
    and start: "8 \<le> a" "ld32 (hmem s) (adr (a - 8)) \<noteq> HEAP_MAGIC"
    and j: "join_left xs n = (xs', n1)"
  obtains m' where "unify_left (adr b) (adr (b + n - 8)) s = (adr (a + extent xs'), xs' = xs, s\<lparr>hmem := m'\<rparr>)"
    "tiles m' e a (xs' @ (n1, True) # ys)" "agree (hmem s) m' 0 (a + extent xs')" "agree (hmem s) m' (b + n) (2 ^ 32)"
proof (cases xs rule: rev_cases)
  case Nil
  then have "unify_left (adr b) (adr (b + n - 8)) s = (adr (a + extent xs'), xs' = xs, s\<lparr>hmem := hmem s\<rparr>)"
    using assms by (simp add: unify_left_def ft_magic_def join_left_def Let_def)
  then show thesis
    using that [of "hmem s"] Nil t j by (simp add: join_left_def)
next
  case (snoc xs0 kh)
  obtain k h where kh: "kh = (k, h)"
    by (cases kh) auto
  let ?m = "hmem s" and ?c = "a + extent xs0"
  have b: "b = ?c + k" and le: "20 \<le> k" "20 \<le> n" "b + n + extent ys = e"
    using t snoc kh by (auto simp: tiles_append add.assoc)
  then have f: "hdr ?m ?c k h" "ftr ?m ?c k"
    using t snoc kh by (auto simp: tiles_append add.assoc)
  have c: "ft_magic ?m (adr b - 8) = HEAP_MAGIC" "ft_header ?m (adr b - 8) = adr ?c" "hd_is_hole ?m (adr ?c) = (if h then 1 else 0)"
    using f le b by (simp_all add: ftr_def hdr_def ft_magic_def ft_header_def hd_is_hole_def add.assoc)
  show thesis
  proof (cases h)
    case False
    then have same: "xs' = xs" "n1 = n"
      using j snoc kh by (simp_all add: join_left_def)
    have "unify_left (adr b) (adr (b + n - 8)) s = (adr b, True, s\<lparr>hmem := hmem s\<rparr>)"
      using c False by (simp add: unify_left_def Let_def)
    then show thesis
      using that [of "hmem s"] t(1,4) by (simp add: same)
  next
    case True
    let ?m1 = "st32 (adr (b + n - 4)) (adr ?c) ?m"
    let ?m2 = "st32 (adr (?c + 8)) (adr (k + n)) ?m1"
    have "hd_size ?m (adr b) = adr n"
      using tiles_hd_size(1) [OF t(1)] t(4) by simp
    moreover have "hd_size ?m1 (adr ?c) = adr k"
      using f(1) le b t(3) by (simp add: hd_size_def hdr_def ld32_st32_other)
    ultimately have u: "unify_left (adr b) (adr (b + n - 8)) s = (adr ?c, False, s\<lparr>hmem := ?m2\<rparr>)"
      using c True le by (simp add: unify_left_def Let_def)
    have out: "agree ?m ?m2 lo hi"
      if "hi \<le> 2 ^ 32" "hi \<le> ?c + 8 \<or> ?c + 12 \<le> lo \<and> hi \<le> b + n - 4 \<or> b + n \<le> lo" for lo hi
    proof -
      have "agree ?m2 ?m1 lo hi" "agree ?m1 ?m lo hi"
        using that le b t(3) by (auto intro!: agree_st32)
      then show ?thesis
        by (metis agree_sym agree_trans)
    qed
    have "tiles ?m2 e a (xs0 @ (k + n, True) # ys)"
      using t(1-3) snoc kh True b le
      by (intro merge_tiles [where m = ?m and b = ?c] out) (auto simp: ld32_st32_other add.assoc)
    moreover have "agree ?m ?m2 0 ?c"
      by (rule out) (use le b t(3) in auto)
    moreover have "agree ?m ?m2 (b + n) (2 ^ 32)"
      by (rule out) auto
    moreover have "xs' = xs0" "n1 = k + n" "xs' \<noteq> xs"
      using j snoc kh True by (auto simp: join_left_def)
    ultimately show thesis
      using that [of ?m2] u by simp
  qed
qed

lemma index_of_first: "p \<in> set (drop i (items a)) \<Longrightarrow> i \<le> oa_size a \<Longrightarrow> index_of a p i < oa_size a \<and> lookup_ordered_array (index_of a p i) a = p"
proof (induction a p i rule: index_of.induct)
  case (1 a p i)
  show ?case
  proof (cases "i < oa_size a \<and> lookup_ordered_array i a \<noteq> p")
    case True
    then have "drop i (items a) = lookup_ordered_array i a # drop (Suc i) (items a)"
      by (simp add: lookup_ordered_array_def Cons_nth_drop_Suc flip: items_nth)
    then show ?thesis
      using 1 True by (subst (1 2) index_of.simps) auto
  next
    case False
    have "i < oa_size a"
      using 1(2) by (metis drop_all empty_iff length_items list.set(1) not_le)
    then show ?thesis
      using False by (subst (1 2) index_of.simps) auto
  qed
qed

lemma unify_right_ok:
  assumes t: "tiles (hmem s) e a (xs @ (n, True) # ys)" "a + extent (xs @ (n, True) # ys) = e" "e + 12 \<le> 2 ^ 32" "b = a + extent xs"
    and stop: "ld32 (hmem s) (adr e) \<noteq> HEAP_MAGIC" and j: "join_right n ys = (n2, ys')"
    and idx: "ys' \<noteq> ys \<Longrightarrow> adr (b + n) \<in> set (items (heap_index s))"
  obtains m' i where "ys' \<noteq> ys \<longrightarrow> i < oa_size (heap_index s) \<and> lookup_ordered_array i (heap_index s) = adr (b + n)"
    "unify_right (adr b) (adr (b + n - 8)) s = Some (s\<lparr>hmem := m', heap_index := (if ys' = ys then heap_index s else remove_ordered_array i (heap_index s))\<rparr>)"
    "tiles m' e a (xs @ (n2, True) # ys')" "agree (hmem s) m' 0 b" "agree (hmem s) m' (b + n2) (2 ^ 32)"
proof -
  let ?m = "hmem s"
  have le: "20 \<le> n" "b + n + extent ys = e"
    using t by (auto simp: tiles_append add.assoc)
  then have f8: "adr (b + n - 8) + 8 = adr (b + n)"
    by simp
  show thesis
  proof (cases "\<exists>k ys1. ys = (k, True) # ys1")
    case False
    then have same: "n2 = n" "ys' = ys"
      using j by (cases "(n, ys)" rule: join_right.cases; auto)+
    have c: "\<not> (hd_magic ?m (adr (b + n)) = HEAP_MAGIC \<and> hd_is_hole ?m (adr (b + n)) \<noteq> 0)"
    proof (cases ys)
      case Nil
      then show ?thesis
        using stop le by (simp add: hd_magic_def)
    next
      case (Cons kh ys1)
      then obtain k where "ys = (k, False) # ys1"
        using False by (cases kh) auto
      then have "hdr ?m (b + n) k False"
        using t(1,4) by (simp add: tiles_append add.assoc)
      then show ?thesis
        by (simp add: hdr_def hd_is_hole_def)
    qed
    have "unify_right (adr b) (adr (b + n - 8)) s = Some (s\<lparr>hmem := hmem s, heap_index := heap_index s\<rparr>)"
      by (simp only: unify_right_def f8 Let_def c if_False) simp
    then show thesis
      using that [where m' = "hmem s"] same t(1) by simp
  next
    case True
    then obtain k ys1 where ys: "ys = (k, True) # ys1"
      by auto
    then have new: "n2 = n + k" "ys' = ys1" "ys' \<noteq> ys"
      using j by auto
    have h: "hdr ?m (b + n) k True" "20 \<le> k"
      using t(1,4) ys by (simp_all add: tiles_append add.assoc)
    let ?m1 = "st32 (adr (b + 8)) (adr (n + k)) ?m"
    let ?m2 = "st32 (adr (b + n + k - 4)) (adr b) ?m1"
    define i where "i = index_of (heap_index s) (adr (b + n)) 0"
    have i: "i < oa_size (heap_index s)" "lookup_ordered_array i (heap_index s) = adr (b + n)"
      using index_of_first [of "adr (b + n)" 0 "heap_index s"] idx new(3) by (simp_all add: i_def)
    have "hd_size ?m (adr b) = adr n" "hd_size ?m (adr (b + n)) = adr k"
      using tiles_hd_size(1) [OF t(1)] t(4) h(1) by (simp_all add: hd_size_def hdr_def)
    moreover have "hd_size ?m1 (adr (b + n)) = adr k"
      using h le t(3) ys by (simp add: hd_size_def hdr_def ld32_st32_other)
    moreover have "hd_magic ?m (adr (b + n)) = HEAP_MAGIC" "hd_is_hole ?m (adr (b + n)) = 1"
      using h(1) by (simp_all add: hdr_def hd_magic_def hd_is_hole_def)
    moreover have "adr (b + n) + adr k - 8 + 4 = adr (b + n + k - 4)"
      using h(2) by (simp add: add.assoc)
    ultimately have u: "unify_right (adr b) (adr (b + n - 8)) s = Some (s\<lparr>hmem := ?m2, heap_index := remove_ordered_array i (heap_index s)\<rparr>)"
      unfolding unify_right_def f8 Let_def by (simp add: i(1) i_def [symmetric] remove_hole_def del: adr_footer adr_diff adr_simps) (simp add: i(1))
    have out: "agree ?m ?m2 lo hi"
      if "hi \<le> 2 ^ 32" "hi \<le> b + 8 \<or> b + 12 \<le> lo \<and> hi \<le> b + n + k - 4 \<or> b + n + k \<le> lo" for lo hi
    proof -
      have "agree ?m2 ?m1 lo hi" "agree ?m1 ?m lo hi"
        using that le h t(3) ys by (auto intro!: agree_st32)
      then show ?thesis
        by (metis agree_sym agree_trans)
    qed
    have "tiles ?m2 e a (xs @ (n + k, True) # ys1)"
      using t h ys le by (intro merge_tiles [where m = ?m and b = b] out) (auto simp: ld32_st32_other)
    moreover have "agree ?m ?m2 0 b"
      by (rule out) (use le t(3) in auto)
    moreover have "agree ?m ?m2 (b + n2) (2 ^ 32)"
      by (rule out) (auto simp: new)
    ultimately show thesis
      using that [of i ?m2] u i new by simp
  qed
qed

lemma separated_free: "separated (xs @ (n, False) # ys) \<Longrightarrow> separated (free_list xs n ys)"
  by (cases xs rule: rev_cases; cases "(n, ys)" rule: join_right.cases)
    (auto simp: separated_def free_list_def join_left_def successively_append_iff successively_Cons split: if_splits)

lemma join_left_extent: "join_left xs n = (xs', n1) \<Longrightarrow> extent xs' + n1 = extent xs + n"
  by (cases xs rule: rev_cases) (auto simp: join_left_def split: if_splits)

lemma join_left_holes:
  "join_left xs n = (xs', n1) \<Longrightarrow> xs' \<noteq> xs \<Longrightarrow> holes_at a xs = insert (a + extent xs') (holes_at a xs')"
  by (cases xs rule: rev_cases) (auto simp: join_left_def split: if_splits)

lemma join_right_cases:
  assumes "join_right n ys = (n2, ys')"
  obtains "ys' = ys" "n2 = n" | k where "ys = (k, True) # ys'" "n2 = n + k"
  using assms by (cases "(n, ys)" rule: join_right.cases) auto

lemma hfree_ok:
  assumes ok: "heap_ok s (xs @ (n, False) # ys)" and room: "oa_size (heap_index s) < oa_max_size (heap_index s)"
    and j: "join_left xs n = (xs', n1)" "join_right n1 ys = (n2, ys')"
  defines "a \<equiv> heap_start s"
  obtains s' where "hfree (adr (a + extent xs + 12)) s = Some s'" "heap_ok s' (xs' @ (n2, True) # ys')"
    "same_outside s s' (a + extent xs') (a + extent xs' + n2)"
proof -
  note D = heap_okD [OF ok, folded a_def]
  let ?m = "hmem s" and ?e = "heap_end s"
  define b where "b = a + extent xs"
  define c where "c = a + extent xs'"
  have le: "b + n + extent ys = ?e" "20 \<le> n" "c + n1 = b + n" "8 \<le> b"
    using D(1,2,4) join_left_extent [OF j(1)] by (auto simp: b_def c_def tiles_append)
  have f: "hdr ?m b n False" "ftr ?m b n"
    using D(4) by (auto simp: tiles_append b_def)
  let ?m1 = "?m(adr (b + 4) := 1)"
  have m1: "agree ?m ?m1 lo hi" if "hi \<le> b + 4 \<or> b + 5 \<le> lo" "hi \<le> 2 ^ 32" for lo hi
    using that le D(3) agree_byte [of "b + 4" hi lo ?m 1] by (auto simp: agree_sym)
  have t1: "tiles ?m1 ?e a (xs @ (n, True) # ys)"
    using mark_tiles [OF D(4,2,3) b_def] .
  define s1 where "s1 = s\<lparr>g_usedHeapSize := g_usedHeapSize s - adr n, hmem := ?m1\<rparr>"
  have "ld32 (hmem s1) (adr (a - 8)) \<noteq> HEAP_MAGIC"
    using D(1,6) ld32_agree [OF m1, of "b + 4" "a - 8" "a - 8"] le D(3) by (simp add: s1_def b_def)
  then obtain m2 where L: "unify_left (adr b) (adr (b + n - 8)) s1 = (adr c, xs' = xs, s1\<lparr>hmem := m2\<rparr>)"
    "tiles m2 ?e a (xs' @ (n1, True) # ys)" "agree ?m1 m2 0 c" "agree ?m1 m2 (b + n) (2 ^ 32)"
    using unify_left_ok [of s1 ?e a xs n ys b xs' n1] t1 D(1-3) b_def j(1) by (auto simp: s1_def c_def)
  define s2 where "s2 = s1\<lparr>hmem := m2\<rparr>"
  have s2: "heap_index s2 = heap_index s" "hmem s2 = m2" "start_address s2 = start_address s" "end_address s2 = end_address s"
    by (simp_all add: s2_def s1_def)
  have p: "tiles (hmem s2) ?e a (xs' @ (n1, True) # ys)" "a + extent (xs' @ (n1, True) # ys) = ?e"
    using L(2) le c_def by (simp_all add: s2)
  have stop: "ld32 (hmem s2) (adr ?e) \<noteq> HEAP_MAGIC"
    using D(3,7) le ld32_agree [OF L(4), of ?e] ld32_agree [OF m1, of "2 ^ 32" "?e" ?e] by (simp add: s2)
  have idx: "adr (c + n1) \<in> set (items (heap_index s2))" if "ys' \<noteq> ys"
    using j(2) that by (cases rule: join_right_cases) (auto simp: s2 D(9) le(3) b_def add.assoc)
  obtain m3 i where R: "ys' \<noteq> ys \<longrightarrow> i < oa_size (heap_index s) \<and> lookup_ordered_array i (heap_index s) = adr (b + n)"
    "unify_right (adr c) (adr (b + n - 8)) s2 =
       Some (s2\<lparr>hmem := m3, heap_index := (if ys' = ys then heap_index s else remove_ordered_array i (heap_index s))\<rparr>)"
    "tiles m3 ?e a (xs' @ (n2, True) # ys')" "agree m2 m3 0 c" "agree m2 m3 (c + n2) (2 ^ 32)"
    by (rule unify_right_ok [OF p D(3) c_def stop j(2) idx, unfolded s2 le(3)])
  define s3 where "s3 = s2\<lparr>hmem := m3, heap_index := (if ys' = ys then heap_index s else remove_ordered_array i (heap_index s))\<rparr>"
  have cn2: "b + n \<le> c + n2" "c + n2 + extent ys' = ?e"
    using j(2) le by (cases rule: join_right_cases; simp)+
  have out: "agree ?m m3 0 c" "agree ?m m3 (c + n2) (2 ^ 32)"
  proof -
    have "c \<le> b"
      using j(1) le join_left_extent [OF j(1)] by (auto simp: join_left_def b_def c_def split: if_splits)
    then show "agree ?m m3 0 c"
      using m1 [of c 0] L(3) R(4) le D(3) by (auto intro: agree_trans)
    show "agree ?m m3 (c + n2) (2 ^ 32)"
      using m1 [of "2 ^ 32" "c + n2"] agree_sub [OF L(4), of "c + n2" "2 ^ 32"] R(5) cn2 le by (auto intro: agree_trans)
  qed
  have I: "set (items (heap_index s3)) = adr ` (holes_at a xs \<union> holes_at (c + n2) ys') \<and> distinct (items (heap_index s3)) \<and>
      oa_size (heap_index s3) < oa_max_size (heap_index s) \<and> oa_max_size (heap_index s3) = oa_max_size (heap_index s)"
    using j(2)
  proof (cases rule: join_right_cases)
    case 1
    then show ?thesis
      using D(8,9) room le(3) by (simp add: s3_def b_def)
  next
    case (2 k)
    then have i: "i < oa_size (heap_index s)" "lookup_ordered_array i (heap_index s) = adr (heap_start s + extent (xs @ [(n, False)]))"
      using R(1) by (auto simp: b_def a_def add.assoc)
    have "c + n2 = a + extent (xs @ [(n, False)]) + k"
      using 2(2) le(3) by (simp add: b_def)
    then show ?thesis
      using index_without_hole [of s "xs @ [(n, False)]" k ys', OF _ i] ok 2(1) by (simp add: s3_def a_def)
  qed
  note ret = that
  have fin: thesis if "hfree (adr (a + extent xs + 12)) s = Some s'" "hmem s' = m3" "start_address s' = start_address s" "end_address s' = end_address s"
      "distinct (items (heap_index s'))" "oa_size (heap_index s') \<le> oa_max_size (heap_index s')" "oa_max_size (heap_index s') = oa_max_size (heap_index s)"
      "set (items (heap_index s')) = adr ` holes_at a (xs' @ (n2, True) # ys')" for s'
  proof (rule ret [OF that(1)])
    have "ld32 m3 (adr (a - 8)) \<noteq> HEAP_MAGIC"
      using D(1,6) ld32_agree [OF out(1), of "a - 8"] by (simp add: c_def)
    moreover have "ld32 m3 (adr ?e) \<noteq> HEAP_MAGIC"
      using D(3,7) ld32_agree [OF out(2), of ?e] cn2 by simp
    moreover have "separated (xs' @ (n2, True) # ys')"
      using separated_free [OF D(5)] j by (simp add: free_list_def)
    ultimately show "heap_ok s' (xs' @ (n2, True) # ys')"
      using that D(1,3) R(3) cn2(2) by (simp add: heap_ok_def Let_def a_def c_def)
    show "same_outside s s' (a + extent xs') (a + extent xs' + n2)"
      using that out by (simp add: same_outside_def c_def)
  qed
  have free: "hfree (adr (a + extent xs + 12)) s = (if xs' = xs then insert_hole (adr c) s3 else Some s3)"
  proof -
    have "adr (b + 12) \<noteq> 0"
      using le D(3) adr_eq [of "b + 12" 0] by (simp add: adr_def)
    moreover have "adr (b + 12) - 12 = adr b" "adr b + adr n - 8 = adr (b + n - 8)"
      using le by simp_all
    moreover have "hd_size ?m (adr b) = adr n" "hd_magic ?m (adr b) = HEAP_MAGIC" "ft_magic ?m (adr (b + n - 8)) = HEAP_MAGIC"
      using f by (simp_all add: hdr_def ftr_def hd_size_def hd_magic_def ft_magic_def)
    moreover have "upd_mem (\<lambda>m. m(adr b + 4 := 1)) (s\<lparr>g_usedHeapSize := g_usedHeapSize s - adr n\<rparr>) = s1"
      by (simp add: upd_mem_def s1_def)
    ultimately show ?thesis
      unfolding b_def [symmetric] hfree_def Let_def using L(1) R(2) by (simp add: s2_def [symmetric] s3_def [symmetric] del: adr_simps adr_diff)
  qed
  show thesis
  proof (cases "xs' = xs")
    case False
    then show thesis
      using I free join_left_holes [OF j(1) False, of a] by (intro fin [of s3]) (auto simp: s3_def s2 c_def)
  next
    case True
    then have bc: "c = b" "n1 = n"
      using le(3) by (simp_all add: b_def c_def)
    have "adr b \<notin> set (items (heap_index s3))"
      using not_a_hole [OF R(3), of c b] I cn2 D(3) True le by (simp add: c_def bc)
    then obtain k where k: "insert_hole (adr c) s3 = Some (s3\<lparr>heap_index := k\<rparr>)" "set (items k) = insert (adr c) (set (items (heap_index s3)))"
      "oa_size k = Suc (oa_size (heap_index s3))" "oa_max_size k = oa_max_size (heap_index s3)" "distinct (items k)"
      using insert_hole_ok [of s3 "adr c"] I bc by metis
    then show thesis
      using I free True by (intro fin [of "s3\<lparr>heap_index := k\<rparr>"]) (auto simp: s3_def s2 c_def)
  qed
qed

end
