(* ===== verification/Kheap_Props.thy ===== *)
theory Kheap_Props
  imports Kheap_Lemmas
begin

text \<open>
  The kernel heap from its creation on: the live blocks never overlap, malloc and free keep the bytes of all other
  blocks, and free undoes malloc; and the places where the code falls short.
\<close>

section \<open>Reachable heaps\<close>

text \<open>Creation: the words just behind and, in the page that the rounding skips, just in front of the heap must not be the magic.\<close>

lemma neg_mask_page: "NOT (mask 12) = (0xFFFFF000 :: u32)"
  by (simp add: mask_eq_exp_minus_1 word_eq_iff_unsigned)

lemma create_kernel_heap_ok:
  assumes "start mod 0x1000 = 0" "e mod 0x1000 = 0" "unat start + 0x82000 \<le> unat e" "unat e + 12 \<le> 2 ^ 32"
    and "ld32 (hmem s0) (adr (unat start + 0x80FF8)) \<noteq> HEAP_MAGIC" "ld32 (hmem s0) e \<noteq> HEAP_MAGIC"
  shows "\<exists>s. create_kernel_heap start e mx su ro s0 = Some s \<and> start_address s = start + 0x81000 \<and>
    oa_max_size (heap_index s) = HEAP_INDEX_SIZE \<and> heap_ok s [(unat e - unat start - 0x81000, True)]"
proof -
  let ?t = "start + 0x80000" and ?a = "unat start + 0x81000"
  define m where "m = (\<lambda>a. if a - start < 4 * 0x20000 then 0 else hmem s0 a)"
  have t: "unat ?t = unat start + 0x80000" "start = adr (unat start)"
    using assms(3,4) by (simp_all add: unat_word_ariths)
  have "unat start mod 0x1000 = 0"
    using assms(1) unat_mod_distrib [of start "0x1000"] by simp
  then have "unat ?t mod 0x1000 = 0"
    unfolding t(1) by (subst mod_add_left_eq [symmetric]) simp
  then have "take_bit 12 ?t = 0"
    using unat_mod_distrib [of ?t "0x1000"] by (simp add: take_bit_eq_mod flip: unat_eq_zero)
  then have "?t AND mask 12 = 0"
    by (simp add: take_bit_eq_mask)
  moreover have "?t = (?t AND mask 12) OR (?t AND NOT (mask 12))"
    by (rule bit_word_eqI) (auto simp: bit_simps)
  ultimately have "?t AND NOT (mask 12) = ?t"
    by simp
  then have round: "?t AND 0xFFFFF000 = ?t"
    by (metis neg_mask_page)
  have table: "start + 4 * 0x20000 = ?t"
    by simp
  let ?n = "unat e - ?a"
  have ne: "?t \<noteq> 0"
    using t(1) by auto
  have size: "e - adr ?a = adr ?n" "?t + 0x1000 = adr ?a"
    using t assms(3) by (simp_all add: adr_def of_nat_diff add.commute)
  define m1 where "m1 = set_header (adr ?a) 1 (adr ?n) m"
  define s1 where "s1 = s0\<lparr>heap_index := place_ordered_array HEAP_INDEX_SIZE, start_address := adr ?a, end_address := e,
    max_address := mx, supervisor := su, readonly := ro, hmem := m1\<rparr>"
  have eq: "create_kernel_heap start e mx su ro s0 = insert_hole (adr ?a) s1"
    using assms(1,2) ne unfolding create_kernel_heap_def Let_def table round by (simp add: size s1_def m1_def m_def)
  have free: "oa_size (heap_index s1) < oa_max_size (heap_index s1)" "items (heap_index s1) = []"
    by (simp_all add: s1_def place_ordered_array_def items_def)
  obtain i where i: "insert_hole (adr ?a) s1 = Some (s1\<lparr>heap_index := i\<rparr>)" "set (items i) = {adr ?a}" "oa_size i \<le> oa_max_size i"
    "oa_max_size i = oa_max_size (heap_index s1)" "distinct (items i)"
    by (rule insert_hole_ok [OF free(1), of "adr ?a"]) (use free in \<open>simp_all add: Suc_le_eq\<close>)
  have "adr a - start < 4 * 0x20000 \<longleftrightarrow> a < unat start + 0x80000" if "unat start \<le> a" "a < 2 ^ 32" for a
    using that t(2) adr_less [of "a - unat start" "0x80000"] by (simp add: adr_def of_nat_diff less_diff_conv2 add.commute)
  then have m: "agree (hmem s0) m (unat start + 0x80000) (2 ^ 32)"
    by (auto simp: agree_def m_def)
  have m1: "agree m m1 lo hi" if "hi \<le> ?a \<or> ?a + 12 \<le> lo" "hi \<le> 2 ^ 32" for lo hi
    using that assms(3,4) set_header_agree [of ?a hi lo 1 "adr ?n" m] by (auto simp: m1_def agree_sym)
  have "ld32 m1 (adr (unat start + 0x80FF8)) \<noteq> HEAP_MAGIC"
    using assms(3-5) ld32_agree [OF m, of "unat start + 0x80FF8"] ld32_agree [OF m1, of ?a "unat start + 0x80FF8" "unat start + 0x80FF8"] by simp
  then have "ld32 m1 (adr (?a - 8)) \<noteq> HEAP_MAGIC"
    by (simp add: add.commute)
  moreover have "ld32 m1 e \<noteq> HEAP_MAGIC"
    using assms(3,4,6) ld32_agree [OF m, of "unat e"] ld32_agree [OF m1, of "2 ^ 32" "unat e" "unat e"] by simp
  moreover have "hdr m1 ?a ?n True"
    using set_header_hdr [of ?a True ?n m] assms(3,4) by (simp add: m1_def)
  ultimately have "heap_ok (s1\<lparr>heap_index := i\<rparr>) [(?n, True)]"
    using i assms(3,4) by (simp add: heap_ok_def s1_def Let_def separated_def)
  then show ?thesis
    using eq i(1,4) size by (simp add: s1_def place_ordered_array_def add.commute)
qed

inductive heap_reach :: "heap \<Rightarrow> (nat \<rightharpoonup> nat) \<Rightarrow> bool" where
  boot: "start mod 0x1000 = 0 \<Longrightarrow> e mod 0x1000 = 0 \<Longrightarrow> unat start + 0x82000 \<le> unat e \<Longrightarrow> unat e + 12 \<le> 2 ^ 32 \<Longrightarrow>
    ld32 (hmem s0) (adr (unat start + 0x80FF8)) \<noteq> HEAP_MAGIC \<Longrightarrow> ld32 (hmem s0) e \<noteq> HEAP_MAGIC \<Longrightarrow>
    create_kernel_heap start e mx su ro s0 = Some s \<Longrightarrow> heap_reach s Map.empty"
| malloc: "heap_reach s live \<Longrightarrow> z + 20 < 2 ^ 32 \<Longrightarrow> heap_malloc (adr z) s = Some (p, s') \<Longrightarrow> heap_reach s' (live(unat p \<mapsto> z))"
| store: "heap_reach s live \<Longrightarrow> live p = Some z \<Longrightarrow> p \<le> x \<Longrightarrow> x < p + z \<Longrightarrow> heap_reach (s\<lparr>hmem := (hmem s)(adr x := v)\<rparr>) live"
| free: "heap_reach s live \<Longrightarrow> p \<in> dom live \<Longrightarrow> oa_size (heap_index s) < oa_max_size (heap_index s) \<Longrightarrow> heap_free (adr p) s = Some s' \<Longrightarrow>
    heap_reach s' (live(p := None))"

fun blocks_at :: "nat \<Rightarrow> (nat \<times> bool) list \<Rightarrow> (nat \<times> nat) set" where
  "blocks_at a [] = {}"
| "blocks_at a ((n, h) # bs) = (if h then {} else {(a, n)}) \<union> blocks_at (a + n) bs"

lemma blocks_at_append [simp]: "blocks_at a (xs @ ys) = blocks_at a xs \<union> blocks_at (a + extent xs) ys"
  by (induction a xs rule: blocks_at.induct) (auto simp: add.assoc)

lemma blocks_atD: "(x, n) \<in> blocks_at a bs \<Longrightarrow> \<exists>xs ys. bs = xs @ (n, False) # ys \<and> x = a + extent xs"
proof (induction a bs rule: blocks_at.induct)
  case (2 a k h bs)
  show ?case
  proof (cases "(x, n) = (a, k) \<and> \<not> h")
    case True
    then show ?thesis by (intro exI [of _ "[]"] exI [of _ bs]) auto
  next
    case False
    then obtain xs ys where "bs = xs @ (n, False) # ys" "x = a + k + extent xs"
      using 2 by (auto split: if_splits)
    then show ?thesis
      by (intro exI [of _ "(k, h) # xs"] exI [of _ ys]) auto
  qed
qed simp

lemma blocks_at_range: "(x, n) \<in> blocks_at a bs \<Longrightarrow> tiles m e a bs \<Longrightarrow> a \<le> x \<and> x + n \<le> a + extent bs \<and> 20 \<le> n"
  by (auto dest!: blocks_atD simp: tiles_append)

lemma blocks_at_disjoint:
  "(x, n) \<in> blocks_at a bs \<Longrightarrow> (y, k) \<in> blocks_at a bs \<Longrightarrow> tiles m e a bs \<Longrightarrow> (x, n) \<noteq> (y, k) \<Longrightarrow> x + n \<le> y \<or> y + k \<le> x"
proof (induction a bs rule: blocks_at.induct)
  case (2 a j h bs)
  then show ?case
    using blocks_at_range [of x n "a + j" bs m e] blocks_at_range [of y k "a + j" bs m e] by (auto split: if_splits)
qed simp

text \<open>The live payloads, by address, with the sizes asked for, are those of the blocks.\<close>

definition matches :: "nat \<Rightarrow> (nat \<times> bool) list \<Rightarrow> (nat \<rightharpoonup> nat) \<Rightarrow> bool" where
  "matches a bs live \<longleftrightarrow> dom live = (\<lambda>(b, n). b + 12) ` blocks_at a bs \<and> (\<forall>b n. (b, n) \<in> blocks_at a bs \<longrightarrow> the (live (b + 12)) + 20 \<le> n)"

lemma matchesE:
  assumes "matches a bs live" "live p = Some z"
  obtains xs n ys where "bs = xs @ (n, False) # ys" "p = a + extent xs + 12" "z + 20 \<le> n" "(a + extent xs, n) \<in> blocks_at a bs"
proof -
  have "p \<in> (\<lambda>(b, n). b + 12) ` blocks_at a bs"
    using assms by (auto simp: matches_def)
  then obtain b n where b: "(b, n) \<in> blocks_at a bs" "p = b + 12"
    by auto
  then have "the (live (b + 12)) + 20 \<le> n"
    using assms(1) unfolding matches_def by blast
  then have "z + 20 \<le> n"
    using assms(2) b(2) by simp
  then show thesis
    using that b blocks_atD [OF b(1)] by blast
qed

lemma heap_ok_tiles:
  "heap_ok s bs \<Longrightarrow> tiles (hmem s) (heap_end s) (heap_start s) bs"
  "heap_ok s bs \<Longrightarrow> heap_start s + extent bs = heap_end s"
  "heap_ok s bs \<Longrightarrow> heap_end s < 2 ^ 32"
  using heap_okD(2-4) by fastforce+

lemma matches_alloc:
  assumes ok: "heap_ok s (xs @ (n, True) # ys)" and m: "matches (heap_start s) (xs @ (n, True) # ys) live" and z: "z + 20 \<le> k" "k \<le> n"
  shows "matches (heap_start s) (alloc_list xs n k ys) (live(heap_start s + extent xs + 12 \<mapsto> z))"
proof -
  let ?a = "heap_start s" and ?B = "blocks_at (heap_start s) (xs @ (n, True) # ys)"
  have t: "tiles (hmem s) (heap_end s) ?a xs" "tiles (hmem s) (heap_end s) (?a + extent xs + n) ys" "20 \<le> n"
    using heap_ok_tiles(1) [OF ok] by (auto simp: tiles_append)
  have B: "blocks_at ?a (alloc_list xs n k ys) = insert (?a + extent xs, k) ?B"
    using z by (auto simp: alloc_list_def add.assoc)
  have "b \<noteq> ?a + extent xs" if "(b, j) \<in> ?B" for b j
    using that blocks_at_range [OF _ t(1), of b j] blocks_at_range [OF _ t(2), of b j] t(3) by auto
  then show ?thesis
    using m z unfolding matches_def B by auto
qed

lemma matches_free:
  assumes ok: "heap_ok s (xs @ (n, False) # ys)" and m: "matches (heap_start s) (xs @ (n, False) # ys) live"
  shows "matches (heap_start s) (free_list xs n ys) (live(heap_start s + extent xs + 12 := None))"
proof -
  let ?a = "heap_start s"
  obtain xs' n1 n2 ys' where j: "join_left xs n = (xs', n1)" "join_right n1 ys = (n2, ys')"
    by (meson surj_pair)
  have t: "tiles (hmem s) (heap_end s) ?a xs" "tiles (hmem s) (heap_end s) (?a + extent xs + n) ys" "20 \<le> n"
    using heap_ok_tiles(1) [OF ok] by (auto simp: tiles_append)
  have l: "blocks_at ?a xs' = blocks_at ?a xs"
    using j(1) by (cases xs rule: rev_cases) (auto simp: join_left_def split: if_splits)
  have "blocks_at (?a + extent xs' + n2) ys' = blocks_at (?a + extent xs + n) ys"
    using j(2)
  proof (cases rule: join_right_cases)
    case (2 k)
    then have eq: "?a + extent xs' + n2 = ?a + extent xs + n + k"
      using join_left_extent [OF j(1)] by simp
    show ?thesis
      unfolding 2(1) eq by simp
  qed (use join_left_extent [OF j(1)] in \<open>simp add: add.assoc\<close>)
  then have B: "blocks_at ?a (free_list xs n ys) = blocks_at ?a xs \<union> blocks_at (?a + extent xs + n) ys"
    using j l by (simp add: free_list_def)
  have "(?a + extent xs, k) \<notin> blocks_at ?a xs" "(?a + extent xs, k) \<notin> blocks_at (?a + extent xs + n) ys" for k
    using blocks_at_range [OF _ t(1), of "?a + extent xs" k] blocks_at_range [OF _ t(2), of "?a + extent xs" k] t(3) by fastforce+
  then show ?thesis
    using m unfolding matches_def B by auto
qed

lemma payload_write:
  assumes ok: "heap_ok s (xs @ (n, False) # ys)" and x: "heap_start s + extent xs + 12 \<le> x" "x + 8 < heap_start s + extent xs + n"
  shows "heap_ok (s\<lparr>hmem := (hmem s)(adr x := v)\<rparr>) (xs @ (n, False) # ys)"
proof -
  let ?a = "heap_start s" and ?b = "heap_start s + extent xs" and ?m = "(hmem s)(adr x := v)"
  note D = heap_okD [OF ok]
  have le: "?b + n + extent ys = heap_end s"
    using D(2) by simp
  have out: "agree (hmem s) ?m lo hi" if "hi \<le> x \<or> x < lo" "hi \<le> 2 ^ 32" for lo hi
    using that x le D(3) agree_byte [of x hi lo "hmem s" v] by (auto simp: agree_sym)
  have t: "20 \<le> n" "hdr (hmem s) ?b n False" "ftr (hmem s) ?b n"
    using D(4) by (auto simp: tiles_append)
  have "hdr ?m ?b n False" "ftr ?m ?b n"
    using t x le D(3) hdr_agree [OF out, of ?b n False] ftr_agree [OF out, of ?b n] by simp_all
  then have "tiles ?m (heap_end s) ?a (xs @ [(n, False)] @ ys)"
    using t(1) x le D(3,4) by (intro tiles_replace [where n = n and m = "hmem s" and h = False] out) auto
  moreover have "ld32 ?m (adr (?a - 8)) = ld32 (hmem s) (adr (?a - 8))"
    using ld32_agree [OF out, of ?b "?a - 8" "?a - 8"] x le D(1,3) by simp
  moreover have "ld32 ?m (adr (heap_end s)) = ld32 (hmem s) (adr (heap_end s))"
    using ld32_agree [OF out, of "2 ^ 32" "heap_end s" "heap_end s"] x le D(3) by simp
  ultimately show ?thesis
    using D by (simp add: heap_ok_def Let_def)
qed

lemma same_outside_byte: "same_outside s s' lo hi \<Longrightarrow> x < 2 ^ 32 \<Longrightarrow> x < lo \<or> hi \<le> x \<Longrightarrow> hmem s' (adr x) = hmem s (adr x)"
  by (auto simp: same_outside_def agree_def)

lemma same_outside_start: "same_outside s s' lo hi \<Longrightarrow> heap_start s' = heap_start s"
  by (simp add: same_outside_def)

lemma malloc_step:
  assumes ok: "heap_ok s bs" and m: "matches (heap_start s) bs live" and z: "z + 20 < 2 ^ 32" and a: "heap_malloc (adr z) s = Some (p, s')"
  obtains xs n ys where "bs = xs @ (n, True) # ys" "z + 20 \<le> n" "p = adr (heap_start s + extent xs + 12)"
    "unat p = heap_start s + extent xs + 12"
    "heap_ok s' (alloc_list xs n (alloc_size z n) ys)" "matches (heap_start s') (alloc_list xs n (alloc_size z n) ys) (live(unat p \<mapsto> z))"
    "same_outside s s' (heap_start s + extent xs) (heap_start s + extent xs + n)"
proof -
  have "memory_alloc (adr z) False s = Some (p, s')"
    using a by (simp add: heap_malloc_def kmalloc_def kmalloc_int_def)
  then obtain xs n ys where A: "bs = xs @ (n, True) # ys" "z + 20 \<le> n" "p = adr (heap_start s + extent xs + 12)"
    "heap_ok s' (alloc_list xs n (alloc_size z n) ys)" "same_outside s s' (heap_start s + extent xs) (heap_start s + extent xs + n)"
    using memory_alloc_ok [OF ok z] by auto
  have p: "unat p = heap_start s + extent xs + 12"
    using A(1-3) heap_ok_tiles(2,3) [OF ok] by simp
  have "matches (heap_start s') (alloc_list xs n (alloc_size z n) ys) (live(unat p \<mapsto> z))"
    using matches_alloc [OF ok [unfolded A(1)] m [unfolded A(1)], of z "alloc_size z n"] alloc_size_bounds [OF A(2)]
    by (simp add: p same_outside_start [OF A(5)])
  then show thesis
    using that A p by blast
qed

lemma free_step:
  assumes ok: "heap_ok s bs" and m: "matches (heap_start s) bs live" and p: "live p = Some z"
    and room: "oa_size (heap_index s) < oa_max_size (heap_index s)"
  obtains xs n ys xs' n1 n2 ys' s' where "bs = xs @ (n, False) # ys" "p = heap_start s + extent xs + 12" "z + 20 \<le> n"
    "join_left xs n = (xs', n1)" "join_right n1 ys = (n2, ys')"
    "heap_free (adr p) s = Some s'" "heap_ok s' (free_list xs n ys)" "matches (heap_start s') (free_list xs n ys) (live(p := None))"
    "same_outside s s' (heap_start s + extent xs') (heap_start s + extent xs' + n2)"
proof -
  obtain xs n ys where A: "bs = xs @ (n, False) # ys" "p = heap_start s + extent xs + 12" "z + 20 \<le> n"
    using matchesE [OF m p] by metis
  obtain xs' n1 n2 ys' where j: "join_left xs n = (xs', n1)" "join_right n1 ys = (n2, ys')"
    by (meson surj_pair)
  obtain s' where s': "hfree (adr (heap_start s + extent xs + 12)) s = Some s'" "heap_ok s' (xs' @ (n2, True) # ys')"
    "same_outside s s' (heap_start s + extent xs') (heap_start s + extent xs' + n2)"
    using hfree_ok [OF ok [unfolded A(1)] room j] by metis
  have "matches (heap_start s') (free_list xs n ys) (live(p := None))"
    using matches_free [OF ok [unfolded A(1)] m [unfolded A(1)]] by (simp add: A(2) same_outside_start [OF s'(3)])
  moreover have "free_list xs n ys = xs' @ (n2, True) # ys'"
    using j by (simp add: free_list_def)
  ultimately show thesis
    using that A j s' by (simp add: heap_free_def)
qed

lemma live_off_hole:
  assumes ok: "heap_ok s (xs @ (n, True) # ys)" and m: "matches (heap_start s) (xs @ (n, True) # ys) live" and q: "live q = Some w"
  shows "(q + w + 8 \<le> heap_start s + extent xs \<or> heap_start s + extent xs + n + 12 \<le> q) \<and> q + w < 2 ^ 32"
proof -
  let ?a = "heap_start s"
  obtain b k where k: "q = b + 12" "(b, k) \<in> blocks_at ?a (xs @ (n, True) # ys)" "w + 20 \<le> k"
    using matchesE [OF m q] by metis
  have t: "tiles (hmem s) (heap_end s) ?a xs" "tiles (hmem s) (heap_end s) (?a + extent xs + n) ys"
    using heap_ok_tiles(1) [OF ok] by (auto simp: tiles_append)
  have "b + k \<le> heap_end s"
    using blocks_at_range [OF k(2) heap_ok_tiles(1) [OF ok]] heap_ok_tiles(2) [OF ok] by simp
  then show ?thesis
    using k blocks_at_range [OF _ t(1), of b k] blocks_at_range [OF _ t(2), of b k] heap_ok_tiles(3) [OF ok] by auto
qed

lemma heap_reach_inv: "heap_reach s live \<Longrightarrow> \<exists>bs. heap_ok s bs \<and> matches (heap_start s) bs live"
proof (induction rule: heap_reach.induct)
  case (boot start e s0 mx su ro s)
  obtain s1 where "create_kernel_heap start e mx su ro s0 = Some s1" "heap_ok s1 [(unat e - unat start - 0x81000, True)]"
    using create_kernel_heap_ok [OF boot(1-6)] by blast
  then show ?case
    using boot(7) by (intro exI [of _ "[(unat e - unat start - 0x81000, True)]"]) (simp add: matches_def)
next
  case (malloc s live z p s')
  then show ?case
    using malloc_step [OF _ _ malloc(2,3)] by metis
next
  case (store s live p z x v)
  then obtain bs where bs: "heap_ok s bs" "matches (heap_start s) bs live"
    by blast
  then obtain xs n ys where "bs = xs @ (n, False) # ys" "p = heap_start s + extent xs + 12" "z + 20 \<le> n"
    using matchesE [OF bs(2) store(2)] by metis
  then show ?case
    using payload_write [of s xs n ys x v] bs store by (intro exI [of _ bs]) auto
next
  case (free s live p s')
  then obtain bs z where "heap_ok s bs" "matches (heap_start s) bs live" "live p = Some z"
    by auto
  then show ?case
    using free_step [of s bs live p z] free(3,4) by (metis option.inject)
qed

text \<open>A heap to try the theorems on: two pages behind an index at address 0, nothing allocated.\<close>

definition demo_heap :: heap where
  "demo_heap = the (create_kernel_heap 0 0x83000 0x83000 0 0
     \<lparr>heap_index = place_ordered_array 0, start_address = 0, end_address = 0, max_address = 0, supervisor = 0, readonly = 0,
       hmem = (\<lambda>a. 0), g_usedHeapSize = 0\<rparr>)"

lemma demo_heap:
  "heap_reach demo_heap Map.empty" "heap_ok demo_heap [(0x2000, True)]" "heap_start demo_heap = 0x81000"
  "oa_max_size (heap_index demo_heap) = 0x20000"
proof -
  let ?s0 = "\<lparr>heap_index = place_ordered_array 0, start_address = 0, end_address = 0, max_address = 0, supervisor = 0, readonly = 0,
       hmem = (\<lambda>a. 0), g_usedHeapSize = 0\<rparr>"
  have pre: "(0 :: u32) mod 0x1000 = 0" "(0x83000 :: u32) mod 0x1000 = 0" "unat (0 :: u32) + 0x82000 \<le> unat (0x83000 :: u32)"
    "unat (0x83000 :: u32) + 12 \<le> 2 ^ 32" "ld32 (hmem ?s0) (adr (unat (0 :: u32) + 0x80FF8)) \<noteq> HEAP_MAGIC" "ld32 (hmem ?s0) 0x83000 \<noteq> HEAP_MAGIC"
    by (simp_all add: ld32_def)
  obtain s where s: "create_kernel_heap 0 0x83000 0x83000 0 0 ?s0 = Some s" "start_address s = 0 + 0x81000"
    "oa_max_size (heap_index s) = 0x20000" "heap_ok s [(unat (0x83000 :: u32) - unat (0 :: u32) - 0x81000, True)]"
    using create_kernel_heap_ok [OF pre, of "0x83000" 0 0] by blast
  have "demo_heap = s"
    by (simp add: demo_heap_def s(1))
  then show "heap_reach demo_heap Map.empty" "heap_ok demo_heap [(0x2000, True)]" "heap_start demo_heap = 0x81000"
      "oa_max_size (heap_index demo_heap) = 0x20000"
    using s heap_reach.boot [OF pre s(1)] by simp_all
qed

lemma index_small: "heap_ok s bs \<Longrightarrow> oa_size (heap_index s) \<le> length bs"
proof -
  assume ok: "heap_ok s bs"
  have c: "finite (holes_at a xs) \<and> card (holes_at a xs) \<le> length xs" for a xs
    by (induction a xs rule: holes_at.induct) (auto simp: card_insert_if)
  have "length (items (heap_index s)) = card (adr ` holes_at (heap_start s) bs)"
    using distinct_card [OF heap_okD(8) [OF ok]] heap_okD(9) [OF ok] by simp
  then show "oa_size (heap_index s) \<le> length bs"
    using card_image_le [of "holes_at (heap_start s) bs" adr] c [of "heap_start s" bs] by simp
qed

lemma demo_malloc:
  obtains p s' where "heap_malloc (adr 100) demo_heap = Some (p, s')" "unat p = 0x8100C" "heap_reach s' [0x8100C \<mapsto> 100]"
    "oa_size (heap_index s') < oa_max_size (heap_index s')"
proof -
  have "heap_malloc (adr 100) demo_heap \<noteq> None"
    using memory_alloc_ok [OF demo_heap(2), of 100] by (auto simp: heap_malloc_def kmalloc_def kmalloc_int_def split: option.splits)
  then obtain p s' where a: "heap_malloc (adr 100) demo_heap = Some (p, s')"
    by auto
  have m: "matches (heap_start demo_heap) [(0x2000, True)] Map.empty" and z: "100 + 20 < (2 :: nat) ^ 32"
    by (simp_all add: matches_def)
  obtain xs n ys where A: "[(0x2000, True)] = xs @ (n, True) # ys" "unat p = heap_start demo_heap + extent xs + 12"
    "heap_ok s' (alloc_list xs n (alloc_size 100 n) ys)" "same_outside demo_heap s' (heap_start demo_heap + extent xs) (heap_start demo_heap + extent xs + n)"
    using malloc_step [OF demo_heap(2) m z a] by metis
  then have e: "xs = []" "ys = []" "n = 0x2000"
    by (auto simp: Cons_eq_append_conv)
  have "oa_max_size (heap_index s') = 0x20000"
    using A(4) demo_heap(4) by (simp add: same_outside_def)
  moreover have "oa_size (heap_index s') \<le> 2"
    using index_small [OF A(3)] by (simp add: e alloc_list_def split: if_splits)
  moreover have "unat p = 0x8100C"
    using A(2) demo_heap(3) by (simp add: e)
  moreover from this have "heap_reach s' [0x8100C \<mapsto> 100]"
    using heap_reach.malloc [OF demo_heap(1) _ a] by simp
  ultimately show thesis
    using that a by simp
qed

section \<open>What the callers rely on\<close>

text \<open>C8: In every heap that is created and then used through malloc, free and writes to what is allocated, the
  live blocks lie inside the heap and no two of them overlap.\<close>

theorem heap_live_disjoint:
  assumes "heap_reach s live" "live p = Some z"
  shows "unat (start_address s) + 12 \<le> p \<and> p + z + 8 \<le> unat (end_address s) \<and>
    (\<forall>q w. live q = Some w \<and> q \<noteq> p \<longrightarrow> p + z + 8 \<le> q \<or> q + w + 8 \<le> p)"
proof -
  obtain bs where bs: "heap_ok s bs" "matches (heap_start s) bs live"
    using heap_reach_inv [OF assms(1)] by blast
  note t = heap_ok_tiles [OF bs(1)]
  obtain b n where p: "p = b + 12" "(b, n) \<in> blocks_at (heap_start s) bs" "z + 20 \<le> n"
    using matchesE [OF bs(2) assms(2)] by metis
  have "p + z + 8 \<le> q \<or> q + w + 8 \<le> p" if q: "live q = Some w" "q \<noteq> p" for q w
  proof -
    obtain c k where k: "q = c + 12" "(c, k) \<in> blocks_at (heap_start s) bs" "w + 20 \<le> k"
      using matchesE [OF bs(2) q(1)] by metis
    then show ?thesis
      using blocks_at_disjoint [OF p(2) k(2) t(1)] p q(2) by auto
  qed
  then show ?thesis
    using blocks_at_range [OF p(2) t(1)] p t(2) by auto
qed

theorem heap_live_disjoint_witness:
  "\<exists>s. heap_reach s [0x8100C \<mapsto> 100] \<and> unat (start_address s) + 12 \<le> 0x8100C \<and> 0x8100C + 100 + 8 \<le> unat (end_address s)"
proof -
  obtain p s where s: "heap_reach s [0x8100C \<mapsto> 100]"
    using demo_malloc by metis
  then show ?thesis
    using heap_live_disjoint [OF s, of "0x8100C" 100] by auto
qed

text \<open>C18: Malloc in such a heap: it fails only when no hole holds the request and its header and footer; else what it
  returns lies inside the heap, apart from every live block, and every byte of a live block stays as it was.\<close>

theorem malloc_fresh:
  assumes "heap_reach s live" "z + 20 < 2 ^ 32"
  shows "case heap_malloc (of_nat z) s of
      None \<Rightarrow> \<exists>bs. heap_ok s bs \<and> (\<forall>n. (n, True) \<in> set bs \<longrightarrow> n < z + 20)
    | Some (p, s') \<Rightarrow> heap_reach s' (live(unat p \<mapsto> z)) \<and> unat p \<notin> dom live \<and>
        (\<forall>q w. live q = Some w \<longrightarrow> unat p + z \<le> q \<or> q + w \<le> unat p) \<and>
        (\<forall>q w x. live q = Some w \<and> q \<le> x \<and> x < q + w \<longrightarrow> hmem s' (of_nat x) = hmem s (of_nat x))"
proof (cases "heap_malloc (adr z) s")
  case None
  obtain bs where "heap_ok s bs"
    using heap_reach_inv [OF assms(1)] by blast
  then show ?thesis
    using None memory_alloc_ok [of s bs z] assms(2)
    by (auto simp: heap_malloc_def kmalloc_def kmalloc_int_def adr_def [symmetric])
next
  case (Some r)
  obtain p s' where r: "r = (p, s')"
    by (cases r)
  note a = Some [unfolded r]
  obtain bs where bs: "heap_ok s bs" "matches (heap_start s) bs live"
    using heap_reach_inv [OF assms(1)] by blast
  obtain xs n ys where A: "bs = xs @ (n, True) # ys" "z + 20 \<le> n" "unat p = heap_start s + extent xs + 12"
    "same_outside s s' (heap_start s + extent xs) (heap_start s + extent xs + n)"
    using malloc_step [OF bs assms(2) a] by metis
  note off = live_off_hole [OF bs [unfolded A(1)]]
  have "unat p + z \<le> q \<or> q + w \<le> unat p" "q \<noteq> unat p" if "live q = Some w" for q w
    using off [OF that] A(2,3) by auto
  moreover have "hmem s' (adr x) = hmem s (adr x)" if "live q = Some w" "q \<le> x" "x < q + w" for q w x
    using off [OF that(1)] that by (intro same_outside_byte [OF A(4)]) auto
  ultimately show ?thesis
    using a heap_reach.malloc [OF assms a] by (auto simp: adr_def [symmetric])
qed

theorem malloc_fresh_witness:
  "\<exists>p s'. heap_malloc (of_nat 100) demo_heap = Some (p, s') \<and> heap_reach s' [unat p \<mapsto> 100] \<and> unat p = 0x8100C"
proof -
  obtain p s' where a: "heap_malloc (adr 100) demo_heap = Some (p, s')" "unat p = 0x8100C"
    using demo_malloc by metis
  then show ?thesis
    using malloc_fresh [OF demo_heap(1), of 100] by (simp add: adr_def)
qed

text \<open>Free of a live block succeeds, gives up that block only, and leaves the bytes of all others as they were.\<close>

theorem free_keeps_others:
  assumes "heap_reach s live" "live p = Some z" "oa_size (heap_index s) < oa_max_size (heap_index s)"
  shows "\<exists>s'. heap_free (of_nat p) s = Some s' \<and> heap_reach s' (live(p := None)) \<and>
    (\<forall>q w x. live q = Some w \<and> q \<noteq> p \<and> q \<le> x \<and> x < q + w \<longrightarrow> hmem s' (of_nat x) = hmem s (of_nat x))"
proof -
  obtain bs where bs: "heap_ok s bs" "matches (heap_start s) bs live"
    using heap_reach_inv [OF assms(1)] by blast
  obtain xs n ys xs' n1 n2 ys' s' where A: "join_left xs n = (xs', n1)" "join_right n1 ys = (n2, ys')"
    "heap_free (adr p) s = Some s'" "heap_ok s' (free_list xs n ys)" "matches (heap_start s') (free_list xs n ys) (live(p := None))"
    "same_outside s s' (heap_start s + extent xs') (heap_start s + extent xs' + n2)"
    using free_step [OF bs assms(2,3)] by metis
  have fl: "free_list xs n ys = xs' @ (n2, True) # ys'"
    using A(1,2) by (simp add: free_list_def)
  note off = live_off_hole [OF A(4,5) [unfolded fl], unfolded same_outside_start [OF A(6)]]
  have "hmem s' (adr x) = hmem s (adr x)" if "live q = Some w" "q \<noteq> p" "q \<le> x" "x < q + w" for q w x
    using off [of q w] that by (intro same_outside_byte [OF A(6)]) auto
  moreover have "heap_reach s' (live(p := None))"
    using assms A(3) by (intro heap_reach.free [OF assms(1)]) auto
  ultimately show ?thesis
    using A(3) by (auto simp: adr_def [symmetric])
qed

theorem free_keeps_others_witness:
  "\<exists>s s'. heap_reach s [0x8100C \<mapsto> 100] \<and> heap_free (of_nat 0x8100C) s = Some s' \<and> heap_reach s' Map.empty"
proof -
  obtain p s where s: "heap_reach s [0x8100C \<mapsto> 100]" "oa_size (heap_index s) < oa_max_size (heap_index s)"
    using demo_malloc by metis
  then show ?thesis
    using free_keeps_others [OF s(1) _ s(2), of "0x8100C" 100] by auto
qed

text \<open>C19: Free undoes malloc: the hole that was cut up is whole again, and the heap has the same blocks and holes.\<close>

theorem malloc_free_roundtrip:
  assumes "heap_ok s bs" "z + 20 < 2 ^ 32" "heap_malloc (of_nat z) s = Some (p, s1)" "oa_size (heap_index s1) < oa_max_size (heap_index s1)"
  shows "\<exists>s2. heap_free p s1 = Some s2 \<and> heap_ok s2 bs"
proof -
  have "memory_alloc (adr z) False s = Some (p, s1)"
    using assms(3) by (simp add: heap_malloc_def kmalloc_def kmalloc_int_def adr_def)
  then obtain xs n ys where A: "bs = xs @ (n, True) # ys" "z + 20 \<le> n" "p = adr (heap_start s + extent xs + 12)"
    "heap_ok s1 (alloc_list xs n (alloc_size z n) ys)" "same_outside s s1 (heap_start s + extent xs) (heap_start s + extent xs + n)"
    using memory_alloc_ok [OF assms(1,2)] by auto
  let ?k = "alloc_size z n" and ?ys = "(if alloc_size z n < n then [(n - alloc_size z n, True)] else []) @ ys"
  have sep: "xs = [] \<or> \<not> snd (last xs)" "ys = [] \<or> \<not> snd (hd ys)"
    using heap_okD(5) [OF assms(1)] A(1) by (auto simp: separated_def successively_append_iff successively_Cons)
  have "join_left xs ?k = (xs, ?k)"
    using sep(1) by (auto simp: join_left_def)
  moreover have "join_right ?k ?ys = (n, ys)"
    using sep(2) alloc_size_bounds [OF A(2)] by (cases "(n, ys)" rule: join_right.cases) auto
  moreover have "heap_ok s1 (xs @ (?k, False) # ?ys)"
    using A(4) by (simp add: alloc_list_def)
  ultimately obtain s2 where "hfree (adr (heap_start s1 + extent xs + 12)) s1 = Some s2" "heap_ok s2 (xs @ (n, True) # ys)"
    using hfree_ok [OF _ assms(4)] by metis
  then show ?thesis
    using A(1,3) same_outside_start [OF A(5)] by (simp add: heap_free_def)
qed

theorem malloc_free_roundtrip_witness:
  "\<exists>p s1 s2. heap_malloc (of_nat 100) demo_heap = Some (p, s1) \<and> heap_free p s1 = Some s2 \<and> heap_ok s2 [(0x2000, True)]"
proof -
  obtain p s1 where a: "heap_malloc (of_nat 100) demo_heap = Some (p, s1)" "oa_size (heap_index s1) < oa_max_size (heap_index s1)"
    using demo_malloc by (metis adr_def)
  then show ?thesis
    using malloc_free_roundtrip [OF demo_heap(2) _ a] by auto
qed

section \<open>Where the code falls short\<close>

lemma insert_hole_keeps: "insert_hole p s = Some s' \<Longrightarrow> set (items (heap_index s)) \<subseteq> set (items (heap_index s'))"
proof -
  assume a: "insert_hole p s = Some s'"
  then have "oa_size (heap_index s) < oa_max_size (heap_index s)"
    by (auto simp: insert_hole_def insert_ordered_array_def Let_def split: if_splits)
  then obtain i where "insert_hole p s = Some (s\<lparr>heap_index := i\<rparr>)" "set (items i) = insert p (set (items (heap_index s)))"
    by (rule insert_hole_ok)
  then show ?thesis
    using a by auto
qed

text \<open>A page-aligned request that picks a hole whose payload is aligned already: the hole is cut into a front of
  size 0 and the block, and its entry stays in the index, so the block can be handed out again.  The footer of the
  empty front lies over the footer of the block before.\<close>

theorem kmalloc_a_stays_indexed:
  assumes "find_smallest_hole (sz + 20) True s 0 = Some i" "i < oa_size (heap_index s)"
    and pos: "pos = lookup_ordered_array i (heap_index s)" "pos AND 0xFFF = 0xFF4" "pos AND 0xFFFFF000 \<noteq> 0"
    and a: "memory_alloc sz True s = Some (p, s')"
  shows "p = pos + 12 \<and> pos \<in> set (items (heap_index s'))"
proof -
  have "pos \<in> set (items (heap_index s))"
    using assms(2) pos(1) nth_mem [of i "items (heap_index s)"] by (simp add: items_nth lookup_ordered_array_def)
  moreover have keep: "set (items (heap_index s1)) \<subseteq> set (items (heap_index s2))" if "split_behind q z k h s1 = Some s2" for q z k h s1 s2
    using that insert_hole_keeps by (fastforce simp: split_behind_def Let_def upd_mem_def split: if_splits)
  define h where "h = hd_size (hmem s) pos"
  obtain z k where zk: "(if h - (sz + 20) < 12 + 8 then (sz + (h - (sz + 20)), h) else (sz, sz + 20)) = (z, k)"
    by (meson surj_pair)
  let ?s1 = "upd_mem (\<lambda>m. set_footer (pos - 8) pos (set_header pos 1 0 m)) s"
  define h1 where "h1 = h - hd_size (hmem ?s1) pos"
  have front: "split_front i True pos h s = (pos, h1, ?s1)"
    using pos(2,3) by (simp add: split_front_def Let_def h1_def)
  have size: "sz + 12 + 8 = sz + 20"
    by simp
  obtain s3 where "split_behind pos z k h1 (upd_mem (\<lambda>m. set_footer (pos + 12 + z) pos (set_header pos 0 k m)) ?s1) = Some s3" "p = pos + 12"
    "s' = s3\<lparr>g_usedHeapSize := g_usedHeapSize s3 + k\<rparr>"
    using a unfolding memory_alloc_def size Let_def assms(1) bind.bind_lunit pos(1) [symmetric] h_def [symmetric] zk case_prod_conv front
    by (auto simp: bind_eq_Some_conv)
  ultimately show ?thesis
    using keep by (fastforce simp: upd_mem_def)
qed

text \<open>Merging into the hole on the left changes its size, and its place in the index stays what it was: the index is
  no longer in order, and the smallest hole that fits need not be the one that is found.\<close>

theorem left_merge_not_reindexed:
  "unify_left header footer s = (h, False, s') \<Longrightarrow> heap_index s' = heap_index s \<and>
     hd_size (hmem s') h = hd_size (st32 (footer + 4) h (hmem s)) h + hd_size (hmem s) header"
  by (auto simp: unify_left_def Let_def hd_size_def split: if_splits)

text \<open>The size of a request wraps when the header and the footer are added: a request of almost 4 GB is granted from
  any hole, with a block that has no payload at all.\<close>

theorem malloc_wraps:
  assumes ok: "heap_ok s bs" and hole: "(n, True) \<in> set bs"
  shows "heap_malloc 0xFFFFFFF0 s \<noteq> None"
proof -
  have size: "(0xFFFFFFF0 :: u32) + 12 + 8 = 4"
    by simp
  obtain xs ys where bs: "bs = xs @ (n, True) # ys"
    using split_list [OF hole] by blast
  obtain j where j: "j < oa_size (heap_index s)" "lookup_ordered_array j (heap_index s) = adr (heap_start s + extent xs)"
    using index_of_hole [OF ok [unfolded bs]] .
  have "n < 2 ^ 32" "20 \<le> n"
    using heap_okD(2-4) [OF ok] bs by (auto simp: tiles_append)
  then have "4 \<le> adr n"
    using adr_le [of 4 n] by (simp add: adr_def)
  moreover have "hd_size (hmem s) (items (heap_index s) ! j) = adr n"
    using tiles_hd_size(1) [OF heap_okD(4) [OF ok, unfolded bs]] j by (simp add: lookup_ordered_array_def items_nth)
  ultimately obtain i where i: "find_smallest_hole 4 False s 0 = Some i" "i < oa_size (heap_index s)"
    using find_hole [where n = 4 and s = s and i = 0] j(1) by (auto split: option.splits)
  have "split_behind q z k h s1 \<noteq> None" if "oa_size (heap_index s1) < oa_max_size (heap_index s1)" for q z k h s1
    using insert_hole_ok [of s1] insert_hole_ok [of "upd_mem f s1" for f] that
    by (simp add: split_behind_def Let_def upd_mem_def insert_hole_def insert_ordered_array_def)
  moreover have "oa_size (heap_index (upd_mem f (remove_hole i s))) < oa_max_size (heap_index (upd_mem f (remove_hole i s)))" for f
    using i(2) heap_okD(10) [OF ok] by (simp add: upd_mem_def remove_hole_def remove_ordered_array_def)
  ultimately have "\<forall>q z k h f. \<exists>r. split_behind q z k h (upd_mem f (remove_hole i s)) = Some r"
    by blast
  then obtain r where r: "split_behind q z k h (upd_mem f (remove_hole i s)) = Some (r q z k h f)" for q z k h f
    by metis
  show ?thesis
    unfolding heap_malloc_def kmalloc_def kmalloc_int_def memory_alloc_def size Let_def i(1) split_front_def by (simp add: r)
qed

text \<open>The assertion of \<open>malloc_size\<close> halts the system when a block without payload is reallocated.\<close>

theorem krealloc_empty_block: "hd_size (hmem s) (p - 12) = 20 \<Longrightarrow> p \<noteq> 0 \<Longrightarrow> krealloc p sz s = None"
  by (simp add: krealloc_def malloc_size_def Let_def)

end
