(* ===== verification/Avl_Tree.thy ===== *)
theory Avl_Tree
  imports Net_Prelude
begin

text \<open>
  \<^verbatim>\<open>SkyCore/AVLTree.cpp\<close>: the balanced tree of address ranges.  A node is an object of the caller's, named by \<open>'a\<close>, with
  its range, its children and the depth below it; \<open>Leaf\<close> is a null pointer.  The code changes the nodes in place
  along a stack of ancestors; here the recursion returns through the same ancestors.  The dummy head only has a
  right child, the tree.
\<close>

datatype 'a avl = Leaf | Node (node_of: 'a) (fLowKey: u32) (fHighKey: u32) (fLeft: "'a avl") (fRight: "'a avl") (fMaxChildDepth: nat)

abbreviation (input) kMaxTreeHeight :: nat where "kMaxTreeHeight \<equiv> 32"

section \<open>Balance\<close>

fun RecomputeMaxChildDepth :: "'a avl \<Rightarrow> 'a avl" where
  "RecomputeMaxChildDepth Leaf = Leaf"
| "RecomputeMaxChildDepth (Node x lo hi l r d) =
     Node x lo hi l r
       (if l \<noteq> Leaf \<and> r = Leaf then fMaxChildDepth l + 1
        else if r \<noteq> Leaf \<and> l = Leaf then fMaxChildDepth r + 1
        else if r = Leaf \<and> l = Leaf then 0
        else (if fMaxChildDepth r > fMaxChildDepth l then fMaxChildDepth r else fMaxChildDepth l) + 1)"

definition GetBalance :: "'a avl \<Rightarrow> int" where
  "GetBalance t =
     (if fLeft t = Leaf \<and> fRight t = Leaf then 0
      else if fLeft t = Leaf then int (fMaxChildDepth (fRight t)) + 1
      else if fRight t = Leaf then - (int (fMaxChildDepth (fLeft t)) + 1)
      else int (fMaxChildDepth (fRight t)) - int (fMaxChildDepth (fLeft t)))"

text \<open>The callers rotate only when the child exists.\<close>

fun RotateLeft :: "'a avl \<Rightarrow> 'a avl" where
  "RotateLeft (Node x lo hi l (Node y lo' hi' rl rr d') d) =
     RecomputeMaxChildDepth (Node y lo' hi' (RecomputeMaxChildDepth (Node x lo hi l rl d)) rr d')"
| "RotateLeft t = t"

fun RotateRight :: "'a avl \<Rightarrow> 'a avl" where
  "RotateRight (Node x lo hi (Node y lo' hi' ll lr d') r d) =
     RecomputeMaxChildDepth (Node y lo' hi' ll (RecomputeMaxChildDepth (Node x lo hi lr r d)) d')"
| "RotateRight t = t"

text \<open>One round of \<open>FixBalance\<close>, at one node of the stack.\<close>

definition FixBalance_at :: "'a avl \<Rightarrow> 'a avl" where
  "FixBalance_at t =
     (case RecomputeMaxChildDepth t of
        Leaf \<Rightarrow> Leaf
      | Node x lo hi l r d \<Rightarrow>
          if GetBalance (Node x lo hi l r d) > 1 then
            let r = RecomputeMaxChildDepth r
            in RotateLeft (Node x lo hi l (if GetBalance r < 0 then RotateRight r else r) d)
          else if GetBalance (Node x lo hi l r d) < -1 then
            let l = RecomputeMaxChildDepth l
            in RotateRight (Node x lo hi (if GetBalance l > 0 then RotateLeft l else l) r d)
          else Node x lo hi l r d)"

section \<open>Insertion\<close>

text \<open>\<open>Clash\<close>: the range is taken.  \<open>Deep\<close>: the stack of ancestors overflows (with \<open>DEBUG\<close>, an assertion).  The boolean is
  \<open>needsBalanceFixed\<close>; \<open>n\<close> is the index of the node on the stack.\<close>

datatype 'a add_result = Clash | Deep | Added "'a avl" bool

definition added :: "('a avl \<Rightarrow> 'a avl) \<Rightarrow> 'a add_result \<Rightarrow> 'a add_result" where
  "added f r = (case r of Added t fix \<Rightarrow> Added (if fix then FixBalance_at (f t) else f t) fix | Clash \<Rightarrow> Clash | Deep \<Rightarrow> Deep)"

fun add_at :: "nat \<Rightarrow> 'a \<Rightarrow> u32 \<Rightarrow> u32 \<Rightarrow> 'a avl \<Rightarrow> 'a add_result" where
  "add_at n x lowKey highKey Leaf = Added (Node x lowKey highKey Leaf Leaf 0) True"
| "add_at n x lowKey highKey (Node y lo hi l r d) =
     (if n \<ge> kMaxTreeHeight then Deep
      else if highKey < lo then
        if l \<noteq> Leaf then added (\<lambda>l'. Node y lo hi l' r d) (add_at (Suc n) x lowKey highKey l)
        else added (\<lambda>l'. Node y lo hi l' r d) (Added (Node x lowKey highKey Leaf Leaf 0) (r = Leaf))
      else if lowKey > hi \<or> hi = 0 then
        if r \<noteq> Leaf then added (\<lambda>r'. Node y lo hi l r' d) (add_at (Suc n) x lowKey highKey r)
        else added (\<lambda>r'. Node y lo hi l r' d) (Added (Node x lowKey highKey Leaf Leaf 0) (l = Leaf))
      else Clash)"

definition avl_Add :: "'a \<Rightarrow> u32 \<Rightarrow> u32 \<Rightarrow> 'a avl \<Rightarrow> 'a add_result" where
  "avl_Add x lowKey highKey t = add_at 1 x lowKey highKey t"

section \<open>Removal\<close>

text \<open>\<open>Hang\<close>: the search for the node's place never ends.\<close>

datatype 'a remove_result = Hang | Stack_overflow | Missing | Removed "'a avl"

text \<open>Case 3: the leftmost node of a right child that has a left child, and what is left of that child.  The last
  parent is not put on the stack, so its balance is not looked at.\<close>

fun take_leftmost :: "'a avl \<Rightarrow> 'a avl \<times> 'a avl" where
  "take_leftmost (Node y lo hi l r d) =
     (if fLeft l = Leaf then (l, Node y lo hi (fRight l) r d)
      else let (m, l') = take_leftmost l in (m, FixBalance_at (Node y lo hi l' r d)))"
| "take_leftmost Leaf = (Leaf, Leaf)"

fun left_spine :: "'a avl \<Rightarrow> nat" where
  "left_spine Leaf = 0"
| "left_spine (Node y lo hi l r d) = Suc (left_spine l)"

text \<open>What takes the place of the dead node, whose parent is at \<open>n\<close> on the stack.\<close>

fun successor :: "nat \<Rightarrow> 'a avl \<Rightarrow> 'a avl option" where
  "successor n Leaf = Some Leaf"
| "successor n (Node x lo hi l r d) =
     (if r = Leaf then Some l
      else if fLeft r = Leaf then Some (case r of Node y lo' hi' rl rr d' \<Rightarrow> Node y lo' hi' l rr d' | Leaf \<Rightarrow> Leaf)
      else if left_spine r > 2 \<and> n + left_spine r \<ge> kMaxTreeHeight then None
      else
        let (m, r') = take_leftmost r
        in Some (FixBalance_at (Node (node_of m) (fLowKey m) (fHighKey m) l r' (fMaxChildDepth m))))"

definition at_node :: "'a \<Rightarrow> 'a avl \<Rightarrow> bool" where
  "at_node x t \<longleftrightarrow> t \<noteq> Leaf \<and> node_of t = x"

definition removed :: "('a avl \<Rightarrow> 'a avl) \<Rightarrow> 'a remove_result \<Rightarrow> 'a remove_result" where
  "removed f r = (case r of Removed t \<Rightarrow> Removed (FixBalance_at (f t)) | r \<Rightarrow> r)"

definition replaced :: "nat \<Rightarrow> 'a avl \<Rightarrow> 'a remove_result" where
  "replaced n t = (case successor n t of None \<Rightarrow> Stack_overflow | Some t' \<Rightarrow> Removed t')"

fun remove_at :: "nat \<Rightarrow> 'a \<Rightarrow> u32 \<Rightarrow> u32 \<Rightarrow> 'a avl \<Rightarrow> 'a remove_result" where
  "remove_at n x lowKey highKey Leaf = Missing"
| "remove_at n x lowKey highKey (Node y lo hi l r d) =
     (if Suc n \<ge> kMaxTreeHeight then Stack_overflow
      else if lowKey < lo then
        removed (\<lambda>l'. Node y lo hi l' r d) (if at_node x l then replaced n l else remove_at (Suc n) x lowKey highKey l)
      else if highKey > hi then
        removed (\<lambda>r'. Node y lo hi l r' d) (if at_node x r then replaced n r else remove_at (Suc n) x lowKey highKey r)
      else Hang)"

text \<open>The keys are those of the node.\<close>

definition avl_Remove :: "'a \<Rightarrow> u32 \<Rightarrow> u32 \<Rightarrow> 'a avl \<Rightarrow> 'a remove_result" where
  "avl_Remove x lowKey highKey t =
     (if highKey = 0 then Hang
      else if at_node x t then replaced 0 t else remove_at 1 x lowKey highKey t)"

section \<open>Queries\<close>

fun avl_Find :: "u32 \<Rightarrow> 'a avl \<Rightarrow> 'a avl" where
  "avl_Find key Leaf = Leaf"
| "avl_Find key (Node y lo hi l r d) =
     (if key < lo then avl_Find key l else if key > hi then avl_Find key r else Node y lo hi l r d)"

fun IsRangeFree :: "u32 \<Rightarrow> u32 \<Rightarrow> 'a avl \<Rightarrow> bool" where
  "IsRangeFree lowKey highKey Leaf = True"
| "IsRangeFree lowKey highKey (Node y lo hi l r d) =
     (if highKey < lo then IsRangeFree lowKey highKey l
      else if lowKey > hi then IsRangeFree lowKey highKey r
      else False)"

text \<open>The node is changed in place, wherever it is.\<close>

fun avl_Resize :: "'a \<Rightarrow> u32 \<Rightarrow> 'a avl \<Rightarrow> 'a avl" where
  "avl_Resize x newSize Leaf = Leaf"
| "avl_Resize x newSize (Node y lo hi l r d) =
     (if y = x then Node y lo (lo + newSize) l r d else Node y lo hi (avl_Resize x newSize l) (avl_Resize x newSize r) d)"

section \<open>Iteration\<close>

record 'a avl_iterator =
  fIteratingForward :: bool
  fCurrentNode :: "'a avl"
  fStack :: "'a avl list"

fun go_left :: "'a avl \<Rightarrow> 'a avl list \<Rightarrow> 'a avl \<times> 'a avl list" where
  "go_left (Node y lo hi l r d) st = (if l \<noteq> Leaf then go_left l (Node y lo hi l r d # st) else (Node y lo hi l r d, st))"
| "go_left Leaf st = (Leaf, st)"

fun go_right :: "'a avl \<Rightarrow> 'a avl list \<Rightarrow> 'a avl \<times> 'a avl list" where
  "go_right (Node y lo hi l r d) st = (if r \<noteq> Leaf then go_right r (Node y lo hi l r d # st) else (Node y lo hi l r d, st))"
| "go_right Leaf st = (Leaf, st)"

definition iterator :: "'a avl \<Rightarrow> bool \<Rightarrow> 'a avl_iterator" where
  "iterator t forward =
     (let (c, st) = (if forward then go_left t [] else go_right t [])
      in \<lparr>fIteratingForward = forward, fCurrentNode = c, fStack = st\<rparr>)"

definition GoToNext :: "'a avl_iterator \<Rightarrow> 'a avl_iterator" where
  "GoToNext it =
     (let next = (if fIteratingForward it then fRight (fCurrentNode it) else fLeft (fCurrentNode it))
      in if next \<noteq> Leaf then
           let (c, st) = (if fIteratingForward it then go_left next (fStack it) else go_right next (fStack it))
           in it\<lparr>fCurrentNode := c, fStack := st\<rparr>
         else
           case fStack it of
             [] \<Rightarrow> it\<lparr>fCurrentNode := Leaf\<rparr>
           | c # st \<Rightarrow> it\<lparr>fCurrentNode := c, fStack := st\<rparr>)"

end
