(* ===== verification/Avl_Props.thy ===== *)
theory Avl_Props
  imports Avl_Tree
begin

text \<open>
  The tree of ranges as the list of its ranges in order: insertion and removal on it, the queries, the iterator; and
  that insertion keeps the tree balanced.
\<close>

section \<open>The ranges in order\<close>

type_synonym 'a range = "'a \<times> u32 \<times> u32"

fun inorder :: "'a avl \<Rightarrow> 'a range list" where
  "inorder Leaf = []"
| "inorder (Node x lo hi l r d) = inorder l @ (x, lo, hi) # inorder r"

definition below :: "'a range \<Rightarrow> 'a range \<Rightarrow> bool" where
  "below a b \<longleftrightarrow> snd (snd a) < fst (snd b)"

definition range_ok :: "'a range \<Rightarrow> bool" where
  "range_ok a \<longleftrightarrow> fst (snd a) \<le> snd (snd a) \<and> snd (snd a) \<noteq> 0"

text \<open>Ranges in order, none of them touching another.\<close>

definition ranges_ok :: "'a range list \<Rightarrow> bool" where
  "ranges_ok xs \<longleftrightarrow> sorted_wrt below xs \<and> (\<forall>a \<in> set xs. range_ok a)"

lemma range_ok_simp [simp]: "range_ok (x, lo, hi) \<longleftrightarrow> lo \<le> hi \<and> hi \<noteq> 0"
  by (simp add: range_ok_def)

lemma below_simp [simp]: "below (x, lo, hi) (y, lo', hi') \<longleftrightarrow> hi < lo'"
  by (simp add: below_def)

lemma ranges_ok_append:
  "ranges_ok (xs @ ys) \<longleftrightarrow> ranges_ok xs \<and> ranges_ok ys \<and> (\<forall>a \<in> set xs. \<forall>b \<in> set ys. below a b)"
  by (auto simp: ranges_ok_def sorted_wrt_append)

lemma ranges_ok_Cons:
  "ranges_ok (a # xs) \<longleftrightarrow> range_ok a \<and> ranges_ok xs \<and> (\<forall>b \<in> set xs. below a b)"
  by (auto simp: ranges_ok_def)

lemma ranges_ok_member: "ranges_ok xs \<Longrightarrow> (x, lo, hi) \<in> set xs \<Longrightarrow> lo \<le> hi \<and> hi \<noteq> 0"
  by (auto simp: ranges_ok_def range_ok_def)

lemma ranges_ok_Nil [simp]: "ranges_ok []"
  by (simp add: ranges_ok_def)

lemmas ranges_ok_simps = ranges_ok_append ranges_ok_Cons

lemma inorder_Nil [simp]: "inorder t = [] \<longleftrightarrow> t = Leaf"
  by (cases t) auto

lemma inorder_Recompute [simp]: "inorder (RecomputeMaxChildDepth t) = inorder t"
  by (cases t) auto

lemma inorder_RotateLeft [simp]: "inorder (RotateLeft t) = inorder t"
  by (cases t rule: RotateLeft.cases) auto

lemma inorder_RotateRight [simp]: "inorder (RotateRight t) = inorder t"
  by (cases t rule: RotateRight.cases) auto

lemma inorder_FixBalance [simp]: "inorder (FixBalance_at t) = inorder t"
proof (cases "RecomputeMaxChildDepth t")
  case (Node x lo hi l r d)
  then have "inorder t = inorder (Node x lo hi l r d)"
    by (metis inorder_Recompute)
  then show ?thesis
    by (simp add: FixBalance_at_def Node Let_def)
qed (simp add: FixBalance_at_def, metis inorder.simps(1) inorder_Recompute)

text \<open>Where a new range goes.\<close>

definition place :: "'a range \<Rightarrow> 'a range list \<Rightarrow> 'a range list" where
  "place a xs = takeWhile (\<lambda>b. below b a) xs @ a # dropWhile (\<lambda>b. below b a) xs"

definition apart :: "u32 \<Rightarrow> u32 \<Rightarrow> 'a range list \<Rightarrow> bool" where
  "apart lo hi xs \<longleftrightarrow> (\<forall>a \<in> set xs. hi < fst (snd a) \<or> snd (snd a) < lo)"

lemma apart_append [simp]: "apart lo hi (xs @ ys) \<longleftrightarrow> apart lo hi xs \<and> apart lo hi ys"
  by (auto simp: apart_def)

lemma apart_Cons [simp]: "apart lo hi ((y, l, h) # xs) \<longleftrightarrow> (hi < l \<or> h < lo) \<and> apart lo hi xs"
  by (auto simp: apart_def)

lemma apart_Nil [simp]: "apart lo hi []"
  by (simp add: apart_def)

lemma place_left: "\<not> below b a \<Longrightarrow> place a (xs @ b # ys) = place a xs @ b # ys"
  by (induction xs) (auto simp: place_def)

lemma place_right: "\<forall>c \<in> set (xs @ [b]). below c a \<Longrightarrow> place a (xs @ b # ys) = xs @ b # place a ys"
  by (induction xs) (auto simp: place_def)

lemma apart_right: "ranges_ok (xs @ (y, lo, hi) # ys) \<Longrightarrow> h < lo \<Longrightarrow> l \<le> h \<Longrightarrow> apart l h ys"
  by (fastforce simp: apart_def ranges_ok_simps)

lemma apart_left: "ranges_ok (xs @ (y, lo, hi) # ys) \<Longrightarrow> hi < l \<Longrightarrow> apart l h xs"
  by (fastforce simp: apart_def ranges_ok_simps)

lemma below_left: "ranges_ok (xs @ (y, lo, hi) # ys) \<Longrightarrow> hi < l \<Longrightarrow> \<forall>c \<in> set (xs @ [(y, lo, hi)]). below c (x, l, h)"
  by (fastforce simp: ranges_ok_simps)

lemma added_simps [simp]:
  "added f Clash = Clash" "added f Deep = Deep" "added f (Added t fix) = Added (if fix then FixBalance_at (f t) else f t) fix"
  by (simp_all add: added_def)

lemma add_at_inorder:
  assumes "ranges_ok (inorder t)" "lo \<le> hi"
  shows "case add_at n x lo hi t of
      Added t' fix \<Rightarrow> apart lo hi (inorder t) \<and> inorder t' = place (x, lo, hi) (inorder t)
    | Clash \<Rightarrow> \<not> apart lo hi (inorder t)
    | Deep \<Rightarrow> True"
  using assms
proof (induction n x lo hi t rule: add_at.induct)
  case (1 n x lowKey highKey)
  then show ?case
    by (simp add: place_def)
next
  case (2 n x lowKey highKey y lo hi l r d)
  have ok: "ranges_ok (inorder l @ (y, lo, hi) # inorder r)"
    using 2(3) by simp
  have sub: "ranges_ok (inorder l)" "ranges_ok (inorder r)" "hi \<noteq> 0" "lo \<le> hi"
    using ok by (auto simp: ranges_ok_simps)
  consider "n \<ge> 32" | "n < 32" "highKey < lo" | "n < 32" "\<not> highKey < lo" "lowKey > hi" | "n < 32" "\<not> highKey < lo" "\<not> lowKey > hi"
    by linarith
  then show ?case
  proof cases
    case 2
    then have "place (x, lowKey, highKey) (inorder (Node y lo hi l r d)) = place (x, lowKey, highKey) (inorder l) @ (y, lo, hi) # inorder r"
      using sub(4) \<open>lowKey \<le> highKey\<close> by (auto intro!: place_left)
    moreover have "apart lowKey highKey (inorder r)"
      using apart_right [OF ok] 2 \<open>lowKey \<le> highKey\<close> by simp
    ultimately show ?thesis
      using 2 "2.IH"(1) [OF _ _ _ sub(1) \<open>lowKey \<le> highKey\<close>]
      by (cases "l = Leaf"; cases "add_at (Suc n) x lowKey highKey l") (simp_all add: place_def)
  next
    case 3
    then have "place (x, lowKey, highKey) (inorder (Node y lo hi l r d)) = inorder l @ (y, lo, hi) # place (x, lowKey, highKey) (inorder r)"
      using place_right [OF below_left [OF ok 3(3)]] by simp
    moreover have "apart lowKey highKey (inorder l)"
      using apart_left [OF ok] 3 by simp
    ultimately show ?thesis
      using 3 "2.IH"(2) [OF _ _ _ _ sub(2) \<open>lowKey \<le> highKey\<close>]
      by (cases "r = Leaf"; cases "add_at (Suc n) x lowKey highKey r") (simp_all add: place_def)
  qed (use sub in \<open>auto simp: not_less\<close>)
qed

lemma place_ok:
  assumes "ranges_ok xs" "apart lo hi xs" "lo \<le> hi" "hi \<noteq> 0"
  shows "ranges_ok (place (x, lo, hi) xs) \<and> set (place (x, lo, hi) xs) = insert (x, lo, hi) (set xs)"
  using assms
proof (induction xs)
  case (Cons a xs)
  obtain y l h where a: "a = (y, l, h)"
    by (cases a)
  show ?case
  proof (cases "h < lo")
    case True
    then have "place (x, lo, hi) (a # xs) = a # place (x, lo, hi) xs"
      by (simp add: place_def a)
    then show ?thesis
      using Cons True a by (auto simp: ranges_ok_simps)
  next
    case False
    then have "place (x, lo, hi) (a # xs) = (x, lo, hi) # a # xs"
      by (simp add: place_def a)
    moreover have "hi < l" "\<forall>b \<in> set xs. below (x, lo, hi) b"
      using Cons.prems False a by (fastforce simp: ranges_ok_simps)+
    ultimately show ?thesis
      using Cons.prems a by (auto simp: ranges_ok_simps)
  qed
qed (simp add: place_def ranges_ok_simps)

section \<open>Balance\<close>

fun depth :: "'a avl \<Rightarrow> nat" where
  "depth Leaf = 0"
| "depth (Node x lo hi l r d) = Suc (max (depth l) (depth r))"

fun balanced :: "'a avl \<Rightarrow> bool" where
  "balanced Leaf = True"
| "balanced (Node x lo hi l r d) =
     (balanced l \<and> balanced r \<and> depth l \<le> Suc (depth r) \<and> depth r \<le> Suc (depth l) \<and> d = max (depth l) (depth r))"

lemma depth_0 [simp]: "depth t = 0 \<longleftrightarrow> t = Leaf"
  by (cases t) auto

lemma balanced_depth: "balanced t \<Longrightarrow> t \<noteq> Leaf \<Longrightarrow> depth t = Suc (fMaxChildDepth t)"
  by (cases t) auto

lemma Recompute_children:
  "balanced l \<Longrightarrow> balanced r \<Longrightarrow> RecomputeMaxChildDepth (Node x lo hi l r d) = Node x lo hi l r (max (depth l) (depth r))"
  by (auto simp: balanced_depth max_def)

lemma Recompute_balanced [simp]: "balanced t \<Longrightarrow> RecomputeMaxChildDepth t = t"
  by (cases t) (simp_all add: Recompute_children del: RecomputeMaxChildDepth.simps(2))

lemma GetBalance_children:
  "balanced l \<Longrightarrow> balanced r \<Longrightarrow> GetBalance (Node x lo hi l r d) = int (depth r) - int (depth l)"
  by (auto simp: GetBalance_def balanced_depth)

text \<open>A node whose own depth field is right and whose children are balanced.\<close>

definition deep :: "'a \<Rightarrow> u32 \<Rightarrow> u32 \<Rightarrow> 'a avl \<Rightarrow> 'a avl \<Rightarrow> 'a avl" where
  "deep x lo hi l r = Node x lo hi l r (max (depth l) (depth r))"

lemma RotateLeft_deep:
  "balanced l \<Longrightarrow> balanced rl \<Longrightarrow> balanced rr \<Longrightarrow> depth l \<le> Suc (depth rl) \<Longrightarrow> depth rl \<le> Suc (depth l) \<Longrightarrow>
    RotateLeft (Node x lo hi l (Node y lo' hi' rl rr d') d) = deep y lo' hi' (deep x lo hi l rl) rr"
  by (simp only: RotateLeft.simps Recompute_children deep_def) (simp add: Recompute_children del: RecomputeMaxChildDepth.simps(2))

lemma RotateRight_deep:
  "balanced r \<Longrightarrow> balanced ll \<Longrightarrow> balanced lr \<Longrightarrow> depth r \<le> Suc (depth lr) \<Longrightarrow> depth lr \<le> Suc (depth r) \<Longrightarrow>
    RotateRight (Node x lo hi (Node y lo' hi' ll lr d') r d) = deep y lo' hi' ll (deep x lo hi lr r)"
  by (simp only: RotateRight.simps Recompute_children deep_def) (simp add: Recompute_children del: RecomputeMaxChildDepth.simps(2))

text \<open>Two children whose depths differ by two at most.\<close>

definition fixed :: "nat \<Rightarrow> nat \<Rightarrow> 'a avl \<Rightarrow> bool" where
  "fixed n m t \<longleftrightarrow> balanced t \<and> (depth t = max n m \<or> depth t = Suc (max n m)) \<and>
     (n \<le> Suc m \<longrightarrow> m \<le> Suc n \<longrightarrow> depth t = Suc (max n m))"

lemma balanced_deep [simp]:
  "balanced (deep x lo hi l r) \<longleftrightarrow> balanced l \<and> balanced r \<and> depth l \<le> Suc (depth r) \<and> depth r \<le> Suc (depth l)"
  by (auto simp: deep_def)

lemma depth_deep [simp]: "depth (deep x lo hi l r) = Suc (max (depth l) (depth r))"
  by (simp add: deep_def)

lemma FixBalance_right:
  assumes b: "balanced l" "balanced r" and d: "depth r = depth l + 2"
  shows "fixed (depth l) (depth r) (FixBalance_at (Node x lo hi l r d0))"
proof (cases r)
  case (Node y lo' hi' rl rr d')
  have c: "balanced rl" "balanced rr" "max (depth rl) (depth rr) = Suc (depth l)" "depth rl \<le> Suc (depth rr)" "depth rr \<le> Suc (depth rl)"
    using b d by (auto simp: Node)
  have fx: "FixBalance_at (Node x lo hi l r d0) = RotateLeft (Node x lo hi l (if depth rl > depth rr then RotateRight r else r) (max (depth l) (depth r)))"
    using b c d GetBalance_children [OF c(1, 2)] unfolding FixBalance_at_def Recompute_children [OF b]
    by (simp add: Let_def GetBalance_children [OF b] Recompute_balanced [OF b(2)]) (simp add: Node)
  show ?thesis
  proof (cases "depth rl > depth rr")
    case False
    have "RotateLeft (Node x lo hi l r n) = deep y lo' hi' (deep x lo hi l rl) rr" for n
      unfolding Node by (rule RotateLeft_deep) (use b c False in auto)
    then show ?thesis
      using False b c d by (auto simp: fx fixed_def max_def split: if_splits)
  next
    case True
    then obtain z lo'' hi'' zl zr d'' where rl: "rl = Node z lo'' hi'' zl zr d''"
      by (cases rl) auto
    have e: "balanced zl" "balanced zr" "depth zl \<le> Suc (depth zr)" "depth zr \<le> Suc (depth zl)" "max (depth zl) (depth zr) = depth rr" "depth rr = depth l"
      using c True by (auto simp: rl)
    have "RotateRight r = deep z lo'' hi'' zl (deep y lo' hi' zr rr)"
      unfolding Node rl by (rule RotateRight_deep) (use c e in auto)
    moreover have "RotateLeft (Node x lo hi l (deep z lo'' hi'' zl (deep y lo' hi' zr rr)) n) = deep z lo'' hi'' (deep x lo hi l zl) (deep y lo' hi' zr rr)" for n
      unfolding deep_def [of z] by (rule trans [OF RotateLeft_deep]) (use b c e in \<open>auto simp: deep_def\<close>)
    ultimately show ?thesis
      using True b c d e by (auto simp: fx fixed_def max_def split: if_splits)
  qed
qed (use d in simp)

lemma FixBalance_left:
  assumes b: "balanced l" "balanced r" and d: "depth l = depth r + 2"
  shows "fixed (depth l) (depth r) (FixBalance_at (Node x lo hi l r d0))"
proof (cases l)
  case (Node y lo' hi' ll lr d')
  have c: "balanced ll" "balanced lr" "max (depth ll) (depth lr) = Suc (depth r)" "depth ll \<le> Suc (depth lr)" "depth lr \<le> Suc (depth ll)"
    using b d by (auto simp: Node)
  have fx: "FixBalance_at (Node x lo hi l r d0) = RotateRight (Node x lo hi (if depth lr > depth ll then RotateLeft l else l) r (max (depth l) (depth r)))"
    using b c d GetBalance_children [OF c(1, 2)] unfolding FixBalance_at_def Recompute_children [OF b]
    by (simp add: Let_def GetBalance_children [OF b] Recompute_balanced [OF b(1)]) (simp add: Node)
  show ?thesis
  proof (cases "depth lr > depth ll")
    case False
    have "RotateRight (Node x lo hi l r n) = deep y lo' hi' ll (deep x lo hi lr r)" for n
      unfolding Node by (rule RotateRight_deep) (use b c False in auto)
    then show ?thesis
      using False b c d by (auto simp: fx fixed_def max_def split: if_splits)
  next
    case True
    then obtain z lo'' hi'' zl zr d'' where lr: "lr = Node z lo'' hi'' zl zr d''"
      by (cases lr) auto
    have e: "balanced zl" "balanced zr" "depth zl \<le> Suc (depth zr)" "depth zr \<le> Suc (depth zl)" "max (depth zl) (depth zr) = depth ll" "depth ll = depth r"
      using c True by (auto simp: lr)
    have "RotateLeft l = deep z lo'' hi'' (deep y lo' hi' ll zl) zr"
      unfolding Node lr by (rule RotateLeft_deep) (use c e in auto)
    moreover have "RotateRight (Node x lo hi (deep z lo'' hi'' (deep y lo' hi' ll zl) zr) r n) = deep z lo'' hi'' (deep y lo' hi' ll zl) (deep x lo hi zr r)" for n
      unfolding deep_def [of z] by (rule trans [OF RotateRight_deep]) (use b c e in \<open>auto simp: deep_def\<close>)
    ultimately show ?thesis
      using True b c d e by (auto simp: fx fixed_def max_def split: if_splits)
  qed
qed (use d in simp)

lemma FixBalance_same:
  assumes b: "balanced l" "balanced r" and d: "depth l \<le> Suc (depth r)" "depth r \<le> Suc (depth l)"
  shows "FixBalance_at (Node x lo hi l r d0) = deep x lo hi l r"
  using b d unfolding FixBalance_at_def Recompute_children [OF b]
  by (simp add: GetBalance_children deep_def)

lemma FixBalance_fixed:
  assumes b: "balanced l" "balanced r" and d: "depth l \<le> depth r + 2" "depth r \<le> depth l + 2"
  shows "fixed (depth l) (depth r) (FixBalance_at (Node x lo hi l r d0))"
proof -
  consider "depth r = depth l + 2" | "depth l = depth r + 2" | "depth l \<le> Suc (depth r)" "depth r \<le> Suc (depth l)"
    using d by linarith
  then show ?thesis
    proof cases
    case 1
    then show ?thesis by (rule FixBalance_right [OF b])
  next
    case 2
    then show ?thesis by (rule FixBalance_left [OF b])
  next
    case 3
    then show ?thesis using b by (simp add: FixBalance_same fixed_def)
  qed
qed

text \<open>Insertion keeps the balance; the height only changes along a path that is looked at again.\<close>

definition grown :: "'a avl \<Rightarrow> 'a add_result \<Rightarrow> bool" where
  "grown t r = (case r of Added t' f \<Rightarrow> balanced t' \<and> (depth t' = depth t \<or> f \<and> depth t' = Suc (depth t)) | _ \<Rightarrow> True)"

lemma grown_simps [simp]:
  "grown t Clash" "grown t Deep"
  "grown t (Added t' f) \<longleftrightarrow> balanced t' \<and> (depth t' = depth t \<or> f \<and> depth t' = Suc (depth t))"
  by (simp_all add: grown_def)

lemma grown_left:
  assumes bal: "balanced (Node y lo hi l r d)" and gr: "grown l res"
  shows "grown (Node y lo hi l r d) (added (\<lambda>l'. Node y lo hi l' r d) res)"
proof (cases res)
  case (Added l' f)
  show ?thesis
  proof (cases f)
    case True
    then have "fixed (depth l') (depth r) (FixBalance_at (Node y lo hi l' r d))"
      using bal gr Added by (intro FixBalance_fixed) auto
    then show ?thesis
      using True bal gr Added by (auto simp: fixed_def max_def split: if_splits)
  qed (use bal gr Added in auto)
qed simp_all

lemma grown_right:
  assumes bal: "balanced (Node y lo hi l r d)" and gr: "grown r res"
  shows "grown (Node y lo hi l r d) (added (\<lambda>r'. Node y lo hi l r' d) res)"
proof (cases res)
  case (Added r' f)
  show ?thesis
  proof (cases f)
    case True
    then have "fixed (depth l) (depth r') (FixBalance_at (Node y lo hi l r' d))"
      using bal gr Added by (intro FixBalance_fixed) auto
    then show ?thesis
      using True bal gr Added by (auto simp: fixed_def max_def split: if_splits)
  qed (use bal gr Added in auto)
qed simp_all

text \<open>A first child whose sibling is there does not change the height, and no balance is looked at.\<close>

lemma grown_first:
  "balanced (Node y lo hi Leaf r d) \<Longrightarrow> f = (r = Leaf) \<Longrightarrow> grown (Node y lo hi Leaf r d) (added (\<lambda>l'. Node y lo hi l' r d) (Added (Node x k h Leaf Leaf 0) f))"
  "balanced (Node y lo hi l Leaf d) \<Longrightarrow> f = (l = Leaf) \<Longrightarrow> grown (Node y lo hi l Leaf d) (added (\<lambda>r'. Node y lo hi l r' d) (Added (Node x k h Leaf Leaf 0) f))"
  using FixBalance_same [of "Node x k h Leaf Leaf 0" Leaf y lo hi d] FixBalance_same [of Leaf "Node x k h Leaf Leaf 0" y lo hi d]
  by (auto simp: max_def le_Suc_eq)

lemma add_at_grown: "balanced t \<Longrightarrow> grown t (add_at n x lo hi t)"
proof (induction n x lo hi t rule: add_at.induct)
  case (2 n x lowKey highKey y lo hi l r d)
  have "balanced l" "balanced r"
    using 2(3) by simp_all
  with 2 show ?case
    by (cases "l = Leaf"; cases "r = Leaf")
      (simp_all del: balanced.simps(2) added_simps add: grown_left grown_right grown_first)
qed simp

text \<open>A balanced tree of depth \<open>n\<close> has many nodes, so the stack of ancestors is deep enough.\<close>

fun least :: "nat \<Rightarrow> nat" where
  "least 0 = 0"
| "least (Suc 0) = 1"
| "least (Suc (Suc n)) = least (Suc n) + least n + 1"

lemma least_mono_Suc: "least n \<le> least (Suc n)"
  by (induction n rule: least.induct) auto

lemma least_mono: "n \<le> m \<Longrightarrow> least n \<le> least m"
  using least_mono_Suc by (rule lift_Suc_mono_le)

lemma least_power: "2 ^ k \<le> least (2 * k) + 1"
proof (induction k)
  case (Suc k)
  have "least (2 * Suc k) = least (Suc (2 * k)) + least (2 * k) + 1"
    by simp
  then show ?case
    using Suc least_mono_Suc [of "2 * k"] by simp
qed simp

lemma balanced_least: "balanced t \<Longrightarrow> least (depth t) \<le> length (inorder t)"
proof (induction t)
  case (Node x lo hi l r d)
  have "least (Suc (max (depth l) (depth r))) \<le> least (depth l) + least (depth r) + 1"
  proof (cases "depth l = depth r")
    case True
    then show ?thesis by (cases "depth r") (auto simp: least_mono_Suc)
  next
    case False
    then consider "depth l = Suc (depth r)" | "depth r = Suc (depth l)"
      using Node.prems by fastforce
    then show ?thesis by cases (auto simp: max_def)
  qed
  then show ?case
    using Node by simp
qed simp

lemma add_at_not_deep: "n + depth t \<le> 32 \<Longrightarrow> add_at n x lo hi t \<noteq> Deep"
proof (induction n x lo hi t rule: add_at.induct)
  case (2 n x lowKey highKey y lo hi l r d)
  have "added f res \<noteq> Deep" if "res \<noteq> Deep" for f :: "'a avl \<Rightarrow> 'a avl" and res
    using that by (cases res) auto
  then show ?case
    using 2 by auto
qed simp


section \<open>Queries\<close>

definition range_of :: "'a avl \<Rightarrow> 'a range" where
  "range_of t = (node_of t, fLowKey t, fHighKey t)"

lemma IsRangeFree_apart:
  assumes "ranges_ok (inorder t)" "lowKey \<le> highKey"
  shows "IsRangeFree lowKey highKey t \<longleftrightarrow> apart lowKey highKey (inorder t)"
  using assms
proof (induction lowKey highKey t rule: IsRangeFree.induct)
  case (2 lowKey highKey y lo hi l r d)
  then have ok: "ranges_ok (inorder l @ (y, lo, hi) # inorder r)" and sub: "ranges_ok (inorder l)" "ranges_ok (inorder r)"
    by (simp_all add: ranges_ok_simps)
  consider "highKey < lo" | "\<not> highKey < lo" "lowKey > hi" | "\<not> highKey < lo" "\<not> lowKey > hi"
    by blast
  then show ?case
  proof cases
    case 1
    then show ?thesis
      using 2 sub apart_right [OF ok, of highKey lowKey] by simp
  next
    case 2
    then show ?thesis
      using "2.IH"(2) [OF _ _ sub(2)] \<open>lowKey \<le> highKey\<close> apart_left [OF ok, of lowKey highKey] by simp
  qed (use 2 in simp)
qed simp

lemma Find_Leaf: "avl_Find key t = Leaf \<longleftrightarrow> IsRangeFree key key t"
  by (induction key t rule: avl_Find.induct) auto

lemma Find_member:
  "avl_Find key t \<noteq> Leaf \<Longrightarrow> range_of (avl_Find key t) \<in> set (inorder t) \<and>
      fLowKey (avl_Find key t) \<le> key \<and> key \<le> fHighKey (avl_Find key t)"
  by (induction key t rule: avl_Find.induct) (auto simp: range_of_def not_less split: if_splits)

lemma Find_node: "ranges_ok (inorder t) \<Longrightarrow> (y, lo, hi) \<in> set (inorder t) \<Longrightarrow> lo \<le> key \<Longrightarrow> key \<le> hi \<Longrightarrow> range_of (avl_Find key t) = (y, lo, hi)"
proof (induction key t rule: avl_Find.induct)
  case (2 key y' lo' hi' l r d)
  then consider "(y, lo, hi) = (y', lo', hi')" | "(y, lo, hi) \<in> set (inorder l)" "hi < lo'" | "(y, lo, hi) \<in> set (inorder r)" "hi' < lo"
    by (fastforce simp: ranges_ok_simps)
  then show ?case
    using 2 by cases (auto simp: ranges_ok_simps range_of_def)
qed simp

section \<open>Removal\<close>

lemma take_leftmost_inorder:
  "fLeft t \<noteq> Leaf \<Longrightarrow> t \<noteq> Leaf \<Longrightarrow> take_leftmost t = (m, t') \<Longrightarrow> inorder t = range_of m # inorder t'"
proof (induction t arbitrary: m t' rule: take_leftmost.induct)
  case (1 y lo hi l r d)
  show ?case
  proof (cases l)
    case (Node y' lo' hi' l' r' d')
    then show ?thesis
      using 1 by (auto simp: range_of_def split: prod.splits if_splits)
  qed (use 1 in simp)
qed simp

lemma successor_inorder:
  assumes "successor n (Node x lo hi l r d) = Some t'"
  shows "inorder t' = inorder l @ inorder r"
proof -
  obtain m r' where m: "take_leftmost r = (m, r')"
    by fastforce
  consider "r = Leaf" | "r \<noteq> Leaf" "fLeft r = Leaf" | "r \<noteq> Leaf" "fLeft r \<noteq> Leaf"
    by blast
  then show ?thesis
  proof cases
    case 2
    then show ?thesis
      using assms by (cases r) auto
  next
    case 3
    then have "inorder r = range_of m # inorder r'"
      using take_leftmost_inorder m by blast
    then show ?thesis
      using assms 3 m by (auto simp: range_of_def split: if_splits)
  qed (use assms in simp)
qed

lemma removed_simps [simp]:
  "removed f Hang = Hang" "removed f Stack_overflow = Stack_overflow" "removed f Missing = Missing"
  "removed f (Removed t) = Removed (FixBalance_at (f t))"
  by (simp_all add: removed_def)

definition without :: "'a \<Rightarrow> 'a range list \<Rightarrow> 'a range list" where
  "without x xs = filter (\<lambda>a. fst a \<noteq> x) xs"

lemma without_simps [simp]:
  "without x [] = []" "without x (a # xs) = (if fst a = x then without x xs else a # without x xs)"
  "without x (xs @ ys) = without x xs @ without x ys"
  by (simp_all add: without_def)

lemma without_absent: "x \<notin> fst ` set xs \<Longrightarrow> without x xs = xs"
  by (induction xs) auto

lemma replaced_inorder:
  assumes "at_node x t" "distinct (map fst (inorder t))"
  shows "replaced n t = Stack_overflow \<or> (\<exists>t'. replaced n t = Removed t' \<and> inorder t' = without x (inorder t))"
proof (cases t)
  case (Node y lo hi l r d)
  then show ?thesis
    using assms successor_inorder [of n y lo hi l r d]
    by (cases "successor n t") (auto simp: replaced_def at_node_def without_absent simp del: successor.simps)
qed (use assms in \<open>simp add: at_node_def\<close>)

lemma remove_at_inorder:
  assumes "ranges_ok (inorder t)" "distinct (map fst (inorder t))" "\<not> at_node x t" "(x, lo, hi) \<in> set (inorder t)"
  shows "remove_at n x lo hi t = Stack_overflow \<or> (\<exists>t'. remove_at n x lo hi t = Removed t' \<and> inorder t' = without x (inorder t))"
  using assms
proof (induction n x lo hi t rule: remove_at.induct)
  case (2 n x lowKey highKey y lo hi l r d)
  have ok: "ranges_ok (inorder l)" "ranges_ok (inorder r)" "distinct (map fst (inorder l))" "distinct (map fst (inorder r))"
    and xy: "x \<noteq> y" and keys: "lowKey \<le> highKey" "lo \<le> hi"
    using 2(3-6) ranges_ok_member [OF 2(3, 6)] by (auto simp: ranges_ok_simps at_node_def)
  have fst_in: "b \<in> set xs \<Longrightarrow> fst b \<in> fst ` set xs" for b :: "'a range" and xs
    by simp
  have order: "b \<in> set (inorder l) \<Longrightarrow> below b (y, lo, hi)" and order': "b \<in> set (inorder r) \<Longrightarrow> below (y, lo, hi) b" for b
    using 2(3) by (simp_all add: ranges_ok_simps)
  consider "(x, lowKey, highKey) \<in> set (inorder l)" | "(x, lowKey, highKey) \<in> set (inorder r)"
    using 2(6) xy by auto
  then show ?case
  proof cases
    case 1
    then have out: "highKey < lo" "x \<notin> fst ` set (inorder r)"
      using fst_in [OF 1] order [OF 1] 2(4) by auto
    have side: "lowKey < lo"
      using keys(1) out(1) by (rule le_less_trans)
    define res where "res = (if at_node x l then replaced n l else remove_at (Suc n) x lowKey highKey l)"
    have "remove_at n x lowKey highKey (Node y lo hi l r d) = (if Suc n \<ge> 32 then Stack_overflow else removed (\<lambda>l'. Node y lo hi l' r d) res)"
      using side by (simp add: res_def)
    moreover have "Suc n \<ge> 32 \<or> res = Stack_overflow \<or> (\<exists>l'. res = Removed l' \<and> inorder l' = without x (inorder l))"
      using 1 side ok replaced_inorder [of x l n] "2.IH"(1) by (cases "at_node x l") (auto simp: res_def)
    moreover have "without x (inorder (Node y lo hi l r d)) = without x (inorder l) @ (y, lo, hi) # inorder r"
      using xy out(2) by (simp add: without_absent)
    ultimately show ?thesis
      by (auto simp del: remove_at.simps)
  next
    case 2
    then have out: "hi < lowKey" "x \<notin> fst ` set (inorder l)"
      using fst_in [OF 2] order' [OF 2] "2.prems"(2) by auto
    have side: "\<not> lowKey < lo" "hi < highKey"
      using keys out(1) by (simp_all add: not_less)
    define res where "res = (if at_node x r then replaced n r else remove_at (Suc n) x lowKey highKey r)"
    have "remove_at n x lowKey highKey (Node y lo hi l r d) = (if Suc n \<ge> 32 then Stack_overflow else removed (\<lambda>r'. Node y lo hi l r' d) res)"
      using side by (simp add: res_def)
    moreover have "Suc n \<ge> 32 \<or> res = Stack_overflow \<or> (\<exists>r'. res = Removed r' \<and> inorder r' = without x (inorder r))"
      using 2 side ok replaced_inorder [of x r n] "2.IH"(2) by (cases "at_node x r") (auto simp: res_def)
    moreover have "without x (inorder (Node y lo hi l r d)) = inorder l @ (y, lo, hi) # without x (inorder r)"
      using xy out(2) by (simp add: without_absent)
    ultimately show ?thesis
      by (auto simp del: remove_at.simps)
  qed
qed simp

lemma left_spine_depth: "left_spine t \<le> depth t"
  by (induction t) auto

lemma successor_defined: "n + depth t \<le> 31 \<Longrightarrow> successor n t \<noteq> None"
  using left_spine_depth [of "fRight t"] by (cases t) (auto split: prod.splits)

lemma replaced_defined: "n + depth t \<le> 31 \<Longrightarrow> replaced n t \<noteq> Stack_overflow"
  using successor_defined [of n t] by (auto simp: replaced_def)

lemma remove_at_defined: "n + depth t \<le> 31 \<Longrightarrow> remove_at n x lo hi t \<noteq> Stack_overflow"
proof (induction n x lo hi t rule: remove_at.induct)
  case (2 n x lowKey highKey y lo hi l r d)
  have "removed f res = Stack_overflow \<longleftrightarrow> res = Stack_overflow" for f :: "'a avl \<Rightarrow> 'a avl" and res
    by (cases res) auto
  then show ?case
    using 2 replaced_defined [of n l] replaced_defined [of n r] by auto
qed simp

section \<open>Iteration\<close>

text \<open>What an iterator has still to show.\<close>

definition node_rest :: "bool \<Rightarrow> 'a avl \<Rightarrow> 'a range list" where
  "node_rest f t = (if t = Leaf then [] else range_of t # (if f then inorder (fRight t) else rev (inorder (fLeft t))))"

definition it_rest :: "'a avl_iterator \<Rightarrow> 'a range list" where
  "it_rest it = node_rest (fIteratingForward it) (fCurrentNode it) @ concat (map (node_rest (fIteratingForward it)) (fStack it))"

definition it_ok :: "'a avl_iterator \<Rightarrow> bool" where
  "it_ok it \<longleftrightarrow> Leaf \<notin> set (fStack it) \<and> (fCurrentNode it = Leaf \<longrightarrow> fStack it = [])"

lemma go_left_rest:
  "go_left t st = (c, st') \<Longrightarrow> t \<noteq> Leaf \<Longrightarrow> Leaf \<notin> set st \<Longrightarrow>
    c \<noteq> Leaf \<and> Leaf \<notin> set st' \<and> node_rest True c @ concat (map (node_rest True) st') = inorder t @ concat (map (node_rest True) st)"
  by (induction t st rule: go_left.induct) (auto simp: node_rest_def range_of_def split: if_splits)

lemma go_right_rest:
  "go_right t st = (c, st') \<Longrightarrow> t \<noteq> Leaf \<Longrightarrow> Leaf \<notin> set st \<Longrightarrow>
    c \<noteq> Leaf \<and> Leaf \<notin> set st' \<and> rev (inorder t) @ concat (map (node_rest False) st) = node_rest False c @ concat (map (node_rest False) st')"
  by (induction t st rule: go_right.induct) (auto simp: node_rest_def range_of_def split: if_splits)

lemma iterator_rest: "it_ok (iterator t f) \<and> it_rest (iterator t f) = (if f then inorder t else rev (inorder t))"
proof (cases "t = Leaf")
  case True
  then show ?thesis
    by (simp add: iterator_def it_ok_def it_rest_def node_rest_def)
next
  case False
  then show ?thesis
    using go_left_rest [of t "[]"] go_right_rest [of t "[]"]
    by (auto simp: iterator_def it_ok_def it_rest_def split: prod.splits)
qed

lemma GoToNext_rest:
  assumes "it_ok it" "fCurrentNode it \<noteq> Leaf"
  shows "it_ok (GoToNext it) \<and> it_rest it = range_of (fCurrentNode it) # it_rest (GoToNext it)"
proof (cases "fIteratingForward it")
  case True
  show ?thesis
    using assms True go_left_rest [of "fRight (fCurrentNode it)" "fStack it"]
    by (cases "fStack it") (auto simp: GoToNext_def Let_def it_ok_def it_rest_def node_rest_def split: prod.splits)
next
  case False
  show ?thesis
    using assms False go_right_rest [of "fLeft (fCurrentNode it)" "fStack it"]
    by (cases "fStack it") (auto simp: GoToNext_def Let_def it_ok_def it_rest_def node_rest_def split: prod.splits simp del: rev_eq_Cons_iff)
qed

lemma go_left_length: "t \<noteq> Leaf \<Longrightarrow> go_left t st = (c, st') \<Longrightarrow>
    length (node_rest True c @ concat (map (node_rest True) st')) = length (inorder t) + length (concat (map (node_rest True) st))"
  by (induction t st rule: go_left.induct) (auto simp: node_rest_def split: if_splits)

lemma go_right_length: "t \<noteq> Leaf \<Longrightarrow> go_right t st = (c, st') \<Longrightarrow>
    length (node_rest False c @ concat (map (node_rest False) st')) = length (inorder t) + length (concat (map (node_rest False) st))"
  by (induction t st rule: go_right.induct) (auto simp: node_rest_def split: if_splits)

lemma GoToNext_length: "fCurrentNode it \<noteq> Leaf \<Longrightarrow> length (it_rest it) = Suc (length (it_rest (GoToNext it)))"
  using go_left_length [of "fRight (fCurrentNode it)" "fStack it"] go_right_length [of "fLeft (fCurrentNode it)" "fStack it"]
  by (cases "fStack it"; cases "fIteratingForward it") (auto simp: GoToNext_def Let_def it_rest_def node_rest_def split: prod.splits)

section \<open>The operations of the tree\<close>

lemma avl_Add_ranges:
  assumes "ranges_ok (inorder t)" "lo \<le> hi" "hi \<noteq> 0"
  shows "case avl_Add x lo hi t of
      Added t' _ \<Rightarrow> apart lo hi (inorder t) \<and> ranges_ok (inorder t') \<and> set (inorder t') = insert (x, lo, hi) (set (inorder t))
    | Clash \<Rightarrow> \<not> apart lo hi (inorder t)
    | Deep \<Rightarrow> True"
  using add_at_inorder [OF assms(1, 2), where n = 1 and x = x] place_ok [OF assms(1) _ assms(2, 3), of x]
  by (auto simp: avl_Add_def split: add_result.splits)

lemma avl_Add_balanced:
  assumes "balanced t"
  shows "case avl_Add x lo hi t of Added t' _ \<Rightarrow> balanced t' | _ \<Rightarrow> True"
  using add_at_grown [OF assms, where n = 1 and x = x and lo = lo and hi = hi] by (auto simp: avl_Add_def split: add_result.splits)

lemma avl_Add_not_deep:
  assumes "balanced t" "length (inorder t) < 65535"
  shows "avl_Add x lo hi t \<noteq> Deep"
proof -
  have "depth t \<le> 31"
  proof (rule ccontr)
    assume "\<not> depth t \<le> 31"
    then have "least 32 \<le> least (depth t)"
      by (intro least_mono) simp
    moreover have "65536 \<le> least 32 + 1"
      using least_power [of 16] by simp
    ultimately show False
      using balanced_least [OF assms(1)] assms(2) by simp
  qed
  then show ?thesis
    by (simp add: avl_Add_def add_at_not_deep)
qed

lemma avl_Remove_ranges:
  assumes "ranges_ok (inorder t)" "distinct (map fst (inorder t))" "(x, lo, hi) \<in> set (inorder t)" "depth t \<le> 30"
  shows "\<exists>t'. avl_Remove x lo hi t = Removed t' \<and> inorder t' = without x (inorder t)"
proof -
  have "hi \<noteq> 0"
    using ranges_ok_member [OF assms(1, 3)] by simp
  moreover have "replaced 0 t \<noteq> Stack_overflow" "remove_at 1 x lo hi t \<noteq> Stack_overflow"
    using assms(4) by (simp_all add: replaced_defined remove_at_defined)
  ultimately show ?thesis
    using replaced_inorder [of x t 0] remove_at_inorder [OF assms(1, 2) _ assms(3), where n = 1] assms(2)
    by (cases "at_node x t") (auto simp: avl_Remove_def)
qed

lemma ranges_ok_without: "ranges_ok xs \<Longrightarrow> ranges_ok (without x xs)"
  by (auto simp: ranges_ok_def without_def sorted_wrt_filter)

section \<open>Properties\<close>

definition demo_avl :: "nat avl" where
  "demo_avl = Node 2 50 60 (Node 1 10 20 Leaf Leaf 0) (Node 3 80 90 Leaf Leaf 0) 1"

lemma demo_avl: "ranges_ok (inorder demo_avl)" "balanced demo_avl" "depth demo_avl \<le> 30" "distinct (map fst (inorder demo_avl))"
    "inorder demo_avl = [(1, 10, 20), (2, 50, 60), (3, 80, 90)]"
  by (simp_all add: demo_avl_def ranges_ok_simps)

text \<open>C16: Adding a range to a tree of disjoint ranges in order: it is refused exactly when the range meets one of the tree;
  else the tree is again one of disjoint ranges in order, with this one more, and as balanced as it was; the stack of
  ancestors does not overflow with less than 65535 ranges.\<close>

theorem avl_add_range:
  assumes "ranges_ok (inorder t)" "balanced t" "length (inorder t) < 65535" "lo \<le> hi" "hi \<noteq> 0"
  shows "case avl_Add x lo hi t of
      Clash \<Rightarrow> \<not> apart lo hi (inorder t)
    | Deep \<Rightarrow> False
    | Added t' _ \<Rightarrow> apart lo hi (inorder t) \<and> ranges_ok (inorder t') \<and> balanced t' \<and>
        set (inorder t') = insert (x, lo, hi) (set (inorder t)) \<and> length (inorder t') = Suc (length (inorder t))"
  using avl_Add_ranges [OF assms(1, 4, 5), of x] avl_Add_balanced [OF assms(2), of x lo hi] avl_Add_not_deep [OF assms(2, 3), of x lo hi]
    add_at_inorder [OF assms(1, 4), where n = 1 and x = x]
  by (auto simp: avl_Add_def place_def split: add_result.splits) (metis add_Suc_right length_append takeWhile_dropWhile_id)

theorem avl_add_range_witness:
  "\<exists>t'. avl_Add 4 61 79 demo_avl = Added t' False \<or> avl_Add 4 61 79 demo_avl = Added t' True"
  using avl_add_range [OF demo_avl(1, 2), of 61 79 4] by (auto simp: demo_avl(5) split: add_result.splits)

text \<open>C23: Removing a node from a tree of disjoint ranges of different nodes that is at most 30 deep ends, and leaves exactly the
  other ranges, in order; looking an address up finds the range that contains it, and nothing exactly when there is none.\<close>

theorem avl_remove_find:
  assumes "ranges_ok (inorder t)" "distinct (map fst (inorder t))" "(x, lo, hi) \<in> set (inorder t)" "depth t \<le> 30"
  shows "\<exists>t'. avl_Remove x lo hi t = Removed t' \<and> inorder t' = filter (\<lambda>a. fst a \<noteq> x) (inorder t) \<and>
    (avl_Find key t' = Leaf \<longleftrightarrow> (\<forall>(y, k, h) \<in> set (inorder t). y \<noteq> x \<longrightarrow> key < k \<or> h < key)) \<and>
    (\<forall>(y, k, h) \<in> set (inorder t). y \<noteq> x \<and> k \<le> key \<and> key \<le> h \<longrightarrow> range_of (avl_Find key t') = (y, k, h))"
proof -
  obtain t' where t': "avl_Remove x lo hi t = Removed t'" "inorder t' = without x (inorder t)"
    using avl_Remove_ranges [OF assms] by blast
  then have ok: "ranges_ok (inorder t')"
    using ranges_ok_without [OF assms(1)] by simp
  have "avl_Find key t' = Leaf \<longleftrightarrow> (\<forall>(y, k, h) \<in> set (inorder t). y \<noteq> x \<longrightarrow> key < k \<or> h < key)"
    using IsRangeFree_apart [OF ok, of key key] by (auto simp: Find_Leaf t'(2) apart_def without_def)
  moreover have "range_of (avl_Find key t') = (y, k, h)" if "(y, k, h) \<in> set (inorder t)" "y \<noteq> x" "k \<le> key" "key \<le> h" for y k h
    using Find_node [OF ok, of y k h key] that by (simp add: t'(2) without_def)
  ultimately show ?thesis
    using t' by (auto simp: without_def)
qed

theorem avl_remove_find_witness:
  "\<exists>t'. avl_Remove 2 50 60 demo_avl = Removed t' \<and> avl_Find 55 t' = Leaf \<and> range_of (avl_Find 15 t') = (1, 10, 20)"
proof -
  have m: "(2, 50, 60) \<in> set (inorder demo_avl)"
    by (simp add: demo_avl(5))
  show ?thesis
    using avl_remove_find [OF demo_avl(1, 4) m demo_avl(3), of 55] avl_remove_find [OF demo_avl(1, 4) m demo_avl(3), of 15]
    by (auto simp: demo_avl(5))
qed

end
