(* ===== verification/Handle_Table.thy ===== *)
theory Handle_Table
  imports Net_Prelude "HOL-Library.Signed_Division"
begin

text \<open>
  \<^verbatim>\<open>SkyCore/HandleTable.cpp\<close>: the table of a team's handles, with the reference counts of \<^verbatim>\<open>SkyCore/Resource.cpp\<close> and the
  system call \<open>close_handle\<close> of \<^verbatim>\<open>SkyCore/SystemCall.cpp\<close>.  A resource is named by its address; an operation that uses an
  address without a resource, a missing subtable or an index outside of an array has the result \<open>Inl\<close>.  The lock is held
  throughout an operation, so each is one step.
\<close>

abbreviation (input) kLevel1Size :: int where "kLevel1Size \<equiv> 1024"
abbreviation (input) kLevel2Size :: int where "kLevel2Size \<equiv> 1024"
abbreviation (input) kSerialNumberCount :: int where "kSerialNumberCount \<equiv> 2048"
abbreviation (input) OBJ_ANY :: int where "OBJ_ANY \<equiv> -1"
abbreviation (input) E_BAD_HANDLE :: int where "E_BAD_HANDLE \<equiv> -3"

section \<open>Resources\<close>

record resource =
  fType :: int
  fRefCount :: int

type_synonym resources = "int \<Rightarrow> resource option"

text \<open>How an operation fails: a bad address is used, or the code panics.\<close>

datatype ht_error = Bad_address | Table_full

type_synonym 'a result = "ht_error + 'a"

definition AcquireRef :: "int \<Rightarrow> resources \<Rightarrow> resources result" where
  "AcquireRef a rs =
     (case rs a of
        None \<Rightarrow> Inl Bad_address
      | Some r \<Rightarrow> Inr (rs(a := Some (r\<lparr>fRefCount := fRefCount r + 1\<rparr>))))"

text \<open>The last reference deletes the object.  The assertion is empty in the build without \<open>DEBUG\<close>.\<close>

definition ReleaseRef :: "int \<Rightarrow> resources \<Rightarrow> resources result" where
  "ReleaseRef a rs =
     (case rs a of
        None \<Rightarrow> Inl Bad_address
      | Some r \<Rightarrow> Inr (rs(a := if fRefCount r = 1 then None else Some (r\<lparr>fRefCount := fRefCount r - 1\<rparr>))))"

section \<open>The table\<close>

text \<open>\<open>fDatum\<close> is the word of the union: the address of a resource, or the index of the next free handle.\<close>

record handle =
  fSerialNumber :: int
  fDatum :: int

record subtable =
  fFreeHandles :: int
  fFirstFree :: int
  fHandle :: "int \<Rightarrow> handle"

record handle_table =
  fMainTable :: "int \<Rightarrow> subtable option"
  fFreeHint :: int

definition IsFree :: "handle \<Rightarrow> bool" where
  "IsFree h \<longleftrightarrow> fDatum h < kLevel2Size \<and> fDatum h \<ge> 0"

definition SubTable :: subtable where
  "SubTable = \<lparr>fFreeHandles = kLevel2Size, fFirstFree = kLevel2Size - 1,
     fHandle = (\<lambda>i. \<lparr>fSerialNumber = 0, fDatum = (if i = 0 then 0 else i - 1)\<rparr>)\<rparr>"

definition HandleTable :: handle_table where
  "HandleTable = \<lparr>fMainTable = (\<lambda>i. None), fFreeHint = 0\<rparr>"

definition set_handle :: "int \<Rightarrow> handle \<Rightarrow> subtable \<Rightarrow> subtable" where
  "set_handle j h sub = sub\<lparr>fHandle := (fHandle sub)(j := h)\<rparr>"

definition set_sub :: "int \<Rightarrow> subtable \<Rightarrow> handle_table \<Rightarrow> handle_table" where
  "set_sub i sub t = t\<lparr>fMainTable := (fMainTable t)(i := Some sub)\<rparr>"

text \<open>The search of \<open>Open\<close>: the first subtable with a free handle, and the first empty slot before it.\<close>

function find_sub :: "(int \<Rightarrow> subtable option) \<Rightarrow> int \<Rightarrow> int \<Rightarrow> int \<times> int" where
  "find_sub tab i firstEmpty =
     (if i \<ge> kLevel1Size then (i, firstEmpty)
      else
        case tab i of
          None \<Rightarrow> find_sub tab (i + 1) (if firstEmpty = -1 then i else firstEmpty)
        | Some sub \<Rightarrow> if fFreeHandles sub > 0 then (i, firstEmpty) else find_sub tab (i + 1) firstEmpty)"
  by pat_completeness auto

termination
  by (relation "measure (\<lambda>(tab, i, e). nat (1024 - i))") auto

declare find_sub.simps [simp del]

text \<open>The first free handle of a subtable is given to the resource.\<close>

definition open_in :: "int \<Rightarrow> subtable \<Rightarrow> int \<Rightarrow> handle_table \<Rightarrow> handle_table \<times> int" where
  "open_in i sub resource t =
     (let j = fFirstFree sub;
          h = fHandle sub j;
          sub = set_handle j (h\<lparr>fDatum := resource\<rparr>) (sub\<lparr>fFreeHandles := fFreeHandles sub - 1, fFirstFree := fDatum h\<rparr>)
      in ((set_sub i sub t)\<lparr>fFreeHint := i\<rparr>, ((fSerialNumber h * kLevel2Size) + i) * kLevel1Size + j))"

definition Open :: "int \<Rightarrow> handle_table \<times> resources \<Rightarrow> ((handle_table \<times> resources) \<times> int) result" where
  "Open resource s =
     (case AcquireRef resource (snd s) of
        Inl e \<Rightarrow> Inl e
      | Inr rs \<Rightarrow>
          (let (i, firstEmpty) = find_sub (fMainTable (fst s)) (fFreeHint (fst s)) (-1)
           in if i = kLevel1Size then
                if firstEmpty = -1 then Inl Table_full
                else case open_in firstEmpty SubTable resource (fst s) of (t, ident) \<Rightarrow> Inr ((t, rs), ident)
              else
                case fMainTable (fst s) i of
                  None \<Rightarrow> Inl Bad_address
                | Some sub \<Rightarrow> (case open_in i sub resource (fst s) of (t, ident) \<Rightarrow> Inr ((t, rs), ident))))"

text \<open>The indexes of an identifier, with C's division.\<close>

definition level1 :: "int \<Rightarrow> int" where
  "level1 ident = (ident sdiv kLevel2Size) smod kLevel1Size"

definition level2 :: "int \<Rightarrow> int" where
  "level2 ident = ident smod kLevel2Size"

text \<open>The subtable of an identifier; a negative index is outside of the arrays.\<close>

definition sub_of :: "int \<Rightarrow> handle_table \<Rightarrow> subtable option" where
  "sub_of ident t = (if level1 ident < 0 then None else fMainTable t (level1 ident))"

definition Close :: "int \<Rightarrow> handle_table \<times> resources \<Rightarrow> (handle_table \<times> resources) result" where
  "Close ident s =
     (case sub_of ident (fst s) of
        None \<Rightarrow> Inl Bad_address
      | Some sub \<Rightarrow>
          if level2 ident < 0 then Inl Bad_address
          else
            let h = fHandle sub (level2 ident);
                h' = \<lparr>fSerialNumber = (fSerialNumber h + 1) smod kSerialNumberCount, fDatum = fFirstFree sub\<rparr>;
                sub' = set_handle (level2 ident) h' (sub\<lparr>fFreeHandles := fFreeHandles sub + 1, fFirstFree := level2 ident\<rparr>);
                t = (set_sub (level1 ident) sub' (fst s))
                      \<lparr>fFreeHint := if level1 ident < fFreeHint (fst s) then level1 ident else fFreeHint (fst s)\<rparr>
            in case ReleaseRef (fDatum h) (snd s) of Inl e \<Rightarrow> Inl e | Inr rs \<Rightarrow> Inr (t, rs))"

text \<open>The resource of an identifier, with a reference for the caller; 0 is the null pointer.\<close>

definition GetResource :: "int \<Rightarrow> int \<Rightarrow> handle_table \<times> resources \<Rightarrow> (resources \<times> int) result" where
  "GetResource ident matchType s =
     (if ident < 0 then Inr (snd s, 0)
      else
        case sub_of ident (fst s) of
          None \<Rightarrow> Inr (snd s, 0)
        | Some sub \<Rightarrow>
            let h = fHandle sub (level2 ident)
            in if fSerialNumber h \<noteq> ident sdiv (kLevel1Size * kLevel2Size) then Inr (snd s, 0)
               else if IsFree h then Inr (snd s, 0)
               else
                 case snd s (fDatum h) of
                   None \<Rightarrow> Inl Bad_address
                 | Some r \<Rightarrow>
                     if matchType \<noteq> OBJ_ANY \<and> matchType \<noteq> fType r then Inr (snd s, 0)
                     else case AcquireRef (fDatum h) (snd s) of Inl e \<Rightarrow> Inl e | Inr rs \<Rightarrow> Inr (rs, fDatum h))"

text \<open>\<open>GetResource\<close> with no type: where it does not get as far as the type, \<open>OBJ_ANY\<close> does not matter.\<close>

definition close_handle :: "int \<Rightarrow> handle_table \<times> resources \<Rightarrow> ((handle_table \<times> resources) \<times> int) result" where
  "close_handle ident s =
     (case GetResource ident OBJ_ANY s of
        Inl e \<Rightarrow> Inl e
      | Inr (rs, a) \<Rightarrow>
          if a = 0 then Inr ((fst s, rs), E_BAD_HANDLE)
          else
            case Close ident (fst s, rs) of
              Inl e \<Rightarrow> Inl e
            | Inr (t, rs) \<Rightarrow> (case ReleaseRef a rs of Inl e \<Rightarrow> Inl e | Inr rs \<Rightarrow> Inr ((t, rs), 0)))"

text \<open>The destructor: the handles still open give their references back.\<close>

fun release_all :: "int list \<Rightarrow> subtable \<Rightarrow> resources \<Rightarrow> resources result" where
  "release_all [] sub rs = Inr rs"
| "release_all (j # js) sub rs =
     (if IsFree (fHandle sub j) then release_all js sub rs
      else case ReleaseRef (fDatum (fHandle sub j)) rs of Inl e \<Rightarrow> Inl e | Inr rs \<Rightarrow> release_all js sub rs)"

fun destroy :: "int list \<Rightarrow> handle_table \<Rightarrow> resources \<Rightarrow> resources result" where
  "destroy [] t rs = Inr rs"
| "destroy (i # js) t rs =
     (case fMainTable t i of
        None \<Rightarrow> destroy js t rs
      | Some sub \<Rightarrow> (case release_all [0..1023] sub rs of Inl e \<Rightarrow> Inl e | Inr rs \<Rightarrow> destroy js t rs))"

definition destroy_HandleTable :: "handle_table \<times> resources \<Rightarrow> resources result" where
  "destroy_HandleTable s = destroy [0..1023] (fst s) (snd s)"

end
