(* ===== verification/Handle_Props.thy ===== *)
theory Handle_Props
  imports Handle_Table
begin

text \<open>
  The handle table against a map from identifiers to resources: an invariant of its free lists, and that \<open>Open\<close>, \<open>Close\<close> and
  \<open>GetResource\<close> are the operations of the map, with the reference counts covering the open handles.
\<close>

section \<open>Identifiers\<close>

definition ix :: "int \<Rightarrow> bool" where
  "ix j \<longleftrightarrow> 0 \<le> j \<and> j < 1024"

definition serial_of :: "int \<Rightarrow> int" where
  "serial_of x = x div 1048576"

definition ident_of :: "int \<Rightarrow> int \<Rightarrow> int \<Rightarrow> int" where
  "ident_of s i j = (s * 1024 + i) * 1024 + j"

lemma sdiv_nonneg: "0 \<le> x \<Longrightarrow> 0 < k \<Longrightarrow> x sdiv k = x div k" "0 \<le> x \<Longrightarrow> 0 < k \<Longrightarrow> x smod k = x mod k" for x k :: int
  by (simp_all add: signed_divide_int_def signed_modulo_int_def sgn_if zmod_eq_0_iff)

lemma level_nonneg:
  assumes "0 \<le> x"
  shows "level1 x = x div 1024 mod 1024" "level2 x = x mod 1024" "x sdiv 1048576 = serial_of x"
  using assms by (simp_all add: level1_def level2_def serial_of_def sdiv_nonneg pos_imp_zdiv_nonneg_iff)

lemma level_ix: "0 \<le> x \<Longrightarrow> ix (level1 x) \<and> ix (level2 x)"
  by (simp add: level_nonneg ix_def)

lemma serial_nonneg: "0 \<le> x \<Longrightarrow> 0 \<le> serial_of x"
  by (simp add: serial_of_def)

lemma ident_of_level: "0 \<le> x \<Longrightarrow> ident_of (serial_of x) (level1 x) (level2 x) = x"
  using zdiv_zmult2_eq [of 1024 x 1024] mult_div_mod_eq [of 1024 x] mult_div_mod_eq [of 1024 "x div 1024"]
  by (simp add: level_nonneg ident_of_def serial_of_def)

lemma level_ident_of:
  assumes "ix i" "ix j" "0 \<le> s"
  shows "0 \<le> ident_of s i j" "level1 (ident_of s i j) = i" "level2 (ident_of s i j) = j" "serial_of (ident_of s i j) = s"
proof -
  show nn: "0 \<le> ident_of s i j"
    using assms by (simp add: ident_of_def ix_def)
  have "ident_of s i j div 1024 = s * 1024 + i"
    using assms unfolding ident_of_def ix_def by (subst div_mult_self3) simp_all
  moreover have "ident_of s i j div 1048576 = ident_of s i j div 1024 div 1024"
    by (simp add: zdiv_zmult2_eq [symmetric])
  moreover have "ident_of s i j mod 1024 = j"
    using assms unfolding ident_of_def ix_def by (subst mod_mult_self3) simp_all
  ultimately show "level1 (ident_of s i j) = i" "serial_of (ident_of s i j) = s" "level2 (ident_of s i j) = j"
    using assms nn by (simp_all add: level_nonneg serial_of_def ix_def)
qed

lemma ident_of_bound: "ix i \<Longrightarrow> ix j \<Longrightarrow> s < 2048 \<Longrightarrow> ident_of s i j < 2 ^ 31"
  by (simp add: ident_of_def ix_def)

section \<open>The invariant\<close>

fun free_chain :: "(int \<Rightarrow> handle) \<Rightarrow> int \<Rightarrow> int list \<Rightarrow> bool" where
  "free_chain h p [] = True"
| "free_chain h p (j # js) \<longleftrightarrow> p = j \<and> free_chain h (fDatum (h j)) js"

definition free_list :: "subtable \<Rightarrow> int list \<Rightarrow> bool" where
  "free_list sub fl \<longleftrightarrow> free_chain (fHandle sub) (fFirstFree sub) fl \<and> distinct fl \<and> int (length fl) = fFreeHandles sub \<and>
     set fl = {j. ix j \<and> IsFree (fHandle sub j)} \<and> ix (fFirstFree sub) \<and>
     (\<forall>j. ix j \<longrightarrow> 0 \<le> fSerialNumber (fHandle sub j) \<and> fSerialNumber (fHandle sub j) < 2048)"

definition sub_ok :: "subtable \<Rightarrow> bool" where
  "sub_ok sub \<longleftrightarrow> (\<exists>fl. free_list sub fl)"

definition table_ok :: "handle_table \<Rightarrow> int \<Rightarrow> bool" where
  "table_ok t n \<longleftrightarrow> 0 \<le> n \<and> n \<le> 1024 \<and> 0 \<le> fFreeHint t \<and> fFreeHint t \<le> n \<and>
     (\<forall>i. fMainTable t i \<noteq> None \<longleftrightarrow> 0 \<le> i \<and> i < n) \<and>
     (\<forall>i sub. fMainTable t i = Some sub \<longrightarrow> sub_ok sub \<and> (i < fFreeHint t \<longrightarrow> fFreeHandles sub = 0))"

text \<open>The map that the table stands for.\<close>

definition handles :: "handle_table \<Rightarrow> int \<Rightarrow> int option" where
  "handles t x =
     (if x < 0 then None
      else case fMainTable t (level1 x) of
        None \<Rightarrow> None
      | Some sub \<Rightarrow>
          if fSerialNumber (fHandle sub (level2 x)) = serial_of x \<and> \<not> IsFree (fHandle sub (level2 x))
          then Some (fDatum (fHandle sub (level2 x))) else None)"

lemma table_ok_sub: "table_ok t n \<Longrightarrow> fMainTable t i = Some sub \<Longrightarrow> 0 \<le> i \<and> i < n \<and> n \<le> 1024 \<and> sub_ok sub"
  unfolding table_ok_def by (metis option.distinct(1))

lemma sub_ok_free: "sub_ok sub \<Longrightarrow> 0 \<le> fFreeHandles sub"
  by (auto simp: sub_ok_def free_list_def)

lemma free_chain_cong: "(\<And>j. j \<in> set js \<Longrightarrow> h j = h' j) \<Longrightarrow> free_chain h p js = free_chain h' p js"
  by (induction js arbitrary: p) auto

lemma SubTable_free: "free_list SubTable (rev [0..1023])"
proof -
  have "free_chain (fHandle SubTable) (int n) (rev [0..int n])" for n
  proof (induction n)
    case (Suc n)
    have "rev [0..int (Suc n)] = int (Suc n) # rev [0..int n]"
      by (simp add: upto_rec2)
    then show ?case
      using Suc by (simp add: SubTable_def)
  qed (simp add: SubTable_def)
  from this [of 1023] show ?thesis
    by (auto simp: free_list_def SubTable_def IsFree_def ix_def)
qed

lemma table_ok_start: "table_ok HandleTable 0"
  by (simp add: table_ok_def HandleTable_def)

lemma handles_start: "handles HandleTable = Map.empty"
  by (rule ext) (simp add: handles_def HandleTable_def)

section \<open>The search\<close>

lemma find_sub_above: "e \<noteq> -1 \<Longrightarrow> i \<le> 1024 \<Longrightarrow> (\<And>k. i \<le> k \<Longrightarrow> tab k = None) \<Longrightarrow> find_sub tab i e = (1024, e)"
proof (induction "nat (1024 - i)" arbitrary: i)
  case (Suc m)
  then show ?case
    by (subst find_sub.simps) simp
qed (simp add: find_sub.simps)

definition full_from :: "(int \<Rightarrow> subtable option) \<Rightarrow> int \<Rightarrow> int \<Rightarrow> bool" where
  "full_from tab i k \<longleftrightarrow> (\<forall>m sub. i \<le> m \<longrightarrow> m < k \<longrightarrow> tab m = Some sub \<longrightarrow> fFreeHandles sub = 0)"

lemma full_from_step: "tab i = Some sub \<Longrightarrow> fFreeHandles sub = 0 \<Longrightarrow> full_from tab (i + 1) k \<Longrightarrow> full_from tab i k"
  unfolding full_from_def by (metis option.inject order_le_less zless_imp_add1_zle)

text \<open>In a table whose subtables are the first \<open>n\<close>.\<close>

lemma find_sub_prefix:
  assumes "0 \<le> i" "i \<le> n" "n \<le> 1024" "\<And>k. tab k \<noteq> None \<longleftrightarrow> 0 \<le> k \<and> k < n"
    and "\<And>k sub. tab k = Some sub \<Longrightarrow> 0 \<le> fFreeHandles sub"
  shows "\<exists>k e. find_sub tab i (-1) = (k, e) \<and> full_from tab i k \<and>
    (k < n \<and> (\<exists>sub. tab k = Some sub \<and> 0 < fFreeHandles sub) \<or> k = 1024 \<and> e = (if n < 1024 then n else -1))"
  using assms(1, 2)
proof (induction "nat (n - i)" arbitrary: i)
  case 0
  then have i: "i = n"
    by simp
  have none: "tab k = None" if "n \<le> k" for k
    using assms(4) [of k] that by (cases "tab k") auto
  have "find_sub tab n (-1) = (1024, if n < 1024 then n else -1)"
  proof (cases "n = 1024")
    case False
    have "find_sub tab n (-1) = find_sub tab (n + 1) n"
      using False assms(3) none [of n] by (subst find_sub.simps) simp
    then show ?thesis
      using False assms(3) i \<open>0 \<le> i\<close> none find_sub_above [of n "n + 1" tab] by simp
  qed (simp add: find_sub.simps)
  then show ?case
    using i none by (simp add: full_from_def)
next
  case (Suc m)
  then have i: "i < n" "0 \<le> i + 1" "i + 1 \<le> n" "m = nat (n - (i + 1))"
    by auto
  obtain sub where sub: "tab i = Some sub"
    using assms(4) [of i] i Suc by auto
  show ?case
  proof (cases "0 < fFreeHandles sub")
    case True
    then show ?thesis
      using sub i assms(3) by (simp add: find_sub.simps [of tab i] full_from_def)
  next
    case False
    then have "fFreeHandles sub = 0" "find_sub tab i (-1) = find_sub tab (i + 1) (-1)"
      using sub i assms(3) assms(5) [OF sub] by (auto simp: find_sub.simps [of tab i])
    then show ?thesis
      using Suc.hyps(1) [OF i(4, 2, 3)] sub full_from_step [where tab = tab and i = i and sub = sub] by metis
  qed
qed

section \<open>Opening\<close>

definition full_below :: "handle_table \<Rightarrow> int \<Rightarrow> bool" where
  "full_below t i \<longleftrightarrow> (\<forall>k sub. k < i \<longrightarrow> fMainTable t k = Some sub \<longrightarrow> fFreeHandles sub = 0)"

lemma free_list_take:
  assumes "free_list sub (j # fl)" "\<not> IsFree \<lparr>fSerialNumber = 0, fDatum = a\<rparr>"
  shows "fFirstFree sub = j" "ix j" "IsFree (fHandle sub j)"
    and "free_list (set_handle j ((fHandle sub j)\<lparr>fDatum := a\<rparr>) (sub\<lparr>fFreeHandles := fFreeHandles sub - 1, fFirstFree := fDatum (fHandle sub j)\<rparr>)) fl"
proof -
  show j: "fFirstFree sub = j" "ix j" "IsFree (fHandle sub j)"
    using assms by (auto simp: free_list_def)
  have "set fl = {k. ix k \<and> IsFree (fHandle sub k)} - {j}"
    using assms(1) by (auto simp: free_list_def)
  moreover have "free_chain ((fHandle sub)(j := (fHandle sub j)\<lparr>fDatum := a\<rparr>)) (fDatum (fHandle sub j)) fl"
    using assms(1) by (subst free_chain_cong [where h' = "fHandle sub"]) (auto simp: free_list_def)
  moreover have "\<not> IsFree ((fHandle sub j)\<lparr>fDatum := a\<rparr>)"
    using assms(2) by (simp add: IsFree_def)
  ultimately show "free_list (set_handle j ((fHandle sub j)\<lparr>fDatum := a\<rparr>) (sub\<lparr>fFreeHandles := fFreeHandles sub - 1, fFirstFree := fDatum (fHandle sub j)\<rparr>)) fl"
    using assms(1) j(3) by (auto simp: free_list_def set_handle_def ix_def IsFree_def)
qed

lemma free_list_put:
  assumes "free_list sub fl" "ix j" "\<not> IsFree (fHandle sub j)" "0 \<le> n" "n < 2048"
  shows "free_list (set_handle j \<lparr>fSerialNumber = n, fDatum = fFirstFree sub\<rparr> (sub\<lparr>fFreeHandles := fFreeHandles sub + 1, fFirstFree := j\<rparr>)) (j # fl)"
proof -
  have out: "j \<notin> set fl"
    using assms(1, 3) by (auto simp: free_list_def)
  have "free_chain ((fHandle sub)(j := h)) (fFirstFree sub) fl" for h
    using assms(1) out by (subst free_chain_cong [where h' = "fHandle sub"]) (auto simp: free_list_def)
  moreover have "IsFree \<lparr>fSerialNumber = n, fDatum = fFirstFree sub\<rparr>"
    using assms(1) by (simp add: free_list_def ix_def IsFree_def)
  ultimately show ?thesis
    using assms out by (auto simp: free_list_def set_handle_def)
qed

lemma table_ok_set_sub:
  assumes "table_ok t n" "fMainTable t i = Some sub" "sub_ok sub'" "0 \<le> h" "h \<le> n" "\<And>k sub. k \<noteq> i \<Longrightarrow> k < h \<Longrightarrow> fMainTable t k = Some sub \<Longrightarrow> fFreeHandles sub = 0" "h \<le> i"
  shows "table_ok ((set_sub i sub' t)\<lparr>fFreeHint := h\<rparr>) n"
  using assms unfolding table_ok_def set_sub_def by (auto split: if_splits)

text \<open>A handle of an identifier's slot changes the map there only.\<close>

lemma handles_set_sub:
  assumes "fMainTable t i = Some sub" "\<And>k. k \<noteq> j \<Longrightarrow> fHandle sub' k = fHandle sub k"
    and "0 \<le> x" "\<not> (level1 x = i \<and> level2 x = j)"
  shows "handles ((set_sub i sub' t)\<lparr>fFreeHint := h\<rparr>) x = handles t x"
  using assms by (auto simp: handles_def set_sub_def)

lemma handles_negative [simp]: "x < 0 \<Longrightarrow> handles t x = None"
  by (simp add: handles_def)

lemma open_in_ok:
  assumes ok: "table_ok t n" and sub: "fMainTable t i = Some sub" "0 < fFreeHandles sub" and full: "full_below t i"
    and a: "\<not> (0 \<le> a \<and> a < 1024)" and res: "open_in i sub a t = (t', x)"
  shows "table_ok t' n \<and> 0 \<le> x \<and> x < 2 ^ 31 \<and> handles t x = None \<and> handles t' = (handles t)(x \<mapsto> a)"
proof -
  have nf: "\<not> IsFree \<lparr>fSerialNumber = s, fDatum = a\<rparr>" for s
    using a by (auto simp: IsFree_def)
  obtain fl where fl: "free_list sub fl"
    using table_ok_sub [OF ok sub(1)] by (auto simp: sub_ok_def)
  then obtain j fl' where jfl: "fl = j # fl'"
    using sub(2) by (cases fl) (auto simp: free_list_def)
  note take = free_list_take [OF fl [unfolded jfl] nf]
  have i: "ix i" "i < n" "n \<le> 1024"
    using table_ok_sub [OF ok sub(1)] by (auto simp: ix_def)
  define h where "h = fHandle sub j"
  define sub' where "sub' = set_handle j (h\<lparr>fDatum := a\<rparr>) (sub\<lparr>fFreeHandles := fFreeHandles sub - 1, fFirstFree := fDatum h\<rparr>)"
  have t': "t' = (set_sub i sub' t)\<lparr>fFreeHint := i\<rparr>" and x: "x = ident_of (fSerialNumber h) i j"
    using res take(1) by (auto simp: open_in_def Let_def h_def sub'_def ident_of_def)
  have s: "0 \<le> fSerialNumber h" "fSerialNumber h < 2048"
    using fl take(2) by (auto simp: free_list_def h_def)
  note lev = level_ident_of [OF i(1) take(2) s(1), folded x]
  have "sub_ok sub'"
    using take(4) by (auto simp: sub_ok_def sub'_def h_def)
  then have "table_ok t' n"
    unfolding t' using ok sub(1) i full by (intro table_ok_set_sub) (auto simp: ix_def full_below_def)
  moreover have "handles t x = None"
    using lev take(3) sub(1) by (simp add: handles_def)
  moreover have "handles t' y = ((handles t)(x \<mapsto> a)) y" for y
  proof (cases "0 \<le> y \<and> level1 y = i \<and> level2 y = j")
    case True
    have "y = x \<longleftrightarrow> serial_of y = fSerialNumber h"
      using True lev(4) x ident_of_level [of y] by auto
    then show ?thesis
      using True sub(1) take(3) nf by (auto simp: t' handles_def set_sub_def sub'_def set_handle_def h_def IsFree_def)
  next
    case False
    then have "y \<noteq> x"
      using lev by auto
    then show ?thesis
      using False sub(1) by (cases "0 \<le> y") (auto simp: t' sub'_def set_handle_def intro!: handles_set_sub [where j = j and sub = sub])
  qed
  ultimately show ?thesis
    using lev(1) s ident_of_bound [OF i(1) take(2) s(2)] x by auto
qed

lemma new_subtable:
  assumes ok: "table_ok t n" and n: "n < 1024"
  shows "table_ok (set_sub n SubTable t) (n + 1)" and "handles (set_sub n SubTable t) = handles t"
    and "full_below t n \<Longrightarrow> full_below (set_sub n SubTable t) n"
proof -
  have none: "fMainTable t n = None"
    using ok by (auto simp: table_ok_def)
  have "sub_ok SubTable"
    using SubTable_free by (auto simp: sub_ok_def)
  then show "table_ok (set_sub n SubTable t) (n + 1)"
    using ok n unfolding table_ok_def set_sub_def by auto
  have "IsFree (fHandle SubTable (level2 x))" if "0 \<le> x" for x
    using level_ix [OF that] by (auto simp: SubTable_def IsFree_def ix_def)
  then show "handles (set_sub n SubTable t) = handles t"
    using none by (intro ext) (auto simp: handles_def set_sub_def)
  show "full_below t n \<Longrightarrow> full_below (set_sub n SubTable t) n"
    by (auto simp: full_below_def set_sub_def)
qed

lemma open_in_set_sub: "open_in i sub a (set_sub i sub' t) = open_in i sub a t"
  by (simp add: open_in_def set_sub_def Let_def)

text \<open>Every handle of a full subtable is open.\<close>

lemma full_open:
  assumes "table_ok t n" "fMainTable t i = Some sub" "fFreeHandles sub = 0" "ix j"
  shows "\<exists>x. 0 \<le> x \<and> handles t x \<noteq> None \<and> level1 x = i \<and> level2 x = j"
proof -
  have i: "ix i" and "sub_ok sub"
    using table_ok_sub [OF assms(1, 2)] by (auto simp: ix_def)
  then obtain fl where "free_list sub fl"
    by (auto simp: sub_ok_def)
  then have s: "0 \<le> fSerialNumber (fHandle sub j)" and "\<not> IsFree (fHandle sub j)"
    using assms(3, 4) by (auto simp: free_list_def)
  then show ?thesis
    using level_ident_of [OF i assms(4) s] assms(2)
    by (intro exI [of _ "ident_of (fSerialNumber (fHandle sub j)) i j"]) (auto simp: handles_def)
qed

definition all_open :: "(int \<Rightarrow> int option) \<Rightarrow> bool" where
  "all_open m \<longleftrightarrow> (\<forall>i j. ix i \<longrightarrow> ix j \<longrightarrow> (\<exists>x \<in> dom m. level1 x = i \<and> level2 x = j))"

definition is_pointer :: "int \<Rightarrow> bool" where
  "is_pointer a \<longleftrightarrow> \<not> (0 \<le> a \<and> a < 1024)"

lemma Open_handles:
  assumes ok: "table_ok t n" and a: "is_pointer a" and rs: "rs a = Some r"
  shows "(Open a (t, rs) = Inl Table_full \<and> all_open (handles t)) \<or>
    (\<exists>t' x n'. Open a (t, rs) = Inr ((t', rs(a \<mapsto> r\<lparr>fRefCount := fRefCount r + 1\<rparr>)), x) \<and> table_ok t' n' \<and>
       0 \<le> x \<and> x < 2 ^ 31 \<and> handles t x = None \<and> handles t' = (handles t)(x \<mapsto> a))"
proof -
  have hint: "0 \<le> fFreeHint t" "fFreeHint t \<le> n" "0 \<le> n" "n \<le> 1024" "full_below t (fFreeHint t)"
    and tab: "\<And>k. fMainTable t k \<noteq> None \<longleftrightarrow> 0 \<le> k \<and> k < n"
    using ok by (auto simp: table_ok_def full_below_def)
  have free: "\<And>k sub. fMainTable t k = Some sub \<Longrightarrow> 0 \<le> fFreeHandles sub"
    using table_ok_sub [OF ok] sub_ok_free by blast
  obtain k e where search: "find_sub (fMainTable t) (fFreeHint t) (-1) = (k, e)" "full_from (fMainTable t) (fFreeHint t) k"
      "k < n \<and> (\<exists>sub. fMainTable t k = Some sub \<and> 0 < fFreeHandles sub) \<or> k = 1024 \<and> e = (if n < 1024 then n else -1)"
    using find_sub_prefix [OF hint(1, 2, 4), of "fMainTable t"] tab free by blast
  have full: "full_below t k"
    using hint(5) search(2) by (auto simp: full_below_def full_from_def) (metis not_less)
  have p: "\<not> (0 \<le> a \<and> a < 1024)"
    using a by (simp add: is_pointer_def)
  from search(3) consider (found) sub where "k < n" "fMainTable t k = Some sub" "0 < fFreeHandles sub"
    | (new) "k = 1024" "n < 1024" "e = n" | (full) "k = 1024" "n = 1024" "e = -1"
    using hint(4) by (auto split: if_splits)
  then show ?thesis
  proof cases
    case found
    then show ?thesis
      using open_in_ok [OF ok found(2, 3) full p] hint(4) search(1) rs
      by (auto simp: Open_def AcquireRef_def split: prod.splits)
  next
    case new
    have fb: "full_below t n"
      using full new(1, 2) order.strict_trans unfolding full_below_def by blast
    have "0 < fFreeHandles SubTable" "fMainTable (set_sub n SubTable t) n = Some SubTable"
      by (simp_all add: SubTable_def set_sub_def)
    note open_new = open_in_ok [OF new_subtable(1) [OF ok new(2)] this(2, 1) new_subtable(3) [OF ok new(2) fb] p]
    then show ?thesis
      using new hint(3) search(1) rs new_subtable(2) [OF ok new(2)]
      by (auto simp: Open_def AcquireRef_def open_in_set_sub split: prod.splits)
  next
    case full
    have "all_open (handles t)"
      unfolding all_open_def
    proof (intro allI impI)
      fix i j assume "ix i" "ix j"
      then obtain sub where sub: "fMainTable t i = Some sub"
        using tab [of i] full by (auto simp: ix_def)
      then have "fFreeHandles sub = 0"
        using \<open>full_below t k\<close> full \<open>ix i\<close> by (auto simp: full_below_def ix_def)
      then show "\<exists>x \<in> dom (handles t). level1 x = i \<and> level2 x = j"
        using full_open [OF ok sub _ \<open>ix j\<close>] by auto
    qed
    then show ?thesis
      using full search(1) rs by (simp add: Open_def AcquireRef_def)
  qed
qed

section \<open>Closing\<close>

lemma Close_handles:
  assumes ok: "table_ok t n" and x: "handles t x = Some a" and rs: "rs a = Some r"
  shows "\<exists>t'. Close x (t, rs) = Inr (t', rs(a := if fRefCount r = 1 then None else Some (r\<lparr>fRefCount := fRefCount r - 1\<rparr>))) \<and>
    table_ok t' n \<and> handles t' = (handles t)(x := None)"
proof -
  have x0: "0 \<le> x"
    using x by (auto simp: handles_def split: if_splits)
  note lx = level_ix [OF x0, unfolded ix_def] level_ix [OF x0]
  obtain sub where sub: "fMainTable t (level1 x) = Some sub" and h: "fSerialNumber (fHandle sub (level2 x)) = serial_of x"
      "\<not> IsFree (fHandle sub (level2 x))" "a = fDatum (fHandle sub (level2 x))"
    using x x0 by (auto simp: handles_def split: option.splits if_splits)
  obtain fl where fl: "free_list sub fl"
    using table_ok_sub [OF ok sub] by (auto simp: sub_ok_def)
  define s where "s = (serial_of x + 1) mod 2048"
  have s: "0 \<le> s" "s < 2048" "(serial_of x + 1) smod 2048 = s"
    using serial_nonneg [OF x0] by (simp_all add: s_def sdiv_nonneg)
  have range: "0 \<le> serial_of x" "serial_of x < 2048"
    using fl h(1) lx(2) by (auto simp: free_list_def)
  then have other: "s \<noteq> serial_of x"
    by (cases "serial_of x = 2047") (simp_all add: s_def)
  define sub' where "sub' = set_handle (level2 x) \<lparr>fSerialNumber = s, fDatum = fFirstFree sub\<rparr> (sub\<lparr>fFreeHandles := fFreeHandles sub + 1, fFirstFree := level2 x\<rparr>)"
  define hint where "hint = (if level1 x < fFreeHint t then level1 x else fFreeHint t)"
  define t' where "t' = (set_sub (level1 x) sub' t)\<lparr>fFreeHint := hint\<rparr>"
  have "Close x (t, rs) = Inr (t', rs(a := if fRefCount r = 1 then None else Some (r\<lparr>fRefCount := fRefCount r - 1\<rparr>)))"
    using lx(1) sub h rs s(3) by (simp add: Close_def sub_of_def Let_def ReleaseRef_def t'_def sub'_def hint_def)
  moreover
  have "free_list sub' (level2 x # fl)"
    unfolding sub'_def using fl lx(2) h(2) s(1, 2) by (intro free_list_put) auto
  have hints: "0 \<le> hint" "hint \<le> n" "fMainTable t k = Some sub'' \<Longrightarrow> k < hint \<Longrightarrow> fFreeHandles sub'' = 0" for k sub''
    using ok lx(1) by (auto simp: table_ok_def hint_def split: if_splits)
  moreover have "sub_ok sub'"
    using \<open>free_list sub' (level2 x # fl)\<close> by (auto simp: sub_ok_def)
  then have "table_ok t' n"
    unfolding t'_def by (rule table_ok_set_sub [OF ok sub _ hints(1, 2)]) (erule (1) hints(3), simp add: hint_def)
  moreover have "handles t' y = ((handles t)(x := None)) y" for y
  proof (cases "0 \<le> y \<and> level1 y = level1 x \<and> level2 y = level2 x")
    case True
    have "y = x \<longleftrightarrow> serial_of y = serial_of x"
      using True ident_of_level [OF x0] ident_of_level [of y] by metis
    moreover have "IsFree \<lparr>fSerialNumber = s, fDatum = fFirstFree sub\<rparr>"
      using fl by (simp add: free_list_def ix_def IsFree_def)
    ultimately show ?thesis
      using True sub h by (auto simp: t'_def handles_def set_sub_def sub'_def set_handle_def)
  next
    case False
    then have "y \<noteq> x"
      using x0 by auto
    then show ?thesis
      using False sub by (cases "0 \<le> y") (auto simp: t'_def sub'_def set_handle_def intro!: handles_set_sub [where j = "level2 x" and sub = sub])
  qed
  ultimately show ?thesis
    by blast
qed

section \<open>Looking up\<close>

lemma GetResource_handles:
  assumes "table_ok t n"
  shows "GetResource x m (t, rs) =
    (case handles t x of
       None \<Rightarrow> Inr (rs, 0)
     | Some a \<Rightarrow>
         (case rs a of
            None \<Rightarrow> Inl Bad_address
          | Some r \<Rightarrow> if m \<noteq> OBJ_ANY \<and> m \<noteq> fType r then Inr (rs, 0) else Inr (rs(a \<mapsto> r\<lparr>fRefCount := fRefCount r + 1\<rparr>), a)))"
proof (cases "x < 0")
  case False
  then have "level1 x \<ge> 0" "x sdiv 1048576 = serial_of x"
    using level_ix [of x] level_nonneg(3) [of x] by (auto simp: ix_def)
  then show ?thesis
    using False by (auto simp: GetResource_def handles_def sub_of_def Let_def AcquireRef_def split: option.splits)
qed (simp add: GetResource_def handles_def)

section \<open>References\<close>

text \<open>The references to a resource are the handles open on it and those that callers hold, \<open>ext\<close>.\<close>

definition uses :: "(int \<Rightarrow> int option) \<Rightarrow> int \<Rightarrow> int" where
  "uses m a = int (card {x. m x = Some a})"

definition ref_ok :: "int \<Rightarrow> resource option \<Rightarrow> int \<Rightarrow> int \<Rightarrow> bool" where
  "ref_ok a r u e \<longleftrightarrow> 0 \<le> e \<and>
     (case r of None \<Rightarrow> e = 0 \<and> u = 0 | Some r \<Rightarrow> is_pointer a \<and> fRefCount r = u + e \<and> 0 < u + e)"

definition refs_ok :: "(int \<Rightarrow> int option) \<Rightarrow> resources \<Rightarrow> (int \<Rightarrow> int) \<Rightarrow> bool" where
  "refs_ok m rs ext \<longleftrightarrow> finite (dom m) \<and> (\<forall>a. ref_ok a (rs a) (uses m a) (ext a))"

lemma ref_ok_simps [simp]:
  "ref_ok a None u e \<longleftrightarrow> e = 0 \<and> u = 0"
  "ref_ok a (Some r) u e \<longleftrightarrow> 0 \<le> e \<and> is_pointer a \<and> fRefCount r = u + e \<and> 0 < u + e"
  by (auto simp: ref_ok_def)

lemma finite_uses: "finite (dom m) \<Longrightarrow> finite {x. m x = Some a}"
  by (rule finite_subset [of _ "dom m"]) auto

lemma uses_0: "finite (dom m) \<Longrightarrow> uses m a = 0 \<longleftrightarrow> a \<notin> ran m"
  using finite_uses [of m a] by (auto simp: uses_def ran_def)

lemma uses_open:
  assumes "finite (dom m)" "m x = None"
  shows "uses (m(x \<mapsto> a)) b = uses m b + (if b = a then 1 else 0)"
proof -
  have "{y. (m(x \<mapsto> a)) y = Some b} = (if b = a then insert x {y. m y = Some b} else {y. m y = Some b})"
    using assms(2) by auto
  then show ?thesis
    using finite_uses [OF assms(1)] assms(2) by (simp add: uses_def)
qed

lemma uses_close:
  assumes "finite (dom m)" "m x = Some a"
  shows "uses (m(x := None)) b = uses m b - (if b = a then 1 else 0)" "0 < uses m a"
proof -
  have m: "m = (m(x := None))(x \<mapsto> a)"
    using assms(2) by (simp add: fun_upd_idem)
  show "uses (m(x := None)) b = uses m b - (if b = a then 1 else 0)"
    using assms(1) by (subst (2) m, subst uses_open) auto
  show "0 < uses m a"
    using assms finite_uses [OF assms(1), of a] by (auto simp: uses_def card_gt_0_iff)
qed

lemma refs_ok_finite: "refs_ok m rs ext \<Longrightarrow> finite (dom m)"
  by (simp add: refs_ok_def)

lemma refs_okD: "refs_ok m rs ext \<Longrightarrow> ref_ok a (rs a) (uses m a) (ext a)"
  by (simp add: refs_ok_def)

lemma refs_ok_handle: "refs_ok m rs ext \<Longrightarrow> m x = Some a \<Longrightarrow> \<exists>r. rs a = Some r \<and> is_pointer a"
  using uses_close(2) [of m x a] refs_ok_finite [of m rs ext] refs_okD [of m rs ext a] by (cases "rs a") auto

text \<open>Only one resource changes.\<close>

lemma refs_ok_upd:
  assumes "refs_ok m rs ext" "finite (dom m')" "\<And>b. b \<noteq> a \<Longrightarrow> uses m' b = uses m b" "ref_ok a r (uses m' a) e"
  shows "refs_ok m' (rs(a := r)) (ext(a := e))"
  using assms by (auto simp: refs_ok_def)

text \<open>The states the table and the references of its team can get into.  A caller opens a resource it has a reference to,
  and releases what it acquired.\<close>

inductive ht_reach :: "handle_table \<times> resources \<Rightarrow> (int \<Rightarrow> int) \<Rightarrow> bool" where
  start: "ht_reach (HandleTable, Map.empty) (\<lambda>a. 0)"
| create: "ht_reach (t, rs) ext \<Longrightarrow> rs a = None \<Longrightarrow> is_pointer a \<Longrightarrow> ht_reach (t, rs(a \<mapsto> \<lparr>fType = ty, fRefCount = 1\<rparr>)) (ext(a := 1))"
| open_it: "ht_reach s ext \<Longrightarrow> 0 < ext a \<Longrightarrow> Open a s = Inr (s', x) \<Longrightarrow> ht_reach s' ext"
| get: "ht_reach (t, rs) ext \<Longrightarrow> GetResource x m (t, rs) = Inr (rs', a) \<Longrightarrow> ht_reach (t, rs') (if a = 0 then ext else ext(a := ext a + 1))"
| release: "ht_reach (t, rs) ext \<Longrightarrow> 0 < ext a \<Longrightarrow> ReleaseRef a rs = Inr rs' \<Longrightarrow> ht_reach (t, rs') (ext(a := ext a - 1))"
| close_it: "ht_reach s ext \<Longrightarrow> close_handle x s = Inr (s', e) \<Longrightarrow> ht_reach s' ext"

definition state_ok :: "handle_table \<times> resources \<Rightarrow> (int \<Rightarrow> int) \<Rightarrow> bool" where
  "state_ok s ext \<longleftrightarrow> (\<exists>n. table_ok (fst s) n) \<and> refs_ok (handles (fst s)) (snd s) ext"

lemma close_handle_cases:
  assumes "state_ok (t, rs) ext"
  shows "case handles t x of
      None \<Rightarrow> close_handle x (t, rs) = Inr ((t, rs), E_BAD_HANDLE)
    | Some a \<Rightarrow> \<exists>t' r. rs a = Some r \<and> close_handle x (t, rs) = Inr ((t', rs(a := if fRefCount r = 1 then None else Some (r\<lparr>fRefCount := fRefCount r - 1\<rparr>))), 0) \<and>
        handles t' = (handles t)(x := None) \<and> state_ok (t', rs(a := if fRefCount r = 1 then None else Some (r\<lparr>fRefCount := fRefCount r - 1\<rparr>))) ext"
proof -
  obtain n where ok: "table_ok t n" and refs: "refs_ok (handles t) rs ext"
    using assms by (auto simp: state_ok_def)
  show ?thesis
  proof (cases "handles t x")
    case None
    then show ?thesis
      by (simp add: close_handle_def GetResource_handles [OF ok])
  next
    case (Some a)
    obtain r where r: "rs a = Some r" "is_pointer a"
      using refs_ok_handle [OF refs Some] by blast
    then have a0: "a \<noteq> 0"
      by (auto simp: is_pointer_def)
    have c: "0 < fRefCount r" "fRefCount r = uses (handles t) a + ext a" "finite (dom (handles t))" "0 \<le> ext a"
      using refs_ok_finite [OF refs] refs_okD [OF refs, of a] r by auto
    define rs1 where "rs1 = rs(a \<mapsto> r\<lparr>fRefCount := fRefCount r + 1\<rparr>)"
    obtain t' where t': "Close x (t, rs1) = Inr (t', rs1(a := Some r))" "table_ok t' n" "handles t' = (handles t)(x := None)"
      using Close_handles [OF ok Some, of rs1 "r\<lparr>fRefCount := fRefCount r + 1\<rparr>"] c(1) by (auto simp: rs1_def)
    have "close_handle x (t, rs) = Inr ((t', rs(a := if fRefCount r = 1 then None else Some (r\<lparr>fRefCount := fRefCount r - 1\<rparr>))), 0)"
      using Some r a0 t'(1) by (simp add: close_handle_def GetResource_handles [OF ok] rs1_def ReleaseRef_def)
    moreover have "refs_ok (handles t') (rs(a := if fRefCount r = 1 then None else Some (r\<lparr>fRefCount := fRefCount r - 1\<rparr>))) (ext(a := ext a))"
      unfolding t'(3) using c r uses_close [OF c(3) Some] by (intro refs_ok_upd [OF refs]) auto
    ultimately show ?thesis
      using Some r t' by (auto simp: state_ok_def simp del: fun_upd_apply)
  qed
qed

lemma ht_reach_ok: "ht_reach s ext \<Longrightarrow> state_ok s ext"
proof (induction rule: ht_reach.induct)
  case start
  show ?case
    using table_ok_start by (auto simp: state_ok_def handles_start refs_ok_def uses_def)
next
  case (create t rs ext a ty)
  then obtain n where ok: "table_ok t n" and refs: "refs_ok (handles t) rs ext"
    by (auto simp: state_ok_def)
  have "refs_ok (handles t) (rs(a \<mapsto> \<lparr>fType = ty, fRefCount = 1\<rparr>)) (ext(a := 1))"
    using refs_ok_finite [OF refs] refs_okD [OF refs, of a] create.hyps by (intro refs_ok_upd [OF refs]) auto
  then show ?case
    using ok unfolding state_ok_def by (metis fst_conv snd_conv)
next
  case (open_it s ext a s' x)
  obtain t rs where s: "s = (t, rs)"
    by (cases s)
  obtain n where ok: "table_ok t n" and refs: "refs_ok (handles t) rs ext"
    using open_it.IH by (auto simp: state_ok_def s)
  obtain r where r: "rs a = Some r" "is_pointer a" "fRefCount r = uses (handles t) a + ext a"
    using refs_okD [OF refs, of a] open_it.hyps(2) by (cases "rs a") auto
  obtain t' n' where t': "s' = (t', rs(a \<mapsto> r\<lparr>fRefCount := fRefCount r + 1\<rparr>))" "table_ok t' n'" "handles t x = None" "handles t' = (handles t)(x \<mapsto> a)"
    using Open_handles [where rs = rs and a = a, OF ok r(2, 1)] open_it.hyps(3) by (auto simp: s)
  have "refs_ok (handles t') (rs(a \<mapsto> r\<lparr>fRefCount := fRefCount r + 1\<rparr>)) (ext(a := ext a))"
    unfolding t'(4) using refs_ok_finite [OF refs] refs_okD [OF refs, of a] r uses_open [OF refs_ok_finite [OF refs] t'(3)] by (intro refs_ok_upd [OF refs]) auto
  then show ?case
    using t' by (auto simp: state_ok_def simp del: fun_upd_apply)
next
  case (get t rs ext x m rs' a)
  then obtain n where ok: "table_ok t n" and refs: "refs_ok (handles t) rs ext"
    by (auto simp: state_ok_def)
  consider "a = 0" "rs' = rs" | r where "a \<noteq> 0" "rs a = Some r" "rs' = rs(a \<mapsto> r\<lparr>fRefCount := fRefCount r + 1\<rparr>)"
    using get.hyps(2) refs_ok_handle [OF refs] unfolding GetResource_handles [OF ok]
    by (fastforce simp: is_pointer_def split: option.splits if_splits)
  then show ?case
  proof cases
    case 2
    then have "refs_ok (handles t) rs' (ext(a := ext a + 1))"
      unfolding 2(3) using refs_ok_finite [OF refs] refs_okD [OF refs, of a] by (intro refs_ok_upd [OF refs]) auto
    then show ?thesis
      using ok 2(1) unfolding state_ok_def by auto
  qed (use ok refs in \<open>auto simp: state_ok_def\<close>)
next
  case (release t rs ext a rs')
  then obtain n where ok: "table_ok t n" and refs: "refs_ok (handles t) rs ext"
    by (auto simp: state_ok_def)
  obtain r where "rs a = Some r" "rs' = rs(a := if fRefCount r = 1 then None else Some (r\<lparr>fRefCount := fRefCount r - 1\<rparr>))"
    using release.hyps(3) by (auto simp: ReleaseRef_def split: option.splits)
  then have "refs_ok (handles t) rs' (ext(a := ext a - 1))"
    using refs_ok_finite [OF refs] refs_okD [OF refs, of a] release.hyps(2)
    by (simp only:) (intro refs_ok_upd [OF refs], auto simp: uses_def)
  then show ?case
    using ok unfolding state_ok_def by auto
next
  case (close_it s ext x s' e)
  then show ?case
    using close_handle_cases [of "fst s" "snd s" ext x] by (auto split: option.splits)
qed

section \<open>Properties\<close>

text \<open>A state to try them on: one resource, opened once.\<close>

lemma demo_created: "ht_reach (HandleTable, [4096 \<mapsto> \<lparr>fType = 0, fRefCount = 1\<rparr>]) ((\<lambda>a. 0)(4096 := 1))"
  using ht_reach.create [OF ht_reach.start, of 4096 0] by (simp add: is_pointer_def)

lemma demo_opened: "\<exists>t rs. ht_reach (t, rs) ((\<lambda>a. 0)(4096 := 1)) \<and> handles t = [1023 \<mapsto> 4096]"
proof -
  let ?rs = "[4096 \<mapsto> \<lparr>fType = 0, fRefCount = 1\<rparr>]"
  have "find_sub (fMainTable HandleTable) 0 (-1) = (1024, 0)"
    using find_sub_above [of 0 1 "fMainTable HandleTable"] by (subst find_sub.simps) (simp add: HandleTable_def)
  then obtain t rs where o: "Open 4096 (HandleTable, ?rs) = Inr ((t, rs), 1023)"
    by (simp add: Open_def AcquireRef_def open_in_def Let_def HandleTable_def SubTable_def)
  moreover have "handles t = [1023 \<mapsto> 4096]"
    using Open_handles [OF table_ok_start, of 4096 ?rs "\<lparr>fType = 0, fRefCount = 1\<rparr>"] o by (auto simp: is_pointer_def handles_start)
  ultimately show ?thesis
    using ht_reach.open_it [OF demo_created _ o] by auto
qed

text \<open>C21: Opening a resource in any reachable table: the code panics only when all 1048576 handles are open; else the identifier
  is a non-negative int that was not open, it now leads to the resource, and every other identifier leads where it did.\<close>

theorem handle_open_fresh:
  assumes "ht_reach (t, rs) ext" "0 < ext a"
  shows "case Open a (t, rs) of
      Inl e \<Rightarrow> e = Table_full \<and> all_open (handles t)
    | Inr ((t', rs'), x) \<Rightarrow> 0 \<le> x \<and> x < 2 ^ 31 \<and> handles t x = None \<and> handles t' = (handles t)(x \<mapsto> a) \<and> ht_reach (t', rs') ext"
proof -
  obtain n where ok: "table_ok t n" and refs: "refs_ok (handles t) rs ext"
    using ht_reach_ok [OF assms(1)] by (auto simp: state_ok_def)
  obtain r where "is_pointer a" "rs a = Some r"
    using refs_okD [OF refs, of a] assms(2) by (cases "rs a") auto
  then show ?thesis
    using Open_handles [OF ok, of a rs r] ht_reach.open_it [OF assms] by (auto split: sum.splits)
qed

theorem handle_open_fresh_witness:
  "\<exists>s' x. Open 4096 (HandleTable, [4096 \<mapsto> \<lparr>fType = 0, fRefCount = 1\<rparr>]) = Inr (s', x) \<and> handles (fst s') = [x \<mapsto> 4096]"
proof -
  have "\<not> all_open (handles HandleTable)"
    by (auto simp: all_open_def handles_start ix_def)
  then show ?thesis
    using handle_open_fresh [OF demo_created, of 4096] by (auto simp: handles_start split: sum.splits prod.splits)
qed



text \<open>C29: Closing through the system call: an identifier that is not open gives \<open>E_BAD_HANDLE\<close> and changes nothing, so a
  second close of the same identifier is harmless; an open one is gone, no other handle changes, and its resource loses one
  reference, the last of which deletes it.\<close>

theorem close_handle_exact:
  assumes "ht_reach (t, rs) ext"
  shows "case handles t x of
      None \<Rightarrow> close_handle x (t, rs) = Inr ((t, rs), E_BAD_HANDLE)
    | Some a \<Rightarrow> \<exists>t' r rs'. close_handle x (t, rs) = Inr ((t', rs'), 0) \<and> handles t' = (handles t)(x := None) \<and>
        rs a = Some r \<and> rs' = rs(a := if fRefCount r = 1 then None else Some (r\<lparr>fRefCount := fRefCount r - 1\<rparr>)) \<and>
        close_handle x (t', rs') = Inr ((t', rs'), E_BAD_HANDLE)"
proof (cases "handles t x")
  case (Some a)
  then obtain t' r where r: "rs a = Some r" "handles t' = (handles t)(x := None)"
      "close_handle x (t, rs) = Inr ((t', rs(a := if fRefCount r = 1 then None else Some (r\<lparr>fRefCount := fRefCount r - 1\<rparr>))), 0)"
      "state_ok (t', rs(a := if fRefCount r = 1 then None else Some (r\<lparr>fRefCount := fRefCount r - 1\<rparr>))) ext"
    using close_handle_cases [OF ht_reach_ok [OF assms], of x] by auto
  then show ?thesis
    using close_handle_cases [OF r(4), of x] Some by auto
qed (use close_handle_cases [OF ht_reach_ok [OF assms], of x] in simp)

theorem close_handle_exact_witness:
  "\<exists>t rs s'. ht_reach (t, rs) ((\<lambda>a. 0)(4096 := 1)) \<and> close_handle 1023 (t, rs) = Inr (s', 0) \<and> handles (fst s') = Map.empty"
proof -
  obtain t rs where d: "ht_reach (t, rs) ((\<lambda>a. 0)(4096 := 1))" "handles t = [1023 \<mapsto> 4096]"
    using demo_opened by blast
  then show ?thesis
    using close_handle_exact [OF d(1), of 1023] by auto
qed

end
