(* ===== verification/Page_Frames.thy ===== *)
theory Page_Frames
  imports Net_Prelude
begin

text \<open>
  \<^verbatim>\<open>SkyCore/Page.cpp\<close>: the frames of physical memory, each in one of five states, with a queue for the free, the active and
  the cleared ones.  A frame is named by its index in \<open>fPages\<close>; a queue is the list of its frames, head first.  The contents
  of a frame are of a type with a zero.  \<open>Blocks\<close>: the thread waits and another one has to run; \<open>Null_page\<close>: a null
  pointer is used.  Interrupts are off throughout an operation, so each is one step.
\<close>

datatype page_state = kPageFree | kPageTransition | kPageActive | kPageWired | kPageClear

datatype vm_error = Blocks | Null_page | Out_of_fuel

text \<open>\<open>fCache\<close> and \<open>fCacheOffset\<close> are for the page cache; \<open>fData\<close> is what the frame holds.\<close>

record 'd page =
  fState :: page_state
  fCache :: "nat option"
  fCacheOffset :: int
  fData :: 'd

record 'd page_db =
  fPages :: "nat \<Rightarrow> 'd page"
  fPageCount :: nat
  fFreeQueue :: "nat list"
  fActiveQueue :: "nat list"
  fClearQueue :: "nat list"
  fFreeCount :: int
  fTransitionCount :: int
  fActiveCount :: int
  fWiredCount :: int
  fClearCount :: int
  fFreePagesAvailable :: int
  fPagesCleared :: int
  fPagesRequested :: int
  fClearPagesRequested :: int
  fClearPageHits :: int
  fClearPagesUsedAsFree :: int

definition set_page :: "nat \<Rightarrow> ('d page \<Rightarrow> 'd page) \<Rightarrow> ('d, 'x) page_db_scheme \<Rightarrow> ('d, 'x) page_db_scheme" where
  "set_page p f s = s\<lparr>fPages := (fPages s)(p := f (fPages s p))\<rparr>"

definition set_data :: "nat \<Rightarrow> 'd \<Rightarrow> ('d, 'x) page_db_scheme \<Rightarrow> ('d, 'x) page_db_scheme" where
  "set_data p d = set_page p (fData_update (\<lambda>_. d))"

text \<open>The tail of a queue, null if it is empty.\<close>

definition GetTail :: "nat list \<Rightarrow> nat option" where
  "GetTail q = (if q = [] then None else Some (last q))"

text \<open>\<open>MoveToQueue\<close>: out of the queue of the old state, into that of the new one.\<close>

definition leave_state :: "nat \<Rightarrow> ('d, 'x) page_db_scheme \<Rightarrow> ('d, 'x) page_db_scheme" where
  "leave_state p s =
     (case fState (fPages s p) of
        kPageFree \<Rightarrow> s\<lparr>fFreeCount := fFreeCount s - 1, fFreeQueue := remove1 p (fFreeQueue s)\<rparr>
      | kPageTransition \<Rightarrow> s\<lparr>fTransitionCount := fTransitionCount s - 1\<rparr>
      | kPageActive \<Rightarrow> s\<lparr>fActiveCount := fActiveCount s - 1, fActiveQueue := remove1 p (fActiveQueue s)\<rparr>
      | kPageWired \<Rightarrow> s\<lparr>fWiredCount := fWiredCount s - 1\<rparr>
      | kPageClear \<Rightarrow> s\<lparr>fClearCount := fClearCount s - 1, fClearQueue := remove1 p (fClearQueue s)\<rparr>)"

definition enter_state :: "nat \<Rightarrow> page_state \<Rightarrow> ('d, 'x) page_db_scheme \<Rightarrow> ('d, 'x) page_db_scheme" where
  "enter_state p st s =
     (case st of
        kPageFree \<Rightarrow> s\<lparr>fFreeCount := fFreeCount s + 1, fFreeQueue := fFreeQueue s @ [p], fFreePagesAvailable := fFreePagesAvailable s + 1\<rparr>
      | kPageTransition \<Rightarrow> s\<lparr>fTransitionCount := fTransitionCount s + 1\<rparr>
      | kPageActive \<Rightarrow> s\<lparr>fActiveCount := fActiveCount s + 1, fActiveQueue := fActiveQueue s @ [p]\<rparr>
      | kPageWired \<Rightarrow> s\<lparr>fWiredCount := fWiredCount s + 1\<rparr>
      | kPageClear \<Rightarrow> s\<lparr>fClearCount := fClearCount s + 1, fClearQueue := fClearQueue s @ [p], fFreePagesAvailable := fFreePagesAvailable s + 1\<rparr>)"

definition MoveToQueue :: "nat \<Rightarrow> page_state \<Rightarrow> ('d, 'x) page_db_scheme \<Rightarrow> ('d, 'x) page_db_scheme" where
  "MoveToQueue p st s = enter_state p st (set_page p (fState_update (\<lambda>_. st)) (leave_state p s))"

text \<open>Waiting for the semaphore of the available pages.\<close>

definition wait_available :: "('d, 'x) page_db_scheme \<Rightarrow> vm_error + ('d, 'x) page_db_scheme" where
  "wait_available s =
     (if fFreePagesAvailable s \<le> 0 then Inl Blocks else Inr (s\<lparr>fFreePagesAvailable := fFreePagesAvailable s - 1\<rparr>))"

text \<open>Which page \<open>Alloc\<close> takes, null if the queue it looks at is empty; a page to be cleared is cleared.\<close>

definition choose_page :: "bool \<Rightarrow> ('d::zero, 'x) page_db_scheme \<Rightarrow> (nat \<times> ('d, 'x) page_db_scheme) option" where
  "choose_page clear s =
     (if clear \<and> fClearCount s > 0 then
        map_option (\<lambda>p. (p, s\<lparr>fClearPagesRequested := fClearPagesRequested s + 1, fClearPageHits := fClearPageHits s + 1\<rparr>)) (GetTail (fClearQueue s))
      else if clear then
        map_option (\<lambda>p. (p, set_data p 0 (s\<lparr>fClearPagesRequested := fClearPagesRequested s + 1\<rparr>))) (GetTail (fFreeQueue s))
      else if fFreeCount s > 0 then map_option (\<lambda>p. (p, s)) (GetTail (fFreeQueue s))
      else map_option (\<lambda>p. (p, s\<lparr>fClearPagesUsedAsFree := fClearPagesUsedAsFree s + 1\<rparr>)) (GetTail (fClearQueue s)))"

definition Alloc :: "bool \<Rightarrow> ('d::zero, 'x) page_db_scheme \<Rightarrow> vm_error + nat \<times> ('d, 'x) page_db_scheme" where
  "Alloc clear s =
     (case wait_available s of
        Inl e \<Rightarrow> Inl e
      | Inr s \<Rightarrow>
          (case choose_page clear (s\<lparr>fPagesRequested := fPagesRequested s + 1\<rparr>) of
             None \<Rightarrow> Inl Null_page
           | Some (p, s) \<Rightarrow> Inr (p, MoveToQueue p kPageTransition s)))"

definition Free :: "nat \<Rightarrow> ('d, 'x) page_db_scheme \<Rightarrow> ('d, 'x) page_db_scheme" where
  "Free p = MoveToQueue p kPageFree"

definition SetBusy :: "nat \<Rightarrow> ('d, 'x) page_db_scheme \<Rightarrow> ('d, 'x) page_db_scheme" where
  "SetBusy p = MoveToQueue p kPageTransition"

definition SetNotBusy :: "nat \<Rightarrow> ('d, 'x) page_db_scheme \<Rightarrow> ('d, 'x) page_db_scheme" where
  "SetNotBusy p = MoveToQueue p kPageActive"

definition Wire :: "nat \<Rightarrow> ('d, 'x) page_db_scheme \<Rightarrow> ('d, 'x) page_db_scheme" where
  "Wire p = MoveToQueue p kPageWired"

definition Unwire :: "nat \<Rightarrow> ('d, 'x) page_db_scheme \<Rightarrow> ('d, 'x) page_db_scheme" where
  "Unwire p = MoveToQueue p kPageActive"

definition IsBusy :: "nat \<Rightarrow> ('d, 'x) page_db_scheme \<Rightarrow> bool" where
  "IsBusy p s \<longleftrightarrow> fState (fPages s p) = kPageTransition"

definition CountFreePages :: "('d, 'x) page_db_scheme \<Rightarrow> int" where
  "CountFreePages s = fFreeCount s"

definition GetMemSize :: "('d, 'x) page_db_scheme \<Rightarrow> nat" where
  "GetMemSize s = fPageCount s * 4096"

definition page_address :: "nat \<Rightarrow> u32" where
  "page_address p = of_nat p * 4096"

text \<open>A page in transition is waited for, with interrupts on and the thread asleep.\<close>

definition LockPage :: "u32 \<Rightarrow> ('d, 'x) page_db_scheme \<Rightarrow> vm_error + nat \<times> ('d, 'x) page_db_scheme" where
  "LockPage pa s =
     (let p = unat (pa div 4096)
      in if IsBusy p s then Inl Blocks else Inr (p, MoveToQueue p kPageTransition s))"

text \<open>At boot every page is free; those in use by then are marked one by one.\<close>

definition page_Bootstrap :: "nat \<Rightarrow> (nat \<Rightarrow> 'd) \<Rightarrow> 'd page_db" where
  "page_Bootstrap memsize contents =
     (let n = memsize div 4096
      in \<lparr>fPages = (\<lambda>p. \<lparr>fState = kPageFree, fCache = None, fCacheOffset = 0, fData = contents p\<rparr>), fPageCount = n,
          fFreeQueue = [0..<n], fActiveQueue = [], fClearQueue = [],
          fFreeCount = int n, fTransitionCount = 0, fActiveCount = 0, fWiredCount = 0, fClearCount = 0,
          fFreePagesAvailable = int n, fPagesCleared = 0, fPagesRequested = 0, fClearPagesRequested = 0,
          fClearPageHits = 0, fClearPagesUsedAsFree = 0\<rparr>)"

definition MarkUsed :: "u32 \<Rightarrow> ('d, 'x) page_db_scheme \<Rightarrow> vm_error + ('d, 'x) page_db_scheme" where
  "MarkUsed pa s =
     (let p = unat (pa div 4096)
      in if fState (fPages s p) = kPageFree then
           case wait_available s of Inl e \<Rightarrow> Inl e | Inr s \<Rightarrow> Inr (MoveToQueue p kPageWired s)
         else Inr s)"

text \<open>A round of the page eraser, in two steps: it takes a free page, and, interrupts having been on, gives it back cleared.
  Without a free page it gives the unit back.\<close>

definition eraser_take :: "('d, 'x) page_db_scheme \<Rightarrow> vm_error + nat option \<times> ('d, 'x) page_db_scheme" where
  "eraser_take s =
     (case wait_available s of
        Inl e \<Rightarrow> Inl e
      | Inr s \<Rightarrow>
          (case GetTail (fFreeQueue s) of
             None \<Rightarrow> Inr (None, s\<lparr>fFreePagesAvailable := fFreePagesAvailable s + 1\<rparr>)
           | Some p \<Rightarrow> Inr (Some p, MoveToQueue p kPageTransition s)))"

definition eraser_give :: "nat \<Rightarrow> ('d::zero, 'x) page_db_scheme \<Rightarrow> ('d, 'x) page_db_scheme" where
  "eraser_give p s =
     (let s = MoveToQueue p kPageClear (set_data p 0 s) in s\<lparr>fPagesCleared := fPagesCleared s + 1\<rparr>)"

end
