(* ===== verification/Page_Props.thy ===== *)
theory Page_Props
  imports Page_Frames
begin

text \<open>
  The queues and counters of the page frames agree with the states, and the semaphore counts the pages there are to give:
  a page is given to one holder at a time, cleared if that was asked for.
\<close>

section \<open>The invariant\<close>

definition in_state :: "page_state \<Rightarrow> ('d, 'x) page_db_scheme \<Rightarrow> nat set" where
  "in_state st s = {p. p < fPageCount s \<and> fState (fPages s p) = st}"

definition queue_is :: "nat list \<Rightarrow> int \<Rightarrow> nat set \<Rightarrow> bool" where
  "queue_is q n A \<longleftrightarrow> distinct q \<and> set q = A \<and> n = int (card A)"

text \<open>The queues and counters hold the given sets of pages.\<close>

definition queues_hold :: "('d, 'x) page_db_scheme \<Rightarrow> (page_state \<Rightarrow> nat set) \<Rightarrow> bool" where
  "queues_hold s A \<longleftrightarrow>
     queue_is (fFreeQueue s) (fFreeCount s) (A kPageFree) \<and>
     queue_is (fActiveQueue s) (fActiveCount s) (A kPageActive) \<and>
     queue_is (fClearQueue s) (fClearCount s) (A kPageClear) \<and>
     fTransitionCount s = int (card (A kPageTransition)) \<and>
     fWiredCount s = int (card (A kPageWired))"

definition queues_ok :: "('d, 'x) page_db_scheme \<Rightarrow> bool" where
  "queues_ok s \<longleftrightarrow> queues_hold s (\<lambda>st. in_state st s)"

definition clear_ok :: "('d::zero, 'x) page_db_scheme \<Rightarrow> bool" where
  "clear_ok s \<longleftrightarrow> (\<forall>p. p < fPageCount s \<longrightarrow> fState (fPages s p) = kPageClear \<longrightarrow> fData (fPages s p) = 0)"

definition pages_ok :: "('d::zero, 'x) page_db_scheme \<Rightarrow> bool" where
  "pages_ok s \<longleftrightarrow> queues_ok s \<and> clear_ok s \<and> fFreePagesAvailable s = fFreeCount s + fClearCount s"

lemma finite_in_state [simp]: "finite (in_state st s)"
  by (simp add: in_state_def)

lemma fPageCount_leave [simp]: "fPageCount (leave_state p s) = fPageCount s"
  by (simp add: leave_state_def split: page_state.splits)

lemma fPages_leave [simp]: "fPages (leave_state p s) = fPages s"
  by (simp add: leave_state_def split: page_state.splits)

lemma fPageCount_enter [simp]: "fPageCount (enter_state p st s) = fPageCount s"
  by (simp add: enter_state_def split: page_state.splits)

lemma fPages_enter [simp]: "fPages (enter_state p st s) = fPages s"
  by (simp add: enter_state_def split: page_state.splits)

lemma fPageCount_set_page [simp]: "fPageCount (set_page p f s) = fPageCount s"
  by (simp add: set_page_def)

lemma fPages_set_page [simp]: "fPages (set_page p f s) = (fPages s)(p := f (fPages s p))"
  by (simp add: set_page_def)

lemma fPageCount_Move [simp]: "fPageCount (MoveToQueue p st s) = fPageCount s"
  by (simp add: MoveToQueue_def)

lemma fPages_Move [simp]: "fPages (MoveToQueue p st s) = (fPages s)(p := (fPages s p)\<lparr>fState := st\<rparr>)"
  by (simp add: MoveToQueue_def)

lemma in_state_Move:
  "p < fPageCount s \<Longrightarrow> in_state st' (MoveToQueue p st s) = (if st' = st then insert p (in_state st' s) else in_state st' s - {p})"
  by (auto simp: in_state_def)

lemma card_leave: "finite A \<Longrightarrow> p \<in> A \<Longrightarrow> int (card (A - {p})) = int (card A) - 1"
  using card_Suc_Diff1 [of A p] by linarith

lemma card_enter: "finite A \<Longrightarrow> p \<notin> A \<Longrightarrow> int (card (insert p A)) = int (card A) + 1"
  by simp

lemma queue_is_leave: "queue_is q n A \<Longrightarrow> p \<in> A \<Longrightarrow> queue_is (remove1 p q) (n - 1) (A - {p})"
  using card_leave [of "set q" p] by (auto simp: queue_is_def)

lemma queue_is_enter: "queue_is q n A \<Longrightarrow> p \<notin> A \<Longrightarrow> queue_is (q @ [p]) (n + 1) (insert p A)"
  by (auto simp: queue_is_def)

lemma queues_leave:
  assumes "queues_hold s A" "p \<in> A (fState (fPages s p))" "\<And>st. finite (A st)"
  shows "queues_hold (leave_state p s) (A(fState (fPages s p) := A (fState (fPages s p)) - {p}))"
  using assms by (cases "fState (fPages s p)") (simp_all add: queues_hold_def leave_state_def queue_is_leave card_leave del: card_Diff_insert card_Diff_singleton)

lemma queues_enter:
  assumes "queues_hold s A" "p \<notin> A st" "\<And>st. finite (A st)"
  shows "queues_hold (enter_state p st s) (A(st := insert p (A st)))"
  using assms by (cases st) (simp_all add: queues_hold_def enter_state_def queue_is_enter)

lemma queues_set_page [simp]: "queues_hold (set_page p f s) A = queues_hold s A"
  by (simp add: queues_hold_def set_page_def)

lemma queues_Move:
  assumes "queues_ok s" "p < fPageCount s"
  shows "queues_ok (MoveToQueue p st s)"
proof -
  define A where "A = (\<lambda>st. in_state st s)"
  define old where "old = fState (fPages s p)"
  have "queues_hold (leave_state p s) (A(old := A old - {p}))"
    using assms unfolding old_def A_def queues_ok_def by (intro queues_leave) (simp_all add: in_state_def)
  then have "queues_hold (MoveToQueue p st s) ((A(old := A old - {p}))(st := insert p ((A(old := A old - {p})) st)))"
    unfolding MoveToQueue_def by (intro queues_enter) (auto simp: A_def in_state_def old_def)
  moreover have "(A(old := A old - {p}))(st := insert p ((A(old := A old - {p})) st)) = (\<lambda>st'. in_state st' (MoveToQueue p st s))"
    using assms(2) by (auto simp: A_def old_def in_state_def fun_eq_iff)
  ultimately show ?thesis
    by (simp add: queues_ok_def)
qed

definition is_spare :: "page_state \<Rightarrow> bool" where
  "is_spare st \<longleftrightarrow> st = kPageFree \<or> st = kPageClear"

definition spare :: "('d, 'x) page_db_scheme \<Rightarrow> int" where
  "spare s = fFreeCount s + fClearCount s"

lemma spare_Move:
  "spare (MoveToQueue p st s) = spare s - of_bool (is_spare (fState (fPages s p))) + of_bool (is_spare st)"
  "fFreePagesAvailable (MoveToQueue p st s) = fFreePagesAvailable s + of_bool (is_spare st)"
  by (cases st; cases "fState (fPages s p)"; simp add: MoveToQueue_def leave_state_def enter_state_def set_page_def spare_def is_spare_def)+

lemma in_state_set_data [simp]: "in_state st (set_data p d s) = in_state st s"
  by (auto simp: in_state_def set_data_def set_page_def)

lemma in_state_simps [simp]:
  "in_state st (s\<lparr>fFreePagesAvailable := a\<rparr>) = in_state st s" "in_state st (s\<lparr>fPagesRequested := a\<rparr>) = in_state st s"
  "in_state st (s\<lparr>fClearPagesRequested := a\<rparr>) = in_state st s" "in_state st (s\<lparr>fClearPageHits := a\<rparr>) = in_state st s"
  "in_state st (s\<lparr>fClearPagesUsedAsFree := a\<rparr>) = in_state st s" "in_state st (s\<lparr>fPagesCleared := a\<rparr>) = in_state st s"
  by (simp_all add: in_state_def)

lemma queues_ok_simps [simp]:
  "queues_ok (s\<lparr>fFreePagesAvailable := a\<rparr>) = queues_ok s" "queues_ok (s\<lparr>fPagesRequested := a\<rparr>) = queues_ok s"
  "queues_ok (s\<lparr>fClearPagesRequested := a\<rparr>) = queues_ok s" "queues_ok (s\<lparr>fClearPageHits := a\<rparr>) = queues_ok s"
  "queues_ok (s\<lparr>fClearPagesUsedAsFree := a\<rparr>) = queues_ok s" "queues_ok (s\<lparr>fPagesCleared := a\<rparr>) = queues_ok s"
  by (simp_all add: queues_ok_def queues_hold_def)

lemma queues_ok_set_data [simp]: "queues_ok (set_data p d s) = queues_ok s"
  by (simp add: queues_ok_def) (simp add: set_data_def)

lemma set_data_simps [simp]:
  "fPageCount (set_data p d s) = fPageCount s" "fFreePagesAvailable (set_data p d s) = fFreePagesAvailable s"
  "spare (set_data p d s) = spare s" "fPages (set_data p d s) = (fPages s)(p := (fPages s p)\<lparr>fData := d\<rparr>)"
    "fFreeCount (set_data p d s) = fFreeCount s" "fClearCount (set_data p d s) = fClearCount s"
  by (simp_all add: set_data_def set_page_def spare_def)

lemma pages_ok_spare: "pages_ok s \<longleftrightarrow> queues_ok s \<and> clear_ok s \<and> fFreePagesAvailable s = spare s"
  by (simp add: pages_ok_def spare_def)

lemma pages_Move:
  assumes "pages_ok s" "p < fPageCount s" "\<not> is_spare (fState (fPages s p))" "st = kPageClear \<Longrightarrow> fData (fPages s p) = 0"
  shows "pages_ok (MoveToQueue p st s)"
  using assms queues_Move [OF _ assms(2), of st] by (simp add: pages_ok_spare spare_Move clear_ok_def)

lemma pages_set_data:
  assumes "pages_ok s" "\<not> is_spare (fState (fPages s p))"
  shows "pages_ok (set_data p d s)"
  using assms by (auto simp: pages_ok_spare clear_ok_def is_spare_def)

section \<open>Allocation\<close>

lemma queue_tail:
  assumes "queue_is q n A" "0 < n"
  shows "\<exists>p. GetTail q = Some p \<and> p \<in> A"
  using assms by (cases q rule: rev_cases) (auto simp: queue_is_def GetTail_def)

lemma queue_no_tail: "queue_is q n A \<Longrightarrow> n = 0 \<Longrightarrow> GetTail q = None" if "finite A"
  using that by (auto simp: queue_is_def GetTail_def)

text \<open>A spare page is taken whose unit of the semaphore is taken too.\<close>

lemma pages_take:
  assumes "queues_ok s" "clear_ok s" "fFreePagesAvailable s = spare s - 1" "p < fPageCount s" "is_spare (fState (fPages s p))" "\<not> is_spare st"
  shows "pages_ok (MoveToQueue p st s)"
  using assms queues_Move [OF assms(1, 4), of st] by (auto simp: pages_ok_spare spare_Move clear_ok_def is_spare_def)

lemma choose_page_ok:
  assumes q: "queues_ok s" "clear_ok s" and sp: "0 < spare s"
  shows "\<exists>p d s'. choose_page c s = Some (p, s') \<and> p < fPageCount s \<and> is_spare (fState (fPages s p)) \<and> queues_ok s' \<and> clear_ok s' \<and>
    fFreePagesAvailable s' = fFreePagesAvailable s \<and> spare s' = spare s \<and> fPageCount s' = fPageCount s \<and>
    fPages s' = (fPages s)(p := (fPages s p)\<lparr>fData := d\<rparr>) \<and> (c \<longrightarrow> d = 0)"
proof -
  have fq: "queue_is (fFreeQueue s) (fFreeCount s) (in_state kPageFree s)" and cq: "queue_is (fClearQueue s) (fClearCount s) (in_state kPageClear s)"
    using q(1) by (simp_all add: queues_ok_def queues_hold_def)
  have nn: "0 \<le> fFreeCount s" "0 \<le> fClearCount s"
    using fq cq by (simp_all add: queue_is_def)
  have free: "\<exists>p. GetTail (fFreeQueue s) = Some p \<and> p < fPageCount s \<and> fState (fPages s p) = kPageFree" if "0 < fFreeCount s"
    using queue_tail [OF fq that] by (auto simp: in_state_def)
  have clear: "\<exists>p. GetTail (fClearQueue s) = Some p \<and> p < fPageCount s \<and> fState (fPages s p) = kPageClear" if "0 < fClearCount s"
    using queue_tail [OF cq that] by (auto simp: in_state_def)
  show ?thesis
  proof (cases "0 < fClearCount s \<and> (c \<or> fFreeCount s = 0)")
    case True
    then obtain p where "GetTail (fClearQueue s) = Some p" "p < fPageCount s" "fState (fPages s p) = kPageClear" "fData (fPages s p) = 0"
      using clear q(2) by (auto simp: clear_ok_def)
    then show ?thesis
      using True q nn
      by (intro exI [of _ p] exI [of _ "fData (fPages s p)"]) (auto simp: choose_page_def clear_ok_def spare_def is_spare_def)
  next
    case False
    then have "0 < fFreeCount s"
      using sp nn by (auto simp: spare_def)
    then obtain p where "GetTail (fFreeQueue s) = Some p" "p < fPageCount s" "fState (fPages s p) = kPageFree"
      using free by blast
    then show ?thesis
      using False \<open>0 < fFreeCount s\<close> q nn
      by (intro exI [of _ p] exI [of _ "if c then 0 else fData (fPages s p)"]) (auto simp: choose_page_def clear_ok_def spare_def is_spare_def)
  qed
qed

lemma Alloc_ok:
  assumes "pages_ok s"
  shows "if spare s = 0 then Alloc c s = Inl Blocks
    else \<exists>p d s'. Alloc c s = Inr (p, s') \<and> pages_ok s' \<and> p < fPageCount s \<and> is_spare (fState (fPages s p)) \<and> spare s' = spare s - 1 \<and>
      fPageCount s' = fPageCount s \<and> fPages s' = (fPages s)(p := (fPages s p)\<lparr>fData := d, fState := kPageTransition\<rparr>) \<and> (c \<longrightarrow> d = 0)"
proof (cases "spare s = 0")
  case False
  have q: "queues_ok s" "clear_ok s" "fFreePagesAvailable s = spare s"
    using assms by (simp_all add: pages_ok_spare)
  have "0 \<le> spare s"
    using q(1) by (simp add: queues_ok_def queues_hold_def queue_is_def spare_def)
  then have sp: "0 < spare s"
    using False by simp
  define s1 where "s1 = s\<lparr>fFreePagesAvailable := fFreePagesAvailable s - 1, fPagesRequested := fPagesRequested s + 1\<rparr>"
  have s1: "queues_ok s1" "clear_ok s1" "spare s1 = spare s" "fPages s1 = fPages s" "fPageCount s1 = fPageCount s" "fFreePagesAvailable s1 = spare s - 1"
    using q by (simp_all add: s1_def clear_ok_def spare_def)
  obtain p d s2 where c: "choose_page c s1 = Some (p, s2)" "p < fPageCount s" "is_spare (fState (fPages s p))" "queues_ok s2" "clear_ok s2"
      "fFreePagesAvailable s2 = spare s - 1" "spare s2 = spare s" "fPageCount s2 = fPageCount s" "c \<longrightarrow> d = 0"
      "fPages s2 = (fPages s)(p := (fPages s p)\<lparr>fData := d\<rparr>)"
    using choose_page_ok [OF s1(1, 2), of c] sp unfolding s1 by blast
  have "Alloc c s = Inr (p, MoveToQueue p kPageTransition s2)"
    using sp q(3) c(1) by (simp add: Alloc_def wait_available_def s1_def)
  moreover have "pages_ok (MoveToQueue p kPageTransition s2)"
    using c by (intro pages_take) (simp_all add: is_spare_def)
  moreover have "spare (MoveToQueue p kPageTransition s2) = spare s - 1"
    using c by (simp add: spare_Move is_spare_def)
  moreover have "fPages (MoveToQueue p kPageTransition s2) = (fPages s)(p := (fPages s p)\<lparr>fData := d, fState := kPageTransition\<rparr>)"
    by (simp add: c(10))
  ultimately show ?thesis
    using False c(2, 3, 8, 9) by auto
qed (use assms in \<open>simp add: Alloc_def wait_available_def pages_ok_spare\<close>)

section \<open>Reachable states\<close>

text \<open>Holders take pages, put them into the states for pages in use, write to them and give them back.\<close>

inductive pg_reach :: "'d::zero page_db \<Rightarrow> nat set \<Rightarrow> bool" where
  boot: "pg_reach (page_Bootstrap memsize contents) {}"
| used: "pg_reach s H \<Longrightarrow> unat (pa div 4096) < fPageCount s \<Longrightarrow> MarkUsed pa s = Inr s' \<Longrightarrow>
    pg_reach s' (if fState (fPages s (unat (pa div 4096))) = kPageFree then insert (unat (pa div 4096)) H else H)"
| alloc: "pg_reach s H \<Longrightarrow> Alloc c s = Inr (p, s') \<Longrightarrow> pg_reach s' (insert p H)"
| move: "pg_reach s H \<Longrightarrow> p \<in> H \<Longrightarrow> f \<in> {SetBusy, SetNotBusy, Wire, Unwire} \<Longrightarrow> pg_reach (f p s) H"
| store: "pg_reach s H \<Longrightarrow> p \<in> H \<Longrightarrow> pg_reach (set_data p d s) H"
| free: "pg_reach s H \<Longrightarrow> p \<in> H \<Longrightarrow> pg_reach (Free p s) (H - {p})"
| take: "pg_reach s H \<Longrightarrow> eraser_take s = Inr (q, s') \<Longrightarrow> pg_reach s' (H \<union> set_option q)"
| give: "pg_reach s H \<Longrightarrow> p \<in> H \<Longrightarrow> pg_reach (eraser_give p s) (H - {p})"

definition held :: "('d, 'x) page_db_scheme \<Rightarrow> nat set" where
  "held s = {p. p < fPageCount s \<and> \<not> is_spare (fState (fPages s p))}"

lemma pages_Bootstrap: "pages_ok (page_Bootstrap memsize contents)"
  by (auto simp: pages_ok_def queues_ok_def queues_hold_def queue_is_def in_state_def clear_ok_def page_Bootstrap_def Let_def)

lemma held_Move: "p < fPageCount s \<Longrightarrow> held (MoveToQueue p st s) = (if is_spare st then held s - {p} else insert p (held s))"
  by (auto simp: held_def)

lemma in_use_not_spare: "st \<in> {kPageTransition, kPageActive, kPageWired} \<Longrightarrow> \<not> is_spare st"
  by (auto simp: is_spare_def)

lemma pg_step_Move:
  assumes "pages_ok s" "p \<in> held s" "st = kPageClear \<Longrightarrow> fData (fPages s p) = 0"
  shows "pages_ok (MoveToQueue p st s)" "held (MoveToQueue p st s) = (if is_spare st then held s - {p} else held s)"
  using assms pages_Move [OF assms(1), of p st] held_Move [of p s st] by (auto simp: held_def)

lemma eraser_take_ok:
  assumes "pages_ok s" "eraser_take s = Inr (q, s')"
  shows "pages_ok s' \<and> held s' = held s \<union> set_option q"
proof -
  have q: "queues_ok s" "clear_ok s" "fFreePagesAvailable s = spare s"
    using assms(1) by (simp_all add: pages_ok_spare)
  have fq: "queue_is (fFreeQueue s) (fFreeCount s) (in_state kPageFree s)"
    using q(1) by (simp add: queues_ok_def queues_hold_def)
  show ?thesis
  proof (cases "GetTail (fFreeQueue s)")
    case None
    then show ?thesis
      using assms by (auto simp: eraser_take_def wait_available_def split: if_splits)
  next
    case (Some p)
    then have p: "p < fPageCount s" "fState (fPages s p) = kPageFree"
      using fq last_in_set [of "fFreeQueue s"] by (auto simp: GetTail_def queue_is_def in_state_def split: if_splits)
    define s1 where "s1 = s\<lparr>fFreePagesAvailable := fFreePagesAvailable s - 1\<rparr>"
    have s1: "queues_ok s1" "clear_ok s1" "fFreePagesAvailable s1 = spare s1 - 1" "p < fPageCount s1" "is_spare (fState (fPages s1 p))"
      using q p by (simp_all add: s1_def clear_ok_def spare_def is_spare_def)
    have "s' = MoveToQueue p kPageTransition s1" "q = Some p"
      using assms(2) Some by (auto simp: eraser_take_def wait_available_def s1_def split: if_splits)
    then show ?thesis
      using pages_take [OF s1, of kPageTransition] held_Move [OF s1(4), of kPageTransition] p(1)
      by (auto simp: is_spare_def held_def s1_def)
  qed
qed

lemma MarkUsed_ok:
  assumes "pages_ok s" "unat (pa div 4096) < fPageCount s" "MarkUsed pa s = Inr s'"
  shows "pages_ok s'" "held s' = (if fState (fPages s (unat (pa div 4096))) = kPageFree then insert (unat (pa div 4096)) (held s) else held s)"
proof -
  define p where "p = unat (pa div 4096)"
  have q: "queues_ok s" "clear_ok s" "fFreePagesAvailable s = spare s" "p < fPageCount s"
    using assms by (simp_all add: pages_ok_spare p_def)
  define s1 where "s1 = s\<lparr>fFreePagesAvailable := fFreePagesAvailable s - 1\<rparr>"
  have "pages_ok s' \<and> held s' = (if fState (fPages s p) = kPageFree then insert p (held s) else held s)"
  proof (cases "fState (fPages s p) = kPageFree")
    case True
    then have s1: "queues_ok s1" "clear_ok s1" "fFreePagesAvailable s1 = spare s1 - 1" "p < fPageCount s1" "is_spare (fState (fPages s1 p))"
      using q by (simp_all add: s1_def clear_ok_def spare_def is_spare_def)
    have "s' = MoveToQueue p kPageWired s1"
      using assms(3) True by (auto simp: MarkUsed_def wait_available_def Let_def p_def s1_def split: if_splits)
    then show ?thesis
      using pages_take [OF s1, of kPageWired] held_Move [OF s1(4), of kPageWired] True by (auto simp: is_spare_def held_def s1_def)
  next
    case False
    then show ?thesis
      using assms by (auto simp: MarkUsed_def Let_def p_def)
  qed
  then show "pages_ok s'" "held s' = (if fState (fPages s (unat (pa div 4096))) = kPageFree then insert (unat (pa div 4096)) (held s) else held s)"
    by (simp_all add: p_def)
qed

lemma pg_reach_ok: "pg_reach s H \<Longrightarrow> pages_ok s \<and> H = held s"
proof (induction rule: pg_reach.induct)
  case (boot memsize contents)
  show ?case
    by (auto simp: pages_Bootstrap) (auto simp: held_def page_Bootstrap_def Let_def is_spare_def)
next
  case (used s H pa s')
  then show ?case
    using MarkUsed_ok [of s pa s'] by simp
next
  case (alloc s H c p s')
  then have "spare s \<noteq> 0"
    using Alloc_ok [of s c] by auto
  then obtain d where "pages_ok s'" "p < fPageCount s" "fPageCount s' = fPageCount s" "fPages s' = (fPages s)(p := (fPages s p)\<lparr>fData := d, fState := kPageTransition\<rparr>)"
    using Alloc_ok [of s c] alloc by auto
  then show ?case
    using alloc by (auto simp: held_def is_spare_def)
next
  case (move s H p f)
  then show ?case
    using pg_step_Move [of s p kPageTransition] pg_step_Move [of s p kPageActive] pg_step_Move [of s p kPageWired] by (auto simp: is_spare_def SetBusy_def SetNotBusy_def Wire_def Unwire_def)
next
  case (store s H p d)
  then show ?case
    using pages_set_data [of s p d] by (auto simp: held_def)
next
  case (free s H p)
  then show ?case
    using pg_step_Move [of s p kPageFree] by (simp add: Free_def is_spare_def)
next
  case (take s H q s')
  then show ?case
    using eraser_take_ok by blast
next
  case (give s H p)
  have p: "pages_ok (set_data p 0 s)" "p \<in> held (set_data p 0 s)" "held (set_data p 0 s) = held s"
    using give pages_set_data [of s p 0] by (auto simp: held_def)
  show ?case
    using pg_step_Move [OF p(1, 2), of kPageClear] give p(3)
    by (auto simp: eraser_give_def Let_def pages_ok_spare is_spare_def held_def clear_ok_def spare_def)
qed

section \<open>Properties\<close>

text \<open>C17: Allocation of a page frame, whatever was allocated, freed, wired, written or erased before: it waits exactly when no
  page is free or cleared, and never uses a null page; else it returns a page that nobody holds, zeroed if that was asked
  for, the number of spare pages is one less, and no other page is touched.\<close>

theorem page_alloc_exclusive:
  assumes "pg_reach s H"
  shows "if H = {..<fPageCount s} then Alloc c s = Inl Blocks
    else \<exists>p s'. Alloc c s = Inr (p, s') \<and> p < fPageCount s \<and> p \<notin> H \<and> pg_reach s' (insert p H) \<and> (c \<longrightarrow> fData (fPages s' p) = 0) \<and>
      (\<forall>r. r \<noteq> p \<longrightarrow> fPages s' r = fPages s r)"
proof -
  have ok: "pages_ok s" and H: "H = held s"
    using pg_reach_ok [OF assms] by auto
  have "spare s = int (card {p. p < fPageCount s \<and> is_spare (fState (fPages s p))})"
  proof -
    have "spare s = int (card (in_state kPageFree s)) + int (card (in_state kPageClear s))"
      using ok by (simp add: pages_ok_def queues_ok_def queues_hold_def queue_is_def spare_def)
    also have "\<dots> = int (card (in_state kPageFree s \<union> in_state kPageClear s))"
      by (subst card_Un_disjoint) (auto simp: in_state_def)
    finally show ?thesis
      by (simp add: in_state_def is_spare_def Collect_disj_eq [symmetric] conj_disj_distribL [symmetric])
  qed
  then have "spare s = 0 \<longleftrightarrow> H = {..<fPageCount s}"
    by (auto simp: H held_def)
  moreover have "\<exists>p s'. Alloc c s = Inr (p, s') \<and> p < fPageCount s \<and> p \<notin> H \<and> pg_reach s' (insert p H) \<and> (c \<longrightarrow> fData (fPages s' p) = 0) \<and>
      (\<forall>r. r \<noteq> p \<longrightarrow> fPages s' r = fPages s r)" if "spare s \<noteq> 0"
  proof -
    obtain p d s' where a: "Alloc c s = Inr (p, s')" "p < fPageCount s" "is_spare (fState (fPages s p))" "c \<longrightarrow> d = 0"
        "fPages s' = (fPages s)(p := (fPages s p)\<lparr>fData := d, fState := kPageTransition\<rparr>)"
      using Alloc_ok [OF ok, of c] \<open>spare s \<noteq> 0\<close> by (simp only: if_False) blast
    then show ?thesis
      using pg_reach.alloc [OF assms a(1)] by (simp add: H held_def)
  qed
  ultimately show ?thesis
    using Alloc_ok [OF ok, of c] by auto
qed

theorem page_alloc_exclusive_witness:
  "\<exists>p s'. Alloc True (page_Bootstrap 8192 (\<lambda>p. 7 :: nat)) = Inr (p, s') \<and> p < 2 \<and> fData (fPages s' p) = 0"
proof -
  have "fPageCount (page_Bootstrap 8192 (\<lambda>p. 7 :: nat)) = 2"
    by (simp add: page_Bootstrap_def Let_def)
  moreover have "0 \<in> {..<2 :: nat}"
    by simp
  ultimately show ?thesis
    using page_alloc_exclusive [OF pg_reach.boot [of 8192 "\<lambda>p. 7 :: nat"], of True] by (auto simp del: lessThan_iff split: if_splits)
qed

end
