(* ===== verification/Page_Cache.thy ===== *)
theory Page_Cache
  imports Page_Frames "HOL-Library.Signed_Division"
begin

text \<open>
  \<^verbatim>\<open>SkyCore/PageCache.cpp\<close>: pages in memory as a cache of backing stores, with private copies on write.  A cache is named by its
  address.  The chain of a hash bucket and the list of a cache's resident pages, both intrusive, are lists of pages, first
  element first.  A backing store is an object of an abstract class: \<open>backing c offset\<close> is what \<open>HasPage\<close> and \<open>Read\<close> of the one of
  the cache \<open>c\<close> say, \<open>None\<close> for no page, \<open>Inl\<close> for an error of reading, \<open>Inr\<close> for the data.  One thread at a time runs;
  a page that is busy stays so, hence waiting for it is \<open>Blocks\<close>.
\<close>

record cache =
  fSourceCache :: "nat option"
  fResidentPages :: "nat list"
  fCacheRefs :: int

record 'd vm = "'d page_db" +
  caches :: "nat \<Rightarrow> cache option"
  fPageHash :: "int \<Rightarrow> nat list"
  fPageHashSize :: int
  backing :: "nat \<Rightarrow> int \<Rightarrow> (int + 'd) option"

definition upd_cache :: "nat \<Rightarrow> (cache \<Rightarrow> cache) \<Rightarrow> ('d, 'x) vm_scheme \<Rightarrow> ('d, 'x) vm_scheme" where
  "upd_cache c f s = s\<lparr>caches := (caches s)(c := map_option f (caches s c))\<rparr>"

definition resident :: "('d, 'x) vm_scheme \<Rightarrow> nat \<Rightarrow> nat list" where
  "resident s c = (case caches s c of None \<Rightarrow> [] | Some k \<Rightarrow> fResidentPages k)"

section \<open>The hash table and the lists\<close>

text \<open>A cache is 16 bytes: three pointers and the count.\<close>

definition GenerateHash :: "nat \<Rightarrow> int \<Rightarrow> int" where
  "GenerateHash c offset =
     uint ((push_bit 7 ((of_nat c :: u32) div 16) OR (word_of_int (sint (word_of_int offset :: u32) sdiv 4096))) AND 0x7fffffff)"

definition bucket :: "('d, 'x) vm_scheme \<Rightarrow> nat \<Rightarrow> int \<Rightarrow> int" where
  "bucket s c offset = GenerateHash c offset mod fPageHashSize s"

definition InsertPage :: "nat \<Rightarrow> int \<Rightarrow> nat \<Rightarrow> ('d, 'x) vm_scheme \<Rightarrow> ('d, 'x) vm_scheme" where
  "InsertPage c offset p s =
     (let s = set_page p (\<lambda>pg. pg\<lparr>fCache := Some c, fCacheOffset := offset\<rparr>) s;
          b = bucket s c offset;
          s = s\<lparr>fPageHash := (fPageHash s)(b := p # fPageHash s b)\<rparr>
      in upd_cache c (\<lambda>k. k\<lparr>fResidentPages := p # fResidentPages k\<rparr>) s)"

definition RemovePage :: "nat \<Rightarrow> nat \<Rightarrow> ('d, 'x) vm_scheme \<Rightarrow> ('d, 'x) vm_scheme" where
  "RemovePage c p s =
     (let b = bucket s c (fCacheOffset (fPages s p));
          s = s\<lparr>fPageHash := (fPageHash s)(b := remove1 p (fPageHash s b))\<rparr>;
          s = set_page p (\<lambda>pg. pg\<lparr>fCache := None\<rparr>) s
      in upd_cache c (\<lambda>k. k\<lparr>fResidentPages := remove1 p (fResidentPages k)\<rparr>) s)"

definition LookupPage :: "nat \<Rightarrow> int \<Rightarrow> ('d, 'x) vm_scheme \<Rightarrow> nat option" where
  "LookupPage c offset s =
     List.find (\<lambda>p. fCache (fPages s p) = Some c \<and> fCacheOffset (fPages s p) = offset) (fPageHash s (bucket s c offset))"

section \<open>Getting a page\<close>

definition and_then :: "vm_error + 'a \<Rightarrow> ('a \<Rightarrow> vm_error + 'b) \<Rightarrow> vm_error + 'b" where
  "and_then r f = (case r of Inl e \<Rightarrow> Inl e | Inr x \<Rightarrow> f x)"

lemma and_then_simps [simp]: "and_then (Inl e) f = Inl e" "and_then (Inr x) f = f x"
  by (simp_all add: and_then_def)

type_synonym ('d, 'x) got = "vm_error + nat option \<times> ('d, 'x) vm_scheme"

text \<open>A page for the cache, busy until its contents are there.\<close>

definition busy_page :: "nat \<Rightarrow> int \<Rightarrow> ('d::zero, 'x) vm_scheme \<Rightarrow> vm_error + nat \<times> ('d, 'x) vm_scheme" where
  "busy_page c offset s = and_then (Alloc False s) (\<lambda>(p, s). Inr (p, InsertPage c offset p (SetBusy p s)))"

definition drop_page :: "nat \<Rightarrow> nat \<Rightarrow> ('d, 'x) vm_scheme \<Rightarrow> ('d, 'x) vm_scheme" where
  "drop_page c p s = Free p (RemovePage c p s)"

definition find_page :: "nat \<Rightarrow> int \<Rightarrow> ('d, 'x) vm_scheme \<Rightarrow> ('d, 'x) got" where
  "find_page c offset s =
     (case LookupPage c offset s of
        None \<Rightarrow> Inr (None, s)
      | Some p \<Rightarrow> if IsBusy p s then Inl Blocks else Inr (Some p, s))"

definition read_page :: "nat \<Rightarrow> int \<Rightarrow> ('d::zero, 'x) vm_scheme \<Rightarrow> ('d, 'x) got" where
  "read_page c offset s =
     (case backing s c offset of
        None \<Rightarrow> Inr (None, s)
      | Some r \<Rightarrow>
          and_then (busy_page c offset s) (\<lambda>(p, s).
            case r of
              Inl err \<Rightarrow> Inr (None, drop_page c p s)
            | Inr d \<Rightarrow> Inr (Some p, SetNotBusy p (set_data p d s))))"

text \<open>The source cache is asked through \<open>get\<close>.\<close>

definition copy_page :: "(nat \<Rightarrow> ('d::zero, 'x) vm_scheme \<Rightarrow> ('d, 'x) got) \<Rightarrow> nat \<Rightarrow> int \<Rightarrow> nat option \<Rightarrow> ('d, 'x) vm_scheme \<Rightarrow> ('d, 'x) got" where
  "copy_page get c offset src s =
     and_then (busy_page c offset s) (\<lambda>(p, s).
       case src of
         None \<Rightarrow> Inl Null_page
       | Some c' \<Rightarrow>
           and_then (get c' s) (\<lambda>(q, s).
             case q of
               Some q \<Rightarrow> Inr (Some p, SetNotBusy p (set_data p (fData (fPages s q)) s))
             | None \<Rightarrow> Inr (None, drop_page c p s)))"

definition share_page :: "(nat \<Rightarrow> ('d::zero, 'x) vm_scheme \<Rightarrow> ('d, 'x) got) \<Rightarrow> nat \<Rightarrow> int \<Rightarrow> nat \<Rightarrow> ('d, 'x) vm_scheme \<Rightarrow> ('d, 'x) got" where
  "share_page get c offset c' s =
     and_then (busy_page c offset s) (\<lambda>(dummy, s).
       and_then (get c' s) (\<lambda>(q, s). Inr (q, drop_page c dummy s)))"

definition zero_page :: "nat \<Rightarrow> int \<Rightarrow> ('d::zero, 'x) vm_scheme \<Rightarrow> ('d, 'x) got" where
  "zero_page c offset s = and_then (Alloc True s) (\<lambda>(p, s). Inr (Some p, SetNotBusy p (InsertPage c offset p s)))"

text \<open>\<open>GetPage\<close> with the calls for source caches nested less than \<open>n\<close> deep.\<close>

primrec GetPage :: "nat \<Rightarrow> nat \<Rightarrow> int \<Rightarrow> bool \<Rightarrow> ('d::zero, 'x) vm_scheme \<Rightarrow> ('d, 'x) got" where
  "GetPage 0 c offset privateCopy s = Inl Out_of_fuel"
| "GetPage (Suc n) c offset privateCopy s =
     (case caches s c of
        None \<Rightarrow> Inl Null_page
      | Some k \<Rightarrow>
          (let get = (\<lambda>c' s. GetPage n c' offset False s);
               src = fSourceCache k
           in and_then (find_page c offset s) (\<lambda>(page, s).
              and_then (if page = None then read_page c offset s else Inr (page, s)) (\<lambda>(page, s).
              and_then (if page = None \<and> privateCopy then copy_page get c offset src s else Inr (page, s)) (\<lambda>(page, s).
              and_then (case src of Some c' \<Rightarrow> if page = None then share_page get c offset c' s else Inr (page, s) | None \<Rightarrow> Inr (page, s)) (\<lambda>(page, s).
              if page = None then zero_page c offset s else Inr (page, s)))))))"

definition IsCopy :: "nat \<Rightarrow> ('d, 'x) vm_scheme \<Rightarrow> bool" where
  "IsCopy c s \<longleftrightarrow> (case caches s c of None \<Rightarrow> False | Some k \<Rightarrow> fSourceCache k \<noteq> None)"

section \<open>The other operations\<close>

text \<open>A page that was modified is written back; an error there is a panic.\<close>

definition StealPage :: "nat \<Rightarrow> nat \<Rightarrow> bool \<Rightarrow> ('d, 'x) vm_scheme \<Rightarrow> ('d, 'x) vm_scheme" where
  "StealPage c p modified s =
     (let s = RemovePage c p s
      in if modified then s\<lparr>backing := (backing s)(c := (backing s c)(fCacheOffset (fPages s p) := Some (Inr (fData (fPages s p)))))\<rparr> else s)"

definition cache_AcquireRef :: "nat \<Rightarrow> ('d, 'x) vm_scheme \<Rightarrow> ('d, 'x) vm_scheme" where
  "cache_AcquireRef c = upd_cache c (\<lambda>k. k\<lparr>fCacheRefs := fCacheRefs k + 1\<rparr>)"

definition new_cache :: "nat \<Rightarrow> (int \<Rightarrow> (int + 'd) option) \<Rightarrow> nat option \<Rightarrow> ('d, 'x) vm_scheme \<Rightarrow> ('d, 'x) vm_scheme" where
  "new_cache c store src s =
     (let s = (case src of None \<Rightarrow> s | Some c' \<Rightarrow> cache_AcquireRef c' s)
      in s\<lparr>caches := (caches s)(c := Some \<lparr>fSourceCache = src, fResidentPages = [], fCacheRefs = 0\<rparr>),
           backing := (backing s)(c := store)\<rparr>)"

text \<open>The destructor frees the pages and gives up the source, with the lock of all caches held: if that is the last
  reference to the source, its destructor waits for this lock.\<close>

definition drop_all :: "nat \<Rightarrow> ('d, 'x) vm_scheme \<Rightarrow> ('d, 'x) vm_scheme" where
  "drop_all c s = fold (\<lambda>p s. drop_page c p s) (resident s c) s"

definition cache_ReleaseRef :: "nat \<Rightarrow> ('d, 'x) vm_scheme \<Rightarrow> vm_error + ('d, 'x) vm_scheme" where
  "cache_ReleaseRef c s =
     (case caches s c of
        None \<Rightarrow> Inl Null_page
      | Some k \<Rightarrow>
          if fCacheRefs k \<noteq> 1 then Inr (upd_cache c (\<lambda>k. k\<lparr>fCacheRefs := fCacheRefs k - 1\<rparr>) s)
          else
            let s = drop_all c s;
                gone = (\<lambda>s. s\<lparr>caches := (caches s)(c := None)\<rparr>)
            in case fSourceCache k of
                 None \<Rightarrow> Inr (gone s)
               | Some c' \<Rightarrow>
                   (case caches s c' of
                      None \<Rightarrow> Inl Null_page
                    | Some k' \<Rightarrow>
                        if fCacheRefs k' = 1 then Inl Blocks
                        else Inr (gone (upd_cache c' (\<lambda>k. k\<lparr>fCacheRefs := fCacheRefs k - 1\<rparr>) s))))"

definition hash_sizes :: "int list" where
  "hash_sizes = [563, 2063, 4079, 8423, 16387, 32843, 65543, 131267, 262127]"

fun hash_size :: "int \<Rightarrow> int list \<Rightarrow> int \<Rightarrow> int" where
  "hash_size n [] sz = sz"
| "hash_size n (z # zs) sz = (if n < z then z else hash_size n zs z)"

definition cache_Bootstrap :: "'d page_db \<Rightarrow> 'd vm" where
  "cache_Bootstrap s =
     page_db.extend s \<lparr>caches = (\<lambda>c. None), fPageHash = (\<lambda>b. []),
       fPageHashSize = hash_size (int (GetMemSize s div 4096)) hash_sizes 0, backing = (\<lambda>c offset. None)\<rparr>"

end
