(* ===== verification/Cache_Props.thy ===== *)
theory Cache_Props
  imports Page_Cache Page_Props
begin

text \<open>
  The page caches: the hash table and the lists agree with the pages, no page is in two places, and \<open>GetPage\<close> returns what
  the cache and its sources say, changing the contents of none.
\<close>

section \<open>The invariant\<close>

definition owns :: "('d, 'x) vm_scheme \<Rightarrow> nat \<Rightarrow> nat \<Rightarrow> int \<Rightarrow> bool" where
  "owns s p c off \<longleftrightarrow> p < fPageCount s \<and> fCache (fPages s p) = Some c \<and> fCacheOffset (fPages s p) = off"

definition cache_ok :: "('d::zero, 'x) vm_scheme \<Rightarrow> bool" where
  "cache_ok s \<longleftrightarrow> pages_ok s \<and>
     (\<forall>b. distinct (fPageHash s b) \<and> set (fPageHash s b) = {p. \<exists>c off. owns s p c off \<and> b = bucket s c off}) \<and>
     (\<forall>c. distinct (resident s c) \<and> set (resident s c) = {p. \<exists>off. owns s p c off}) \<and>
     (\<forall>p q c off. owns s p c off \<longrightarrow> owns s q c off \<longrightarrow> p = q) \<and>
     (\<forall>p c off. owns s p c off \<longrightarrow> \<not> is_spare (fState (fPages s p)))"

lemma cache_okD:
  assumes "cache_ok s"
  shows "pages_ok s" "distinct (fPageHash s b)" "set (fPageHash s b) = {p. \<exists>c off. owns s p c off \<and> b = bucket s c off}"
    "distinct (resident s c)" "set (resident s c) = {p. \<exists>off. owns s p c off}"
    "owns s p c off \<Longrightarrow> owns s q c off \<Longrightarrow> p = q" "owns s p c off \<Longrightarrow> \<not> is_spare (fState (fPages s p))"
  using assms unfolding cache_ok_def by blast+

lemma Lookup_owns:
  assumes "cache_ok s"
  shows "LookupPage c off s = Some p \<longleftrightarrow> owns s p c off"
proof -
  have "set (fPageHash s (bucket s c off)) = {p. \<exists>c' off'. owns s p c' off' \<and> bucket s c off = bucket s c' off'}"
    by (rule cache_okD(3) [OF assms])
  then have in_bucket: "q \<in> set (fPageHash s (bucket s c off)) \<and> fCache (fPages s q) = Some c \<and> fCacheOffset (fPages s q) = off \<longleftrightarrow> owns s q c off" for q
    by (auto simp: owns_def)
  show ?thesis
  proof
    assume "LookupPage c off s = Some p"
    then show "owns s p c off"
      using in_bucket by (auto simp: LookupPage_def find_Some_iff) (metis nth_mem)
  next
    assume p: "owns s p c off"
    then have "LookupPage c off s \<noteq> None"
      using in_bucket [of p] by (auto simp: LookupPage_def find_None_iff)
    then obtain q where q: "LookupPage c off s = Some q"
      by blast
    then have "owns s q c off"
      using in_bucket by (auto simp: LookupPage_def find_Some_iff) (metis nth_mem)
    then show "LookupPage c off s = Some p"
      using q cache_okD(6) [OF assms p] by simp
  qed
qed

lemma Lookup_None:
  assumes "cache_ok s"
  shows "LookupPage c off s = None \<longleftrightarrow> (\<forall>p. \<not> owns s p c off)"
  using Lookup_owns [OF assms, of c off] by (cases "LookupPage c off s") auto

section \<open>The operations on pages\<close>

lemma vm_Move [simp]:
  "caches (MoveToQueue p st s) = caches s" "fPageHash (MoveToQueue p st s) = fPageHash s"
  "fPageHashSize (MoveToQueue p st s) = fPageHashSize s" "backing (MoveToQueue p st s) = backing s"
  by (cases st; cases "fState (fPages s p)"; simp add: MoveToQueue_def enter_state_def leave_state_def set_page_def)+

lemma vm_set_data [simp]:
  "caches (set_data p d s) = caches s" "fPageHash (set_data p d s) = fPageHash s"
  "fPageHashSize (set_data p d s) = fPageHashSize s" "backing (set_data p d s) = backing s"
  by (simp_all add: set_data_def set_page_def)

lemma vm_Alloc:
  assumes "Alloc cl s = Inr (p, s')"
  shows "caches s' = caches s" "fPageHash s' = fPageHash s" "fPageHashSize s' = fPageHashSize s" "backing s' = backing s"
  using assms by (auto simp: Alloc_def wait_available_def choose_page_def split: if_splits option.splits)

lemma bucket_cong: "fPageHashSize s' = fPageHashSize s \<Longrightarrow> bucket s' = bucket s"
  by (simp add: bucket_def fun_eq_iff)

lemma resident_cong: "caches s' = caches s \<Longrightarrow> resident s' = resident s"
  by (simp add: resident_def fun_eq_iff)

text \<open>An operation that moves and writes pages, but caches none and takes none out of a cache.\<close>

lemma cache_ok_pages:
  assumes "cache_ok s" "pages_ok s'" "caches s' = caches s" "fPageHash s' = fPageHash s" "fPageHashSize s' = fPageHashSize s"
    "\<And>p c off. owns s' p c off = owns s p c off" "\<And>p c off. owns s p c off \<Longrightarrow> \<not> is_spare (fState (fPages s' p))"
  shows "cache_ok s'"
  using assms(1, 2, 7) unfolding cache_ok_def assms(4, 6) bucket_cong [OF assms(5)] resident_cong [OF assms(3)] by auto

lemma Alloc_cache:
  assumes ok: "cache_ok s" and a: "Alloc cl s = Inr (p, s')"
  shows "cache_ok s'" "p < fPageCount s" "fPageCount s' = fPageCount s" "owns s' = owns s" "\<not> owns s p c off" "spare s' = spare s - 1"
    "fState (fPages s' p) = kPageTransition" "cl \<Longrightarrow> fData (fPages s' p) = 0" "q \<noteq> p \<Longrightarrow> fPages s' q = fPages s q"
proof -
  have pok: "pages_ok s"
    using ok by (rule cache_okD)
  have "spare s \<noteq> 0"
    using Alloc_ok [OF pok, of cl] a by auto
  then obtain d where al: "pages_ok s'" "p < fPageCount s" "is_spare (fState (fPages s p))" "spare s' = spare s - 1"
      "fPageCount s' = fPageCount s" "fPages s' = (fPages s)(p := (fPages s p)\<lparr>fData := d, fState := kPageTransition\<rparr>)" "cl \<longrightarrow> d = 0"
    using Alloc_ok [OF pok, of cl] a by auto
  show o: "owns s' = owns s"
    using al(5, 6) by (auto simp: owns_def fun_eq_iff)
  show free: "\<not> owns s p c off" for c off
    using cache_okD(7) [OF ok] al(3) by blast
  show "cache_ok s'"
    using cache_okD(7) [OF ok] free
    by (intro cache_ok_pages [OF ok al(1) vm_Alloc(1-3) [OF a]]) (auto simp: o al(6))
  show "p < fPageCount s" "fPageCount s' = fPageCount s" "spare s' = spare s - 1" "fState (fPages s' p) = kPageTransition"
      "cl \<Longrightarrow> fData (fPages s' p) = 0" "q \<noteq> p \<Longrightarrow> fPages s' q = fPages s q"
    using al by simp_all
qed

lemma owns_Move [simp]: "owns (MoveToQueue p st s) = owns s"
  by (auto simp: owns_def fun_eq_iff)

lemma owns_set_data [simp]: "owns (set_data p d s) = owns s"
  by (auto simp: owns_def fun_eq_iff)

lemma Move_cache:
  assumes "cache_ok s" "p < fPageCount s" "\<not> is_spare (fState (fPages s p))" "\<not> is_spare st"
  shows "cache_ok (MoveToQueue p st s)" "spare (MoveToQueue p st s) = spare s"
proof -
  have "pages_ok (MoveToQueue p st s)"
    using assms by (intro pages_Move) (auto simp: is_spare_def dest: cache_okD(1))
  then show "cache_ok (MoveToQueue p st s)"
    using assms cache_okD(7) [OF assms(1)] by (intro cache_ok_pages [OF assms(1)]) auto
  show "spare (MoveToQueue p st s) = spare s"
    using assms by (simp add: spare_Move)
qed

lemma Free_cache:
  assumes "cache_ok s" "p < fPageCount s" "\<not> is_spare (fState (fPages s p))" "\<And>c off. \<not> owns s p c off"
  shows "cache_ok (Free p s)" "spare (Free p s) = spare s + 1" "owns (Free p s) = owns s"
proof -
  have "pages_ok (Free p s)"
    unfolding Free_def using assms by (intro pages_Move) (auto dest: cache_okD(1))
  then show "cache_ok (Free p s)"
    unfolding Free_def using assms cache_okD(7) [OF assms(1)] by (intro cache_ok_pages [OF assms(1)]) auto
  show "spare (Free p s) = spare s + 1" "owns (Free p s) = owns s"
    using assms by (simp_all add: spare_Move Free_def is_spare_def)
qed

lemma set_data_cache:
  assumes "cache_ok s" "\<not> is_spare (fState (fPages s p))"
  shows "cache_ok (set_data p d s)"
  using assms pages_set_data [OF cache_okD(1) [OF assms(1)] assms(2)] cache_okD(7) [OF assms(1)]
  by (intro cache_ok_pages [OF assms(1)]) auto

section \<open>Into and out of a cache\<close>

lemma set_page_simps [simp]:
  "fFreePagesAvailable (set_page p f s) = fFreePagesAvailable s" "spare (set_page p f s) = spare s"
  by (simp_all add: set_page_def spare_def)

lemma vm_set_page [simp]:
  "caches (set_page p f s) = caches s" "fPageHash (set_page p f s) = fPageHash s"
  "fPageHashSize (set_page p f s) = fPageHashSize s" "backing (set_page p f s) = backing s"
  by (simp_all add: set_page_def)

lemma bucket_set_page [simp]: "bucket (set_page p f s) = bucket s"
  by (rule bucket_cong) simp

lemma pages_ok_links:
  assumes "pages_ok s" "\<And>pg. fState (f pg) = fState pg" "\<And>pg. fData (f pg) = fData pg"
  shows "pages_ok (set_page p f s)"
proof -
  have "in_state st (set_page p f s) = in_state st s" for st
    using assms(2) by (auto simp: in_state_def)
  then have "queues_ok (set_page p f s) = queues_ok s"
    by (simp add: queues_ok_def)
  then show ?thesis
    using assms by (auto simp: pages_ok_spare clear_ok_def)
qed

lemma pages_ok_vm [simp]:
  "pages_ok (s\<lparr>fPageHash := h\<rparr>) = pages_ok s" "pages_ok (upd_cache c f s) = pages_ok s" "pages_ok (s\<lparr>backing := b\<rparr>) = pages_ok s"
  by (simp_all add: pages_ok_def queues_ok_def queues_hold_def in_state_def clear_ok_def upd_cache_def)

lemma Insert_simps [simp]:
  "fPageCount (InsertPage c off p s) = fPageCount s" "backing (InsertPage c off p s) = backing s"
  "fPageHashSize (InsertPage c off p s) = fPageHashSize s" "spare (InsertPage c off p s) = spare s"
  "fPages (InsertPage c off p s) = (fPages s)(p := (fPages s p)\<lparr>fCache := Some c, fCacheOffset := off\<rparr>)"
  by (simp_all add: InsertPage_def Let_def upd_cache_def spare_def set_page_def)

lemma Remove_simps [simp]:
  "fPageCount (RemovePage c p s) = fPageCount s" "backing (RemovePage c p s) = backing s"
  "fPageHashSize (RemovePage c p s) = fPageHashSize s" "spare (RemovePage c p s) = spare s"
  "fPages (RemovePage c p s) = (fPages s)(p := (fPages s p)\<lparr>fCache := None\<rparr>)"
  by (simp_all add: RemovePage_def Let_def upd_cache_def spare_def set_page_def)

text \<open>The caches themselves: which there are, and their sources.\<close>

definition source :: "('d, 'x) vm_scheme \<Rightarrow> nat \<Rightarrow> nat option option" where
  "source s c = map_option fSourceCache (caches s c)"

lemma source_simps [simp]:
  "source (InsertPage c off p s) = source s" "source (RemovePage c p s) = source s" "source (MoveToQueue p st s) = source s"
  "source (set_data p d s) = source s"
  by (auto simp: source_def InsertPage_def RemovePage_def Let_def upd_cache_def fun_eq_iff option.map_comp comp_def split: option.splits)

lemma owns_Insert:
  "p < fPageCount s \<Longrightarrow> owns (InsertPage c off p s) q c' off' \<longleftrightarrow> (if q = p then c' = c \<and> off' = off else owns s q c' off')"
  by (auto simp: owns_def)

lemma owns_Remove: "owns (RemovePage c p s) q c' off' \<longleftrightarrow> q \<noteq> p \<and> owns s q c' off'"
  by (auto simp: owns_def)

lemma Insert_cache:
  assumes ok: "cache_ok s" and p: "p < fPageCount s" "\<not> is_spare (fState (fPages s p))" "\<And>c off. \<not> owns s p c off"
    and c: "source s c \<noteq> None" "\<And>q. \<not> owns s q c off"
  shows "cache_ok (InsertPage c off p s)"
proof -
  have "pages_ok (InsertPage c off p s)"
    using cache_okD(1) [OF ok] by (simp add: InsertPage_def Let_def pages_ok_links)
  moreover have "distinct (fPageHash (InsertPage c off p s) b) \<and>
      set (fPageHash (InsertPage c off p s) b) = {q. \<exists>c' off'. owns (InsertPage c off p s) q c' off' \<and> b = bucket (InsertPage c off p s) c' off'}" for b
  proof -
    have hash: "fPageHash (InsertPage c off p s) b = (if b = bucket s c off then [p] else []) @ fPageHash s b"
      by (auto simp: InsertPage_def Let_def upd_cache_def)
    have buckets: "bucket (InsertPage c off p s) = bucket s"
      by (rule bucket_cong) simp
    have mem: "q \<in> set (fPageHash s b) \<longleftrightarrow> (\<exists>c' off'. owns s q c' off' \<and> b = bucket s c' off')" for q
      using cache_okD(3) [OF ok, of b] by blast
    then have out: "p \<notin> set (fPageHash s b)"
      using p(3) by blast
    have "q \<in> set (fPageHash (InsertPage c off p s) b) \<longleftrightarrow> (\<exists>c' off'. owns (InsertPage c off p s) q c' off' \<and> b = bucket s c' off')" for q
      using out mem [of q] by (cases "q = p") (simp_all add: hash owns_Insert [OF p(1)])
    then show ?thesis
      using cache_okD(2) [OF ok, of b] out by (auto simp: hash buckets)
  qed
  moreover have "distinct (resident (InsertPage c off p s) d) \<and> set (resident (InsertPage c off p s) d) = {q. \<exists>off'. owns (InsertPage c off p s) q d off'}" for d
  proof -
    have "resident (InsertPage c off p s) d = (if d = c then [p] else []) @ resident s d"
      using c(1) by (auto simp: InsertPage_def Let_def upd_cache_def resident_def source_def split: option.splits)
    then show ?thesis
      using cache_okD(4, 5) [OF ok, of d] p by (auto simp: owns_Insert)
  qed
  moreover have "\<forall>q r c' off'. owns (InsertPage c off p s) q c' off' \<longrightarrow> owns (InsertPage c off p s) r c' off' \<longrightarrow> q = r"
    using cache_okD(6) [OF ok] c(2) p(1) by (auto simp: owns_Insert split: if_splits)
  moreover have "\<forall>q c' off'. owns (InsertPage c off p s) q c' off' \<longrightarrow> \<not> is_spare (fState (fPages (InsertPage c off p s) q))"
    using cache_okD(7) [OF ok] p by (auto simp: owns_Insert split: if_splits)
  ultimately show ?thesis
    unfolding cache_ok_def by blast
qed

lemma Remove_cache:
  assumes ok: "cache_ok s" and p: "owns s p c off"
  shows "cache_ok (RemovePage c p s)"
proof -
  have off: "fCacheOffset (fPages s p) = off"
    using p by (simp add: owns_def)
  have uniq: "owns s p c' off' \<longleftrightarrow> c' = c \<and> off' = off" for c' off'
    using p by (auto simp: owns_def)
  have "pages_ok (RemovePage c p s)"
    using cache_okD(1) [OF ok] by (simp add: RemovePage_def Let_def pages_ok_links)
  moreover have "distinct (fPageHash (RemovePage c p s) b) \<and>
      set (fPageHash (RemovePage c p s) b) = {q. \<exists>c' off'. owns (RemovePage c p s) q c' off' \<and> b = bucket (RemovePage c p s) c' off'}" for b
  proof -
    have hash: "fPageHash (RemovePage c p s) d = (if d = bucket s c off then remove1 p (fPageHash s d) else fPageHash s d)" for d
      by (auto simp: RemovePage_def Let_def upd_cache_def off)
    have buckets: "bucket (RemovePage c p s) = bucket s"
      by (rule bucket_cong) simp
    have mem: "q \<in> set (fPageHash s b) \<longleftrightarrow> (\<exists>c' off'. owns s q c' off' \<and> b = bucket s c' off')" for q
      using cache_okD(3) [OF ok, of b] by blast
    have d: "distinct (fPageHash s b)"
      by (rule cache_okD(2) [OF ok])
    have "p \<in> set (fPageHash s b) \<longleftrightarrow> b = bucket s c off"
      by (simp add: mem uniq)
    then have new: "q \<in> set (fPageHash (RemovePage c p s) b) \<longleftrightarrow> (\<exists>c' off'. owns (RemovePage c p s) q c' off' \<and> b = bucket s c' off')" for q
      using d mem [of q] by (cases "q = p"; cases "b = bucket s c off") (simp_all add: hash owns_Remove)
    then have "set (fPageHash (RemovePage c p s) b) = {q. \<exists>c' off'. owns (RemovePage c p s) q c' off' \<and> b = bucket s c' off'}"
      by blast
    then show ?thesis
      using d by (cases "b = bucket s c off") (simp_all add: hash buckets)
  qed
  moreover have "distinct (resident (RemovePage c p s) d) \<and> set (resident (RemovePage c p s) d) = {q. \<exists>off'. owns (RemovePage c p s) q d off'}" for d
  proof -
    have "resident (RemovePage c p s) d = (if d = c then remove1 p (resident s d) else resident s d)"
      by (auto simp: RemovePage_def Let_def upd_cache_def resident_def split: option.splits)
    then show ?thesis
      using cache_okD(4, 5) [OF ok, of d] uniq by (auto simp: owns_Remove set_remove1_eq)
  qed
  moreover have "\<forall>q r c' off'. owns (RemovePage c p s) q c' off' \<longrightarrow> owns (RemovePage c p s) r c' off' \<longrightarrow> q = r"
    using cache_okD(6) [OF ok] by (auto simp: owns_Remove)
  moreover have "\<forall>q c' off'. owns (RemovePage c p s) q c' off' \<longrightarrow> \<not> is_spare (fState (fPages (RemovePage c p s) q))"
    using cache_okD(7) [OF ok] by (auto simp: owns_Remove)
  ultimately show ?thesis
    unfolding cache_ok_def by blast
qed

lemma drop_page_cache:
  assumes ok: "cache_ok s" and p: "owns s p c off"
  shows "cache_ok (drop_page c p s)" "spare (drop_page c p s) = spare s + 1" "owns (drop_page c p s) q c' off' \<longleftrightarrow> q \<noteq> p \<and> owns s q c' off'"
    "fPageCount (drop_page c p s) = fPageCount s" "backing (drop_page c p s) = backing s" "source (drop_page c p s) = source s"
    "q \<noteq> p \<Longrightarrow> fPages (drop_page c p s) q = fPages s q"
proof -
  have r: "cache_ok (RemovePage c p s)" "p < fPageCount (RemovePage c p s)" "\<not> is_spare (fState (fPages (RemovePage c p s) p))"
      "\<And>c' off'. \<not> owns (RemovePage c p s) p c' off'"
    using Remove_cache [OF ok p] p cache_okD(7) [OF ok p] by (auto simp: owns_Remove) (simp_all add: owns_def)
  show "cache_ok (drop_page c p s)" "spare (drop_page c p s) = spare s + 1" "owns (drop_page c p s) q c' off' \<longleftrightarrow> q \<noteq> p \<and> owns s q c' off'"
    using Free_cache [OF r] by (simp_all add: drop_page_def owns_Remove)
  show "fPageCount (drop_page c p s) = fPageCount s" "backing (drop_page c p s) = backing s" "source (drop_page c p s) = source s"
    "q \<noteq> p \<Longrightarrow> fPages (drop_page c p s) q = fPages s q"
    by (simp_all add: drop_page_def Free_def)
qed

section \<open>What a cache holds\<close>

text \<open>A cache with its source, the source of that and so on.\<close>

fun is_chain :: "(nat \<Rightarrow> nat option option) \<Rightarrow> nat list \<Rightarrow> bool" where
  "is_chain src [] = False"
| "is_chain src [c] \<longleftrightarrow> src c = Some None"
| "is_chain src (c # d # cs) \<longleftrightarrow> src c = Some (Some d) \<and> is_chain src (d # cs)"

lemma is_chain_suffix: "is_chain src (as @ c # bs) \<Longrightarrow> is_chain src (c # bs)"
  by (induction src as rule: is_chain.induct) auto

lemma is_chain_unique: "is_chain src (c # xs) \<Longrightarrow> is_chain src (c # ys) \<Longrightarrow> xs = ys"
proof (induction xs arbitrary: c ys)
  case Nil
  then show ?case by (cases ys) auto
next
  case (Cons x xs)
  then show ?case by (cases ys) auto
qed

text \<open>The page in memory, else that of the backing store, else what the source holds; zero at the end of the chain.\<close>

fun content :: "('d::zero, 'x) vm_scheme \<Rightarrow> nat list \<Rightarrow> int \<Rightarrow> 'd" where
  "content s [] off = 0"
| "content s (c # cs) off =
     (case LookupPage c off s of
        Some p \<Rightarrow> fData (fPages s p)
      | None \<Rightarrow> (case backing s c off of Some (Inr d) \<Rightarrow> d | _ \<Rightarrow> content s cs off))"

lemma content_owned: "cache_ok s \<Longrightarrow> owns s p c off \<Longrightarrow> content s (c # cs) off = fData (fPages s p)"
  by (simp add: Lookup_owns [THEN iffD2])

lemma content_cong:
  assumes "cache_ok s" "cache_ok s'" "backing s' = backing s"
    "\<And>c p. c \<in> set cs \<Longrightarrow> owns s' p c off \<longleftrightarrow> owns s p c off" "\<And>c p. c \<in> set cs \<Longrightarrow> owns s p c off \<Longrightarrow> fData (fPages s' p) = fData (fPages s p)"
  shows "content s' cs off = content s cs off"
  using assms(4, 5)
proof (induction cs)
  case (Cons c cs)
  have "LookupPage c off s' = Some p \<longleftrightarrow> LookupPage c off s = Some p" for p
    using Lookup_owns [OF assms(1), of c off] Lookup_owns [OF assms(2), of c off] Cons.prems(1) [of c] by simp
  then have "LookupPage c off s' = LookupPage c off s"
    by (metis option.exhaust)
  moreover have "fData (fPages s' p) = fData (fPages s p)" if "LookupPage c off s = Some p" for p
    using Lookup_owns [OF assms(1), of c off p] that Cons.prems(2) [of c p] by simp
  moreover have "content s' cs off = content s cs off"
    by (rule Cons.IH) (use Cons.prems in auto)
  ultimately show ?case
    by (cases "LookupPage c off s") (auto simp: assms(3) split: option.splits sum.splits)
qed simp

text \<open>Pages in use stay as they are; new ones are in the caches of the chain, at the offset asked for, where there was
  none, and hold what these caches held.\<close>

definition filled :: "('d::zero, 'x) vm_scheme \<Rightarrow> ('d, 'x) vm_scheme \<Rightarrow> nat list \<Rightarrow> int \<Rightarrow> bool" where
  "filled s s' cs off \<longleftrightarrow> cache_ok s' \<and> source s' = source s \<and> backing s' = backing s \<and> fPageCount s' = fPageCount s \<and>
     spare s - int (length cs) \<le> spare s' \<and>
     (\<forall>q. q < fPageCount s \<longrightarrow> \<not> is_spare (fState (fPages s q)) \<longrightarrow> fPages s' q = fPages s q) \<and>
     (\<forall>q c off'. owns s q c off' \<longrightarrow> owns s' q c off') \<and>
     (\<forall>q c off'. owns s' q c off' \<longrightarrow> \<not> owns s q c off' \<longrightarrow>
        off' = off \<and> (\<forall>p. \<not> owns s p c off) \<and> \<not> IsBusy q s' \<and>
        (\<exists>as bs. cs = as @ c # bs \<and> fData (fPages s' q) = content s (c # bs) off))"

lemma filledD:
  assumes "filled s s' cs off"
  shows "cache_ok s'" "source s' = source s" "backing s' = backing s" "fPageCount s' = fPageCount s" "spare s - int (length cs) \<le> spare s'"
    "q < fPageCount s \<Longrightarrow> \<not> is_spare (fState (fPages s q)) \<Longrightarrow> fPages s' q = fPages s q"
    "owns s q c off' \<Longrightarrow> owns s' q c off'"
    "owns s' q c off' \<Longrightarrow> \<not> owns s q c off' \<Longrightarrow> off' = off \<and> (\<forall>p. \<not> owns s p c off) \<and> \<not> IsBusy q s' \<and>
        (\<exists>as bs. cs = as @ c # bs \<and> fData (fPages s' q) = content s (c # bs) off)"
  using assms unfolding filled_def by blast+

lemma filled_refl: "cache_ok s \<Longrightarrow> filled s s cs off"
  by (simp add: filled_def)

lemma filled_longer:
  assumes f: "filled s t cs off"
  shows "filled s t (c # cs) off"
proof -
  have "off' = off \<and> (\<forall>p. \<not> owns s p c' off) \<and> \<not> IsBusy q t \<and> (\<exists>as bs. c # cs = as @ c' # bs \<and> fData (fPages t q) = content s (c' # bs) off)"
    if "owns t q c' off'" "\<not> owns s q c' off'" for q c' off'
    using filledD(8) [OF f that] by (metis append_Cons)
  moreover have "spare s - int (length (c # cs)) \<le> spare t"
    using filledD(5) [OF f] by simp
  ultimately show ?thesis
    using filledD(1-4, 6-7) [OF f] unfolding filled_def by blast
qed

text \<open>No cache holds anything else afterwards.\<close>

lemma filled_content:
  assumes f: "filled s s' cs off" and ok: "cache_ok s" and ch: "is_chain (source s) ds" "is_chain (source s) cs"
  shows "content s' ds off' = content s ds off'"
  using ch(1)
proof (induction ds)
  case (Cons c ds)
  have tail: "content s' ds off' = content s ds off'"
    using Cons by (cases ds) auto
  show ?case
  proof (cases "\<exists>p. owns s p c off'")
    case True
    then obtain p where p: "owns s p c off'"
      by blast
    then have "fPages s' p = fPages s p"
      using filledD(6) [OF f] cache_okD(7) [OF ok p] by (simp add: owns_def)
    then show ?thesis
      using content_owned [OF ok p] content_owned [OF filledD(1) [OF f] filledD(7) [OF f p]] by simp
  next
    case old: False
    show ?thesis
    proof (cases "\<exists>p. owns s' p c off'")
      case True
      then obtain p where p: "owns s' p c off'"
        by blast
      then obtain as bs where n: "off' = off" "cs = as @ c # bs" "fData (fPages s' p) = content s (c # bs) off"
        using filledD(8) [OF f p] old by blast
      have "bs = ds"
        using is_chain_suffix [of "source s" as c bs] ch(2) n(2) is_chain_unique Cons.prems by blast
      then show ?thesis
        using content_owned [OF filledD(1) [OF f] p] n by simp
    next
      case False
      then have "LookupPage c off' s' = None" "LookupPage c off' s = None"
        using old by (simp_all add: Lookup_None [OF ok] Lookup_None [OF filledD(1) [OF f]])
      then show ?thesis
        using tail filledD(3) [OF f] by (auto split: option.splits sum.splits)
    qed
  qed
qed simp

section \<open>The steps of GetPage\<close>

text \<open>A new page in a cache that has none at the offset; all others stay.\<close>

definition with_page :: "('d::zero, 'x) vm_scheme \<Rightarrow> ('d, 'x) vm_scheme \<Rightarrow> nat \<Rightarrow> nat \<Rightarrow> int \<Rightarrow> bool" where
  "with_page s s' p c off \<longleftrightarrow> cache_ok s' \<and> source s' = source s \<and> backing s' = backing s \<and> fPageCount s' = fPageCount s \<and>
     spare s' = spare s - 1 \<and> p < fPageCount s \<and> \<not> is_spare (fState (fPages s' p)) \<and> (\<forall>c off. \<not> owns s p c off) \<and> is_spare (fState (fPages s p)) \<and>
     (\<forall>q c' off'. owns s' q c' off' \<longleftrightarrow> (if q = p then c' = c \<and> off' = off else owns s q c' off')) \<and>
     (\<forall>q. q \<noteq> p \<longrightarrow> fPages s' q = fPages s q)"

lemma with_pageD:
  assumes "with_page s s' p c off"
  shows "cache_ok s'" "source s' = source s" "backing s' = backing s" "fPageCount s' = fPageCount s" "spare s' = spare s - 1" "p < fPageCount s"
    "\<not> is_spare (fState (fPages s' p))" "\<not> owns s p c' off'" "owns s' q c' off' \<longleftrightarrow> (if q = p then c' = c \<and> off' = off else owns s q c' off')"
    "q \<noteq> p \<Longrightarrow> fPages s' q = fPages s q" "is_spare (fState (fPages s p))"
  using assms unfolding with_page_def by blast+

lemma Alloc_cache_cases:
  assumes ok: "cache_ok s"
  obtains "spare s = 0" "Alloc cl s = Inl Blocks" | p s' where "Alloc cl s = Inr (p, s')" "is_spare (fState (fPages s p))"
  using Alloc_ok [OF cache_okD(1) [OF ok], of cl] by (auto split: if_splits)

lemma inserted_page:
  assumes ok: "cache_ok s" and a: "Alloc cl s = Inr (p, s1)" "is_spare (fState (fPages s p))" and c: "source s c \<noteq> None" "\<And>q. \<not> owns s q c off"
  shows "with_page s (InsertPage c off p s1) p c off \<and> fState (fPages (InsertPage c off p s1) p) = kPageTransition \<and>
    (cl \<longrightarrow> fData (fPages (InsertPage c off p s1) p) = 0)"
proof -
  note al = Alloc_cache [OF ok a(1)] vm_Alloc [OF a(1)]
  have src: "source s1 = source s"
    using al by (simp add: source_def fun_eq_iff)
  have free: "\<not> owns s1 p c' off'" for c' off'
    using al(4, 5) by simp
  have "cache_ok (InsertPage c off p s1)"
    using al c src free by (intro Insert_cache) (simp_all add: is_spare_def)
  moreover have "owns (InsertPage c off p s1) q c' off' \<longleftrightarrow> (if q = p then c' = c \<and> off' = off else owns s q c' off')" for q c' off'
    using owns_Insert [of p s1 c off q c' off'] al by simp
  ultimately show ?thesis
    using al src a(2) by (simp add: with_page_def is_spare_def)
qed

lemma SetBusy_transition: "fState (fPages s p) = kPageTransition \<Longrightarrow> SetBusy p s = s"
proof -
  assume "fState (fPages s p) = kPageTransition"
  moreover from this have "(fPages s)(p := (fPages s p)\<lparr>fState := kPageTransition\<rparr>) = fPages s"
    by (intro fun_upd_idem) (metis page.surjective page.update_convs(1))
  then have "s\<lparr>fPages := (fPages s)(p := (fPages s p)\<lparr>fState := kPageTransition\<rparr>)\<rparr> = s"
    by simp
  ultimately show ?thesis
    by (simp add: SetBusy_def MoveToQueue_def leave_state_def enter_state_def set_page_def)
qed

lemma busy_page_cases:
  assumes ok: "cache_ok s" and c: "source s c \<noteq> None" "\<And>q. \<not> owns s q c off"
  obtains "spare s = 0" "busy_page c off s = Inl Blocks"
  | p s' where "busy_page c off s = Inr (p, s')" "with_page s s' p c off" "fState (fPages s' p) = kPageTransition"
proof (cases rule: Alloc_cache_cases [OF ok, of False])
  case 1
  then show ?thesis
    using that(1) by (simp add: busy_page_def)
next
  case (2 p s1)
  have "SetBusy p s1 = s1"
    using Alloc_cache(7) [OF ok 2(1)] by (rule SetBusy_transition)
  then show ?thesis
    using that(2) [of p "InsertPage c off p s1"] inserted_page [OF ok 2 c] 2(1) by (simp add: busy_page_def)
qed

lemma drop_new_page:
  assumes w: "with_page s s' p c off" and f: "filled s' t cs off" and c: "c \<notin> set cs" and ok: "cache_ok s"
  shows "filled s (drop_page c p t) cs off"
proof -
  note wd = with_pageD [OF w]
  have p: "owns s' p c off" "owns t p c off"
    using wd(9) filledD(7) [OF f] by simp_all
  note d = drop_page_cache [OF filledD(1) [OF f] p(2)]
  have cont: "content s' ds off = content s ds off" if "set ds \<subseteq> set cs" for ds
  proof (rule content_cong [OF ok wd(1, 3)])
    show "owns s' q c' off \<longleftrightarrow> owns s q c' off" if "c' \<in> set ds" for c' q
      using that \<open>set ds \<subseteq> set cs\<close> c wd(8, 9) by auto
    show "fData (fPages s' q) = fData (fPages s q)" if "owns s q c' off" for c' q
      using that wd(8, 10) by metis
  qed
  show ?thesis
    unfolding filled_def
  proof (intro conjI allI impI)
    fix q assume "q < fPageCount s" "\<not> is_spare (fState (fPages s q))"
    then show "fPages (drop_page c p t) q = fPages s q"
      using d(7) wd(4, 10, 11) filledD(6) [OF f] by metis
  next
    fix q c' off' assume "owns s q c' off'"
    then show "owns (drop_page c p t) q c' off'"
      using d(3) wd(8, 9) filledD(7) [OF f] by metis
  next
    fix q c' off' assume q: "owns (drop_page c p t) q c' off'" "\<not> owns s q c' off'"
    then have q': "q \<noteq> p" "owns t q c' off'" "\<not> owns s' q c' off'"
      using d(3) wd(9) by auto
    note n = filledD(8) [OF f q'(2, 3)]
    obtain as bs where ab: "cs = as @ c' # bs" "fData (fPages t q) = content s' (c' # bs) off"
      using n by blast
    show "off' = off"
      using n by simp
    fix r show "\<not> owns s r c' off"
      using n wd(8, 9) by metis
  next
    fix q c' off' assume q: "owns (drop_page c p t) q c' off'" "\<not> owns s q c' off'"
    then have q': "q \<noteq> p" "owns t q c' off'" "\<not> owns s' q c' off'"
      using d(3) wd(9) by auto
    note n = filledD(8) [OF f q'(2, 3)]
    show "\<not> IsBusy q (drop_page c p t)"
      using n d(7) [OF q'(1)] by (simp add: IsBusy_def)
    obtain as bs where ab: "cs = as @ c' # bs" "fData (fPages t q) = content s' (c' # bs) off"
      using n by blast
    then show "\<exists>as bs. cs = as @ c' # bs \<and> fData (fPages (drop_page c p t) q) = content s (c' # bs) off"
      using cont [of "c' # bs"] d(7) [OF q'(1)] by auto
  next
    show "cache_ok (drop_page c p t)" "source (drop_page c p t) = source s" "backing (drop_page c p t) = backing s" "fPageCount (drop_page c p t) = fPageCount s"
      using d(1, 4-6) wd(2-4) filledD(2-4) [OF f] by simp_all
    show "spare s - int (length cs) \<le> spare (drop_page c p t)"
      using d(2) wd(5) filledD(5) [OF f] by simp
  qed
qed

lemma keep_new_page:
  assumes w: "with_page s s' p c off" and f: "filled s' t cs off" and c: "c \<notin> set cs" and ok: "cache_ok s"
    and none: "\<And>q. \<not> owns s q c off" and d: "d = content s (c # cs) off"
  defines "u \<equiv> SetNotBusy p (set_data p d t)"
  shows "filled s u (c # cs) off" "owns u p c off" "\<not> IsBusy p u" "fData (fPages u p) = d"
proof -
  note wd = with_pageD [OF w]
  have p: "owns s' p c off" "owns t p c off" "p < fPageCount t" "fPages t p = fPages s' p"
    using wd filledD(4, 7) [OF f] filledD(6) [OF f, of p] by simp_all
  have nsp: "\<not> is_spare (fState (fPages t p))"
    using cache_okD(7) [OF filledD(1) [OF f] p(2)] .
  have u: "cache_ok u" "spare u = spare t" "owns u = owns t" "source u = source t" "backing u = backing t" "fPageCount u = fPageCount t"
      "\<And>q. q \<noteq> p \<Longrightarrow> fPages u q = fPages t q"
    using Move_cache [OF set_data_cache [OF filledD(1) [OF f] nsp, of d], of p kPageActive] p nsp
    by (simp_all add: u_def SetNotBusy_def is_spare_def)
  show o: "owns u p c off"
    using p u by simp
  show busy: "\<not> IsBusy p u" and data: "fData (fPages u p) = d"
    by (simp_all add: u_def SetNotBusy_def IsBusy_def)
  have cont: "content s' ds off = content s ds off" if "set ds \<subseteq> set cs" for ds
  proof (rule content_cong [OF ok wd(1, 3)])
    show "owns s' q c' off \<longleftrightarrow> owns s q c' off" if "c' \<in> set ds" for c' q
      using that \<open>set ds \<subseteq> set cs\<close> c wd(8, 9) by auto
    show "fData (fPages s' q) = fData (fPages s q)" if "owns s q c' off" for c' q
      using that wd(8, 10) by metis
  qed
  show "filled s u (c # cs) off"
    unfolding filled_def
  proof (intro conjI allI impI)
    fix q assume "q < fPageCount s" "\<not> is_spare (fState (fPages s q))"
    then show "fPages u q = fPages s q"
      using u(7) wd(4, 10, 11) filledD(6) [OF f] by metis
  next
    fix q c' off' assume "owns s q c' off'"
    then show "owns u q c' off'"
      using u(3) wd(8, 9) filledD(7) [OF f] by metis
  next
    fix q c' off' assume q: "owns u q c' off'" "\<not> owns s q c' off'"
    have "off' = off \<and> (\<forall>r. \<not> owns s r c' off) \<and> \<not> IsBusy q u \<and> (\<exists>as bs. c # cs = as @ c' # bs \<and> fData (fPages u q) = content s (c' # bs) off)"
    proof (cases "q = p")
      case True
      then have "c' = c" "off' = off"
        using q(1) p(2) u(3) by (auto simp: owns_def)
      then show ?thesis
        using True none busy data d by auto
    next
      case False
      then have q': "owns t q c' off'" "\<not> owns s' q c' off'"
        using q u(3) wd(9) by auto
      note n = filledD(8) [OF f q']
      then obtain as bs where ab: "cs = as @ c' # bs" "fData (fPages t q) = content s' (c' # bs) off"
        by blast
      have "\<forall>r. \<not> owns s r c' off"
        using n wd(8, 9) by metis
      moreover have "c # cs = (c # as) @ c' # bs \<and> fData (fPages u q) = content s (c' # bs) off"
        using ab cont [of "c' # bs"] u(7) [OF False] by auto
      ultimately show ?thesis
        using n u(7) [OF False] by (metis IsBusy_def)
    qed
    then show "off' = off" "\<And>r. \<not> owns s r c' off" "\<not> IsBusy q u" "\<exists>as bs. c # cs = as @ c' # bs \<and> fData (fPages u q) = content s (c' # bs) off"
      by blast+
  next
    show "cache_ok u" "source u = source s" "backing u = backing s" "fPageCount u = fPageCount s"
      using u(1, 4-6) wd(2-4) filledD(2-4) [OF f] by simp_all
    show "spare s - int (length (c # cs)) \<le> spare u"
      using u(2) wd(5) filledD(5) [OF f] by simp
  qed
qed

lemma filled_alike:
  assumes ok: "cache_ok s" and f: "filled s s0 [] off" "filled s0 t cs off"
  shows "filled s t cs off" "owns s0 = owns s" "content s0 ds off = content s ds off"
proof -
  show o: "owns s0 = owns s"
    using filledD(7, 8) [OF f(1)] by (intro ext iffI) blast+
  have pg: "owns s q c off' \<Longrightarrow> fPages s0 q = fPages s q" for q c off'
    using filledD(6) [OF f(1)] cache_okD(7) [OF ok] by (simp add: owns_def)
  have e: "content s0 = content s"
  proof (intro ext)
    fix ds off show "content s0 ds off = content s ds off"
      using o pg by (intro content_cong [OF ok filledD(1, 3) [OF f(1)]]) auto
  qed
  then show "content s0 ds off = content s ds off"
    by simp
  show "filled s t cs off"
    unfolding filled_def
  proof (intro conjI allI impI)
    fix q assume "q < fPageCount s" "\<not> is_spare (fState (fPages s q))"
    then show "fPages t q = fPages s q"
      using filledD(4, 6) [OF f(1)] filledD(6) [OF f(2)] by metis
  next
    fix q c off' assume "owns t q c off'" "\<not> owns s q c off'"
    then show "off' = off" "\<And>r. \<not> owns s r c off" "\<not> IsBusy q t" "\<exists>as bs. cs = as @ c # bs \<and> fData (fPages t q) = content s (c # bs) off"
      using filledD(8) [OF f(2), of q c off'] unfolding o e by blast+
  qed (use filledD [OF f(1)] filledD [OF f(2)] o in simp_all)
qed

lemma read_page_cases:
  assumes ok: "cache_ok s" and c: "source s c \<noteq> None" "\<And>q. \<not> owns s q c off" "c \<notin> set cs"
  obtains "spare s = 0" "read_page c off s = Inl Blocks"
  | p s' where "read_page c off s = Inr (Some p, s')" "filled s s' (c # cs) off" "owns s' p c off" "\<not> IsBusy p s'"
      "fData (fPages s' p) = content s (c # cs) off"
  | s0 where "read_page c off s = Inr (None, s0)" "filled s s0 [] off" "content s (c # cs) off = content s cs off"
proof -
  have look: "LookupPage c off s = None"
    using c(2) by (simp add: Lookup_None [OF ok])
  show ?thesis
  proof (cases "backing s c off")
    case None
    then show ?thesis
      using that(3) [of s] look filled_refl [OF ok] by (simp add: read_page_def)
  next
    case (Some r)
    show ?thesis
    proof (cases rule: busy_page_cases [OF ok c(1, 2)])
      case 1
      then show ?thesis
        using that(1) Some by (simp add: read_page_def)
    next
      case (2 p s1)
      note rf = filled_refl [OF with_pageD(1) [OF 2(2)]]
      show ?thesis
      proof (cases r)
        case (Inl err)
        then show ?thesis
          using that(3) [of "drop_page c p s1"] Some 2(1) look drop_new_page [OF 2(2) rf _ ok, of "[]"] by (simp add: read_page_def)
      next
        case (Inr d)
        then have d: "d = content s (c # cs) off"
          using Some look by simp
        show ?thesis
          using that(2) [of p "SetNotBusy p (set_data p d s1)"] keep_new_page [OF 2(2) rf c(3) ok c(2) d] Some Inr 2(1) d
          by (simp add: read_page_def)
      qed
    qed
  qed
qed

definition got_page :: "('d::zero, 'x) vm_scheme \<Rightarrow> ('d, 'x) vm_scheme \<Rightarrow> nat \<Rightarrow> nat list \<Rightarrow> int \<Rightarrow> bool \<Rightarrow> bool" where
  "got_page s s' p cs off priv \<longleftrightarrow> filled s s' cs off \<and> fData (fPages s' p) = content s cs off \<and> \<not> IsBusy p s' \<and>
     (\<exists>c \<in> set cs. owns s' p c off) \<and> (priv \<longrightarrow> owns s' p (hd cs) off)"

lemma got_pageI: "filled s s' (c # cs) off \<Longrightarrow> owns s' p c off \<Longrightarrow> \<not> IsBusy p s' \<Longrightarrow> fData (fPages s' p) = content s (c # cs) off \<Longrightarrow>
    got_page s s' p (c # cs) off priv"
  by (auto simp: got_page_def)

lemma set_data_same: "fData (fPages s p) = d \<Longrightarrow> set_data p d s = s"
proof -
  assume "fData (fPages s p) = d"
  then have "(fPages s)(p := (fPages s p)\<lparr>fData := d\<rparr>) = fPages s"
    by (intro fun_upd_idem) (metis page.surjective page.update_convs(4))
  then show ?thesis
    by (simp add: set_data_def set_page_def)
qed

lemma zero_page_cases:
  assumes ok: "cache_ok s" and c: "source s c \<noteq> None" "\<And>q. \<not> owns s q c off" and z: "content s [c] off = 0"
  obtains "spare s = 0" "zero_page c off s = Inl Blocks"
  | p s' where "zero_page c off s = Inr (Some p, s')" "got_page s s' p [c] off priv"
proof (cases rule: Alloc_cache_cases [OF ok, of True])
  case 1
  then show ?thesis
    using that(1) by (simp add: zero_page_def)
next
  case (2 p s1)
  note w = inserted_page [OF ok 2 c]
  have same: "set_data p 0 (InsertPage c off p s1) = InsertPage c off p s1"
    using w by (intro set_data_same) simp
  have "filled (InsertPage c off p s1) (InsertPage c off p s1) [] off"
    using w by (intro filled_refl) (auto dest: with_pageD(1))
  note k = keep_new_page [OF conjunct1 [OF w] this _ ok c(2) z [symmetric], unfolded same]
  show ?thesis
    using that(2) [of p "SetNotBusy p (InsertPage c off p s1)"] k z 2(1)
    by (simp add: zero_page_def got_page_def del: content.simps)
qed

lemma GetPage_spec:
  assumes "cache_ok s" "is_chain (source s) (c # cs)" "distinct (c # cs)" "length (c # cs) \<le> n" "priv \<longrightarrow> cs \<noteq> []"
    "\<And>q c'. c' \<in> set (c # cs) \<Longrightarrow> owns s q c' off \<Longrightarrow> \<not> IsBusy q s"
  shows "(GetPage n c off priv s = Inl Blocks \<and> spare s < int (length (c # cs))) \<or>
    (\<exists>p s'. GetPage n c off priv s = Inr (Some p, s') \<and> got_page s s' p (c # cs) off priv)"
  using assms
proof (induction n arbitrary: c cs priv s)
  case (Suc n)
  note ok = Suc.prems(1)
  have src: "source s c \<noteq> None" and c: "c \<notin> set cs"
    using Suc.prems(2, 3) by (cases cs; simp)+
  obtain k where k: "caches s c = Some k" "fSourceCache k = (case cs of [] \<Rightarrow> None | c' # _ \<Rightarrow> Some c')"
    using Suc.prems(2) by (cases cs) (auto simp: source_def)
  show ?case
  proof (cases "LookupPage c off s")
    case (Some q)
    then have q: "owns s q c off"
      using Lookup_owns [OF ok] by simp
    then have "\<not> IsBusy q s"
      using Suc.prems(6) [of c q] by simp
    then have "GetPage (Suc n) c off priv s = Inr (Some q, s)"
      using k Some by (cases cs) (simp_all add: find_page_def Let_def)
    then show ?thesis
      using got_pageI [OF filled_refl [OF ok] q] content_owned [OF ok q] \<open>\<not> IsBusy q s\<close> by auto
  next
    case None
    then have none: "\<not> owns s q c off" for q
      using Lookup_None [OF ok] by simp
    show ?thesis
    proof (cases rule: read_page_cases [OF ok src none c])
      case 1
      then show ?thesis
        using k None by (simp add: find_page_def Let_def)
    next
      case (2 p s')
      have "GetPage (Suc n) c off priv s = Inr (Some p, s')"
        using k None 2(1) by (cases cs) (simp_all add: find_page_def Let_def)
      then show ?thesis
        using got_pageI 2 by blast
    next
      case (3 s0)
      note f0 = 3(2)
      have ok0: "cache_ok s0" and o0: "owns s0 = owns s" and src0: "source s0 = source s"
        using filledD(1, 2) [OF f0] filled_alike(2) [OF ok f0 filled_refl] by blast+
      have from0: "got_page s t p (c # cs) off priv" if "got_page s0 t p (c # cs) off priv" for t p
        using that filled_alike(1) [OF ok f0, where t = t and cs = "c # cs"] filled_alike(3) [OF ok f0 filled_refl [OF ok0], where ds = "c # cs"]
        by (auto simp: got_page_def simp del: content.simps)
      have spare0: "spare s \<le> spare s0"
        using filledD(5) [OF f0] by simp
      have none0: "\<not> owns s0 q c off" for q
        using none o0 by simp
      have src0': "source s0 c \<noteq> None"
        using src src0 by simp
      have cont: "content s0 (c # cs) off = content s0 cs off"
        using 3(3) filled_alike(3) [OF ok f0 filled_refl [OF ok0]] by (simp del: content.simps)
      show ?thesis
      proof (cases cs)
        case Nil
        have run: "GetPage (Suc n) c off priv s = zero_page c off s0"
          using k None 3(1) Suc.prems(5) Nil by (simp add: find_page_def Let_def)
        have z: "content s0 [c] off = 0"
          using cont Nil by simp
        show ?thesis
        proof (cases rule: zero_page_cases [OF ok0 src0' none0 z, where priv = priv])
          case 1
          then show ?thesis
            using run spare0 by simp
        next
          case (2 p t)
          then show ?thesis
            using run from0 Nil by auto
        qed
      next
        case (Cons c' cs')
        have kc: "fSourceCache k = Some c'"
          using k(2) Cons by simp
        show ?thesis
        proof (cases rule: busy_page_cases [OF ok0 src0' none0])
          case 1
          have "GetPage (Suc n) c off priv s = Inl Blocks"
            using k(1) kc None 3(1) 1(2) by (cases priv) (simp_all add: find_page_def Let_def copy_page_def share_page_def)
          then show ?thesis
            using 1(1) spare0 by simp
        next
          case (2 p s1)
          note wd = with_pageD [OF 2(2)]
          have "q \<noteq> p \<and> owns s q d off" if "d \<in> set cs" "owns s1 q d off" for q d
            using that wd(9) o0 c by metis
          moreover have "fState (fPages s1 q) = fState (fPages s q)" if "owns s q d off" "q \<noteq> p" for q d
            using wd(10) [OF that(2)] filledD(6) [OF f0, of q] cache_okD(7) [OF ok that(1)] that(1) by (simp add: owns_def)
          ultimately have idle: "\<not> IsBusy q s1" if "d \<in> set cs" "owns s1 q d off" for q d
            using that Suc.prems(6) [of d q] by (simp add: IsBusy_def) metis
          have IH: "(GetPage n c' off False s1 = Inl Blocks \<and> spare s1 < int (length cs)) \<or>
              (\<exists>q t. GetPage n c' off False s1 = Inr (Some q, t) \<and> got_page s1 t q cs off False)"
            unfolding Cons using Suc.prems(2-4) wd(1, 2) src0 idle Cons by (intro Suc.IH) auto
          have cont1: "content s1 cs off = content s0 cs off"
          proof (rule content_cong [OF ok0 wd(1, 3)])
            show "owns s1 q d off \<longleftrightarrow> owns s0 q d off" if "d \<in> set cs" for d q
              using that c wd(8, 9) by auto
            show "fData (fPages s1 q) = fData (fPages s0 q)" if "owns s0 q d off" for d q
              using that wd(8, 10) by metis
          qed
          from IH show ?thesis
          proof (elim disjE exE conjE)
            assume b: "GetPage n c' off False s1 = Inl Blocks" "spare s1 < int (length cs)"
            have "GetPage (Suc n) c off priv s = Inl Blocks"
              using k(1) kc None 3(1) 2(1) b(1) by (cases priv) (simp_all add: find_page_def Let_def copy_page_def share_page_def)
            then show ?thesis
              using b(2) wd(5) spare0 by simp
          next
            fix q t assume g: "GetPage n c' off False s1 = Inr (Some q, t)" "got_page s1 t q cs off False"
            have ft: "filled s1 t cs off" and qd: "fData (fPages t q) = content s0 cs off" and qb: "\<not> IsBusy q t"
              using g(2) cont1 by (simp_all add: got_page_def)
            show ?thesis
            proof (cases priv)
              case True
              define u where "u = SetNotBusy p (set_data p (content s0 (c # cs) off) t)"
              have "GetPage (Suc n) c off priv s = Inr (Some p, u)"
                using k(1) kc None 3(1) 2(1) g(1) qd cont True by (simp add: find_page_def Let_def copy_page_def u_def del: content.simps)
              moreover have "got_page s0 u p (c # cs) off priv"
                using keep_new_page [OF 2(2) ft c ok0 none0 refl] unfolding u_def by (intro got_pageI)
              ultimately show ?thesis
                using from0 by blast
            next
              case False
              define u where "u = drop_page c p t"
              have run: "GetPage (Suc n) c off priv s = Inr (Some q, u)"
                using k(1) kc None 3(1) 2(1) g(1) False by (simp add: find_page_def Let_def share_page_def u_def)
              obtain d where d: "d \<in> set cs" "owns t q d off"
                using g(2) by (auto simp: got_page_def)
              have p: "owns t p c off"
                using wd(9) filledD(7) [OF ft] by simp
              then have qp: "q \<noteq> p"
                using d c by (auto simp: owns_def)
              note dr = drop_page_cache [OF filledD(1) [OF ft] p]
              have "filled s0 u cs off"
                unfolding u_def by (rule drop_new_page [OF 2(2) ft c ok0])
              then have "filled s0 u (c # cs) off"
                by (rule filled_longer)
              moreover have "fData (fPages u q) = content s0 (c # cs) off" "\<not> IsBusy q u" "owns u q d off"
                using dr(3, 7) qp qd qb d(2) cont by (simp_all add: u_def IsBusy_def)
              ultimately have "got_page s0 u q (c # cs) off priv"
                using False d(1) by (auto simp: got_page_def simp del: content.simps)
              then show ?thesis
                using from0 run by blast
            qed
          qed
        qed
      qed
    qed
  qed
qed simp

section \<open>Reachable states\<close>

lemma drop_pages_cache:
  "cache_ok s \<Longrightarrow> distinct ps \<Longrightarrow> (\<And>p. p \<in> set ps \<Longrightarrow> \<exists>off. owns s p c off) \<Longrightarrow>
    cache_ok (fold (\<lambda>p s. drop_page c p s) ps s) \<and> source (fold (\<lambda>p s. drop_page c p s) ps s) = source s \<and>
    (\<forall>q d off. owns (fold (\<lambda>p s. drop_page c p s) ps s) q d off \<longleftrightarrow> q \<notin> set ps \<and> owns s q d off) \<and>
    (\<forall>q. q \<notin> set ps \<longrightarrow> fPages (fold (\<lambda>p s. drop_page c p s) ps s) q = fPages s q)"
proof (induction ps arbitrary: s)
  case (Cons p ps)
  obtain off where p: "owns s p c off"
    using Cons.prems(3) [of p] by auto
  note d = drop_page_cache [OF Cons.prems(1) p]
  have "\<exists>off. owns (drop_page c p s) q c off" if "q \<in> set ps" for q
    using Cons.prems(2) Cons.prems(3) [of q] that d(3) by auto
  then show ?case
    using Cons.IH [OF d(1)] Cons.prems(2) d by auto
qed simp

lemma drop_all_cache:
  assumes "cache_ok s"
  shows "cache_ok (drop_all c s)" "source (drop_all c s) = source s" "owns (drop_all c s) q d off \<longleftrightarrow> d \<noteq> c \<and> owns s q d off"
    "owns (drop_all c s) q d off \<Longrightarrow> fPages (drop_all c s) q = fPages s q"
proof -
  have mem: "q \<in> set (resident s c) \<longleftrightarrow> (\<exists>off. owns s q c off)" for q
    using cache_okD(5) [OF assms, of c] by blast
  note d = drop_pages_cache [OF assms cache_okD(4) [OF assms, of c], of c, folded drop_all_def]
  show "cache_ok (drop_all c s)" "source (drop_all c s) = source s"
    using d mem by blast+
  show o: "owns (drop_all c s) q d off \<longleftrightarrow> d \<noteq> c \<and> owns s q d off"
    using d mem by (auto simp: owns_def)
  then show "owns (drop_all c s) q d off \<Longrightarrow> fPages (drop_all c s) q = fPages s q"
    using d mem by (metis owns_def option.inject)
qed

text \<open>Caches are made, over stores or over caches that are there; pages are got, written to by whoever has them mapped,
  stolen for other uses, wired; references are taken and given back, and a cache without copies that nobody needs is
  deleted.\<close>

inductive vm_reach :: "'d::zero vm \<Rightarrow> bool" where
  boot: "vm_reach (cache_Bootstrap (page_Bootstrap memsize contents))"
| new: "vm_reach s \<Longrightarrow> caches s c = None \<Longrightarrow> (\<And>c'. src = Some c' \<Longrightarrow> caches s c' \<noteq> None) \<Longrightarrow> vm_reach (new_cache c st src s)"
| get: "vm_reach s \<Longrightarrow> is_chain (source s) (c # cs) \<Longrightarrow> length (c # cs) \<le> n \<Longrightarrow> (priv \<Longrightarrow> cs \<noteq> []) \<Longrightarrow>
    GetPage n c off priv s = Inr (r, s') \<Longrightarrow> vm_reach s'"
| store: "vm_reach s \<Longrightarrow> owns s p c off \<Longrightarrow> vm_reach (set_data p d s)"
| steal: "vm_reach s \<Longrightarrow> owns s p c off \<Longrightarrow> vm_reach (Free p (StealPage c p m s))"
| wire: "vm_reach s \<Longrightarrow> owns s p c off \<Longrightarrow> f \<in> {Wire, Unwire} \<Longrightarrow> vm_reach (f p s)"
| acquire: "vm_reach s \<Longrightarrow> vm_reach (cache_AcquireRef c s)"
| unref: "vm_reach s \<Longrightarrow> caches s c = Some k \<Longrightarrow> fCacheRefs k \<noteq> 1 \<Longrightarrow> cache_ReleaseRef c s = Inr s' \<Longrightarrow> vm_reach s'"
| release: "vm_reach s \<Longrightarrow> (\<And>c'. source s c' \<noteq> Some (Some c)) \<Longrightarrow> cache_ReleaseRef c s = Inr s' \<Longrightarrow> vm_reach s'"

definition caches_ok :: "('d::zero, 'x) vm_scheme \<Rightarrow> bool" where
  "caches_ok s \<longleftrightarrow> cache_ok s \<and> (\<forall>p c off. owns s p c off \<longrightarrow> \<not> IsBusy p s) \<and>
     (\<forall>c. source s c \<noteq> None \<longrightarrow> (\<exists>cs. is_chain (source s) (c # cs) \<and> distinct (c # cs)))"

lemma caches_okD:
  assumes "caches_ok s"
  shows "cache_ok s" "owns s p c off \<Longrightarrow> \<not> IsBusy p s" "source s c \<noteq> None \<Longrightarrow> \<exists>cs. is_chain (source s) (c # cs) \<and> distinct (c # cs)"
  using assms unfolding caches_ok_def by blast+

lemma chain_exists: "is_chain src cs \<Longrightarrow> c \<in> set cs \<Longrightarrow> src c \<noteq> None"
  by (induction src cs rule: is_chain.induct) auto

lemma caches_ok_chain:
  assumes "caches_ok s" "is_chain (source s) (c # cs)"
  shows "distinct (c # cs)"
proof -
  have "source s c \<noteq> None"
    using chain_exists [OF assms(2), of c] by simp
  then obtain ds where "is_chain (source s) (c # ds)" "distinct (c # ds)"
    using caches_okD(3) [OF assms(1)] by blast
  then show ?thesis
    using is_chain_unique assms(2) by blast
qed

lemma GetPage_vm:
  assumes ok: "caches_ok s" and ch: "is_chain (source s) (c # cs)" and n: "length (c # cs) \<le> n" and pr: "priv \<Longrightarrow> cs \<noteq> []"
  shows "(GetPage n c off priv s = Inl Blocks \<and> spare s < int (length (c # cs))) \<or>
    (\<exists>p s'. GetPage n c off priv s = Inr (Some p, s') \<and> got_page s s' p (c # cs) off priv \<and> caches_ok s')"
proof -
  have "caches_ok s'" if "filled s s' (c # cs) off" for s'
    unfolding caches_ok_def
  proof (intro conjI allI impI)
    fix p d off' assume p: "owns s' p d off'"
    show "\<not> IsBusy p s'"
    proof (cases "owns s p d off'")
      case True
      then show ?thesis
        using caches_okD(2) [OF ok True] filledD(6) [OF that, of p] cache_okD(7) [OF caches_okD(1) [OF ok] True] by (simp add: owns_def IsBusy_def)
    qed (use filledD(8) [OF that p] in blast)
  qed (use filledD [OF that] caches_okD [OF ok] in simp_all)
  then show ?thesis
    using GetPage_spec [OF caches_okD(1) [OF ok] ch caches_ok_chain [OF ok ch] n, of priv off] pr caches_okD(2) [OF ok]
    by (auto simp: got_page_def simp del: content.simps GetPage.simps)
qed

lemma vm_start: "caches_ok (cache_Bootstrap (page_Bootstrap memsize contents))"
proof -
  let ?s = "cache_Bootstrap (page_Bootstrap memsize contents)"
  have no: "\<not> owns ?s p c off" for p c off
    by (simp add: owns_def cache_Bootstrap_def page_Bootstrap_def Let_def page_db.defs)
  have "pages_ok ?s"
    by (auto simp: cache_Bootstrap_def pages_ok_def queues_ok_def queues_hold_def queue_is_def in_state_def clear_ok_def page_Bootstrap_def Let_def page_db.defs)
  then show ?thesis
    using no by (simp add: caches_ok_def cache_ok_def source_def) (simp add: cache_Bootstrap_def resident_def page_db.defs)
qed

text \<open>A change of the caches' records that keeps the lists of pages.\<close>

lemma cache_ok_caches:
  assumes "cache_ok s" "\<And>c. resident (s\<lparr>caches := k\<rparr>) c = resident s c"
  shows "cache_ok (s\<lparr>caches := k\<rparr>)" "owns (s\<lparr>caches := k\<rparr>) = owns s"
proof -
  show o: "owns (s\<lparr>caches := k\<rparr>) = owns s"
    by (simp add: owns_def fun_eq_iff)
  have "pages_ok (s\<lparr>caches := k\<rparr>) = pages_ok s"
    by (simp add: pages_ok_def queues_ok_def queues_hold_def in_state_def clear_ok_def)
  moreover have "bucket (s\<lparr>caches := k\<rparr>) = bucket s"
    by (rule bucket_cong) simp
  ultimately show "cache_ok (s\<lparr>caches := k\<rparr>)"
    using assms unfolding cache_ok_def o by simp
qed

lemma cache_ok_backing: "cache_ok (s\<lparr>backing := b\<rparr>) = cache_ok s" "owns (s\<lparr>backing := b\<rparr>) = owns s" "source (s\<lparr>backing := b\<rparr>) = source s"
proof -
  show o: "owns (s\<lparr>backing := b\<rparr>) = owns s" "source (s\<lparr>backing := b\<rparr>) = source s"
    by (simp_all add: owns_def source_def fun_eq_iff)
  have "bucket (s\<lparr>backing := b\<rparr>) = bucket s" "resident (s\<lparr>backing := b\<rparr>) = resident s"
    by (rule bucket_cong, simp) (simp add: resident_def fun_eq_iff)
  then show "cache_ok (s\<lparr>backing := b\<rparr>) = cache_ok s"
    unfolding cache_ok_def o by simp
qed

lemma is_chain_cong: "(\<And>c. c \<in> set cs \<Longrightarrow> src' c = src c) \<Longrightarrow> is_chain src' cs = is_chain src cs"
  by (induction src cs rule: is_chain.induct) auto

lemma count_refs_ok:
  assumes "caches_ok s"
  shows "caches_ok (upd_cache c (\<lambda>k. k\<lparr>fCacheRefs := f k\<rparr>) s)"
proof -
  have r: "resident (upd_cache c (\<lambda>k. k\<lparr>fCacheRefs := f k\<rparr>) s) d = resident s d" and so: "source (upd_cache c (\<lambda>k. k\<lparr>fCacheRefs := f k\<rparr>) s) = source s" for d
    by (auto simp: upd_cache_def resident_def source_def fun_eq_iff option.map_comp comp_def split: option.splits)
  then show ?thesis
    using cache_ok_caches [OF caches_okD(1) [OF assms], of "(caches s)(c := map_option (\<lambda>k. k\<lparr>fCacheRefs := f k\<rparr>) (caches s c))"] caches_okD(2, 3) [OF assms]
    unfolding caches_ok_def so by (simp add: upd_cache_def IsBusy_def)
qed

lemma new_cache_ok:
  assumes ok: "caches_ok s" and c: "caches s c = None" and src: "\<And>c'. src = Some c' \<Longrightarrow> caches s c' \<noteq> None"
  shows "caches_ok (new_cache c st src s)"
proof -
  define s1 where "s1 = (case src of None \<Rightarrow> s | Some c' \<Rightarrow> cache_AcquireRef c' s)"
  have ok1: "caches_ok s1"
    using ok count_refs_ok by (auto simp: s1_def cache_AcquireRef_def split: option.splits)
  have c1: "caches s1 c = None" "source s1 = source s"
    using c by (auto simp: s1_def cache_AcquireRef_def upd_cache_def source_def fun_eq_iff option.map_comp comp_def split: option.splits)
  define s2 where "s2 = s1\<lparr>caches := (caches s1)(c := Some \<lparr>fSourceCache = src, fResidentPages = [], fCacheRefs = 0\<rparr>)\<rparr>"
  have r: "resident s2 d = resident s1 d" for d
    using c1(1) by (simp add: s2_def resident_def)
  have s2: "cache_ok s2" "owns s2 = owns s1" "source s2 = (source s1)(c := Some src)"
    using cache_ok_caches [OF caches_okD(1) [OF ok1] r [unfolded s2_def]] by (simp_all add: s2_def source_def fun_eq_iff)
  have old: "is_chain (source s2) cs" if "is_chain (source s1) cs" for cs
  proof -
    have "c \<notin> set cs"
      using chain_exists [OF that, of c] c1(1) by (auto simp: source_def)
    then have "is_chain (source s2) cs = is_chain (source s1) cs"
      by (intro is_chain_cong) (auto simp: s2(3))
    then show ?thesis
      using that by simp
  qed
  have chains: "\<exists>cs. is_chain (source s2) (d # cs) \<and> distinct (d # cs)" if d: "source s2 d \<noteq> None" for d
  proof (cases "d = c")
    case False
    then show ?thesis
      using caches_okD(3) [OF ok1, of d] d old by (auto simp: s2(3))
  next
    case True
    show ?thesis
    proof (cases src)
      case None
      then show ?thesis
        using True by (intro exI [of _ "[]"]) (simp add: s2(3))
    next
      case (Some c')
      then have "source s1 c' \<noteq> None"
        using src [OF Some] by (simp add: c1(2)) (simp add: source_def)
      then obtain cs where cs: "is_chain (source s1) (c' # cs)" "distinct (c' # cs)"
        using caches_okD(3) [OF ok1] by blast
      then have "c \<notin> set (c' # cs)"
        using chain_exists [OF cs(1), of c] c1(1) by (auto simp: source_def)
      then show ?thesis
        using old [OF cs(1)] cs(2) True Some by (intro exI [of _ "c' # cs"]) (auto simp: s2(3))
    qed
  qed
  have "caches_ok s2"
    using s2(1, 2) caches_okD(2) [OF ok1] chains unfolding caches_ok_def by (simp add: s2_def IsBusy_def)
  moreover have "new_cache c st src s = s2\<lparr>backing := (backing s2)(c := st)\<rparr>"
    by (simp add: new_cache_def Let_def s2_def s1_def)
  ultimately show ?thesis
    by (simp add: caches_ok_def cache_ok_backing IsBusy_def)
qed

lemma StealPage_ok:
  assumes ok: "caches_ok s" and p: "owns s p c off"
  shows "caches_ok (Free p (StealPage c p m s))"
proof -
  have eq: "StealPage c p m s = (RemovePage c p s)\<lparr>backing := (if m then (backing s)(c := (backing s c)(fCacheOffset (fPages s p) := Some (Inr (fData (fPages s p))))) else backing s)\<rparr>"
    by (simp add: StealPage_def Let_def)
  note c = caches_okD(1) [OF ok]
  have r: "cache_ok (StealPage c p m s)" "p < fPageCount (StealPage c p m s)" "\<not> is_spare (fState (fPages (StealPage c p m s) p))"
      "\<And>c' off'. \<not> owns (StealPage c p m s) p c' off'" "source (StealPage c p m s) = source s"
      "\<And>q d off'. owns (StealPage c p m s) q d off' \<longleftrightarrow> q \<noteq> p \<and> owns s q d off'"
    using Remove_cache [OF c p] p cache_okD(7) [OF c p] unfolding eq cache_ok_backing by (auto simp: owns_Remove) (simp_all add: owns_def)
  have "fPages (Free p (StealPage c p m s)) q = fPages s q" if "q \<noteq> p" for q
    using that by (simp add: Free_def eq)
  then show ?thesis
    using Free_cache [OF r(1-4)] caches_okD(2, 3) [OF ok] r(5, 6) unfolding caches_ok_def
    by (auto simp: IsBusy_def) (simp_all add: Free_def)
qed

lemma release_ok:
  assumes ok: "caches_ok s" and no: "\<And>c'. source s c' \<noteq> Some (Some c)" and r: "cache_ReleaseRef c s = Inr s'"
  shows "caches_ok s'"
proof -
  obtain k where k: "caches s c = Some k"
    using r by (auto simp: cache_ReleaseRef_def split: option.splits)
  show ?thesis
  proof (cases "fCacheRefs k = 1")
    case False
    then have "s' = upd_cache c (\<lambda>k. k\<lparr>fCacheRefs := fCacheRefs k - 1\<rparr>) s"
      using r k by (simp add: cache_ReleaseRef_def)
    then show ?thesis
      using count_refs_ok [OF ok] by simp
  next
    case True
    define s1 where "s1 = drop_all c s"
    note d = drop_all_cache [OF caches_okD(1) [OF ok], of c, folded s1_def]
    have busy: "\<not> IsBusy p s1" if "owns s1 p e off" for p e off
      using d(4) [OF that] caches_okD(2) [OF ok, of p e off] that d(3) by (simp add: IsBusy_def)
    have ok1: "caches_ok s1"
      using d(1, 2) busy caches_okD(3) [OF ok] by (simp add: caches_ok_def)
    obtain s2 where s2: "s' = s2\<lparr>caches := (caches s2)(c := None)\<rparr>" "s2 = s1 \<or> (\<exists>c'. s2 = upd_cache c' (\<lambda>k. k\<lparr>fCacheRefs := fCacheRefs k - 1\<rparr>) s1)"
      using r k True by (auto simp: cache_ReleaseRef_def Let_def s1_def split: option.splits if_splits)
    have ok2: "caches_ok s2" and src2: "source s2 = source s" and own2: "owns s2 = owns s1"
      using s2(2) ok1 count_refs_ok [OF ok1] d(2)
      by (auto simp: upd_cache_def source_def owns_def fun_eq_iff option.map_comp comp_def split: option.splits)
    have "resident s2 c = []"
      using cache_okD(5) [OF caches_okD(1) [OF ok2], of c] d(3) by (auto simp: own2)
    then have res: "resident (s2\<lparr>caches := (caches s2)(c := None)\<rparr>) e = resident s2 e" for e
      by (simp add: resident_def)
    have src': "source s' = (source s)(c := None)"
      using src2 by (auto simp: s2(1) source_def fun_eq_iff)
    have chains: "\<exists>cs. is_chain (source s') (e # cs) \<and> distinct (e # cs)" if e: "source s' e \<noteq> None" for e
    proof -
      have "e \<noteq> c" "source s e \<noteq> None"
        using e by (auto simp: src' split: if_splits)
      then obtain cs where cs: "is_chain (source s) (e # cs)" "distinct (e # cs)"
        using caches_okD(3) [OF ok] by blast
      have "is_chain src (x # xs) \<Longrightarrow> (\<And>y. src y \<noteq> Some (Some z)) \<Longrightarrow> z \<notin> set xs" for src :: "nat \<Rightarrow> nat option option" and x z xs
        by (induction xs arbitrary: x) auto
      then have "c \<notin> set cs"
        using cs(1) no by blast
      then have "is_chain (source s') (e # cs) = is_chain (source s) (e # cs)"
        using \<open>e \<noteq> c\<close> by (intro is_chain_cong) (auto simp: src')
      then show ?thesis
        using cs by blast
    qed
    show ?thesis
      using cache_ok_caches [OF caches_okD(1) [OF ok2] res] caches_okD(2) [OF ok2] chains unfolding caches_ok_def
      by (simp add: s2(1) IsBusy_def)
  qed
qed

lemma vm_reach_ok: "vm_reach s \<Longrightarrow> caches_ok s"
proof (induction rule: vm_reach.induct)
  case (boot memsize contents)
  show ?case by (rule vm_start)
next
  case (new s c src st)
  then show ?case using new_cache_ok by blast
next
  case (get s c cs n priv off r s')
  then show ?case using GetPage_vm [of s c cs n priv off] by auto
next
  case (store s p c off)
  note c = caches_okD(1) [OF store.IH]
  have "cache_ok (set_data p d s)" for d
    using set_data_cache [OF c cache_okD(7) [OF c store.hyps(2)]] .
  then show ?case
    using caches_okD(2, 3) [OF store.IH] by (auto simp: caches_ok_def IsBusy_def)
next
  case (steal s p c off m)
  then show ?case using StealPage_ok by blast
next
  case (wire s p c off f)
  note c = caches_okD(1) [OF wire.IH]
  have "cache_ok (f p s)"
    using Move_cache(1) [OF c _ cache_okD(7) [OF c wire.hyps(2)]] wire.hyps(2, 3) by (auto simp: Wire_def Unwire_def is_spare_def owns_def)
  then show ?case
    using caches_okD(2, 3) [OF wire.IH] wire.hyps(3) by (auto simp: caches_ok_def IsBusy_def Wire_def Unwire_def split: if_splits)
next
  case (acquire s c)
  then show ?case using count_refs_ok [of s c "\<lambda>k. fCacheRefs k + 1"] by (simp add: cache_AcquireRef_def)
next
  case (unref s c k s')
  then have "s' = upd_cache c (\<lambda>k. k\<lparr>fCacheRefs := fCacheRefs k - 1\<rparr>) s"
    by (simp add: cache_ReleaseRef_def)
  then show ?case
    using count_refs_ok [OF unref.IH, of c "\<lambda>k. fCacheRefs k - 1"] by simp
next
  case (release s c s')
  then show ?case using release_ok by blast
qed

section \<open>The references to caches\<close>

text \<open>Counting a reference changes nothing else, and \<open>GetPage\<close> leaves all counts as they are.\<close>

definition count_refs :: "nat \<Rightarrow> (int \<Rightarrow> int) \<Rightarrow> ('d, 'x) vm_scheme \<Rightarrow> ('d, 'x) vm_scheme" where
  "count_refs c f = upd_cache c (\<lambda>k. k\<lparr>fCacheRefs := f (fCacheRefs k)\<rparr>)"

lemma count_refs_simps [simp]:
  "fPages (count_refs c f s) = fPages s" "backing (count_refs c f s) = backing s" "source (count_refs c f s) = source s"
  "owns (count_refs c f s) = owns s" "LookupPage d off (count_refs c f s) = LookupPage d off s" "spare (count_refs c f s) = spare s"
  by (auto simp: count_refs_def upd_cache_def source_def owns_def LookupPage_def bucket_def spare_def fun_eq_iff option.map_comp comp_def)

lemma count_refs_content [simp]: "content (count_refs c f s) cs off = content s cs off"
  by (induction cs) (simp_all split: option.split sum.split)

lemma cache_AcquireRef_count: "cache_AcquireRef c = count_refs c (\<lambda>n. n + 1)"
  by (simp add: cache_AcquireRef_def count_refs_def)

lemma cache_ReleaseRef_count: "caches s c = Some k \<Longrightarrow> fCacheRefs k \<noteq> 1 \<Longrightarrow> cache_ReleaseRef c s = Inr (count_refs c (\<lambda>n. n - 1) s)"
  by (simp add: cache_ReleaseRef_def count_refs_def)

definition refs :: "('d, 'x) vm_scheme \<Rightarrow> nat \<Rightarrow> int option" where
  "refs s c = map_option fCacheRefs (caches s c)"

lemma refs_simps [simp]:
  "refs (InsertPage c off p s) = refs s" "refs (RemovePage c p s) = refs s" "refs (MoveToQueue p st s) = refs s" "refs (set_data p d s) = refs s"
  by (auto simp: refs_def InsertPage_def RemovePage_def upd_cache_def Let_def fun_eq_iff option.map_comp comp_def)

definition same_refs :: "('d, 'x) vm_scheme \<Rightarrow> vm_error + 'a \<times> ('d, 'x) vm_scheme \<Rightarrow> bool" where
  "same_refs s r \<longleftrightarrow> (\<forall>x t. r = Inr (x, t) \<longrightarrow> refs t = refs s)"

lemma same_refs_simps [simp]: "same_refs s (Inl e)" "same_refs s (Inr (x, t)) \<longleftrightarrow> refs t = refs s"
  by (auto simp: same_refs_def)

lemma same_and_then:
  assumes "same_refs s r" "\<And>x t. refs t = refs s \<Longrightarrow> same_refs s (f (x, t))"
  shows "same_refs s (and_then r f)"
proof (cases r)
  case (Inr y)
  obtain x t where y: "y = (x, t)"
    by (cases y)
  then have "refs t = refs s"
    using assms(1) Inr by simp
  then show ?thesis
    using assms(2) Inr y by simp
qed simp

lemma refs_cong: "caches t = caches s \<Longrightarrow> refs t = refs s"
  by (rule ext) (simp add: refs_def)

lemma same_Alloc: "refs t = refs s \<Longrightarrow> same_refs s (Alloc cl t)"
  unfolding same_refs_def using vm_Alloc(1) refs_cong by metis

lemma same_busy: "refs t = refs s \<Longrightarrow> same_refs s (busy_page c off t)"
  unfolding busy_page_def by (rule same_and_then [OF same_Alloc]) (simp_all add: SetBusy_def)

lemma same_find: "refs t = refs s \<Longrightarrow> same_refs s (find_page c off t)"
  by (simp add: find_page_def split: option.split)

lemma same_drop [simp]: "refs (drop_page c p t) = refs t"
  by (simp add: drop_page_def Free_def)

lemma same_read: "refs t = refs s \<Longrightarrow> same_refs s (read_page c off t)"
  unfolding read_page_def
  by (auto split: option.split sum.split intro!: same_and_then [OF same_busy] simp: SetNotBusy_def)

lemma same_copy:
  "(\<And>c t. refs t = refs s \<Longrightarrow> same_refs s (get c t)) \<Longrightarrow> refs t = refs s \<Longrightarrow> same_refs s (copy_page get c off src t)"
  unfolding copy_page_def
  by (rule same_and_then [OF same_busy]) (auto split: option.split intro!: same_and_then simp: SetNotBusy_def)

lemma same_share:
  "(\<And>c t. refs t = refs s \<Longrightarrow> same_refs s (get c t)) \<Longrightarrow> refs t = refs s \<Longrightarrow> same_refs s (share_page get c off src t)"
  unfolding share_page_def
  by (rule same_and_then [OF same_busy]) (auto intro!: same_and_then)

lemma same_zero: "refs t = refs s \<Longrightarrow> same_refs s (zero_page c off t)"
  unfolding zero_page_def by (rule same_and_then [OF same_Alloc]) (simp_all add: SetNotBusy_def)

lemma GetPage_refs: "refs t = refs s \<Longrightarrow> same_refs s (GetPage n c off priv t)"
proof (induction n arbitrary: c priv t)
  case (Suc n)
  have get: "\<And>c t. refs t = refs s \<Longrightarrow> same_refs s (GetPage n c off False t)"
    by (rule Suc.IH)
  show ?case
  proof (cases "caches t c")
    case (Some k)
    note steps = same_find same_read same_copy [OF get] same_share [OF get] same_zero
    show ?thesis
      using Suc.prems Some by (auto simp: Let_def split: option.split intro!: same_and_then steps)
  qed simp
qed simp

lemma GetPage_reach:
  assumes "vm_reach s" "is_chain (source s) (c # cs)" "length (c # cs) \<le> n" "priv \<longrightarrow> cs \<noteq> []"
  shows "(GetPage n c off priv s = Inl Blocks \<and> spare s < int (length (c # cs))) \<or>
    (\<exists>p s'. GetPage n c off priv s = Inr (Some p, s') \<and> vm_reach s' \<and> fData (fPages s' p) = content s (c # cs) off \<and>
       (\<exists>d \<in> set (c # cs). owns s' p d off) \<and> (priv \<longrightarrow> owns s' p c off) \<and>
       (\<forall>ds off'. is_chain (source s) ds \<longrightarrow> content s' ds off' = content s ds off'))"
proof -
  have ok: "caches_ok s"
    by (rule vm_reach_ok [OF assms(1)])
  have get: "vm_reach s'" if "GetPage n c off priv s = Inr (r, s')" for r s'
    using vm_reach.get [OF assms(1-3) _ that] assms(4) by blast
  show ?thesis
    using GetPage_vm [OF ok assms(2, 3), of priv off] assms(4) get filled_content [OF _ caches_okD(1) [OF ok] _ assms(2)]
    by (auto simp: got_page_def simp del: content.simps GetPage.simps)
qed

section \<open>Properties\<close>

text \<open>C5: Whatever caches were made, copied, used and deleted before: \<open>GetPage\<close>, given its fuel for the chain of sources,
  either waits for free pages, and then there are fewer than the chain is long, or returns a page that holds what the
  cache holds at the offset: the page in memory, else what the backing store has, else what the source holds, else zeros
  (also where reading failed).  A private page belongs to the cache itself.  No cache holds anything else afterwards.\<close>

theorem getpage_contents:
  assumes "vm_reach s" "is_chain (source s) (c # cs)" "length (c # cs) \<le> n" "priv \<longrightarrow> cs \<noteq> []"
  shows "(GetPage n c off priv s = Inl Blocks \<and> spare s < int (length (c # cs))) \<or>
    (\<exists>p s'. GetPage n c off priv s = Inr (Some p, s') \<and> vm_reach s' \<and> fData (fPages s' p) = content s (c # cs) off \<and>
       (\<exists>d \<in> set (c # cs). owns s' p d off) \<and> (priv \<longrightarrow> owns s' p c off) \<and>
       (\<forall>ds off'. is_chain (source s) ds \<longrightarrow> content s' ds off' = content s ds off'))"
  by (rule GetPage_reach [OF assms])

text \<open>A cache with some data, and a copy of it.\<close>

definition demo_vm :: "nat vm" where
  "demo_vm = new_cache 32 (\<lambda>off. None) (Some 16) (new_cache 16 (\<lambda>off. if off = 4096 then Some (Inr 5) else None) None
     (cache_Bootstrap (page_Bootstrap 16384 (\<lambda>p. 9))))"

lemma demo_vm:
  "vm_reach demo_vm" "is_chain (source demo_vm) [32, 16]" "is_chain (source demo_vm) [16]" "spare demo_vm = 4"
  "content demo_vm [32, 16] 4096 = 5" "content demo_vm [16] 4096 = 5"
proof -
  show "vm_reach demo_vm"
    unfolding demo_vm_def
    by (intro vm_reach.new vm_reach.boot) (simp_all add: cache_Bootstrap_def page_db.defs new_cache_def Let_def)
  show "is_chain (source demo_vm) [32, 16]" "is_chain (source demo_vm) [16]" "spare demo_vm = 4"
    by (simp_all add: demo_vm_def new_cache_def Let_def cache_AcquireRef_def upd_cache_def source_def spare_def cache_Bootstrap_def page_Bootstrap_def page_db.defs)
  have "LookupPage c off demo_vm = None" for c off
    by (simp add: demo_vm_def LookupPage_def new_cache_def Let_def cache_AcquireRef_def upd_cache_def cache_Bootstrap_def page_db.defs)
  then show "content demo_vm [32, 16] 4096 = 5" "content demo_vm [16] 4096 = 5"
    by (simp_all add: demo_vm_def new_cache_def Let_def cache_AcquireRef_def upd_cache_def)
qed

theorem getpage_contents_witness:
  "\<exists>p s'. GetPage 2 32 4096 True demo_vm = Inr (Some p, s') \<and> fData (fPages s' p) = 5"
  using getpage_contents [OF demo_vm(1, 2), of 2 True 4096] demo_vm(4, 5) by (auto simp del: content.simps GetPage.simps)

text \<open>C12: Copy on write: once a page of a copied cache was got as a private page, a write to it is seen in that cache at that
  offset, and in no cache that is not a copy of it: neither in the source nor in any other copy.\<close>

theorem private_write_isolated:
  assumes "vm_reach s" "is_chain (source s) (c # cs)" "length (c # cs) \<le> n" "cs \<noteq> []" "GetPage n c off True s = Inr (Some p, s')"
  shows "content (set_data p d s') (c # cs) off = d \<and>
    (\<forall>ds off'. is_chain (source s) ds \<longrightarrow> c \<notin> set ds \<longrightarrow> content (set_data p d s') ds off' = content s ds off')"
proof -
  have g: "vm_reach s'" "owns s' p c off" "\<And>ds off'. is_chain (source s) ds \<Longrightarrow> content s' ds off' = content s ds off'"
    using getpage_contents [OF assms(1-3), of True off] assms(4, 5) by (auto simp del: content.simps GetPage.simps)
  have ok: "cache_ok s'" "cache_ok (set_data p d s')"
    using caches_okD(1) [OF vm_reach_ok [OF g(1)]] caches_okD(1) [OF vm_reach_ok [OF vm_reach.store [OF g(1, 2)]]] by simp_all
  have "content (set_data p d s') (c # cs) off = d"
    using content_owned [OF ok(2), of p c off cs] g(2) by (simp del: content.simps)
  moreover have "content (set_data p d s') ds off' = content s ds off'" if "is_chain (source s) ds" "c \<notin> set ds" for ds off'
  proof -
    have "content (set_data p d s') ds off' = content s' ds off'"
      using that(2) g(2) by (intro content_cong [OF ok]) (auto simp: owns_def)
    then show ?thesis
      using g(3) [OF that(1)] by simp
  qed
  ultimately show ?thesis
    by blast
qed

theorem private_write_isolated_witness:
  "\<exists>p s'. GetPage 2 32 4096 True demo_vm = Inr (Some p, s') \<and> content (set_data p 77 s') [32, 16] 4096 = 77 \<and> content (set_data p 77 s') [16] 4096 = 5"
proof -
  have "\<exists>p s'. GetPage 2 32 4096 True demo_vm = Inr (Some p, s')"
    using GetPage_vm [OF vm_reach_ok [OF demo_vm(1)] demo_vm(2), of 2 True 4096] demo_vm(4) by auto
  then obtain p s' where g: "GetPage 2 32 4096 True demo_vm = Inr (Some p, s')"
    by blast
  show ?thesis
    using private_write_isolated [OF demo_vm(1, 2) _ _ g, of 77] demo_vm(3, 6) g by (auto simp del: content.simps GetPage.simps)
qed

end
