(* ===== verification/Address_Space.thy ===== *)
theory Address_Space
  imports Avl_Props Page_Cache
begin

text \<open>
  \<^verbatim>\<open>SkyCore/AddressSpace.cpp\<close> with the areas of \<^verbatim>\<open>SkyCore/Area.h\<close>: the virtual address ranges of a team in the tree of
  \<^verbatim>\<open>AVLTree.cpp\<close>, their pages from the page caches.  An area is an object with an identity; its base address and size are the
  keys of its node.  The calls to the physical map are recorded in order; \<open>commit\<close>, what the backing stores say to
  \<open>Commit\<close>, is a parameter.  An operation holds the write lock throughout and is one step; a fault gives up the read lock
  while it gets the page, and is three.  \<open>fReaders\<close>
  counts the read locks that are never given back.
\<close>

abbreviation (input) INVALID_PAGE :: u32 where "INVALID_PAGE \<equiv> 0xffffffff"
abbreviation (input) SEARCH_FROM_BOTTOM :: u32 where "SEARCH_FROM_BOTTOM \<equiv> 2"
abbreviation (input) USER_READ :: u32 where "USER_READ \<equiv> 1"
abbreviation (input) USER_WRITE :: u32 where "USER_WRITE \<equiv> 2"
abbreviation (input) SYSTEM_READ :: u32 where "SYSTEM_READ \<equiv> 8"
abbreviation (input) SYSTEM_WRITE :: u32 where "SYSTEM_WRITE \<equiv> 16"
abbreviation (input) kUserBase :: u32 where "kUserBase \<equiv> 0x08000000"
abbreviation (input) kKernelBase :: u32 where "kKernelBase \<equiv> 0x01600000"
abbreviation (input) kKernelTop :: u32 where "kKernelTop \<equiv> 0xdfffffff"
abbreviation (input) kAddressSpaceTop :: u32 where "kAddressSpaceTop \<equiv> 0xdfffffff"
abbreviation (input) E_NO_ERROR :: int where "E_NO_ERROR \<equiv> 0"
abbreviation (input) E_NOT_ALLOWED :: int where "E_NOT_ALLOWED \<equiv> -5"
abbreviation (input) E_BAD_ADDRESS :: int where "E_BAD_ADDRESS \<equiv> -6"
abbreviation (input) E_IO :: int where "E_IO \<equiv> -8"
abbreviation (input) E_INVALID_OPERATION :: int where "E_INVALID_OPERATION \<equiv> -11"
abbreviation (input) E_NO_MEMORY :: int where "E_NO_MEMORY \<equiv> -13"

record area =
  area_id :: nat
  fProtection :: u32
  fPageCache :: "nat option"
  fAreaOffset :: int
  fWired :: bool

datatype pm_call = PMap u32 u32 u32 | PUnmap u32 u32

record 'd aspace =
  as_vm :: "'d vm"
  fAreas :: "area avl"
  fChangeCount :: int
  fReaders :: int
  fFaultCount :: int
  next_area :: nat
  pm_calls :: "pm_call list"

text \<open>A page cache has an error, the stack of the tree overflows, or its search does not end.\<close>

datatype as_error = Vm vm_error | Tree_overflow | Tree_hang

definition bind_as :: "as_error + 'a \<Rightarrow> ('a \<Rightarrow> as_error + 'b) \<Rightarrow> as_error + 'b" where
  "bind_as r f = (case r of Inl e \<Rightarrow> Inl e | Inr x \<Rightarrow> f x)"

lemma bind_as_simps [simp]: "bind_as (Inl e) f = Inl e" "bind_as (Inr x) f = f x"
  by (simp_all add: bind_as_def)

section \<open>The ranges\<close>

text \<open>The keys of an area's node; those of one that is in no tree are 0.\<close>

fun keys_of :: "nat \<Rightarrow> area avl \<Rightarrow> u32 \<times> u32" where
  "keys_of i Leaf = (0, 0)"
| "keys_of i (Node a lo hi l r d) =
     (if area_id a = i then (lo, hi) else if keys_of i l \<noteq> (0, 0) then keys_of i l else keys_of i r)"

definition GetBaseAddress :: "area \<Rightarrow> area avl \<Rightarrow> u32" where
  "GetBaseAddress a t = fst (keys_of (area_id a) t)"

definition GetSize :: "area \<Rightarrow> area avl \<Rightarrow> u32" where
  "GetSize a t = snd (keys_of (area_id a) t) - fst (keys_of (area_id a) t) + 1"

text \<open>\<open>Add\<close>, whose result the code does not look at.\<close>

definition add_area :: "area \<Rightarrow> u32 \<Rightarrow> u32 \<Rightarrow> area avl \<Rightarrow> as_error + area avl" where
  "add_area a lo hi t = (case avl_Add a lo hi t of Added t' b \<Rightarrow> Inr t' | Clash \<Rightarrow> Inr t | Deep \<Rightarrow> Inl Tree_overflow)"

definition remove_area :: "area \<Rightarrow> area avl \<Rightarrow> as_error + area avl" where
  "remove_area a t =
     (case avl_Remove a (fst (keys_of (area_id a) t)) (snd (keys_of (area_id a) t)) t of
        Removed t' \<Rightarrow> Inr t' | Missing \<Rightarrow> Inr t | Hang \<Rightarrow> Inl Tree_hang | Stack_overflow \<Rightarrow> Inl Tree_overflow)"

lemma next_shorter: "fCurrentNode it \<noteq> Leaf \<Longrightarrow> length (it_rest (GoToNext it)) < length (it_rest it)"
  using GoToNext_length [of it] by simp

text \<open>\<open>FindFreeRange\<close>: the first gap from below, or from above.\<close>

function find_bottom :: "u32 \<Rightarrow> u32 \<Rightarrow> 'a avl_iterator \<Rightarrow> u32" where
  "find_bottom sz low it =
     (if fCurrentNode it = Leaf then INVALID_PAGE
      else if fLowKey (fCurrentNode it) - low \<ge> sz then low
      else find_bottom sz (fHighKey (fCurrentNode it) + 1) (GoToNext it))"
  by pat_completeness auto

termination
  by (relation "measure (\<lambda>(sz, low, it). length (it_rest it))") (auto simp: next_shorter)

function find_top :: "u32 \<Rightarrow> u32 \<Rightarrow> 'a avl_iterator \<Rightarrow> u32" where
  "find_top sz high it =
     (if fCurrentNode it = Leaf then INVALID_PAGE
      else if high - fHighKey (fCurrentNode it) \<ge> sz then high + 1 - sz
      else find_top sz (fLowKey (fCurrentNode it) - 1) (GoToNext it))"
  by pat_completeness auto

termination
  by (relation "measure (\<lambda>(sz, high, it). length (it_rest it))") (auto simp: next_shorter)

declare find_bottom.simps [simp del] find_top.simps [simp del]

definition FindFreeRange :: "u32 \<Rightarrow> u32 \<Rightarrow> 'a avl \<Rightarrow> u32" where
  "FindFreeRange sz flags t =
     (if flags AND SEARCH_FROM_BOTTOM \<noteq> 0 then find_bottom sz 0 (iterator t True)
      else find_top sz kAddressSpaceTop (iterator t False))"

section \<open>Areas\<close>

definition call_pm :: "pm_call \<Rightarrow> 'd aspace \<Rightarrow> 'd aspace" where
  "call_pm c s = s\<lparr>pm_calls := pm_calls s @ [c]\<rparr>"

text \<open>The constructor of an area takes a reference to its cache.\<close>

definition new_area :: "u32 \<Rightarrow> nat option \<Rightarrow> int \<Rightarrow> bool \<Rightarrow> 'd aspace \<Rightarrow> area \<times> 'd aspace" where
  "new_area protection cache offset wired s =
     (\<lparr>area_id = next_area s, fProtection = protection, fPageCache = cache, fAreaOffset = offset, fWired = wired\<rparr>,
      s\<lparr>next_area := Suc (next_area s),
        as_vm := (case cache of None \<Rightarrow> as_vm s | Some c \<Rightarrow> cache_AcquireRef c (as_vm s))\<rparr>)"

text \<open>The pages from \<open>aroffs\<close> to \<open>sz\<close> are got, wired and mapped; sources of caches are \<open>n\<close> deep at most.\<close>

function wire_pages :: "nat \<Rightarrow> area \<Rightarrow> u32 \<Rightarrow> nat \<Rightarrow> nat \<Rightarrow> 'd::zero aspace \<Rightarrow> as_error + 'd aspace" where
  "wire_pages n a base aroffs sz s =
     (if aroffs \<ge> sz then Inr s
      else
        case fPageCache a of
          None \<Rightarrow> Inl (Vm Null_page)
        | Some c \<Rightarrow>
            (case GetPage n c (fAreaOffset a + int aroffs) False (as_vm s) of
               Inl e \<Rightarrow> Inl (Vm e)
             | Inr (None, vm) \<Rightarrow> Inl (Vm Null_page)
             | Inr (Some p, vm) \<Rightarrow>
                 wire_pages n a base (aroffs + 4096) sz
                   (call_pm (PMap (base + of_nat aroffs) (page_address p) (fProtection a)) (s\<lparr>as_vm := Wire p vm\<rparr>))))"
  by pat_completeness auto

termination
  by (relation "measure (\<lambda>(n, a, base, aroffs, sz, s). sz - aroffs)") auto

declare wire_pages.simps [simp del]

definition changed :: "'d aspace \<Rightarrow> 'd aspace" where
  "changed s = s\<lparr>fChangeCount := fChangeCount s + 1\<rparr>"

definition CreateArea :: "(nat \<Rightarrow> int \<Rightarrow> int) \<Rightarrow> nat \<Rightarrow> u32 \<Rightarrow> bool \<Rightarrow> u32 \<Rightarrow> nat option \<Rightarrow> int \<Rightarrow> u32 \<Rightarrow> u32 \<Rightarrow> 'd::zero aspace \<Rightarrow>
    as_error + area option \<times> 'd aspace" where
  "CreateArea commit n sz wired protection cache offset va flags s =
     (if sz mod 4096 \<noteq> 0 \<or> sz = 0 then Inr (None, s)
      else if (case cache of None \<Rightarrow> False | Some c \<Rightarrow> commit c (offset + uint sz) \<noteq> offset + uint sz) then Inr (None, s)
      else
        let va = (if va = INVALID_PAGE then FindFreeRange sz flags (fAreas s)
                  else if va mod 4096 \<noteq> 0 \<or> \<not> IsRangeFree va (va + sz - 1) (fAreas s) then INVALID_PAGE else va)
        in if va = INVALID_PAGE then Inr (None, changed s)
           else
             case new_area protection cache offset wired s of
               (a, s) \<Rightarrow>
                 bind_as (add_area a va (va + sz - 1) (fAreas s)) (\<lambda>t.
                 bind_as (if wired then wire_pages n a va 0 (unat sz) (s\<lparr>fAreas := t\<rparr>) else Inr (s\<lparr>fAreas := t\<rparr>)) (\<lambda>s.
                   Inr (Some a, changed s))))"

fun map_physical :: "nat \<Rightarrow> u32 \<Rightarrow> u32 \<Rightarrow> u32 \<Rightarrow> 'd aspace \<Rightarrow> 'd aspace" where
  "map_physical 0 va pa protection s = s"
| "map_physical (Suc k) va pa protection s = map_physical k (va + 4096) (pa + 4096) protection (call_pm (PMap va pa protection) s)"

text \<open>The number of pages is the size in pages, rounded up.\<close>

definition MapPhysicalMemory :: "u32 \<Rightarrow> u32 \<Rightarrow> u32 \<Rightarrow> 'd aspace \<Rightarrow> as_error + area option \<times> 'd aspace" where
  "MapPhysicalMemory pa sz protection s =
     (let va = FindFreeRange sz 0 (fAreas s)
      in if va = INVALID_PAGE then Inr (None, s)
         else
           case new_area protection None 0 True s of
             (a, s) \<Rightarrow>
               bind_as (add_area a va (va + sz - 1) (fAreas s)) (\<lambda>t.
                 Inr (Some a, changed (map_physical ((unat sz + 4095) div 4096) va pa protection (s\<lparr>fAreas := t\<rparr>)))))"

definition ResizeArea :: "(nat \<Rightarrow> int \<Rightarrow> int) \<Rightarrow> nat \<Rightarrow> area \<Rightarrow> u32 \<Rightarrow> 'd::zero aspace \<Rightarrow> as_error + int \<times> 'd aspace" where
  "ResizeArea commit n a newSize s =
     (let base = GetBaseAddress a (fAreas s); sz = GetSize a (fAreas s);
          done = (\<lambda>s. Inr (E_NO_ERROR, changed (s\<lparr>fAreas := avl_Resize a newSize (fAreas s)\<rparr>)))
      in if newSize = 0 then Inr (E_INVALID_OPERATION, s)
         else if newSize > sz then
           case fPageCache a of
             None \<Rightarrow> Inl (Vm Null_page)
           | Some c \<Rightarrow>
               if commit c (uint newSize) \<noteq> uint newSize then Inr (E_NO_MEMORY, s)
               else if base + newSize < base \<or> \<not> IsRangeFree (base + sz) (base + newSize) (fAreas s) then Inr (E_NO_MEMORY, s)
               else if fWired a then bind_as (wire_pages n a base (unat sz) (unat newSize) s) done
               else done s
         else if newSize < sz then
           (case fPageCache a of
              None \<Rightarrow> Inl (Vm Null_page)
            | Some c \<Rightarrow> done (call_pm (PUnmap (base + newSize) (sz - newSize)) s))
         else done s)"

text \<open>The table of the areas gives its reference back; the last one deletes the area, which gives back its reference to
  the cache.  \<open>final\<close>: nobody else has one.\<close>

definition DeleteArea :: "bool \<Rightarrow> area \<Rightarrow> 'd::zero aspace \<Rightarrow> as_error + 'd aspace" where
  "DeleteArea final a s =
     bind_as (remove_area a (fAreas s)) (\<lambda>t.
       let s' = call_pm (PUnmap (GetBaseAddress a (fAreas s)) (GetSize a (fAreas s))) (s\<lparr>fAreas := t\<rparr>)
       in case (if final then fPageCache a else None) of
            None \<Rightarrow> Inr (changed s')
          | Some c \<Rightarrow>
              (case cache_ReleaseRef c (as_vm s') of Inl e \<Rightarrow> Inl (Vm e) | Inr vm \<Rightarrow> Inr (changed (s'\<lparr>as_vm := vm\<rparr>))))"

section \<open>Faults\<close>

text \<open>What a fault remembers while it does not hold the lock.\<close>

record fault =
  f_area :: area
  f_va :: u32
  f_write :: bool
  f_copy :: bool
  f_count :: int
  f_offset :: int

definition allowed :: "u32 \<Rightarrow> bool \<Rightarrow> bool \<Rightarrow> bool" where
  "allowed protection wr user \<longleftrightarrow>
     \<not> ((user \<and> wr \<and> protection AND USER_WRITE = 0) \<or> (user \<and> \<not> wr \<and> protection AND USER_READ = 0) \<or>
        (\<not> user \<and> wr \<and> protection AND SYSTEM_WRITE = 0) \<or> (\<not> user \<and> \<not> wr \<and> protection AND SYSTEM_READ = 0))"

definition fault_start :: "u32 \<Rightarrow> bool \<Rightarrow> bool \<Rightarrow> 'd aspace \<Rightarrow> int + fault \<times> 'd aspace" where
  "fault_start va wr user s =
     (let va = va AND NOT 0xfff
      in case avl_Find va (fAreas s) of
           Leaf \<Rightarrow> Inl E_BAD_ADDRESS
         | Node a lo hi l r d \<Rightarrow>
             if \<not> allowed (fProtection a) wr user then Inl E_NOT_ALLOWED
             else
               case fPageCache a of
                 None \<Rightarrow> Inl E_NOT_ALLOWED
               | Some c \<Rightarrow>
                   Inr (\<lparr>f_area = a, f_va = va, f_write = wr, f_copy = IsCopy c (as_vm s), f_count = fChangeCount s,
                          f_offset = uint (va - lo) + fAreaOffset a\<rparr>,
                        s\<lparr>as_vm := cache_AcquireRef c (as_vm s)\<rparr>))"

text \<open>The page is got without the lock.\<close>

definition fault_page :: "nat \<Rightarrow> fault \<Rightarrow> 'd::zero aspace \<Rightarrow> as_error + nat option \<times> 'd aspace" where
  "fault_page n f s =
     (case fPageCache (f_area f) of
        None \<Rightarrow> Inl (Vm Null_page)
      | Some c \<Rightarrow>
          (case GetPage n c (f_offset f) (f_write f \<and> IsCopy c (as_vm s)) (as_vm s) of
             Inl e \<Rightarrow> Inl (Vm e)
           | Inr (p, vm) \<Rightarrow>
               (case cache_ReleaseRef c vm of Inl e \<Rightarrow> Inl (Vm e) | Inr vm \<Rightarrow> Inr (p, s\<lparr>as_vm := vm\<rparr>))))"

text \<open>With the lock again.  The braces of the conditional are missing: any change of the address space in the meantime
  ends in \<open>E_BAD_ADDRESS\<close>, and the read lock is only given back if the area is another one.\<close>

definition fault_end :: "fault \<Rightarrow> nat option \<Rightarrow> 'd aspace \<Rightarrow> int \<times> 'd aspace" where
  "fault_end f page s =
     (case page of
        None \<Rightarrow> (E_IO, s)
      | Some p \<Rightarrow>
          if f_count f \<noteq> fChangeCount s then
            (let other = (case avl_Find (f_va f) (fAreas s) of
                            Leaf \<Rightarrow> True
                          | Node a lo hi l r d \<Rightarrow> a \<noteq> f_area f \<or> fPageCache a \<noteq> fPageCache (f_area f) \<or> fAreaOffset a \<noteq> f_offset f)
             in (E_BAD_ADDRESS, if other then s else s\<lparr>fReaders := fReaders s + 1\<rparr>))
          else
            (let protection = (if f_copy f \<and> \<not> f_write f then fProtection (f_area f) AND NOT (USER_WRITE OR SYSTEM_WRITE) else fProtection (f_area f));
                 s = call_pm (PMap (f_va f) (page_address p) protection) s
             in (E_NO_ERROR, s\<lparr>fFaultCount := fFaultCount s + 1\<rparr>)))"

text \<open>A fault during which nothing else happens.\<close>

definition HandleFault :: "nat \<Rightarrow> u32 \<Rightarrow> bool \<Rightarrow> bool \<Rightarrow> 'd::zero aspace \<Rightarrow> as_error + int \<times> 'd aspace" where
  "HandleFault n va wr user s =
     (case fault_start va wr user s of
        Inl e \<Rightarrow> Inr (e, s)
      | Inr (f, s) \<Rightarrow> bind_as (fault_page n f s) (\<lambda>(p, s). Inr (fault_end f p s)))"

section \<open>Making and deleting an address space\<close>

text \<open>The constructor for a team: dummy areas for what it must not use.\<close>

definition AddressSpace :: "'d vm \<Rightarrow> as_error + 'd aspace" where
  "AddressSpace vm =
     (let s = \<lparr>as_vm = vm, fAreas = Leaf, fChangeCount = 0, fReaders = 0, fFaultCount = 0, next_area = 0, pm_calls = []\<rparr>
      in case new_area 0 None 0 True s of
           (a, s) \<Rightarrow> bind_as (add_area a 0 (kUserBase - 1) (fAreas s)) (\<lambda>t.
             case new_area 0 None 0 True (s\<lparr>fAreas := t\<rparr>) of
               (b, s) \<Rightarrow> bind_as (add_area b kKernelBase kKernelTop (fAreas s)) (\<lambda>t. Inr (s\<lparr>fAreas := t\<rparr>))))"

text \<open>The constructor for the kernel, which does not initialise the count of changes.\<close>

fun add_areas :: "(u32 \<times> u32 \<times> u32) list \<Rightarrow> 'd aspace \<Rightarrow> as_error + 'd aspace" where
  "add_areas [] s = Inr s"
| "add_areas ((protection, lo, hi) # rs) s =
     (case new_area protection None 0 True s of
        (a, s) \<Rightarrow> bind_as (add_area a lo hi (fAreas s)) (\<lambda>t. add_areas rs (s\<lparr>fAreas := t\<rparr>)))"

definition kernel_AddressSpace :: "int \<Rightarrow> 'd vm \<Rightarrow> as_error + 'd aspace" where
  "kernel_AddressSpace junk vm =
     add_areas [(0, 0, 0xbfffffff), (SYSTEM_READ OR 32, kKernelBase, 0x01ffffff), (SYSTEM_READ OR SYSTEM_WRITE, 0x02000000, 0x03000000),
         (SYSTEM_READ OR SYSTEM_WRITE, 0xc0104000, 0xc0104000 + 12800 * 4096), (SYSTEM_READ OR SYSTEM_WRITE, 0xd4000000, 0xd7ffffff),
         (SYSTEM_READ OR SYSTEM_WRITE, 0xc0100000, 0xc0103fff)]
       \<lparr>as_vm = vm, fAreas = Leaf, fChangeCount = junk, fReaders = 0, fFaultCount = 0, next_area = 0, pm_calls = []\<rparr>"

text \<open>The destructor takes the lowest area out until there is none; \<open>k\<close> bounds their number.\<close>

fun destroy_AddressSpace :: "nat \<Rightarrow> 'd::zero aspace \<Rightarrow> as_error + 'd aspace" where
  "destroy_AddressSpace 0 s = Inl Tree_hang"
| "destroy_AddressSpace (Suc k) s =
     (case fCurrentNode (iterator (fAreas s) True) of
        Leaf \<Rightarrow> Inr s
      | Node a lo hi l r d \<Rightarrow>
          bind_as (remove_area a (fAreas s)) (\<lambda>t.
            case fPageCache a of
              None \<Rightarrow> destroy_AddressSpace k (s\<lparr>fAreas := t\<rparr>)
            | Some c \<Rightarrow>
                (case cache_ReleaseRef c (as_vm s) of
                   Inl e \<Rightarrow> Inl (Vm e)
                 | Inr vm \<Rightarrow> destroy_AddressSpace k (s\<lparr>fAreas := t, as_vm := vm\<rparr>))))"

text \<open>The adjustment of the working set, given the bytes mapped, the time since the last one and the free pages; nothing
  is ever trimmed.\<close>

definition adjust_working_set :: "int \<Rightarrow> int \<Rightarrow> int \<Rightarrow> int \<Rightarrow> int \<Rightarrow> int \<Rightarrow> int" where
  "adjust_working_set faults elapsed mapped freePages maxWs ws =
     (let faultsPerSecond = faults * 1000000 sdiv elapsed
      in if faultsPerSecond > 100 \<and> mapped \<ge> ws \<and> ws < maxWs then min (ws + 40960) maxWs
         else if faultsPerSecond < 20 \<and> mapped \<le> ws \<and> ws > maxWs \<and> freePages < 40 then max (ws - 40960) maxWs
         else ws)"

end
