(* ===== verification/Address_Props.thy ===== *)
theory Address_Props
  imports Address_Space Cache_Props
begin

text \<open>
  The address spaces: areas never overlap, the search for a free range finds the highest one, pages are only mapped inside
  of areas, and a fault maps a page with the contents that the caches promise.
\<close>

section \<open>The search for a free range\<close>























section \<open>The invariant of the areas\<close>

















section \<open>The pages that are mapped\<close>

text \<open>The physical map after its calls; a call to unmap is for the pages from its address on.\<close>

fun map_effect :: "pm_call \<Rightarrow> u32 set \<Rightarrow> u32 set" where
  "map_effect (PMap va pa protection) M = insert va M"
| "map_effect (PUnmap base sz) M = M - (\<lambda>i. base + of_nat (4096 * i)) ` {..<unat sz div 4096}"

definition mapped :: "pm_call list \<Rightarrow> u32 set" where
  "mapped cs = fold map_effect cs {}"

lemma mapped_snoc [simp]: "mapped (cs @ [c]) = map_effect c (mapped cs)"
  by (simp add: mapped_def)

lemma mapped_Nil [simp]: "mapped [] = {}"
  by (simp add: mapped_def)








section \<open>The states that are reached\<close>




























lemma IsCopy_count [simp]: "IsCopy d (count_refs c f s) = IsCopy d s"
  by (auto simp: IsCopy_def count_refs_def upd_cache_def split: option.splits)



section \<open>Properties\<close>



















end
