(* ===== verification/Spec2Isabelle.thy ===== *)
theory Spec2Isabelle
  imports Net_Prelude Net_Checksum Khash Net_Timer Cbuf Cbuf_Chain Cbuf_Pool Cbuf_Props Net_State Net_If Arp
    Ipv4 Icmp Udp Tcp Tcp_Input Tcp_Socket Ipv4_Input Net_Link Socket Net_Control Sem Lock
    Sem_Props Lock_Props Net_Demo Ipv4_Props Frag_Props Input_Props Udp_Props Arp_Props Tcp_Props Tcp_State Delivery_Props
    Rtl8139 Rtl8139_Props Phys_Mem Phys_Props Virt_Mem Virt_Props Ordered_Array Kheap Kheap_Lemmas Kheap_Props
    Avl_Tree Avl_Props Handle_Table Handle_Props Page_Frames Page_Props Page_Cache Cache_Props Address_Space Address_Props
begin

text \<open>
  Four parts of the kernel of SkyOS: the network stack with its semaphores, locks and network driver, the C code
  of \<^verbatim>\<open>src/SkyOS++/SkyCore/Net\<close>, a port of the NewOS stack (file names without a directory are of this one); the
  physical and virtual memory managers, \<^verbatim>\<open>SkyCore/Memory\<close>; the kernel heap, \<^verbatim>\<open>SkyCore/Heap\<close>; and the objects
  that processes are built on, address spaces over page caches and handles of resources, in \<^verbatim>\<open>SkyCore\<close> itself.

  \<^bold>\<open>The program.\<close>  A packet is a chain of fixed-size cells (\<^verbatim>\<open>cbuf.c\<close>).  It enters through the receive
  thread of an interface (\<^verbatim>\<open>if.c\<close>) and its link layer (\<^verbatim>\<open>ethernet.c\<close>, \<^verbatim>\<open>loopback.c\<close>), which gives it to
  \<^verbatim>\<open>arp.c\<close> or to \<open>ipv4_input\<close> in \<^verbatim>\<open>ipv4.c\<close>; that validates it, reassembles fragments and passes the payload to
  \<^verbatim>\<open>icmp.c\<close>, \<^verbatim>\<open>udp.c\<close> or \<^verbatim>\<open>tcp.c\<close>.  A packet leaves through \<open>ipv4_output\<close>, which finds the route, fragments,
  asks \<^verbatim>\<open>arp.c\<close> for the link address (the packet waits there if it is unknown) and calls the interface's
  \<open>link_output\<close>.  User programs reach the protocols through \<^verbatim>\<open>socket.c\<close> and its device \<^verbatim>\<open>socket_dev.c\<close>;
  \<^verbatim>\<open>net_control.c\<close> configures interfaces and routes; \<^verbatim>\<open>net.c\<close> starts everything.  The hash tables are
  \<^verbatim>\<open>khash.c\<close>, the timers of TCP and IP \<^verbatim>\<open>net_timer.c\<close>, the checksums \<^verbatim>\<open>misc.c\<close>.  \<^verbatim>\<open>sem.c\<close> and \<^verbatim>\<open>lock.c\<close> provide
  the synchronisation; the calls of them in the stack are commented out in the source, but the driver of the
  Realtek card (\<^verbatim>\<open>rtl8139_dev.c\<close>, \<^verbatim>\<open>rtl8139.c\<close>) relies on them.  Below all this, \<^verbatim>\<open>PhysicalMemoryManager.cpp\<close> hands out
  blocks of physical memory from a bitmap, \<^verbatim>\<open>VirtualMemoryManager.cpp\<close> builds page tables in such blocks,
  \<^verbatim>\<open>HeapManager.cpp\<close> maps the range of the kernel heap, and \<^verbatim>\<open>kheap.cpp\<close> serves malloc and free from that range, with
  the holes listed by size in the array of \<^verbatim>\<open>ordered_array.cpp\<close>.  A team has an \<^verbatim>\<open>AddressSpace.cpp\<close>: its areas lie in
  the balanced tree of \<^verbatim>\<open>AVLTree.cpp\<close>, and a fault in one gets its page from the \<^verbatim>\<open>PageCache.cpp\<close> of the area, which
  takes the frames of \<^verbatim>\<open>Page.cpp\<close> and fills them from a backing store or from the cache it is a copy of.  What user
  programs see of areas and all other resources are the identifiers of \<^verbatim>\<open>HandleTable.cpp\<close>.

  \<^bold>\<open>The theories, bottom up.\<close>
  \<^item> \<open>Net_Prelude\<close>: words at their width, byte order (the little-endian branch of \<^verbatim>\<open>misc.h\<close>), bytes of memory,
    lemmas on lists and words that the rest shares.
  \<^item> \<open>Net_Checksum\<close> (\<^verbatim>\<open>misc.c\<close>): the checksum loops, against the one's complement sum of the 16-bit words.
  \<^item> \<open>Khash\<close> (\<^verbatim>\<open>khash.c\<close>): the intrusive hash table with its links in a store, an invariant, and the contract
    of insert, remove, lookup and iteration as a locale interpreted on it.
  \<^item> \<open>Net_Timer\<close> (\<^verbatim>\<open>net_timer.c\<close>): the circular timer queue in a store; the runner's pass.
  \<^item> \<open>Cbuf\<close>, \<open>Cbuf_Chain\<close>, \<open>Cbuf_Pool\<close>, \<open>Cbuf_Props\<close> (\<^verbatim>\<open>cbuf.c\<close>): the cells, the free list and the allocation
    bitmap in an explicit store of addresses; every chain operation; chains as lists of addresses and as byte
    lists; and the simulation of the byte-list operations by the code.
  \<^item> \<open>Net_State\<close>: the state of the protocols one level up.  A chain is a byte list, a hash table the list of its
    elements, a timer queue an ordered list, exactly the contracts proved in the three theories above.  What the
    repository has no C code for (allocation failures, clocks, threads, the device layer) is a parameter.
  \<^item> \<open>Net_If\<close> (\<^verbatim>\<open>if.c\<close>), \<open>Arp\<close> (\<^verbatim>\<open>arp.c\<close>), \<open>Ipv4\<close> and \<open>Ipv4_Input\<close> (\<^verbatim>\<open>ipv4.c\<close>), \<open>Icmp\<close>, \<open>Udp\<close>, \<open>Tcp\<close>,
    \<open>Tcp_Input\<close> and \<open>Tcp_Socket\<close> (\<^verbatim>\<open>tcp.c\<close>), \<open>Net_Link\<close> (\<^verbatim>\<open>ethernet.c\<close>, \<^verbatim>\<open>loopback.c\<close>, and the knot between
    them and IP), \<open>Socket\<close>, \<open>Net_Control\<close>: one definition per C function, its loops as functions of their own.
    The records extend each other in this order, so an operation of a lower layer does not see the fields above.
  \<^item> \<open>Sem\<close> and \<open>Lock\<close> (\<^verbatim>\<open>sem.c\<close>, \<^verbatim>\<open>lock.c\<close>): the semaphore table, and mutexes and recursive locks over it.
  \<^item> \<open>Net_Demo\<close>: a concrete state of the stack on which properties are exercised.
  \<^item> \<open>Sem_Props\<close>, \<open>Lock_Props\<close>, \<open>Ipv4_Props\<close>, \<open>Frag_Props\<close>, \<open>Input_Props\<close>, \<open>Udp_Props\<close>, \<open>Arp_Props\<close>,
    \<open>Tcp_Props\<close>, \<open>Tcp_State\<close>: the lemmas and properties of the components.
  \<^item> \<open>Delivery_Props\<close>: UDP over fragmented IP from one host's call to the other's, from the theorems of the parts.
  \<^item> \<open>Rtl8139\<close>, \<open>Rtl8139_Props\<close>: the driver over \<open>Sem\<close> and \<open>Lock\<close>; the card is a parameter.
  \<^item> \<open>Phys_Mem\<close>, \<open>Phys_Props\<close>: the bitmap of blocks.  \<open>Virt_Mem\<close>, \<open>Virt_Props\<close>: the two-level page tables; the blocks they
    are made of come through a locale that the physical memory manager interprets.
  \<^item> \<open>Ordered_Array\<close>, \<open>Kheap\<close>, \<open>Kheap_Lemmas\<close>, \<open>Kheap_Props\<close>: the heap in byte memory, headers and footers
    included; \<open>heap_ok\<close> relates it to a list of blocks and holes.
  \<^item> \<open>Avl_Tree\<close>, \<open>Avl_Props\<close>: the tree of ranges as a datatype with the recorded depths in its nodes, and its list of ranges.
  \<^item> \<open>Handle_Table\<close>, \<open>Handle_Props\<close>: the two-level table with its free lists in the words of the handles, against a map
    from identifiers to resources.
  \<^item> \<open>Page_Frames\<close>, \<open>Page_Props\<close>: the states and queues of the frames.  \<open>Page_Cache\<close>, \<open>Cache_Props\<close>: the caches, whose state
    extends that of the frames, against \<open>content\<close>, what a chain of caches holds at an offset.
  \<^item> \<open>Address_Space\<close>, \<open>Address_Props\<close>: areas and faults over the tree and the caches.
\<close>

text \<open>
  \<^bold>\<open>How state corresponds.\<close>  Results are the C \<open>int\<close>s, with the error codes of \<^verbatim>\<open>syserror.h\<close> by name.
  \<open>None\<close> as the result of an operation is a fault: a NULL or stale pointer used, or (for the loops below) no return.
  Integers that the code lets wrap are words of their width.  What an operation does to the outside (a frame
  written, a thread started) is appended to \<open>effects\<close>, and for address spaces the calls of the physical map to \<open>pm_calls\<close>.  \<open>chains\<close> counts the chains allocated and not freed, so a
  leak or a double free shows as a difference.

  \<^bold>\<open>What the lemmas show.\<close>
  \<^item> Checksums: the loop computes the sum, a written checksum verifies, one changed word is noticed.
  \<^item> Hash table, timers, buffers: each operation preserves the invariant and refines its abstract counterpart,
    \<open>cbuf\<close> operations that of lists of bytes.
  \<^item> IP: which packets \<open>ipv4_output\<close> makes of a datagram, and that \<open>ipv4_process_frag\<close> puts them together again;
    damage to a header is noticed; where the code loses or misuses a packet.
  \<^item> UDP, ICMP, ARP: what one side builds the other accepts; learning an address sends what waits for it; waiting ends.
  \<^item> TCP: reassembly delivers exactly the stream, across wrap-around; the state machine takes only the transitions
    of RFC 793.
  \<^item> Semaphores: an invariant over all reachable tables relates counts and queues; releases serve in order of
    arrival.  Mutexes: mutual exclusion and hand-over over all interleavings of their steps.
  \<^item> Driver: a frame is read as it lies in the ring; transmit slots in flight are never overwritten.
  \<^item> Memory: blocks are handed out once, the search is first fit; mapping makes the translation that was asked for and
    changes no other; live heap blocks never overlap, free undoes malloc.
  \<^item> Handles: no sequence of operations leaves a handle dangling, and a closed identifier leads nowhere.
  \<^item> Address spaces: areas stay disjoint, and nothing is mapped outside of them, over all interleavings of faults with changes
    of the areas; a fault maps what the caches hold, and a shared page never for writing.

  \<^bold>\<open>Granularity.\<close>  An operation is one atomic step, a blocking one two (before and after the switch): in \<^verbatim>\<open>sem.c\<close>
  interrupts are off and the spinlocks held throughout.  In the protocols the locks are commented out; they are
  modelled as run by one thread at a time.

  \<^bold>\<open>Bounds and fuel.\<close>  A loop whose length the data bounds is structural or has a measure.  The loops that may
  not end (\<open>ipv4_output_loop\<close>, \<open>flush_loop\<close>, and the passes over linked cells) are \<open>partial_function\<close>s; that
  they return is proved where it is claimed.  The loopback interface re-enters the stack: \<open>link_output_n n\<close> allows
  \<open>n\<close> nested calls.  No property depends on \<open>n\<close>: each takes the link layer as a parameter with the hypothesis it
  needs (it writes the frame out, or does not touch the sockets), and the hypothesis is discharged for a concrete
  one.  Datagrams are shorter than 65536 bytes, as their length field demands; the TCP stream shorter than
  \<open>2^31\<close>, as comparing sequence numbers by the sign of their difference demands.  \<open>GetPage n\<close> is for a cache whose chain of
  sources has at most \<open>n\<close> members; its property says that it returns then.

  \<^bold>\<open>Not modelled.\<close>  The rest of the kernel (threads and scheduling, teams, the physical map and the swap space below the
  address spaces, the executable loaders), the file systems (\<^verbatim>\<open>SkyCore/FileSystem\<close>) and the other drivers; of the modelled files the emulator
  build and the debugging output (\<open>dump_*\<close>), which only prints.  The bitmap of the physical memory manager is kept apart
  from the memory that holds page tables, so that a write through a wild page table does not reach it here.
  The rest of the repository's C code is vendored (SDL, zlib, libpng, libjpeg, freetype, sqlite, USB stacks, libc
  and libm, Lua) or tables (Hangul code pages, fonts).  Of \<^verbatim>\<open>thread2.h\<close> and \<^verbatim>\<open>queue2.h\<close> the repository has only the
  declarations, so the thread queues and \<open>fixed_queue\<close> are parameters.
\<close>

end
